(* ===== verification/Prelude.thy ===== *)
theory Prelude
  imports Main "HOL-Library.Word" "HOL-Library.Sublist"
begin

text \<open>
  Shared vocabulary of the development.

  \<^item> Results: a Rust \<^verbatim>\<open>Result<T, E>\<close> is the sum \<open>'e + 'a\<close> (\<open>Inl\<close> the error); \<open>and_then\<close> is
    the \<^verbatim>\<open>?\<close> operator, \<open>ok_or\<close> and \<open>map_err\<close> are the methods of the same names.
  \<^item> Arrays: \<^verbatim>\<open>[u8; 32]\<close> is the type \<open>256 word\<close> and \<^verbatim>\<open>[u8; 20]\<close> the type \<open>160 word\<close>, read
    big-endian: \<open>be_bytes n w\<close> is the array as the list of its \<open>n\<close> bytes and \<open>of_be\<close> its
    inverse. The representation has exactly the values of the array type, and the derived
    lexicographic order of the array is the unsigned order of the word
    (\<open>be_bytes_less_iff\<close>).
  \<^item> Strings: a Rust \<^verbatim>\<open>String\<close> is its UTF-8 byte list, so \<^verbatim>\<open>len()\<close> is \<open>length\<close> and \<^verbatim>\<open>as_bytes()\<close>
    the identity; \<open>utf8_chars\<close> is the iterator \<^verbatim>\<open>chars()\<close>.
  \<^item> Little-endian and big-endian integer encodings with their round trips, and strictly
    increasing lists, which are determined by their sets.
\<close>

unbundle bit_operations_syntax

named_theorems result_simps \<open>rewriting of results through the error monad\<close>
named_theorems bytes_simps \<open>lengths and round trips of the byte encodings\<close>

section \<open>Results\<close>

definition and_then :: "'e + 'a \<Rightarrow> ('a \<Rightarrow> 'e + 'b) \<Rightarrow> 'e + 'b" where
  "and_then r f = (case r of Inl e \<Rightarrow> Inl e | Inr x \<Rightarrow> f x)"

definition ok_or :: "'a option \<Rightarrow> 'e \<Rightarrow> 'e + 'a" where
  "ok_or v e = (case v of None \<Rightarrow> Inl e | Some x \<Rightarrow> Inr x)"

definition map_err :: "('e \<Rightarrow> 'f) \<Rightarrow> 'e + 'a \<Rightarrow> 'f + 'a" where
  "map_err f r = (case r of Inl e \<Rightarrow> Inl (f e) | Inr x \<Rightarrow> Inr x)"

definition is_ok :: "'e + 'a \<Rightarrow> bool" where
  "is_ok r = (case r of Inl _ \<Rightarrow> False | Inr _ \<Rightarrow> True)"

text \<open>Collecting an iterator of results into a result: the first error wins.\<close>

fun collect_results :: "('e + 'a) list \<Rightarrow> 'e + 'a list" where
  "collect_results [] = Inr []"
| "collect_results (r # rs) =
     and_then r (\<lambda>x. and_then (collect_results rs) (\<lambda>xs. Inr (x # xs)))"

lemma and_then_simps [simp, result_simps]:
  "and_then (Inl e) f = Inl e"
  "and_then (Inr x) f = f x"
  by (simp_all add: and_then_def)

lemma and_then_eq_Inr [result_simps]:
  "and_then r f = Inr y \<longleftrightarrow> (\<exists>x. r = Inr x \<and> f x = Inr y)"
  by (cases r) simp_all

lemma and_then_eq_Inl [result_simps]:
  "and_then r f = Inl e \<longleftrightarrow> r = Inl e \<or> (\<exists>x. r = Inr x \<and> f x = Inl e)"
  by (cases r) simp_all

lemma and_then_assoc: "and_then (and_then r f) g = and_then r (\<lambda>x. and_then (f x) g)"
  by (cases r) simp_all

lemma ok_or_simps [simp, result_simps]:
  "ok_or None e = Inl e"
  "ok_or (Some x) e = Inr x"
  by (simp_all add: ok_or_def)

lemma ok_or_eq_Inr [result_simps]: "ok_or v e = Inr x \<longleftrightarrow> v = Some x"
  by (cases v) simp_all

lemma ok_or_eq_Inl [result_simps]: "ok_or v e = Inl e' \<longleftrightarrow> v = None \<and> e' = e"
  by (cases v) auto

lemma map_err_simps [simp, result_simps]:
  "map_err f (Inl e) = Inl (f e)"
  "map_err f (Inr x) = Inr x"
  by (simp_all add: map_err_def)

lemma map_err_eq_Inr [result_simps]: "map_err f r = Inr x \<longleftrightarrow> r = Inr x"
  by (cases r) simp_all

lemma map_err_eq_Inl [result_simps]: "map_err f r = Inl e' \<longleftrightarrow> (\<exists>e. r = Inl e \<and> e' = f e)"
  by (cases r) auto

lemma is_ok_simps [simp]: "is_ok (Inl e) = False" "is_ok (Inr x) = True"
  by (simp_all add: is_ok_def)

lemma collect_results_eq_Inr:
  "collect_results rs = Inr xs \<longleftrightarrow> list_all2 (\<lambda>r x. r = Inr x) rs xs"
proof (induction rs arbitrary: xs)
  case Nil
  then show ?case by auto
next
  case (Cons r rs)
  then show ?case by (cases xs) (auto simp: and_then_eq_Inr)
qed

lemma collect_results_map_Inr: "collect_results (map Inr xs) = Inr xs"
  by (simp add: collect_results_eq_Inr list_all2_conv_all_nth)

section \<open>Strictly increasing lists\<close>

text \<open>
  Rust's \<^verbatim>\<open>for pair in xs.windows(2) { if pair[0] >= pair[1] { reject } }\<close> accepts exactly the
  strictly increasing lists.
\<close>

fun strictly_increasing :: "'a::linorder list \<Rightarrow> bool" where
  "strictly_increasing (x # y # xs) = (if x \<ge> y then False else strictly_increasing (y # xs))"
| "strictly_increasing _ = True"

lemma strictly_increasing_iff: "strictly_increasing xs \<longleftrightarrow> sorted_wrt (<) xs"
proof (induction xs rule: strictly_increasing.induct)
  case (1 x y xs)
  then show ?case by (auto simp: not_le dest: less_trans)
qed simp_all

lemma strict_sorted_equal_set:
  fixes xs ys :: "'a::linorder list"
  assumes "sorted_wrt (<) xs" and "sorted_wrt (<) ys" and "set xs = set ys"
  shows "xs = ys"
  using assms strict_sorted_equal by blast

lemma strict_sorted_map_equal_set:
  fixes f :: "'a \<Rightarrow> 'b::linorder"
  assumes xs: "sorted_wrt (<) (map f xs)" and ys: "sorted_wrt (<) (map f ys)"
    and set_eq: "set xs = set ys"
  shows "xs = ys"
proof -
  have "map f xs = map f ys"
    using xs ys set_eq by (intro strict_sorted_equal_set) auto
  moreover have "inj_on f (set xs \<union> set ys)"
    using xs set_eq by (simp add: strict_sorted_iff distinct_map)
  ultimately show ?thesis
    using map_inj_on by blast
qed

section \<open>Bytes\<close>

type_synonym u8 = "8 word"
type_synonym u16 = "16 word"
type_synonym u32 = "32 word"
type_synonym u64 = "64 word"
type_synonym u128 = "128 word"
type_synonym bytes = "8 word list"
type_synonym bytes20 = "160 word"
type_synonym bytes32 = "256 word"
type_synonym RString = "8 word list"

text \<open>\<open>rstr\<close> is a byte-string or string literal of the source.\<close>

definition rstr :: "string \<Rightarrow> bytes" where
  "rstr s = map (\<lambda>c. of_nat (of_char c)) s"

definition be_bytes :: "nat \<Rightarrow> 'a::len word \<Rightarrow> bytes" where
  "be_bytes n w = map (\<lambda>i. ucast (drop_bit (8 * (n - 1 - i)) w)) [0..<n]"

definition le_bytes :: "nat \<Rightarrow> 'a::len word \<Rightarrow> bytes" where
  "le_bytes n w = map (\<lambda>i. ucast (drop_bit (8 * i) w)) [0..<n]"

definition of_le :: "bytes \<Rightarrow> 'a::len word" where
  "of_le bs = foldr (\<lambda>b acc. ucast b OR push_bit 8 acc) bs 0"

definition of_be :: "bytes \<Rightarrow> 'a::len word" where
  "of_be bs = of_le (rev bs)"

text \<open>The natural number a little-endian byte list stands for, of any length.\<close>

primrec le_value :: "bytes \<Rightarrow> nat" where
  "le_value [] = 0"
| "le_value (b # bs) = unat b + 256 * le_value bs"

text \<open>
  \<^verbatim>\<open>str::chars()\<close>: the scalar values of a UTF-8 byte list. A Rust \<^verbatim>\<open>str\<close> is always valid UTF-8, so
  the cases of a truncated sequence are never reached; there the list ends.
\<close>

fun utf8_chars :: "bytes \<Rightarrow> u32 list" where
  "utf8_chars [] = []"
| "utf8_chars (b0 # bs) =
     (if b0 < 0x80 then ucast b0 # utf8_chars bs
      else if b0 < 0xE0 then
        (case bs of
           b1 # r \<Rightarrow> (push_bit 6 (ucast b0 AND 0x1F) OR (ucast b1 AND 0x3F)) # utf8_chars r
         | _ \<Rightarrow> [])
      else if b0 < 0xF0 then
        (case bs of
           b1 # b2 # r \<Rightarrow>
             (push_bit 12 (ucast b0 AND 0x0F) OR push_bit 6 (ucast b1 AND 0x3F)
              OR (ucast b2 AND 0x3F)) # utf8_chars r
         | _ \<Rightarrow> [])
      else
        (case bs of
           b1 # b2 # b3 # r \<Rightarrow>
             (push_bit 18 (ucast b0 AND 0x07) OR push_bit 12 (ucast b1 AND 0x3F)
              OR push_bit 6 (ucast b2 AND 0x3F) OR (ucast b3 AND 0x3F)) # utf8_chars r
         | _ \<Rightarrow> []))"

lemma utf8_chars_ascii:
  "list_all (\<lambda>b. b < 0x80) bs \<Longrightarrow> utf8_chars bs = map ucast bs"
  by (induction bs) simp_all

lemma length_be_bytes [simp, bytes_simps]: "length (be_bytes n w) = n"
  by (simp add: be_bytes_def)

lemma length_le_bytes [simp, bytes_simps]: "length (le_bytes n w) = n"
  by (simp add: le_bytes_def)

lemma rev_be_bytes: "rev (be_bytes n w) = le_bytes n w"
  by (rule nth_equalityI) (auto simp: be_bytes_def le_bytes_def rev_nth)

lemma bit_of_le:
  "bit (of_le bs :: 'a::len word) k \<longleftrightarrow>
     k < LENGTH('a) \<and> k div 8 < length bs \<and> bit (bs ! (k div 8)) (k mod 8)"
proof (induction bs arbitrary: k)
  case Nil
  then show ?case by (simp add: of_le_def)
next
  case (Cons b bs)
  have step: "(of_le (b # bs) :: 'a word) = ucast b OR push_bit 8 (of_le bs)"
    by (simp add: of_le_def)
  show ?case
  proof (cases "k < 8")
    case True
    then show ?thesis by (simp add: step bit_simps)
  next
    case False
    then have "k div 8 = Suc ((k - 8) div 8)" and "k mod 8 = (k - 8) mod 8"
      by (simp_all add: le_div_geq le_mod_geq)
    moreover have "\<not> bit b k"
      using False bit_imp_le_length [of b k] by auto
    ultimately show ?thesis
      using False by (auto simp: step bit_simps Cons.IH)
  qed
qed

lemma of_le_le_bytes [simp, bytes_simps]:
  fixes w :: "'a::len word"
  assumes "LENGTH('a) \<le> 8 * n"
  shows "of_le (le_bytes n w) = w"
proof (rule bit_word_eqI)
  fix k
  assume "k < LENGTH('a)"
  moreover from this assms have "k div 8 < n" by auto
  ultimately show "bit (of_le (le_bytes n w) :: 'a word) k = bit w k"
    by (simp add: bit_of_le le_bytes_def bit_simps)
qed

lemma of_be_be_bytes [simp, bytes_simps]:
  fixes w :: "'a::len word"
  assumes "LENGTH('a) \<le> 8 * n"
  shows "of_be (be_bytes n w) = w"
  using assms by (simp add: of_be_def rev_be_bytes)

lemma le_bytes_of_le:
  assumes "LENGTH('a::len) = 8 * length bs"
  shows "le_bytes (length bs) (of_le bs :: 'a word) = bs"
proof (rule nth_equalityI)
  fix i
  assume "i < length (le_bytes (length bs) (of_le bs :: 'a word))"
  then have i: "i < length bs" by simp
  show "le_bytes (length bs) (of_le bs :: 'a word) ! i = bs ! i"
  proof (rule bit_word_eqI)
    fix k
    assume "k < LENGTH(8)"
    then have k: "k < 8" by simp
    have "(8 * i + k) div 8 = i" and "(8 * i + k) mod 8 = k" using k by auto
    moreover have "8 * i + k < LENGTH('a)" using assms i k by linarith
    ultimately show "bit (le_bytes (length bs) (of_le bs :: 'a word) ! i) k = bit (bs ! i) k"
      using i k by (simp add: le_bytes_def bit_simps bit_of_le)
  qed
qed simp

lemma be_bytes_of_be:
  assumes "LENGTH('a::len) = 8 * length bs"
  shows "be_bytes (length bs) (of_be bs :: 'a word) = bs"
proof -
  have "rev (be_bytes (length bs) (of_be bs :: 'a word)) = rev bs"
    using le_bytes_of_le [of "rev bs", where 'a = 'a] assms by (simp add: rev_be_bytes of_be_def)
  then show ?thesis by simp
qed

lemma be_bytes_inject:
  fixes v w :: "'a::len word"
  assumes "LENGTH('a) \<le> 8 * n"
  shows "be_bytes n v = be_bytes n w \<longleftrightarrow> v = w"
  using assms of_be_be_bytes by metis

lemma le_bytes_inject:
  fixes v w :: "'a::len word"
  assumes "LENGTH('a) \<le> 8 * n"
  shows "le_bytes n v = le_bytes n w \<longleftrightarrow> v = w"
  using assms of_le_le_bytes by metis

lemma be_bytes_bit:
  assumes "i < 8 * n" and "LENGTH('a::len) = 8 * n"
  shows "bit (be_bytes n (w :: 'a word) ! (i div 8)) (7 - i mod 8) \<longleftrightarrow> bit w (8 * n - 1 - i)"
proof -
  define q r where "q = i div 8" and "r = i mod 8"
  have i: "i = 8 * q + r" and r: "r < 8" and q: "q < n"
    using assms by (auto simp: q_def r_def)
  then have "8 * (n - 1 - q) + (7 - r) = 8 * n - 1 - i"
    by (simp add: diff_mult_distrib2)
  moreover have "be_bytes n w ! q = ucast (drop_bit (8 * (n - 1 - q)) w)"
    using q by (simp add: be_bytes_def)
  moreover have "7 - r < (8::nat)" by arith
  ultimately show ?thesis
    by (simp add: bit_simps q_def [symmetric] r_def [symmetric])
qed

lemma nat_less_top_bit:
  fixes a b :: nat
  shows "a < b \<longleftrightarrow> (\<exists>k. (\<forall>j>k. bit a j = bit b j) \<and> \<not> bit a k \<and> bit b k)"
proof -
  have down: "a < b"
    if high: "\<forall>j>k. bit a j = bit b j" and a: "\<not> bit a k" and b: "bit b k" for a b k :: nat
  proof -
    have "drop_bit (Suc k) a = drop_bit (Suc k) b"
      by (rule bit_eqI) (use high in \<open>auto simp: bit_simps\<close>)
    then have "a div 2 ^ k div 2 = b div 2 ^ k div 2"
      by (simp add: drop_bit_eq_div power_Suc2 div_mult2_eq del: power_Suc)
    moreover have "even (a div 2 ^ k)" and "odd (b div 2 ^ k)"
      using a b by (simp_all add: bit_iff_odd)
    ultimately have "a div 2 ^ k < b div 2 ^ k"
      by (metis even_two_times_div_two lessI odd_two_times_div_two_succ Suc_eq_plus1)
    then show ?thesis
      by (meson div_le_mono not_less)
  qed
  show ?thesis
  proof
    assume "a < b"
    then have ex: "\<exists>k. bit a k \<noteq> bit b k"
      using bit_eqI [of a b] by auto
    have fin: "finite {k. bit a k \<noteq> bit b k}"
    proof (rule finite_subset)
      have "\<not> bit x k" if "k \<ge> x" for x k :: nat
        using that le_less_trans [OF that, of "2 ^ k"] by (simp add: bit_iff_odd)
      then show "{k. bit a k \<noteq> bit b k} \<subseteq> {..<max a b}"
        by (auto simp: not_le [symmetric] less_max_iff_disj)
    qed simp
    define k where "k = Max {k. bit a k \<noteq> bit b k}"
    have k: "bit a k \<noteq> bit b k"
      using Max_in [OF fin] ex unfolding k_def by blast
    have top: "\<forall>j>k. bit a j = bit b j"
    proof (intro allI impI)
      fix j
      assume "k < j"
      then have "j \<notin> {k. bit a k \<noteq> bit b k}" using Max_ge [OF fin, of j] by (auto simp: k_def)
      then show "bit a j = bit b j" by simp
    qed
    show "\<exists>k. (\<forall>j>k. bit a j = bit b j) \<and> \<not> bit a k \<and> bit b k"
    proof (cases "bit a k")
      case True
      then have "b < a" using k top down [of k b a] by auto
      then show ?thesis using \<open>a < b\<close> by simp
    next
      case False
      then show ?thesis using k top by auto
    qed
  qed (use down in blast)
qed

lemma word_less_first_bit:
  fixes v w :: "'a::len word"
  shows "v < w \<longleftrightarrow> (\<exists>i<LENGTH('a). (\<forall>j<i. bit v (LENGTH('a) - 1 - j) = bit w (LENGTH('a) - 1 - j))
     \<and> \<not> bit v (LENGTH('a) - 1 - i) \<and> bit w (LENGTH('a) - 1 - i))"
    (is "_ \<longleftrightarrow> (\<exists>i<?L. ?P i)")
proof -
  have bits: "bit (unat x) k \<longleftrightarrow> bit x k" for x :: "'a word" and k
    using bit_imp_le_length by (auto simp: bit_simps)
  have "v < w \<longleftrightarrow> (\<exists>k. (\<forall>j>k. bit v j = bit w j) \<and> \<not> bit v k \<and> bit w k)"
    using nat_less_top_bit [of "unat v" "unat w"] by (simp add: bits word_less_nat_alt)
  also have "\<dots> \<longleftrightarrow> (\<exists>i<?L. ?P i)"
  proof
    assume "\<exists>k. (\<forall>j>k. bit v j = bit w j) \<and> \<not> bit v k \<and> bit w k"
    then obtain k where k: "\<forall>j>k. bit v j = bit w j" "\<not> bit v k" "bit w k" by blast
    from k(3) have "k < ?L" by (rule bit_imp_le_length)
    then have "?P (?L - 1 - k)" using k by auto
    then show "\<exists>i<?L. ?P i" using \<open>k < ?L\<close> by (intro exI [of _ "?L - 1 - k"]) auto
  next
    assume "\<exists>i<?L. ?P i"
    then obtain i where i: "i < ?L" "?P i" by blast
    have "bit v j = bit w j" if "j > ?L - 1 - i" for j
    proof (cases "j < ?L")
      case True
      then have "?L - 1 - j < i" and "?L - 1 - (?L - 1 - j) = j" using that i by auto
      then show ?thesis using i(2) by metis
    next
      case False
      then show ?thesis using bit_imp_le_length by blast
    qed
    then show "\<exists>k. (\<forall>j>k. bit v j = bit w j) \<and> \<not> bit v k \<and> bit w k" using i by blast
  qed
  finally show ?thesis .
qed

lemma le_value_bound: "le_value bs < 256 ^ length bs"
proof (induction bs)
  case (Cons b bs)
  have "unat b < 256" using unsigned_less [of b] by simp
  then show ?case using Cons by simp
qed simp

lemma of_le_eq_le_value: "of_le bs = (of_nat (le_value bs) :: 'a::len word)"
proof (induction bs)
  case (Cons b bs)
  have "(ucast b :: 'a word) OR push_bit 8 (of_le bs) = ucast b + push_bit 8 (of_le bs)"
    by (rule disjunctive_add_eq_or [symmetric], rule bit_word_eqI)
      (auto simp: bit_simps dest: bit_imp_le_length)
  also have "\<dots> = of_nat (unat b) + 256 * of_nat (le_value bs)"
    using Cons by (simp add: of_le_def push_bit_eq_mult mult.commute unsigned_ucast_eq)
  finally show ?case by (simp add: of_le_def)
qed (simp add: of_le_def)

lemma le_value_snoc: "le_value (bs @ [b]) = le_value bs + 256 ^ length bs * unat b"
  by (induction bs) (simp_all add: algebra_simps)

lemma lexordp_le_value:
  assumes "length bs = length cs" and "ord_class.lexordp bs cs"
  shows "le_value (rev bs) < le_value (rev cs)"
  using assms(2,1)
proof (induction rule: ord_class.lexordp.induct)
  case (Cons x y xs ys)
  have "unat x + 1 \<le> unat y" using Cons by (simp add: word_less_nat_alt)
  then have "256 ^ length xs * (unat x + 1) \<le> 256 ^ length xs * unat y"
    by (rule mult_le_mono2)
  then show ?case
    using Cons.prems le_value_bound [of "rev xs"] by (simp add: le_value_snoc)
next
  case (Cons_eq x y xs ys)
  then show ?case by (simp add: le_value_snoc)
qed simp

lemma be_bytes_less_iff:
  fixes v w :: "'a::len word"
  assumes "LENGTH('a) = 8 * n"
  shows "ord_class.lexordp (be_bytes n v) (be_bytes n w) \<longleftrightarrow> v < w"
proof -
  have unat: "unat x = le_value (rev (be_bytes n x))" for x :: "'a word"
  proof -
    have "x = of_nat (le_value (rev (be_bytes n x)))"
      using of_be_be_bytes [of n x] assms by (simp add: of_be_def of_le_eq_le_value)
    moreover have "le_value (rev (be_bytes n x)) < 2 ^ LENGTH('a)"
      using le_value_bound [of "rev (be_bytes n x)"] assms by (simp add: power_mult)
    ultimately show ?thesis using of_nat_inverse by metis
  qed
  have mono: "ord_class.lexordp (be_bytes n x) (be_bytes n y) \<Longrightarrow> x < y" for x y :: "'a word"
    by (simp add: word_less_nat_alt unat lexordp_le_value)
  have "be_bytes n v = be_bytes n w \<longleftrightarrow> v = w"
    using assms by (intro be_bytes_inject) simp
  then show ?thesis
    using mono [of v w] mono [of w v] lexordp_linear [of "be_bytes n v" "be_bytes n w"] by auto
qed

section \<open>Printing\<close>

text \<open>Decimal and hexadecimal digits, as \<^verbatim>\<open>format!\<close> writes them.\<close>

definition digit_char :: "nat \<Rightarrow> char" where
  "digit_char d = (''0123456789abcdef'' ! d)"

fun show_nat :: "nat \<Rightarrow> string" where
  "show_nat n = (if n < 10 then [digit_char n] else show_nat (n div 10) @ [digit_char (n mod 10)])"

declare show_nat.simps [simp del]

definition hex_byte :: "u8 \<Rightarrow> string" where
  "hex_byte b = [digit_char (unat b div 16), digit_char (unat b mod 16)]"

fun comma_list :: "string list \<Rightarrow> string" where
  "comma_list [] = []"
| "comma_list [s] = s"
| "comma_list (s # ss) = s @ '', '' @ comma_list ss"

section \<open>Keyed stores\<close>

text \<open>
  The contract of a finite store of values that carry their own key, as the sparse Merkle tree
  provides it and the batch operations of the trie rely on it.
\<close>

locale keyed_store =
  fixes init :: 's
    and put :: "'s \<Rightarrow> 'v \<Rightarrow> 's"
    and del :: "'s \<Rightarrow> 'k \<Rightarrow> 's"
    and get :: "'s \<Rightarrow> 'k \<Rightarrow> 'v option"
    and key :: "'v \<Rightarrow> 'k"
    and good :: "'s \<Rightarrow> bool"
  assumes good_init: "good init"
    and get_init: "get init k = None"
    and good_put: "good s \<Longrightarrow> good (put s v)"
    and get_put: "good s \<Longrightarrow> get (put s v) = (get s)(key v \<mapsto> v)"
    and good_del: "good s \<Longrightarrow> good (del s k)"
    and get_del: "good s \<Longrightarrow> get (del s k) = (get s)(k := None)"
begin

lemma del_all: "good s \<Longrightarrow>
    good (fold (\<lambda>k s. del s k) ks s) \<and> get (fold (\<lambda>k s. del s k) ks s) = get s |` (- set ks)"
proof (induction ks arbitrary: s)
  case (Cons k ks)
  have "(get s)(k := None) |` (- set ks) = get s |` (- set (k # ks))"
    by (rule ext) (simp add: restrict_map_def)
  with Cons.IH [OF good_del, of s k] Cons.prems show ?case
    by (simp only: fold.simps comp_apply get_del simp_thms)
qed (simp add: restrict_map_def)

lemma put_all: "good s \<Longrightarrow> distinct (map key vs) \<Longrightarrow>
    good (fold (\<lambda>v s. put s v) vs s)
    \<and> get (fold (\<lambda>v s. put s v) vs s) = get s ++ map_of (map (\<lambda>v. (key v, v)) vs)"
proof (induction vs arbitrary: s)
  case (Cons v vs)
  have "key v \<notin> dom (map_of (map (\<lambda>v. (key v, v)) vs))"
    using Cons.prems by (auto simp: dom_map_of_conv_image_fst image_image)
  then have "(get s)(key v \<mapsto> v) ++ map_of (map (\<lambda>v. (key v, v)) vs)
      = get s ++ map_of (map (\<lambda>v. (key v, v)) (v # vs))"
    by (auto simp: map_add_def fun_eq_iff split: option.splits)
  with Cons.IH [OF good_put, of s v] Cons.prems show ?case
    by (simp only: fold.simps comp_apply get_put simp_thms distinct.simps list.map)
qed simp

end

end
