(* ===== verification/Types.thy ===== *)
theory Types
  imports Prelude
begin

text \<open>
  The data model of the crate \<^verbatim>\<open>org-members\<close>: \<^verbatim>\<open>types.rs\<close>, \<^verbatim>\<open>error.rs\<close>, \<^verbatim>\<open>normalize.rs\<close>.

  A newtype over \<^verbatim>\<open>[u8; 32]\<close> is a datatype over \<open>bytes32\<close>, ordered as the source's derived or
  written \<^verbatim>\<open>Ord\<close> orders it, by its bytes. \<^verbatim>\<open>ed25519_dalek::VerifyingKey\<close> is a third-party type whose
  values are the 32-byte strings its \<^verbatim>\<open>from_bytes\<close> accepts and whose equality is equality of those
  bytes: it is the datatype \<open>VerifyingKey\<close>, and acceptance is the argument \<open>vk_ok\<close> of the
  deserializers. The Unicode tables behind \<^verbatim>\<open>nfc()\<close>, \<^verbatim>\<open>char::is_uppercase\<close>,
  \<^verbatim>\<open>identifier_allowed\<close>, \<^verbatim>\<open>is_single_script\<close> and \<^verbatim>\<open>skeleton\<close> are the fields of the record \<open>Unicode\<close>,
  an argument of every operation that consults them; \<open>nfc_laws\<close> is what is documented of NFC and used
  here. The \<^verbatim>\<open>serde\<close> implementations are modelled on serde's data model: \<open>MemberLeafWire\<close> is what a
  serialized leaf holds, and the byte format (postcard) is not part of the repository.
\<close>

section \<open>Errors\<close>

text \<open>
  \<^verbatim>\<open>InvalidHandle\<close> carries a message in the source; each message the code builds is one value
  of \<open>HandleFault\<close>.
\<close>

datatype HandleFault =
    HandleEmpty
  | HandleTooLong
  | HandleUppercase
  | HandleDot
  | HandleNotAllowed u32
  | HandleMixedScript

datatype OrgMembersError =
    DuplicateHandle
  | DuplicateId
  | IdNotFound
  | InvalidHandle HandleFault
  | ConfusableHandle
  | DuplicateDevice
  | DeviceNotFound
  | DeviceSlotsFull
  | EmptyDeviceList
  | DeltaBaseMismatch
  | VerificationFailed
  | SerializationError
  | HashesNotCalculated
  | InvariantViolated
  | MalformedDelta string
  | FieldTooLong string nat

section \<open>Constants and newtypes\<close>

definition MAX_DEVICES :: nat where "MAX_DEVICES = 4"
definition MAX_HANDLE_LEN :: nat where "MAX_HANDLE_LEN = 128"
definition MAX_NAME_LEN :: nat where "MAX_NAME_LEN = 128"
definition MAX_SURNAME_LEN :: nat where "MAX_SURNAME_LEN = 128"

datatype MemberId = MemberId (member_id_word: bytes32)
datatype VerifyingKey = VerifyingKey (vk_word: bytes32)
datatype P2pMemberKey = P2pMemberKey (member_verifying_key: VerifyingKey)
datatype P2pDeviceKey = P2pDeviceKey (device_verifying_key: VerifyingKey)
datatype NodeHash = NodeHash (node_hash_word: bytes32)
datatype RootHash = RootHash (root_hash_word: bytes32)

definition member_id_as_bytes :: "MemberId \<Rightarrow> bytes" where
  "member_id_as_bytes i = be_bytes 32 (member_id_word i)"

definition member_key_as_bytes :: "P2pMemberKey \<Rightarrow> bytes" where
  "member_key_as_bytes k = be_bytes 32 (vk_word (member_verifying_key k))"

definition device_key_as_bytes :: "P2pDeviceKey \<Rightarrow> bytes" where
  "device_key_as_bytes k = be_bytes 32 (vk_word (device_verifying_key k))"

definition node_hash_as_bytes :: "NodeHash \<Rightarrow> bytes" where
  "node_hash_as_bytes h = be_bytes 32 (node_hash_word h)"

definition root_of_node :: "NodeHash \<Rightarrow> RootHash" where
  "root_of_node h = RootHash (node_hash_word h)"

text \<open>\<^verbatim>\<open>MemberId::bit\<close>: bit 0 is the most significant bit of byte 0.\<close>

definition member_bit :: "MemberId \<Rightarrow> nat \<Rightarrow> bool" where
  "member_bit i index =
     (let byte_idx = index div 8; bit_idx = 7 - index mod 8
      in (drop_bit bit_idx (member_id_as_bytes i ! byte_idx)) AND 1 = 1)"

instantiation MemberId :: linorder
begin
definition less_eq_MemberId :: "MemberId \<Rightarrow> MemberId \<Rightarrow> bool" where
  "less_eq_MemberId a b = (member_id_word a \<le> member_id_word b)"
definition less_MemberId :: "MemberId \<Rightarrow> MemberId \<Rightarrow> bool" where
  "less_MemberId a b = (member_id_word a < member_id_word b)"
instance
  by intro_classes
    (auto simp: less_eq_MemberId_def less_MemberId_def intro: MemberId.expand)
end

instantiation P2pDeviceKey :: linorder
begin
definition less_eq_P2pDeviceKey :: "P2pDeviceKey \<Rightarrow> P2pDeviceKey \<Rightarrow> bool" where
  "less_eq_P2pDeviceKey a b =
     (vk_word (device_verifying_key a) \<le> vk_word (device_verifying_key b))"
definition less_P2pDeviceKey :: "P2pDeviceKey \<Rightarrow> P2pDeviceKey \<Rightarrow> bool" where
  "less_P2pDeviceKey a b =
     (vk_word (device_verifying_key a) < vk_word (device_verifying_key b))"
instance
  by intro_classes
    (auto simp: less_eq_P2pDeviceKey_def less_P2pDeviceKey_def,
     metis P2pDeviceKey.expand VerifyingKey.expand)
end

instantiation P2pMemberKey :: linorder
begin
definition less_eq_P2pMemberKey :: "P2pMemberKey \<Rightarrow> P2pMemberKey \<Rightarrow> bool" where
  "less_eq_P2pMemberKey a b =
     (vk_word (member_verifying_key a) \<le> vk_word (member_verifying_key b))"
definition less_P2pMemberKey :: "P2pMemberKey \<Rightarrow> P2pMemberKey \<Rightarrow> bool" where
  "less_P2pMemberKey a b =
     (vk_word (member_verifying_key a) < vk_word (member_verifying_key b))"
instance
  by intro_classes
    (auto simp: less_eq_P2pMemberKey_def less_P2pMemberKey_def,
     metis P2pMemberKey.expand VerifyingKey.expand)
end

section \<open>Unicode: normalization and handle validation\<close>

record Unicode =
  nfc :: "RString \<Rightarrow> RString"
  is_uppercase :: "u32 \<Rightarrow> bool"
  identifier_allowed :: "u32 \<Rightarrow> bool"
  is_single_script :: "RString \<Rightarrow> bool"
  skeleton :: "RString \<Rightarrow> RString"

definition to_nfc :: "Unicode \<Rightarrow> RString \<Rightarrow> RString" where
  "to_nfc U s = nfc U s"

text \<open>What the Unicode standard says of NFC: it is idempotent and erases nothing.\<close>

definition nfc_laws :: "Unicode \<Rightarrow> bool" where
  "nfc_laws U \<longleftrightarrow> (\<forall>s. nfc U (nfc U s) = nfc U s) \<and> (\<forall>s. nfc U s = [] \<longrightarrow> s = [])"

text \<open>The loop over the characters of the normalized handle.\<close>

fun check_handle_chars :: "Unicode \<Rightarrow> u32 list \<Rightarrow> OrgMembersError + unit" where
  "check_handle_chars U [] = Inr ()"
| "check_handle_chars U (ch # chs) =
     (if is_uppercase U ch then Inl (InvalidHandle HandleUppercase)
      else if ch = 0x2E then Inl (InvalidHandle HandleDot)
      else if ch = 0x2D then check_handle_chars U chs
      else if \<not> identifier_allowed U ch then Inl (InvalidHandle (HandleNotAllowed ch))
      else check_handle_chars U chs)"

definition validate_handle :: "Unicode \<Rightarrow> RString \<Rightarrow> OrgMembersError + RString" where
  "validate_handle U handle =
     (if handle = [] then Inl (InvalidHandle HandleEmpty)
      else
        let normalized = nfc U handle in
        if length normalized > MAX_HANDLE_LEN then Inl (InvalidHandle HandleTooLong)
        else
          and_then (check_handle_chars U (utf8_chars normalized)) (\<lambda>_.
            if \<not> is_single_script U normalized then Inl (InvalidHandle HandleMixedScript)
            else Inr normalized))"

definition handle_skeleton :: "Unicode \<Rightarrow> RString \<Rightarrow> RString" where
  "handle_skeleton U handle = skeleton U handle"

section \<open>Device slots\<close>

text \<open>
  \<^verbatim>\<open>slice::binary_search\<close>: the interval \<open>[base, base + size)\<close> is halved until one element is left.
  \<open>Inr\<close> is the index of a match, \<open>Inl\<close> the insertion point.
\<close>

function bsearch_loop :: "'a::linorder list \<Rightarrow> 'a \<Rightarrow> nat \<Rightarrow> nat \<Rightarrow> nat" where
  "bsearch_loop xs x base sz =
     (if sz > 1 then
        (let half = sz div 2; mid = base + half
         in bsearch_loop xs x (if xs ! mid > x then base else mid) (sz - half))
      else base)"
  by pat_completeness auto
termination
  by (relation "measure (\<lambda>(xs, x, base, sz). sz)") auto

definition binary_search :: "'a::linorder list \<Rightarrow> 'a \<Rightarrow> nat + nat" where
  "binary_search xs x =
     (if length xs = 0 then Inl 0
      else
        let base = bsearch_loop xs x 0 (length xs) in
        if xs ! base = x then Inr base
        else Inl (base + (if xs ! base < x then 1 else 0)))"

datatype P2pDeviceSlots = P2pDeviceSlots (slots: "P2pDeviceKey list")

text \<open>The check \<^verbatim>\<open>devices[i] == devices[i - 1]\<close> for \<^verbatim>\<open>i in 1..len\<close>.\<close>

fun has_adjacent_equal :: "'a list \<Rightarrow> bool" where
  "has_adjacent_equal (x # y # xs) = (if y = x then True else has_adjacent_equal (y # xs))"
| "has_adjacent_equal _ = False"

definition device_slots_new :: "P2pDeviceKey list \<Rightarrow> OrgMembersError + P2pDeviceSlots" where
  "device_slots_new devices =
     (if length devices > MAX_DEVICES then Inl DeviceSlotsFull
      else
        let devices = sort devices in
        if has_adjacent_equal devices then Inl DuplicateDevice
        else Inr (P2pDeviceSlots devices))"

definition devices :: "P2pDeviceSlots \<Rightarrow> P2pDeviceKey list" where
  "devices s = slots s"

definition has_device :: "P2pDeviceSlots \<Rightarrow> P2pDeviceKey \<Rightarrow> bool" where
  "has_device s device = is_ok (binary_search (slots s) device)"

definition device_count :: "P2pDeviceSlots \<Rightarrow> nat" where
  "device_count s = length (slots s)"

definition add_device :: "P2pDeviceSlots \<Rightarrow> P2pDeviceKey \<Rightarrow> OrgMembersError + P2pDeviceSlots" where
  "add_device s device =
     (if length (slots s) \<ge> MAX_DEVICES then Inl DeviceSlotsFull
      else if has_device s device then Inl DuplicateDevice
      else Inr (P2pDeviceSlots (sort (slots s @ [device]))))"

text \<open>\<^verbatim>\<open>Vec::remove\<close> at an index within the vector.\<close>

definition vec_remove :: "'a list \<Rightarrow> nat \<Rightarrow> 'a list" where
  "vec_remove xs i = take i xs @ drop (Suc i) xs"

definition remove_device :: "P2pDeviceSlots \<Rightarrow> P2pDeviceKey \<Rightarrow> OrgMembersError + P2pDeviceSlots" where
  "remove_device s device =
     and_then (map_err (\<lambda>_. DeviceNotFound) (binary_search (slots s) device)) (\<lambda>idx.
       Inr (P2pDeviceSlots (vec_remove (slots s) idx)))"

text \<open>The array \<^verbatim>\<open>[None; MAX_DEVICES]\<close> with the slots written from the front.\<close>

definition to_fixed_slots :: "P2pDeviceSlots \<Rightarrow> P2pDeviceKey option list" where
  "to_fixed_slots s =
     fold (\<lambda>(i, device) fixed. fixed[i := Some device]) (enumerate 0 (slots s))
       (replicate MAX_DEVICES None)"

section \<open>Member leaves\<close>

record MemberLeaf =
  ml_id :: MemberId
  ml_handle :: RString
  ml_p2p_key :: P2pMemberKey
  ml_name :: RString
  ml_surname :: RString
  ml_p2p_devices :: P2pDeviceSlots

definition member_leaf_new ::
  "Unicode \<Rightarrow> MemberId \<Rightarrow> RString \<Rightarrow> P2pMemberKey \<Rightarrow> RString \<Rightarrow> RString \<Rightarrow> P2pDeviceKey list
     \<Rightarrow> OrgMembersError + MemberLeaf" where
  "member_leaf_new U i handle key name surname devs =
     (if devs = [] then Inl EmptyDeviceList
      else
        and_then (validate_handle U handle) (\<lambda>validated_handle.
        let nfc_name = to_nfc U name in
        if length nfc_name > MAX_NAME_LEN then Inl (FieldTooLong ''name'' MAX_NAME_LEN)
        else
        let nfc_surname = to_nfc U surname in
        if length nfc_surname > MAX_SURNAME_LEN
        then Inl (FieldTooLong ''surname'' MAX_SURNAME_LEN)
        else
        and_then (device_slots_new devs) (\<lambda>device_slots.
        Inr \<lparr>ml_id = i, ml_handle = validated_handle, ml_p2p_key = key, ml_name = nfc_name,
              ml_surname = nfc_surname, ml_p2p_devices = device_slots\<rparr>)))"

definition with_name_surname :: "MemberLeaf \<Rightarrow> RString \<Rightarrow> RString \<Rightarrow> MemberLeaf" where
  "with_name_surname m name surname = m\<lparr>ml_name := name, ml_surname := surname\<rparr>"

definition with_handle :: "MemberLeaf \<Rightarrow> RString \<Rightarrow> MemberLeaf" where
  "with_handle m validated_handle = m\<lparr>ml_handle := validated_handle\<rparr>"

definition with_p2p_key :: "MemberLeaf \<Rightarrow> P2pMemberKey \<Rightarrow> MemberLeaf" where
  "with_p2p_key m key = m\<lparr>ml_p2p_key := key\<rparr>"

definition with_p2p_device_slots :: "MemberLeaf \<Rightarrow> P2pDeviceSlots \<Rightarrow> MemberLeaf" where
  "with_p2p_device_slots m s = m\<lparr>ml_p2p_devices := s\<rparr>"

text \<open>A length prefix: \<^verbatim>\<open>(bytes.len() as u32).to_le_bytes()\<close> followed by the bytes.\<close>

definition len_prefixed :: "bytes \<Rightarrow> bytes" where
  "len_prefixed bs = le_bytes 4 (of_nat (length bs) :: u32) @ bs"

definition canonical_bytes :: "MemberLeaf \<Rightarrow> NodeHash \<Rightarrow> bytes" where
  "canonical_bytes m device_root =
     member_id_as_bytes (ml_id m) @ len_prefixed (ml_handle m)
     @ member_key_as_bytes (ml_p2p_key m) @ len_prefixed (ml_name m)
     @ len_prefixed (ml_surname m) @ node_hash_as_bytes device_root"

section \<open>Serde\<close>

datatype DeError =
    InvalidKey
  | SlotsExceedMax
  | SlotsNotIncreasing
  | LeafRejected OrgMembersError

record MemberLeafWire =
  mw_id :: bytes32
  mw_handle :: RString
  mw_p2p_key :: bytes32
  mw_name :: RString
  mw_surname :: RString
  mw_p2p_devices :: "bytes32 list"

definition member_key_deserialize :: "(bytes32 \<Rightarrow> bool) \<Rightarrow> bytes32 \<Rightarrow> DeError + P2pMemberKey" where
  "member_key_deserialize vk_ok b =
     (if vk_ok b then Inr (P2pMemberKey (VerifyingKey b)) else Inl InvalidKey)"

definition device_key_deserialize :: "(bytes32 \<Rightarrow> bool) \<Rightarrow> bytes32 \<Rightarrow> DeError + P2pDeviceKey" where
  "device_key_deserialize vk_ok b =
     (if vk_ok b then Inr (P2pDeviceKey (VerifyingKey b)) else Inl InvalidKey)"

definition device_slots_deserialize ::
  "(bytes32 \<Rightarrow> bool) \<Rightarrow> bytes32 list \<Rightarrow> DeError + P2pDeviceSlots" where
  "device_slots_deserialize vk_ok bs =
     and_then (collect_results (map (device_key_deserialize vk_ok) bs)) (\<lambda>slots.
       if length slots > MAX_DEVICES then Inl SlotsExceedMax
       else if \<not> strictly_increasing slots then Inl SlotsNotIncreasing
       else Inr (P2pDeviceSlots slots))"

definition member_leaf_serialize :: "MemberLeaf \<Rightarrow> MemberLeafWire" where
  "member_leaf_serialize m =
     \<lparr>mw_id = member_id_word (ml_id m), mw_handle = ml_handle m,
      mw_p2p_key = vk_word (member_verifying_key (ml_p2p_key m)), mw_name = ml_name m,
      mw_surname = ml_surname m,
      mw_p2p_devices = map (\<lambda>d. vk_word (device_verifying_key d)) (slots (ml_p2p_devices m))\<rparr>"

definition member_leaf_deserialize ::
  "Unicode \<Rightarrow> (bytes32 \<Rightarrow> bool) \<Rightarrow> MemberLeafWire \<Rightarrow> DeError + MemberLeaf" where
  "member_leaf_deserialize U vk_ok w =
     and_then (member_key_deserialize vk_ok (mw_p2p_key w)) (\<lambda>raw_key.
     and_then (device_slots_deserialize vk_ok (mw_p2p_devices w)) (\<lambda>raw_devices.
     and_then (map_err LeafRejected (validate_handle U (mw_handle w))) (\<lambda>validated_handle.
     let name = to_nfc U (mw_name w) in
     if length name > MAX_NAME_LEN
     then Inl (LeafRejected (FieldTooLong ''name'' MAX_NAME_LEN))
     else
     let surname = to_nfc U (mw_surname w) in
     if length surname > MAX_SURNAME_LEN
     then Inl (LeafRejected (FieldTooLong ''surname'' MAX_SURNAME_LEN))
     else
     Inr \<lparr>ml_id = MemberId (mw_id w), ml_handle = validated_handle, ml_p2p_key = raw_key,
           ml_name = name, ml_surname = surname, ml_p2p_devices = raw_devices\<rparr>)))"

section \<open>Orders and bits\<close>

text \<open>
  \<^verbatim>\<open>Ord\<close> of the newtypes compares their byte arrays from the first byte on; the orders declared above
  are these comparisons.
\<close>

datatype Ordering = OrdLess | OrdEqual | OrdGreater

fun bytes_cmp :: "bytes \<Rightarrow> bytes \<Rightarrow> Ordering" where
  "bytes_cmp [] [] = OrdEqual"
| "bytes_cmp [] (y # ys) = OrdLess"
| "bytes_cmp (x # xs) [] = OrdGreater"
| "bytes_cmp (x # xs) (y # ys) =
     (if x < y then OrdLess else if y < x then OrdGreater else bytes_cmp xs ys)"

definition member_id_cmp :: "MemberId \<Rightarrow> MemberId \<Rightarrow> Ordering" where
  "member_id_cmp a b = bytes_cmp (member_id_as_bytes a) (member_id_as_bytes b)"

definition member_key_cmp :: "P2pMemberKey \<Rightarrow> P2pMemberKey \<Rightarrow> Ordering" where
  "member_key_cmp a b = bytes_cmp (member_key_as_bytes a) (member_key_as_bytes b)"

definition device_key_cmp :: "P2pDeviceKey \<Rightarrow> P2pDeviceKey \<Rightarrow> Ordering" where
  "device_key_cmp a b = bytes_cmp (device_key_as_bytes a) (device_key_as_bytes b)"

lemma bytes_cmp_less: "bytes_cmp xs ys = OrdLess \<longleftrightarrow> ord_class.lexordp xs ys"
  by (induction xs ys rule: bytes_cmp.induct) auto

lemma bytes_cmp_equal: "bytes_cmp xs ys = OrdEqual \<longleftrightarrow> xs = ys"
  by (induction xs ys rule: bytes_cmp.induct) auto

lemma member_id_less_bytes:
  "a < b \<longleftrightarrow> ord_class.lexordp (member_id_as_bytes a) (member_id_as_bytes b)"
  by (simp add: less_MemberId_def member_id_as_bytes_def be_bytes_less_iff)

lemma device_key_less_bytes:
  "a < b \<longleftrightarrow> ord_class.lexordp (device_key_as_bytes a) (device_key_as_bytes b)"
  by (simp add: less_P2pDeviceKey_def device_key_as_bytes_def be_bytes_less_iff)

text \<open>The orders of the class \<open>linorder\<close> are the byte-wise comparisons.\<close>

lemma key_orders_are_cmp:
  "a < b \<longleftrightarrow> member_id_cmp a b = OrdLess"
  "k < l \<longleftrightarrow> member_key_cmp k l = OrdLess"
  "d < e \<longleftrightarrow> device_key_cmp d e = OrdLess"
  by (simp_all add: member_id_cmp_def member_key_cmp_def device_key_cmp_def bytes_cmp_less
      member_id_less_bytes device_key_less_bytes less_P2pMemberKey_def member_key_as_bytes_def
      be_bytes_less_iff)

lemma as_bytes_inject [simp]:
  "member_id_as_bytes a = member_id_as_bytes b \<longleftrightarrow> a = b"
  "member_key_as_bytes k = member_key_as_bytes l \<longleftrightarrow> k = l"
  "device_key_as_bytes d = device_key_as_bytes e \<longleftrightarrow> d = e"
  "node_hash_as_bytes g = node_hash_as_bytes h \<longleftrightarrow> g = h"
  by (auto simp: member_id_as_bytes_def member_key_as_bytes_def device_key_as_bytes_def
      node_hash_as_bytes_def be_bytes_inject
      intro: MemberId.expand P2pMemberKey.expand P2pDeviceKey.expand VerifyingKey.expand
        NodeHash.expand)

lemma length_as_bytes [simp]:
  "length (member_id_as_bytes a) = 32"
  "length (member_key_as_bytes k) = 32"
  "length (device_key_as_bytes d) = 32"
  "length (node_hash_as_bytes h) = 32"
  by (simp_all add: member_id_as_bytes_def member_key_as_bytes_def device_key_as_bytes_def
      node_hash_as_bytes_def)

lemma member_bit_eq:
  assumes "k < 256"
  shows "member_bit i k \<longleftrightarrow> bit (member_id_word i) (255 - k)"
proof -
  have "member_bit i k \<longleftrightarrow> bit (be_bytes 32 (member_id_word i) ! (k div 8)) (7 - k mod 8)"
    by (simp add: member_bit_def member_id_as_bytes_def Let_def and_one_eq odd_iff_mod_2_eq_one
        [symmetric] bit_iff_odd_drop_bit)
  then show ?thesis using be_bytes_bit [of k 32 "member_id_word i"] assms by simp
qed

lemma member_id_eq_bits: "a = b \<longleftrightarrow> (\<forall>k<256. member_bit a k = member_bit b k)"
proof
  assume eq: "\<forall>k<256. member_bit a k = member_bit b k"
  have "member_id_word a = member_id_word b"
  proof (rule bit_word_eqI)
    fix n
    assume "n < LENGTH(256)"
    then have "255 - n < 256" and "255 - (255 - n) = n" by simp_all
    then show "bit (member_id_word a) n = bit (member_id_word b) n"
      using eq member_bit_eq by metis
  qed
  then show "a = b" by (rule MemberId.expand)
qed simp

lemma member_id_less_bits:
  "a < b \<longleftrightarrow> (\<exists>i<256. (\<forall>j<i. member_bit a j = member_bit b j) \<and> \<not> member_bit a i \<and> member_bit b i)"
  using word_less_first_bit [of "member_id_word a" "member_id_word b"]
  by (auto simp: less_MemberId_def member_bit_eq)

section \<open>Binary search\<close>

text \<open>The loop keeps the last element not above the key within \<open>[base, base + sz)\<close>.\<close>

declare bsearch_loop.simps [simp del]

lemma bsearch_loop_invariant:
  assumes "sorted xs" and "base + sz \<le> length xs" and "0 < sz"
    and "\<forall>i<length xs. xs ! i \<le> x \<longrightarrow> i < base + sz"
    and "base = 0 \<or> xs ! base \<le> x"
  shows "bsearch_loop xs x base sz < length xs
    \<and> (\<forall>i<length xs. xs ! i \<le> x \<longrightarrow> i \<le> bsearch_loop xs x base sz)
    \<and> (bsearch_loop xs x base sz = 0 \<or> xs ! bsearch_loop xs x base sz \<le> x)"
  using assms
proof (induction xs x base sz rule: bsearch_loop.induct)
  case (1 xs x base sz)
  show ?case
  proof (cases "sz > 1")
    case False
    with 1 show ?thesis by (auto simp: bsearch_loop.simps less_Suc_eq_le)
  next
    case True
    define half where "half = sz div 2"
    define base' where "base' = (if xs ! (base + half) > x then base else base + half)"
    have half: "0 < half" "half < sz" using True by (auto simp: half_def)
    have above: "i < base + half" if "xs ! (base + half) > x" "i < length xs" "xs ! i \<le> x" for i
      using sorted_nth_mono [OF "1.prems"(1), of "base + half" i] that by force
    have "bsearch_loop xs x base sz = bsearch_loop xs x base' (sz - half)"
      using True by (simp add: bsearch_loop.simps [of xs x base sz] Let_def half_def base'_def)
    moreover have "\<forall>i<length xs. xs ! i \<le> x \<longrightarrow> i < base' + (sz - half)"
      using "1.prems" half above True by (fastforce simp: base'_def half_def)
    ultimately show ?thesis
      using "1.IH" [OF True half_def refl] "1.prems" half by (auto simp: base'_def)
  qed
qed

lemma binary_search_Inr:
  assumes "binary_search xs x = Inr i" and "sorted xs"
  shows "i < length xs \<and> xs ! i = x"
  using assms bsearch_loop_invariant [of xs 0 "length xs" x]
  by (auto simp: binary_search_def Let_def split: if_splits)

lemma binary_search_is_ok:
  assumes "sorted xs"
  shows "is_ok (binary_search xs x) \<longleftrightarrow> x \<in> set xs"
proof (cases "xs = []")
  case True
  then show ?thesis by (simp add: binary_search_def)
next
  case False
  define b where "b = bsearch_loop xs x 0 (length xs)"
  have b: "b < length xs" "\<forall>i<length xs. xs ! i \<le> x \<longrightarrow> i \<le> b" "b = 0 \<or> xs ! b \<le> x"
    using bsearch_loop_invariant [of xs 0 "length xs" x] assms False by (auto simp: b_def)
  have "x \<in> set xs \<Longrightarrow> xs ! b = x"
  proof -
    assume "x \<in> set xs"
    then obtain i where i: "i < length xs" "xs ! i = x" by (auto simp: in_set_conv_nth)
    then have "i \<le> b" using b by auto
    then have "x \<le> xs ! b" using sorted_nth_mono [OF assms, of i b] b i by simp
    then show ?thesis using b(3) i \<open>i \<le> b\<close> by auto
  qed
  moreover have "xs ! b \<in> set xs" using b by simp
  ultimately show ?thesis using False by (auto simp: binary_search_def Let_def b_def)
qed

section \<open>Device slots\<close>

text \<open>The type invariant: strictly increasing keys, at most \<^verbatim>\<open>MAX_DEVICES\<close> of them.\<close>

definition slots_wf :: "P2pDeviceSlots \<Rightarrow> bool" where
  "slots_wf s \<longleftrightarrow> sorted_wrt (<) (slots s) \<and> length (slots s) \<le> MAX_DEVICES"

lemma slots_wfD:
  assumes "slots_wf s"
  shows "sorted (slots s)" and "distinct (slots s)" and "length (slots s) \<le> 4"
  using assms by (simp_all add: slots_wf_def strict_sorted_iff MAX_DEVICES_def)

lemma has_adjacent_equal_sorted: "sorted xs \<Longrightarrow> has_adjacent_equal xs \<longleftrightarrow> \<not> distinct xs"
proof (induction xs rule: has_adjacent_equal.induct)
  case (1 x y xs)
  then show ?case by (auto simp: order.antisym)
qed auto

lemma slots_eqI:
  assumes "slots_wf s" and "slots_wf t" and "set (slots s) = set (slots t)"
  shows "s = t"
  using assms strict_sorted_equal_set P2pDeviceSlots.expand by (metis slots_wf_def)

lemma device_slots_new_cases:
  "device_slots_new ds =
     (if length ds > MAX_DEVICES then Inl DeviceSlotsFull
      else if \<not> distinct ds then Inl DuplicateDevice
      else Inr (P2pDeviceSlots (sorted_list_of_set (set ds))))"
  by (simp add: device_slots_new_def Let_def has_adjacent_equal_sorted
      sorted_list_of_set_sort_remdups distinct_remdups_id)

lemma device_slots_new_wf:
  assumes "device_slots_new ds = Inr s"
  shows "slots_wf s \<and> set (slots s) = set ds"
  using assms
  by (auto simp: device_slots_new_cases slots_wf_def MAX_DEVICES_def distinct_card split: if_splits)

lemma has_device_iff: "slots_wf s \<Longrightarrow> has_device s d \<longleftrightarrow> d \<in> set (slots s)"
  by (simp add: has_device_def binary_search_is_ok slots_wfD)

lemma add_device_cases:
  assumes "slots_wf s"
  shows "add_device s d =
     (if length (slots s) \<ge> MAX_DEVICES then Inl DeviceSlotsFull
      else if d \<in> set (slots s) then Inl DuplicateDevice
      else Inr (P2pDeviceSlots (sort (slots s @ [d]))))"
  using assms by (simp add: add_device_def has_device_iff)

lemma add_device_wf:
  assumes "slots_wf s" and "add_device s d = Inr t"
  shows "slots_wf t \<and> set (slots t) = insert d (set (slots s))"
  using assms slots_wfD [OF assms(1)]
  by (auto simp: add_device_cases slots_wf_def strict_sorted_iff split: if_splits)

lemma sorted_wrt_vec_remove:
  assumes "sorted_wrt P xs"
  shows "sorted_wrt P (vec_remove xs i)"
proof (cases "i < length xs")
  case True
  then have "sorted_wrt P (take i xs @ xs ! i # drop (Suc i) xs)"
    using assms by (simp add: id_take_nth_drop [symmetric])
  then show ?thesis by (auto simp: vec_remove_def sorted_wrt_append)
qed (use assms in \<open>simp add: vec_remove_def\<close>)

lemma length_vec_remove: "length (vec_remove xs i) \<le> length xs"
  by (simp add: vec_remove_def)

lemma set_vec_remove:
  "distinct xs \<Longrightarrow> i < length xs \<Longrightarrow> set (vec_remove xs i) = set xs - {xs ! i}"
proof -
  assume d: "distinct xs" and i: "i < length xs"
  have xs: "xs = take i xs @ xs ! i # drop (Suc i) xs" by (simp add: id_take_nth_drop i)
  have "distinct (take i xs @ xs ! i # drop (Suc i) xs)" using d xs by simp
  moreover have "set xs = insert (xs ! i) (set (take i xs) \<union> set (drop (Suc i) xs))"
    by (subst xs) simp
  ultimately show ?thesis by (auto simp: vec_remove_def)
qed

lemma remove_device_cases:
  assumes "slots_wf s"
  shows "(if d \<in> set (slots s) then
            \<exists>t. remove_device s d = Inr t \<and> slots_wf t \<and> set (slots t) = set (slots s) - {d}
          else remove_device s d = Inl DeviceNotFound)"
proof (cases "binary_search (slots s) d")
  case (Inl i)
  then have "d \<notin> set (slots s)"
    using binary_search_is_ok [of "slots s" d] slots_wfD [OF assms] by simp
  then show ?thesis using Inl by (simp add: remove_device_def)
next
  case (Inr i)
  then have i: "i < length (slots s)" "slots s ! i = d"
    using binary_search_Inr slots_wfD [OF assms] by blast+
  then have "d \<in> set (slots s)" by auto
  moreover have "slots_wf (P2pDeviceSlots (vec_remove (slots s) i))"
    using assms sorted_wrt_vec_remove [of "(<)" "slots s" i] length_vec_remove [of "slots s" i]
    by (simp add: slots_wf_def)
  ultimately show ?thesis
    using Inr i slots_wfD [OF assms] by (simp add: remove_device_def set_vec_remove)
qed

lemma to_fixed_slots_eq:
  assumes "slots_wf s"
  shows "to_fixed_slots s = map Some (slots s) @ replicate (4 - length (slots s)) None"
proof -
  have "length (slots s) \<le> 4" using assms by (simp add: slots_wfD)
  then obtain ds where ds: "slots s = ds" "ds = [] \<or> (\<exists>a. ds = [a]) \<or> (\<exists>a b. ds = [a, b])
      \<or> (\<exists>a b c. ds = [a, b, c]) \<or> (\<exists>a b c d. ds = [a, b, c, d])"
    by (auto simp: le_Suc_eq length_Suc_conv numeral_eq_Suc)
  then show ?thesis
    by (auto simp: to_fixed_slots_def MAX_DEVICES_def numeral_eq_Suc)
qed

section \<open>Handles and leaves\<close>

lemma check_handle_chars_ok:
  "check_handle_chars U chs = Inr () \<longleftrightarrow>
     (\<forall>ch \<in> set chs. \<not> is_uppercase U ch \<and> ch \<noteq> 0x2E \<and> (ch = 0x2D \<or> identifier_allowed U ch))"
  by (induction chs) auto

lemma validate_handle_ok:
  "validate_handle U h = Inr v \<longleftrightarrow>
     h \<noteq> [] \<and> v = nfc U h \<and> length v \<le> MAX_HANDLE_LEN \<and> is_single_script U v
     \<and> check_handle_chars U (utf8_chars v) = Inr ()"
  by (auto simp: validate_handle_def Let_def and_then_eq_Inr not_less split: if_splits)

lemma validate_handle_again:
  "nfc_laws U \<Longrightarrow> validate_handle U h = Inr v \<Longrightarrow> validate_handle U v = Inr v"
  by (auto simp: validate_handle_ok nfc_laws_def)

text \<open>The invariant of a leaf as the constructors and the deserializer establish it.\<close>

definition leaf_wf :: "Unicode \<Rightarrow> MemberLeaf \<Rightarrow> bool" where
  "leaf_wf U m \<longleftrightarrow>
     validate_handle U (ml_handle m) = Inr (ml_handle m)
     \<and> nfc U (ml_name m) = ml_name m \<and> length (ml_name m) \<le> MAX_NAME_LEN
     \<and> nfc U (ml_surname m) = ml_surname m \<and> length (ml_surname m) \<le> MAX_SURNAME_LEN
     \<and> slots_wf (ml_p2p_devices m)"

lemma member_leaf_new_ok:
  "member_leaf_new U i h k n s ds = Inr m \<longleftrightarrow>
     ds \<noteq> [] \<and> validate_handle U h = Inr (ml_handle m)
     \<and> length (nfc U n) \<le> MAX_NAME_LEN \<and> length (nfc U s) \<le> MAX_SURNAME_LEN
     \<and> device_slots_new ds = Inr (ml_p2p_devices m)
     \<and> ml_id m = i \<and> ml_p2p_key m = k \<and> ml_name m = nfc U n \<and> ml_surname m = nfc U s"
  by (cases m) (auto simp: member_leaf_new_def to_nfc_def Let_def and_then_eq_Inr not_less)

lemma member_leaf_new_wf:
  assumes "nfc_laws U" and "member_leaf_new U i h k n s ds = Inr m"
  shows "leaf_wf U m \<and> slots (ml_p2p_devices m) \<noteq> []"
proof -
  have "slots_wf (ml_p2p_devices m) \<and> set (slots (ml_p2p_devices m)) = set ds"
    using assms by (intro device_slots_new_wf) (simp add: member_leaf_new_ok)
  then show ?thesis
    using assms by (auto simp: member_leaf_new_ok leaf_wf_def nfc_laws_def
        intro: validate_handle_again)
qed

lemma device_slots_deserialize_ok:
  "device_slots_deserialize vk_ok bs = Inr s \<longleftrightarrow>
     list_all vk_ok bs \<and> slots_wf s \<and> slots s = map (\<lambda>b. P2pDeviceKey (VerifyingKey b)) bs"
proof -
  have "collect_results (map (device_key_deserialize vk_ok) bs) = Inr ks \<longleftrightarrow>
      list_all vk_ok bs \<and> ks = map (\<lambda>b. P2pDeviceKey (VerifyingKey b)) bs" for ks
    by (induction bs arbitrary: ks) (auto simp: device_key_deserialize_def and_then_eq_Inr)
  then show ?thesis
    by (cases s) (auto simp: device_slots_deserialize_def and_then_eq_Inr slots_wf_def
        strictly_increasing_iff)
qed

lemma member_leaf_deserialize_ok:
  "member_leaf_deserialize U vk_ok w = Inr m \<longleftrightarrow>
     vk_ok (mw_p2p_key w) \<and> device_slots_deserialize vk_ok (mw_p2p_devices w) = Inr (ml_p2p_devices m)
     \<and> validate_handle U (mw_handle w) = Inr (ml_handle m)
     \<and> length (nfc U (mw_name w)) \<le> MAX_NAME_LEN \<and> length (nfc U (mw_surname w)) \<le> MAX_SURNAME_LEN
     \<and> ml_id m = MemberId (mw_id w) \<and> ml_p2p_key m = P2pMemberKey (VerifyingKey (mw_p2p_key w))
     \<and> ml_name m = nfc U (mw_name w) \<and> ml_surname m = nfc U (mw_surname w)"
  by (cases m) (auto simp: member_leaf_deserialize_def member_key_deserialize_def to_nfc_def Let_def
      and_then_eq_Inr map_err_eq_Inr not_less)

lemma member_leaf_deserialize_wf:
  assumes "nfc_laws U" and "member_leaf_deserialize U vk_ok w = Inr m"
  shows "leaf_wf U m"
  using assms by (auto simp: member_leaf_deserialize_ok device_slots_deserialize_ok leaf_wf_def
      nfc_laws_def intro: validate_handle_again)

definition leaf_keys_ok :: "(bytes32 \<Rightarrow> bool) \<Rightarrow> MemberLeaf \<Rightarrow> bool" where
  "leaf_keys_ok vk_ok m \<longleftrightarrow>
     vk_ok (vk_word (member_verifying_key (ml_p2p_key m)))
     \<and> list_all (\<lambda>d. vk_ok (vk_word (device_verifying_key d))) (slots (ml_p2p_devices m))"

lemma member_leaf_serde_roundtrip:
  assumes "leaf_wf U m" and "leaf_keys_ok vk_ok m"
  shows "member_leaf_deserialize U vk_ok (member_leaf_serialize m) = Inr m"
proof -
  have "map (\<lambda>d. P2pDeviceKey (VerifyingKey (vk_word (device_verifying_key d)))) ds = ds" for ds
    by (simp add: map_idI)
  then show ?thesis
    using assms
    by (auto simp: member_leaf_deserialize_ok device_slots_deserialize_ok member_leaf_serialize_def
        leaf_wf_def leaf_keys_ok_def list.pred_map comp_def)
qed

text \<open>The canonical bytes determine every hashed field, as lengths stay below \<open>2 ^ 32\<close>.\<close>

lemma unat_of_nat_u32: "n < 2 ^ 32 \<Longrightarrow> unat (of_nat n :: u32) = n"
  by (rule of_nat_inverse) simp_all

lemma len_prefixed_inject:
  assumes "len_prefixed a @ c = len_prefixed b @ d"
    and "length a < 2 ^ 32" and "length b < 2 ^ 32"
  shows "a = b \<and> c = d"
proof -
  have "le_bytes 4 (of_nat (length a) :: u32) = le_bytes 4 (of_nat (length b) :: u32)
      \<and> a @ c = b @ d"
    using assms(1) by (simp add: len_prefixed_def)
  then have "(of_nat (length a) :: u32) = of_nat (length b)" and app: "a @ c = b @ d"
    by (simp_all add: le_bytes_inject)
  then have "length a = length b"
    using unat_of_nat_u32 [OF assms(2)] unat_of_nat_u32 [OF assms(3)] by metis
  then show ?thesis using app by simp
qed

definition leaf_bounded :: "MemberLeaf \<Rightarrow> bool" where
  "leaf_bounded m \<longleftrightarrow>
     length (ml_handle m) < 2 ^ 32 \<and> length (ml_name m) < 2 ^ 32 \<and> length (ml_surname m) < 2 ^ 32"

lemma leaf_wf_bounded: "leaf_wf U m \<Longrightarrow> leaf_bounded m"
  by (auto simp: leaf_wf_def leaf_bounded_def validate_handle_ok MAX_HANDLE_LEN_def
      MAX_NAME_LEN_def MAX_SURNAME_LEN_def)

lemma canonical_bytes_fields:
  assumes "leaf_bounded m" and "leaf_bounded n"
    and "canonical_bytes m r = canonical_bytes n q"
  shows "m\<lparr>ml_p2p_devices := ml_p2p_devices n\<rparr> = n \<and> r = q"
proof -
  have 1: "ml_id m = ml_id n \<and> len_prefixed (ml_handle m)
      @ member_key_as_bytes (ml_p2p_key m) @ len_prefixed (ml_name m)
      @ len_prefixed (ml_surname m) @ node_hash_as_bytes r =
      len_prefixed (ml_handle n)
      @ member_key_as_bytes (ml_p2p_key n) @ len_prefixed (ml_name n)
      @ len_prefixed (ml_surname n) @ node_hash_as_bytes q"
    using assms(3) by (simp add: canonical_bytes_def)
  then have 2: "ml_handle m = ml_handle n \<and> ml_p2p_key m = ml_p2p_key n
      \<and> len_prefixed (ml_name m) @ len_prefixed (ml_surname m) @ node_hash_as_bytes r =
          len_prefixed (ml_name n) @ len_prefixed (ml_surname n) @ node_hash_as_bytes q"
    using len_prefixed_inject [OF conjunct2 [OF 1]] assms by (simp add: leaf_bounded_def)
  then have 3: "ml_name m = ml_name n \<and>
      len_prefixed (ml_surname m) @ node_hash_as_bytes r =
      len_prefixed (ml_surname n) @ node_hash_as_bytes q"
    using len_prefixed_inject [OF conjunct2 [OF conjunct2 [OF 2]]] assms by (simp add: leaf_bounded_def)
  then have 4: "ml_surname m = ml_surname n \<and> r = q"
    using len_prefixed_inject [OF conjunct2 [OF 3]] assms
    by (simp add: leaf_bounded_def)
  show ?thesis using 1 2 3 4 by (cases m; cases n) simp
qed

end
