(* ===== verification/Hashing.thy ===== *)
theory Hashing
  imports Types
begin

text \<open>
  The hash interface of \<^verbatim>\<open>org-members\<close> (\<^verbatim>\<open>hasher.rs\<close>) and the device sub-trie (\<^verbatim>\<open>device_trie.rs\<close>).

  The trait \<^verbatim>\<open>TrieHasher\<close> is a record of its four functions. No injectivity is assumed of them
  anywhere: a theorem that rests on collision resistance ends in \<open>\<or> collides H Q\<close>, which says that
  two different queries of the set \<open>Q\<close> have the same answer, where \<open>Q\<close> is the set of the queries that
  hashing the tries of the statement makes. \<open>Blake3Hasher\<close> is the implementation over the
  third-party function \<^verbatim>\<open>blake3::keyed_hash\<close>, its argument.
\<close>

section \<open>The hasher\<close>

record TrieHasher =
  hash_member_leaf :: "bytes \<Rightarrow> NodeHash"
  hash_member_node :: "NodeHash \<Rightarrow> NodeHash \<Rightarrow> NodeHash"
  hash_device_leaf :: "bytes \<Rightarrow> NodeHash"
  hash_device_node :: "NodeHash \<Rightarrow> NodeHash \<Rightarrow> NodeHash"

text \<open>
  \<^verbatim>\<open>blake3::Hasher::new_keyed(k)\<close> followed by \<^verbatim>\<open>update\<close> calls hashes the concatenation of the updates
  under the key \<open>k\<close>.
\<close>

definition Blake3Hasher :: "(bytes \<Rightarrow> bytes \<Rightarrow> bytes32) \<Rightarrow> TrieHasher" where
  "Blake3Hasher keyed_hash =
     \<lparr>hash_member_leaf = (\<lambda>data. NodeHash (keyed_hash (rstr ''org-members::member-leaf________'') data)),
      hash_member_node = (\<lambda>left right. NodeHash (keyed_hash (rstr ''org-members::member-node________'')
        (node_hash_as_bytes left @ node_hash_as_bytes right))),
      hash_device_leaf = (\<lambda>data. NodeHash (keyed_hash (rstr ''org-members::device-leaf________'') data)),
      hash_device_node = (\<lambda>left right. NodeHash (keyed_hash (rstr ''org-members::device-node________'')
        (node_hash_as_bytes left @ node_hash_as_bytes right)))\<rparr>"

section \<open>The device sub-trie\<close>

definition DEVICE_EMPTY_SENTINEL :: bytes where
  "DEVICE_EMPTY_SENTINEL = rstr ''EMPTY_SENTINEL_ORG_MEMBERS_DEVICE_V1''"

definition device_empty_leaf_hash :: "TrieHasher \<Rightarrow> NodeHash" where
  "device_empty_leaf_hash H = hash_device_leaf H DEVICE_EMPTY_SENTINEL"

definition compute_device_root :: "TrieHasher \<Rightarrow> P2pDeviceSlots \<Rightarrow> NodeHash" where
  "compute_device_root H devs =
     (let slots = to_fixed_slots devs;
          empty_leaf = device_empty_leaf_hash H;
          leaves = map (\<lambda>i. case slots ! i of
                              Some device \<Rightarrow> hash_device_leaf H (device_key_as_bytes device)
                            | None \<Rightarrow> empty_leaf) [0..<4];
          level1_left = hash_device_node H (leaves ! 0) (leaves ! 1);
          level1_right = hash_device_node H (leaves ! 2) (leaves ! 3)
      in hash_device_node H level1_left level1_right)"

section \<open>Queries and collisions\<close>

datatype HashQuery =
    QMemberLeaf bytes
  | QMemberNode NodeHash NodeHash
  | QDeviceLeaf bytes
  | QDeviceNode NodeHash NodeHash

primrec answer :: "TrieHasher \<Rightarrow> HashQuery \<Rightarrow> NodeHash" where
  "answer H (QMemberLeaf d) = hash_member_leaf H d"
| "answer H (QMemberNode l r) = hash_member_node H l r"
| "answer H (QDeviceLeaf d) = hash_device_leaf H d"
| "answer H (QDeviceNode l r) = hash_device_node H l r"

text \<open>The key and the data \<^verbatim>\<open>Blake3Hasher\<close> hashes for a query.\<close>

primrec blake3_input :: "HashQuery \<Rightarrow> bytes \<times> bytes" where
  "blake3_input (QMemberLeaf d) = (rstr ''org-members::member-leaf________'', d)"
| "blake3_input (QMemberNode l r) = (rstr ''org-members::member-node________'',
     node_hash_as_bytes l @ node_hash_as_bytes r)"
| "blake3_input (QDeviceLeaf d) = (rstr ''org-members::device-leaf________'', d)"
| "blake3_input (QDeviceNode l r) = (rstr ''org-members::device-node________'',
     node_hash_as_bytes l @ node_hash_as_bytes r)"

definition collides :: "TrieHasher \<Rightarrow> HashQuery set \<Rightarrow> bool" where
  "collides H Q \<longleftrightarrow> (\<exists>q\<in>Q. \<exists>r\<in>Q. q \<noteq> r \<and> answer H q = answer H r)"

text \<open>The queries of \<open>compute_device_root\<close>.\<close>

definition slot_bytes :: "P2pDeviceKey option \<Rightarrow> bytes" where
  "slot_bytes s = (case s of Some d \<Rightarrow> device_key_as_bytes d | None \<Rightarrow> DEVICE_EMPTY_SENTINEL)"

definition device_queries :: "TrieHasher \<Rightarrow> P2pDeviceSlots \<Rightarrow> HashQuery set" where
  "device_queries H devs =
     (let leaves = map (hash_device_leaf H \<circ> slot_bytes) (to_fixed_slots devs);
          left = QDeviceNode (leaves ! 0) (leaves ! 1);
          right = QDeviceNode (leaves ! 2) (leaves ! 3)
      in set (map (QDeviceLeaf \<circ> slot_bytes) (to_fixed_slots devs))
         \<union> {left, right, QDeviceNode (answer H left) (answer H right)})"

lemma collides_mono: "collides H P \<Longrightarrow> P \<subseteq> Q \<Longrightarrow> collides H Q"
  unfolding collides_def by blast

text \<open>Without a collision, equal answers come from equal queries.\<close>

lemma no_collision_eq:
  assumes "\<not> collides H Q" and "q \<in> Q" and "r \<in> Q" and "answer H q = answer H r"
  shows "q = r"
  using assms unfolding collides_def by blast

lemma slot_bytes_inject: "slot_bytes s = slot_bytes t \<longleftrightarrow> s = t"
proof -
  have "length DEVICE_EMPTY_SENTINEL = 36" by (simp add: DEVICE_EMPTY_SENTINEL_def rstr_def)
  then have "device_key_as_bytes d \<noteq> DEVICE_EMPTY_SENTINEL" for d
    using length_as_bytes(3) [of d] by (intro notI) simp
  then show ?thesis by (auto simp: slot_bytes_def split: option.splits dest: sym)
qed

lemma fixed_slots_list:
  assumes "slots_wf s"
  obtains a b c d where "to_fixed_slots s = [a, b, c, d]"
proof -
  have "length (to_fixed_slots s) = 4"
    using slots_wfD(3) [OF assms] by (simp add: to_fixed_slots_eq [OF assms])
  then show ?thesis using that by (auto simp: numeral_eq_Suc length_Suc_conv)
qed

lemma to_fixed_slots_inject:
  assumes "slots_wf s" and "slots_wf t" and "to_fixed_slots s = to_fixed_slots t"
  shows "s = t"
proof -
  have set: "set (slots u) = {d. Some d \<in> set (to_fixed_slots u)}" if "slots_wf u" for u
    by (auto simp: to_fixed_slots_eq [OF that])
  have "set (slots s) = set (slots t)" by (simp only: set assms)
  then show ?thesis using assms slots_eqI by blast
qed

text \<open>The device root binds the device set.\<close>

lemma compute_device_root_binds:
  assumes wf: "slots_wf s" "slots_wf t"
    and eq: "compute_device_root H s = compute_device_root H t"
    and nc: "\<not> collides H Q" and Q: "device_queries H s \<subseteq> Q" "device_queries H t \<subseteq> Q"
  shows "s = t"
proof -
  obtain a b c d where s: "to_fixed_slots s = [a, b, c, d]" using wf(1) by (rule fixed_slots_list)
  obtain a' b' c' d' where t: "to_fixed_slots t = [a', b', c', d']"
    using wf(2) by (rule fixed_slots_list)
  let ?n = "\<lambda>x y. QDeviceNode (hash_device_leaf H (slot_bytes x)) (hash_device_leaf H (slot_bytes y))"
  let ?r = "\<lambda>w x y z. QDeviceNode (answer H (?n w x)) (answer H (?n y z))"
  have root: "compute_device_root H u = answer H (?r w x y z)"
    if "to_fixed_slots u = [w, x, y, z]" for u w x y z
  proof -
    have leaf: "(case v of Some device \<Rightarrow> hash_device_leaf H (device_key_as_bytes device)
        | None \<Rightarrow> device_empty_leaf_hash H) = hash_device_leaf H (slot_bytes v)" for v
      by (simp add: slot_bytes_def device_empty_leaf_hash_def split: option.split)
    show ?thesis by (simp add: compute_device_root_def that leaf numeral_eq_Suc)
  qed
  have Qs: "?r a b c d \<in> Q" "?n a b \<in> Q" "?n c d \<in> Q"
      "QDeviceLeaf (slot_bytes a) \<in> Q" "QDeviceLeaf (slot_bytes b) \<in> Q"
      "QDeviceLeaf (slot_bytes c) \<in> Q" "QDeviceLeaf (slot_bytes d) \<in> Q"
    using Q(1) by (simp_all add: device_queries_def s)
  have Qt: "?r a' b' c' d' \<in> Q" "?n a' b' \<in> Q" "?n c' d' \<in> Q"
      "QDeviceLeaf (slot_bytes a') \<in> Q" "QDeviceLeaf (slot_bytes b') \<in> Q"
      "QDeviceLeaf (slot_bytes c') \<in> Q" "QDeviceLeaf (slot_bytes d') \<in> Q"
    using Q(2) by (simp_all add: device_queries_def t)
  note step = no_collision_eq [OF nc]
  have "?r a b c d = ?r a' b' c' d'"
    using eq by (intro step Qs Qt) (simp only: root [OF s] root [OF t])
  then have l: "?n a b = ?n a' b'" and r: "?n c d = ?n c' d'"
    using step [OF Qs(2) Qt(2)] step [OF Qs(3) Qt(3)] by simp_all
  have "QDeviceLeaf (slot_bytes a) = QDeviceLeaf (slot_bytes a')"
    and "QDeviceLeaf (slot_bytes b) = QDeviceLeaf (slot_bytes b')"
    and "QDeviceLeaf (slot_bytes c) = QDeviceLeaf (slot_bytes c')"
    and "QDeviceLeaf (slot_bytes d) = QDeviceLeaf (slot_bytes d')"
    using l r step [OF Qs(4) Qt(4)] step [OF Qs(5) Qt(5)] step [OF Qs(6) Qt(6)]
      step [OF Qs(7) Qt(7)] by simp_all
  then show "s = t"
    using wf s t by (intro to_fixed_slots_inject) (simp_all add: slot_bytes_inject)
qed

section \<open>Domain separation of the Blake3 hasher\<close>

lemma blake3_input_inject: "blake3_input q = blake3_input r \<longleftrightarrow> q = r"
  by (cases q; cases r) (auto simp: rstr_def)

lemma answer_blake3:
  "answer (Blake3Hasher keyed_hash) q = NodeHash (case_prod keyed_hash (blake3_input q))"
  by (cases q) (simp_all add: Blake3Hasher_def)

text \<open>
  Domain separation. Every query of the trie is one keyed Blake3 computation, and two different
  queries (of the same kind or of different kinds) differ in the key or in the data.
\<close>

theorem blake3_domain_separation:
  "answer (Blake3Hasher keyed_hash) q = NodeHash (case_prod keyed_hash (blake3_input q))
   \<and> (blake3_input q = blake3_input r \<longleftrightarrow> q = r)"
  using answer_blake3 blake3_input_inject by blast

end
