(* ===== verification/Smt.thy ===== *)
theory Smt
  imports Hashing
begin

text \<open>
  The sparse Merkle tree of \<^verbatim>\<open>org-members\<close> (\<^verbatim>\<open>node.rs\<close>, \<^verbatim>\<open>smt.rs\<close>).

  A \<open>Node\<close> is its hash cell (\<^verbatim>\<open>Once<NodeHash>\<close>: \<open>None\<close> until set) and its kind. \<^verbatim>\<open>Arc\<close> sharing is not
  visible in the results: \<open>recalculate_hashes\<close> returns the node with its cells filled, where the source
  fills the shared cells in place, and the invariant \<open>node_wf\<close> allows a cell to be filled or not.
  \<^verbatim>\<open>depth\<close> counts from 0; the guard \<^verbatim>\<open>depth == SMT_DEPTH\<close> of \<open>insert_at\<close> is written \<open>depth \<ge> SMT_DEPTH\<close>,
  which is the same on the depths the code reaches (from 0 in steps of 1).

  The reference semantics is the dense tree: \<open>lookup\<close> reads a node as a partial map on bit paths and
  \<open>dense_hash\<close> is the Merkle root of the complete tree with \<open>2 ^ 256\<close> leaf slots. The lemmas show that
  the sparse, cached tree computes exactly that root, that insertion and removal are map updates,
  that collection is in id order, that the root binds the map and that \<open>diff_tries\<close> returns exactly
  the differences (each up to an exhibited hash collision).
\<close>

section \<open>Nodes\<close>

record LeafPayload =
  lp_member :: MemberLeaf
  lp_device_root :: NodeHash

datatype Node = Node (hash_cell: "NodeHash option") (kind: NodeKind)
  and NodeKind = Internal Node Node | Leaf LeafPayload | Empty

definition node_internal :: "Node \<Rightarrow> Node \<Rightarrow> Node" where
  "node_internal left right = Node None (Internal left right)"

definition node_leaf :: "MemberLeaf \<Rightarrow> NodeHash \<Rightarrow> Node" where
  "node_leaf member device_root =
     Node None (Leaf \<lparr>lp_member = member, lp_device_root = device_root\<rparr>)"

definition node_empty :: "NodeHash \<Rightarrow> Node" where
  "node_empty h = Node (Some h) Empty"

text \<open>\<^verbatim>\<open>Once::call_once\<close>: the first value stays.\<close>

definition set_hash :: "Node \<Rightarrow> NodeHash \<Rightarrow> Node" where
  "set_hash n h = (case hash_cell n of None \<Rightarrow> Node (Some h) (kind n) | Some _ \<Rightarrow> n)"

section \<open>Default hashes\<close>

definition SMT_DEPTH :: nat where "SMT_DEPTH = 256"

definition MEMBER_EMPTY_SENTINEL :: bytes where
  "MEMBER_EMPTY_SENTINEL = rstr ''EMPTY_SENTINEL_ORG_MEMBERS_V1''"

datatype DefaultHashes = DefaultHashes (hashes: "NodeHash list")

definition default_hashes_compute :: "TrieHasher \<Rightarrow> DefaultHashes" where
  "default_hashes_compute H =
     DefaultHashes (fold (\<lambda>i hashes. let prev = hashes ! (i - 1) in hashes @ [hash_member_node H prev prev])
       [1..<SMT_DEPTH + 1] [hash_member_leaf H MEMBER_EMPTY_SENTINEL])"

definition at_level :: "DefaultHashes \<Rightarrow> nat \<Rightarrow> NodeHash" where
  "at_level d level = hashes d ! level"

definition empty_leaf :: "DefaultHashes \<Rightarrow> NodeHash" where
  "empty_leaf d = hashes d ! 0"

section \<open>Operations\<close>

definition empty_root :: "DefaultHashes \<Rightarrow> Node" where
  "empty_root defaults = node_empty (at_level defaults SMT_DEPTH)"

function insert_at :: "Node \<Rightarrow> MemberId \<Rightarrow> Node \<Rightarrow> nat \<Rightarrow> DefaultHashes \<Rightarrow> Node" where
  "insert_at node i new_leaf depth defaults =
     (if depth \<ge> SMT_DEPTH then new_leaf
      else
        let go_right = member_bit i depth;
            (left, right) =
              (case kind node of
                 Internal left right \<Rightarrow> (left, right)
               | _ \<Rightarrow> let default_child = node_empty (at_level defaults (SMT_DEPTH - depth - 1))
                      in (default_child, default_child));
            (new_left, new_right) =
              (if go_right then (left, insert_at right i new_leaf (depth + 1) defaults)
               else (insert_at left i new_leaf (depth + 1) defaults, right))
        in node_internal new_left new_right)"
  by pat_completeness auto
termination
  by (relation "measure (\<lambda>(_, _, _, depth, _). SMT_DEPTH - depth)") auto

definition smt_insert :: "TrieHasher \<Rightarrow> Node \<Rightarrow> MemberLeaf \<Rightarrow> DefaultHashes \<Rightarrow> Node" where
  "smt_insert H root member defaults =
     (let i = ml_id member;
          device_root = compute_device_root H (ml_p2p_devices member);
          new_leaf = node_leaf member device_root
      in insert_at root i new_leaf 0 defaults)"

definition smt_remove :: "Node \<Rightarrow> MemberId \<Rightarrow> DefaultHashes \<Rightarrow> Node" where
  "smt_remove root i defaults = insert_at root i (node_empty (empty_leaf defaults)) 0 defaults"

fun recalculate_hashes :: "TrieHasher \<Rightarrow> Node \<Rightarrow> OrgMembersError + NodeHash \<times> Node" where
  "recalculate_hashes H (Node (Some h) k) = Inr (h, Node (Some h) k)"
| "recalculate_hashes H (Node None (Internal left right)) =
     and_then (recalculate_hashes H left) (\<lambda>(left_hash, left').
     and_then (recalculate_hashes H right) (\<lambda>(right_hash, right').
       let computed = hash_member_node H left_hash right_hash
       in Inr (computed, set_hash (Node None (Internal left' right')) computed)))"
| "recalculate_hashes H (Node None (Leaf payload)) =
     (let canonical = canonical_bytes (lp_member payload) (lp_device_root payload);
          computed = hash_member_leaf H canonical
      in Inr (computed, set_hash (Node None (Leaf payload)) computed))"
| "recalculate_hashes H (Node None Empty) = Inl InvariantViolated"

text \<open>The loop of \<^verbatim>\<open>get_member\<close> from a given depth.\<close>

function get_member_from :: "Node \<Rightarrow> MemberId \<Rightarrow> nat \<Rightarrow> MemberLeaf option" where
  "get_member_from current i depth =
     (if depth < SMT_DEPTH then
        (case kind current of
           Internal left right \<Rightarrow>
             get_member_from (if member_bit i depth then right else left) i (depth + 1)
         | Empty \<Rightarrow> None
         | Leaf _ \<Rightarrow> None)
      else (case kind current of Leaf payload \<Rightarrow> Some (lp_member payload) | _ \<Rightarrow> None))"
  by pat_completeness auto
termination
  by (relation "measure (\<lambda>(_, _, depth). SMT_DEPTH - depth)") auto

definition get_member :: "Node \<Rightarrow> MemberId \<Rightarrow> MemberLeaf option" where
  "get_member root i = get_member_from root i 0"

fun collect_members_recursive :: "Node \<Rightarrow> MemberLeaf list \<Rightarrow> MemberLeaf list" where
  "collect_members_recursive (Node h (Internal left right)) members =
     collect_members_recursive right (collect_members_recursive left members)"
| "collect_members_recursive (Node h (Leaf payload)) members = members @ [lp_member payload]"
| "collect_members_recursive (Node h Empty) members = members"

definition collect_members :: "Node \<Rightarrow> MemberLeaf list" where
  "collect_members root = collect_members_recursive root []"

lemma size_children:
  "kind n = Internal l r \<Longrightarrow> size l < size n \<and> size r < size n"
  by (cases n) auto

function diff_recursive ::
  "Node \<Rightarrow> Node \<Rightarrow> MemberId list \<times> MemberLeaf list \<Rightarrow> MemberId list \<times> MemberLeaf list" where
  "diff_recursive old new (removed, upserted) =
     (if (case (hash_cell old, hash_cell new) of
            (Some old_h, Some new_h) \<Rightarrow> old_h = new_h | _ \<Rightarrow> False)
      then (removed, upserted)
      else
        case kind old of
          Internal ol orr \<Rightarrow>
            (case kind new of
               Internal nl nr \<Rightarrow> diff_recursive orr nr (diff_recursive ol nl (removed, upserted))
             | _ \<Rightarrow> diff_recursive orr new (diff_recursive ol new (removed, upserted)))
        | Leaf old_p \<Rightarrow>
            (case kind new of
               Leaf new_p \<Rightarrow>
                 if lp_member old_p \<noteq> lp_member new_p
                 then (removed, upserted @ [lp_member new_p]) else (removed, upserted)
             | Empty \<Rightarrow> (removed @ [ml_id (lp_member old_p)], upserted)
             | Internal left right \<Rightarrow>
                 diff_recursive old right (diff_recursive old left (removed, upserted)))
        | Empty \<Rightarrow>
            (case kind new of
               Leaf payload \<Rightarrow> (removed, upserted @ [lp_member payload])
             | Empty \<Rightarrow> (removed, upserted)
             | Internal left right \<Rightarrow>
                 diff_recursive old right (diff_recursive old left (removed, upserted))))"
  by pat_completeness auto

termination
  by (relation "measure (\<lambda>(old, new, _). size old + size new)")
    (auto dest!: size_children)

definition diff_tries :: "Node \<Rightarrow> Node \<Rightarrow> MemberId list \<times> MemberLeaf list" where
  "diff_tries old new = diff_recursive old new ([], [])"

declare insert_at.simps [simp del] get_member_from.simps [simp del] diff_recursive.simps [simp del]

section \<open>The dense reference tree\<close>

text \<open>A node as a partial map on bit paths.\<close>

fun node_lookup :: "Node \<Rightarrow> bool list \<Rightarrow> MemberLeaf option" where
  "node_lookup (Node h (Internal l r)) [] = None"
| "node_lookup (Node h (Internal l r)) (b # p) = node_lookup (if b then r else l) p"
| "node_lookup (Node h (Leaf payload)) p = (if p = [] then Some (lp_member payload) else None)"
| "node_lookup (Node h Empty) p = None"

definition id_path :: "MemberId \<Rightarrow> bool list" where
  "id_path i = map (member_bit i) [0..<SMT_DEPTH]"

text \<open>The query that hashes one leaf slot.\<close>

definition slot_query :: "TrieHasher \<Rightarrow> MemberLeaf option \<Rightarrow> HashQuery" where
  "slot_query H s =
     QMemberLeaf (case s of
         None \<Rightarrow> MEMBER_EMPTY_SENTINEL
       | Some m \<Rightarrow> canonical_bytes m (compute_device_root H (ml_p2p_devices m)))"

text \<open>
  The Merkle root of the complete binary tree of depth \<open>k\<close> whose leaf slot at path \<open>p\<close> holds
  \<open>f p\<close>, as the last query made to compute it.
\<close>

primrec dense_query :: "TrieHasher \<Rightarrow> nat \<Rightarrow> (bool list \<Rightarrow> MemberLeaf option) \<Rightarrow> HashQuery" where
  "dense_query H 0 f = slot_query H (f [])"
| "dense_query H (Suc k) f =
     QMemberNode (answer H (dense_query H k (\<lambda>p. f (False # p))))
       (answer H (dense_query H k (\<lambda>p. f (True # p))))"

definition dense_hash :: "TrieHasher \<Rightarrow> nat \<Rightarrow> (bool list \<Rightarrow> MemberLeaf option) \<Rightarrow> NodeHash" where
  "dense_hash H k f = answer H (dense_query H k f)"

text \<open>All the queries made to compute it, those of the device sub-tries included.\<close>

primrec dense_queries ::
  "TrieHasher \<Rightarrow> nat \<Rightarrow> (bool list \<Rightarrow> MemberLeaf option) \<Rightarrow> HashQuery set" where
  "dense_queries H 0 f =
     {slot_query H (f [])}
     \<union> (case f [] of None \<Rightarrow> {} | Some m \<Rightarrow> device_queries H (ml_p2p_devices m))"
| "dense_queries H (Suc k) f =
     {dense_query H (Suc k) f}
     \<union> dense_queries H k (\<lambda>p. f (False # p)) \<union> dense_queries H k (\<lambda>p. f (True # p))"

text \<open>
  The invariant of a node at height \<open>k\<close>: leaves at height 0 only, empty nodes with the default hash
  of their height, and every filled cell holds the hash of the dense tree.
\<close>

fun node_wf :: "TrieHasher \<Rightarrow> nat \<Rightarrow> Node \<Rightarrow> bool" where
  "node_wf H k (Node h (Internal l r)) =
     (k > 0 \<and> node_wf H (k - 1) l \<and> node_wf H (k - 1) r
      \<and> (h = None \<or> h = Some (dense_hash H k (node_lookup (Node h (Internal l r))))))"
| "node_wf H k (Node h (Leaf payload)) =
     (k = 0
      \<and> lp_device_root payload = compute_device_root H (ml_p2p_devices (lp_member payload))
      \<and> (h = None \<or> h = Some (answer H (slot_query H (Some (lp_member payload))))))"
| "node_wf H k (Node h Empty) = (h = Some (dense_hash H k (\<lambda>_. None)))"

lemma dense_hash_simps [simp]:
  "dense_hash H 0 f = answer H (slot_query H (f []))"
  "dense_hash H (Suc k) f =
     hash_member_node H (dense_hash H k (\<lambda>p. f (False # p))) (dense_hash H k (\<lambda>p. f (True # p)))"
  by (simp_all add: dense_hash_def)

lemma dense_query_in: "dense_query H k f \<in> dense_queries H k f"
  by (cases k) simp_all

lemma node_lookup_cell: "node_lookup (Node h K) = node_lookup (Node g K)"
proof
  show "node_lookup (Node h K) p = node_lookup (Node g K) p" for p
    by (cases K; cases p) simp_all
qed

lemma node_lookup_Internal:
  "(\<lambda>p. node_lookup (Node h (Internal l r)) (False # p)) = node_lookup l"
  "(\<lambda>p. node_lookup (Node h (Internal l r)) (True # p)) = node_lookup r"
  by simp_all

lemma node_lookup_Empty: "node_lookup (Node h Empty) = (\<lambda>_. None)"
  by (rule ext) simp

lemma node_lookup_length:
  "node_wf H k n \<Longrightarrow> node_lookup n p = Some m \<Longrightarrow> length p = k"
  by (induction n p arbitrary: k rule: node_lookup.induct) (auto split: if_splits)

section \<open>Default hashes and cached hashes\<close>

lemma default_hashes_compute_prefix:
  "fold (\<lambda>i hashes. let prev = hashes ! (i - 1) in hashes @ [hash_member_node H prev prev])
     [1..<k + 1] [hash_member_leaf H MEMBER_EMPTY_SENTINEL]
   = map (\<lambda>k. dense_hash H k (\<lambda>_. None)) [0..<k + 1]"
proof (induction k)
  case 0
  then show ?case by (simp add: slot_query_def)
next
  case (Suc k)
  then show ?case by (simp add: Let_def nth_append)
qed

lemma at_level_default:
  assumes "k \<le> SMT_DEPTH"
  shows "at_level (default_hashes_compute H) k = dense_hash H k (\<lambda>_. None)"
proof -
  have "hashes (default_hashes_compute H) = map (\<lambda>k. dense_hash H k (\<lambda>_. None)) [0..<SMT_DEPTH + 1]"
    using default_hashes_compute_prefix [of H SMT_DEPTH] by (simp add: default_hashes_compute_def)
  then show ?thesis using assms by (simp add: at_level_def nth_append del: upt_Suc dense_hash_simps)
qed

lemma empty_leaf_default: "empty_leaf (default_hashes_compute H) = dense_hash H 0 (\<lambda>_. None)"
  using at_level_default [of 0 H] by (simp add: at_level_def empty_leaf_def)

lemma node_wf_cell:
  assumes "node_wf H k n" and "hash_cell n = Some h"
  shows "h = dense_hash H k (node_lookup n)"
proof (cases n)
  case (Node c K)
  then show ?thesis
    using assms by (cases K) (auto simp: node_lookup_Empty simp del: node_lookup.simps dense_hash_simps
      simp: dense_hash_simps(1) node_lookup.simps(3))
qed

text \<open>Recalculation succeeds on a well-formed node and computes the dense root.\<close>

lemma recalculate_hashes_correct:
  assumes "node_wf H k n"
  shows "\<exists>n'. recalculate_hashes H n = Inr (dense_hash H k (node_lookup n), n')
     \<and> node_wf H k n' \<and> node_lookup n' = node_lookup n
     \<and> hash_cell n' = Some (dense_hash H k (node_lookup n))"
  using assms
proof (induction H n arbitrary: k rule: recalculate_hashes.induct)
  case (1 H h K)
  then have "h = dense_hash H k (node_lookup (Node (Some h) K))"
    by (intro node_wf_cell) simp_all
  then show ?case using 1 by simp
next
  case (2 H l r)
  then obtain j where k: "k = Suc j" and wf: "node_wf H j l" "node_wf H j r"
    by (auto simp: gr0_conv_Suc)
  from "2.IH"(1) [OF wf(1)] obtain l' where
    l: "recalculate_hashes H l = Inr (dense_hash H j (node_lookup l), l')"
      "node_wf H j l'" "node_lookup l' = node_lookup l" by blast
  have "\<exists>r'. recalculate_hashes H r = Inr (dense_hash H j (node_lookup r), r')
      \<and> node_wf H j r' \<and> node_lookup r' = node_lookup r
      \<and> hash_cell r' = Some (dense_hash H j (node_lookup r))"
    using "2.IH"(2) wf(2) by blast
  then obtain r' where
    r: "recalculate_hashes H r = Inr (dense_hash H j (node_lookup r), r')"
      "node_wf H j r'" "node_lookup r' = node_lookup r" by blast
  have look: "node_lookup (Node h (Internal l' r')) = node_lookup (Node g (Internal l r))" for h g
  proof
    show "node_lookup (Node h (Internal l' r')) p = node_lookup (Node g (Internal l r)) p" for p
      using l r by (cases p) simp_all
  qed
  show ?case
    using l r k
    by (simp add: set_hash_def Let_def look [of _ None] node_lookup_Internal del: node_lookup.simps)
next
  case (3 H payload)
  then show ?case
    by (auto simp: set_hash_def Let_def slot_query_def intro!: ext)
qed simp

section \<open>Insertion, removal and lookup\<close>

lemma length_id_path [simp]: "length (id_path i) = SMT_DEPTH"
  by (simp add: id_path_def)

lemma drop_id_path:
  assumes "depth < SMT_DEPTH"
  shows "drop depth (id_path i) = member_bit i depth # drop (Suc depth) (id_path i)"
proof -
  have "id_path i ! depth = member_bit i depth"
    using assms by (simp add: id_path_def)
  then show ?thesis
    using assms Cons_nth_drop_Suc [of depth "id_path i"] by simp
qed

lemma id_path_inject: "id_path i = id_path j \<longleftrightarrow> i = j"
  by (auto simp: id_path_def SMT_DEPTH_def member_id_eq_bits [of i j])

lemma get_member_from_lookup:
  "depth \<le> SMT_DEPTH \<Longrightarrow> get_member_from n i depth = node_lookup n (drop depth (id_path i))"
proof (induction n i depth rule: get_member_from.induct)
  case (1 n i depth)
  obtain c K where n: "n = Node c K" by (cases n)
  show ?case
  proof (cases "depth < SMT_DEPTH")
    case True
    with 1 show ?thesis
      by (subst get_member_from.simps) (auto simp: n drop_id_path split: NodeKind.split)
  next
    case False
    with 1 show ?thesis
      by (subst get_member_from.simps) (auto simp: n split: NodeKind.split)
  qed
qed

lemma get_member_lookup: "get_member root i = node_lookup root (id_path i)"
  by (simp add: get_member_def get_member_from_lookup)

lemma insert_at_step:
  assumes "depth < SMT_DEPTH"
  obtains l r where
    "insert_at n i leaf depth D =
       (if member_bit i depth then node_internal l (insert_at r i leaf (Suc depth) D)
        else node_internal (insert_at l i leaf (Suc depth) D) r)"
    and "\<And>b p. node_lookup n (b # p) = node_lookup (if b then r else l) p"
    and "D = default_hashes_compute H \<Longrightarrow> node_wf H (SMT_DEPTH - depth) n
      \<Longrightarrow> node_wf H (SMT_DEPTH - Suc depth) l \<and> node_wf H (SMT_DEPTH - Suc depth) r"
proof (cases "kind n")
  case (Internal l r)
  then obtain c where n: "n = Node c (Internal l r)" by (cases n) simp
  have "insert_at n i leaf depth D =
      (if member_bit i depth then node_internal l (insert_at r i leaf (Suc depth) D)
       else node_internal (insert_at l i leaf (Suc depth) D) r)"
    using assms by (subst insert_at.simps) (simp add: n)
  then show ?thesis by (rule that) (simp_all add: n)
next
  case (Leaf payload)
  then obtain c where n: "n = Node c (Leaf payload)" by (cases n) simp
  let ?c = "node_empty (at_level D (SMT_DEPTH - depth - 1))"
  have "insert_at n i leaf depth D =
      (if member_bit i depth then node_internal ?c (insert_at ?c i leaf (Suc depth) D)
       else node_internal (insert_at ?c i leaf (Suc depth) D) ?c)"
    using assms by (subst insert_at.simps) (simp add: n Let_def)
  then show ?thesis by (rule that) (use assms in \<open>simp_all add: n node_empty_def\<close>)
next
  case Empty
  then obtain c where n: "n = Node c Empty" by (cases n) simp
  let ?c = "node_empty (at_level D (SMT_DEPTH - depth - 1))"
  have "insert_at n i leaf depth D =
      (if member_bit i depth then node_internal ?c (insert_at ?c i leaf (Suc depth) D)
       else node_internal (insert_at ?c i leaf (Suc depth) D) ?c)"
    using assms by (subst insert_at.simps) (simp add: n Let_def)
  then show ?thesis
    by (rule that) (use assms in \<open>simp_all add: n node_empty_def at_level_default\<close>)
qed

lemma insert_at_lookup:
  "depth \<le> SMT_DEPTH \<Longrightarrow> length p = SMT_DEPTH - depth \<Longrightarrow>
     node_lookup (insert_at n i leaf depth D) p =
       (if p = drop depth (id_path i) then node_lookup leaf [] else node_lookup n p)"
proof (induction "SMT_DEPTH - depth" arbitrary: n depth p)
  case 0
  then show ?case by (simp add: insert_at.simps [of n])
next
  case (Suc k)
  then have depth: "depth < SMT_DEPTH" by simp
  obtain l r where step: "insert_at n i leaf depth D =
       (if member_bit i depth then node_internal l (insert_at r i leaf (Suc depth) D)
        else node_internal (insert_at l i leaf (Suc depth) D) r)"
    and look: "\<And>b p. node_lookup n (b # p) = node_lookup (if b then r else l) p"
    using insert_at_step [OF depth] by metis
  from Suc obtain b q where p: "p = b # q" by (cases p) auto
  have IH: "node_lookup (insert_at m i leaf (Suc depth) D) q =
      (if q = drop (Suc depth) (id_path i) then node_lookup leaf [] else node_lookup m q)" for m
    using Suc.hyps(2) Suc.prems by (intro Suc.hyps(1)) (auto simp: p)
  show ?case
    using look [of b q] IH [of l] IH [of r]
    by (cases b; cases "member_bit i depth") (simp_all add: p step drop_id_path [OF depth] node_internal_def)
qed

lemma insert_at_wf:
  "depth \<le> SMT_DEPTH \<Longrightarrow> node_wf H (SMT_DEPTH - depth) n \<Longrightarrow> node_wf H 0 leaf \<Longrightarrow>
     node_wf H (SMT_DEPTH - depth) (insert_at n i leaf depth (default_hashes_compute H))"
proof (induction "SMT_DEPTH - depth" arbitrary: n depth)
  case 0
  then show ?case by (simp add: insert_at.simps [of n])
next
  case (Suc k)
  let ?D = "default_hashes_compute H"
  from Suc have depth: "depth < SMT_DEPTH" by simp
  obtain l r where step: "insert_at n i leaf depth ?D =
       (if member_bit i depth then node_internal l (insert_at r i leaf (Suc depth) ?D)
        else node_internal (insert_at l i leaf (Suc depth) ?D) r)"
    and wf: "node_wf H (SMT_DEPTH - Suc depth) l \<and> node_wf H (SMT_DEPTH - Suc depth) r"
    using insert_at_step [OF depth] Suc.prems(2) by metis
  have "node_wf H (SMT_DEPTH - Suc depth) (insert_at m i leaf (Suc depth) ?D)"
    if "node_wf H (SMT_DEPTH - Suc depth) m" for m
    using Suc that by (intro Suc.hyps(1)) auto
  then show ?case using wf depth by (simp add: step node_internal_def)
qed

text \<open>The invariant of a root: well-formed nodes, and each leaf at the path of its own id.\<close>

definition smt_wf :: "TrieHasher \<Rightarrow> Node \<Rightarrow> bool" where
  "smt_wf H root \<longleftrightarrow> node_wf H SMT_DEPTH root
     \<and> (\<forall>p m. node_lookup root p = Some m \<longrightarrow> p = id_path (ml_id m))"

lemma insert_at_root:
  assumes wf: "smt_wf H root" and leaf: "node_wf H 0 leaf"
    and i: "\<And>m. node_lookup leaf [] = Some m \<Longrightarrow> ml_id m = i"
  shows "smt_wf H (insert_at root i leaf 0 (default_hashes_compute H))"
    and "get_member (insert_at root i leaf 0 (default_hashes_compute H)) =
      (get_member root)(i := node_lookup leaf [])"
proof -
  let ?n = "insert_at root i leaf 0 (default_hashes_compute H)"
  have nwf: "node_wf H SMT_DEPTH ?n"
    using insert_at_wf [of 0 H root leaf i] wf leaf by (simp add: smt_wf_def)
  have look: "node_lookup ?n p =
      (if p = id_path i then node_lookup leaf [] else node_lookup root p)" if "length p = SMT_DEPTH" for p
    using insert_at_lookup [of 0 p root i leaf] that by simp
  show "smt_wf H ?n"
    unfolding smt_wf_def
  proof (intro conjI nwf allI impI)
    fix p m
    assume p: "node_lookup ?n p = Some m"
    then have "length p = SMT_DEPTH" using node_lookup_length [OF nwf] by blast
    then show "p = id_path (ml_id m)"
      using p look [of p] wf i [of m] by (auto simp: smt_wf_def split: if_splits)
  qed
  show "get_member ?n = (get_member root)(i := node_lookup leaf [])"
    by (rule ext) (simp add: get_member_lookup look id_path_inject)
qed

lemma empty_root_wf: "smt_wf H (empty_root (default_hashes_compute H))"
  by (simp add: smt_wf_def empty_root_def node_empty_def at_level_default)

lemma get_member_empty_root [simp]: "get_member (empty_root D) = (\<lambda>_. None)"
  by (rule ext) (simp add: get_member_lookup empty_root_def node_empty_def)

lemma smt_insert_wf:
  assumes "smt_wf H root"
  shows "smt_wf H (smt_insert H root m (default_hashes_compute H))"
  unfolding smt_insert_def Let_def
  by (rule insert_at_root [OF assms]) (simp_all add: node_leaf_def)

lemma get_member_insert:
  assumes "smt_wf H root"
  shows "get_member (smt_insert H root m (default_hashes_compute H)) = (get_member root)(ml_id m \<mapsto> m)"
  unfolding smt_insert_def Let_def
  by (subst insert_at_root [OF assms]) (simp_all add: node_leaf_def)

lemma smt_remove_wf:
  assumes "smt_wf H root"
  shows "smt_wf H (smt_remove root i (default_hashes_compute H))"
  unfolding smt_remove_def
  by (rule insert_at_root [OF assms])
    (simp_all add: node_empty_def empty_leaf_default)

lemma get_member_remove:
  assumes "smt_wf H root"
  shows "get_member (smt_remove root i (default_hashes_compute H)) = (get_member root)(i := None)"
  unfolding smt_remove_def
  by (subst insert_at_root [OF assms])
    (simp_all add: node_empty_def empty_leaf_default)

lemma get_member_id: "smt_wf H root \<Longrightarrow> get_member root i = Some m \<Longrightarrow> ml_id m = i"
  by (metis smt_wf_def get_member_lookup id_path_inject)

section \<open>Collection in id order\<close>

definition placed :: "bool list \<Rightarrow> Node \<Rightarrow> bool" where
  "placed pre n \<longleftrightarrow> (\<forall>p m. node_lookup n p = Some m \<longrightarrow> id_path (ml_id m) = pre @ p)"

lemma placed_children:
  assumes "placed pre (Node h (Internal l r))"
  shows "placed (pre @ [False]) l" and "placed (pre @ [True]) r"
  using assms [unfolded placed_def, rule_format, of "False # _"]
    assms [unfolded placed_def, rule_format, of "True # _"]
  by (simp_all add: placed_def)

lemma smt_wf_placed: "smt_wf H root \<Longrightarrow> placed [] root"
  by (simp add: smt_wf_def placed_def)

lemma node_induct [case_names Internal Leaf Empty]:
  assumes "\<And>h l r. P l \<Longrightarrow> P r \<Longrightarrow> P (Node h (Internal l r))"
    and "\<And>h payload. P (Node h (Leaf payload))" and "\<And>h. P (Node h Empty)"
  shows "P n"
  using assms Node.induct [of "\<lambda>k. \<forall>h. P (Node h k)" P n] by blast

lemma collect_members_recursive_append:
  "collect_members_recursive n ms = ms @ collect_members_recursive n []"
proof (induction n arbitrary: ms rule: node_induct)
  case (Internal h l r)
  show ?case
    by (simp add: Internal(1) [of ms] Internal(2) [of "collect_members_recursive l []"]
        Internal(2) [of "ms @ _"])
qed simp_all

lemma collect_members_simps [simp]:
  "collect_members (Node h (Internal l r)) = collect_members l @ collect_members r"
  "collect_members (Node h (Leaf payload)) = [lp_member payload]"
  "collect_members (Node h Empty) = []"
  using collect_members_recursive_append [of r "collect_members_recursive l []"]
  by (simp_all add: collect_members_def)

lemma node_lookup_Internal_ex:
  "(\<exists>p. node_lookup (Node h (Internal l r)) p = Some m) \<longleftrightarrow>
      (\<exists>p. node_lookup l p = Some m) \<or> (\<exists>p. node_lookup r p = Some m)" (is "?L \<longleftrightarrow> ?R")
proof
  assume ?L
  then obtain p where p: "node_lookup (Node h (Internal l r)) p = Some m" ..
  then show ?R by (cases p) (auto split: if_splits)
next
  have "node_lookup l p = node_lookup (Node h (Internal l r)) (False # p)"
    and "node_lookup r p = node_lookup (Node h (Internal l r)) (True # p)" for p by simp_all
  then show "?R \<Longrightarrow> ?L" by metis
qed

lemma set_collect_members: "m \<in> set (collect_members n) \<longleftrightarrow> (\<exists>p. node_lookup n p = Some m)"
  by (induction n rule: node_induct) (auto simp: node_lookup_Internal_ex simp del: node_lookup.simps(1,2))

lemma id_less_by_path:
  assumes a: "id_path a = pre @ False # p" and b: "id_path b = pre @ True # q"
  shows "a < b"
proof -
  have len: "length pre < SMT_DEPTH"
    using arg_cong [OF a, of length] by simp
  have bit: "member_bit i j = id_path i ! j" if "j < SMT_DEPTH" for i j
    using that by (simp add: id_path_def)
  show ?thesis
    unfolding member_id_less_bits
  proof (intro exI [of _ "length pre"] conjI allI impI)
    show "length pre < 256" using len by (simp add: SMT_DEPTH_def)
    show "\<not> member_bit a (length pre)" and "member_bit b (length pre)"
      using len by (simp_all add: bit a b)
    show "member_bit a j = member_bit b j" if "j < length pre" for j
      using that len by (simp add: bit a b nth_append)
  qed
qed

lemma collect_members_sorted:
  "placed pre n \<Longrightarrow> sorted_wrt (<) (map ml_id (collect_members n))"
proof (induction n arbitrary: pre rule: node_induct)
  case (Internal h l r)
  have pl: "placed (pre @ [False]) l" and pr: "placed (pre @ [True]) r"
    using Internal.prems by (rule placed_children)+
  have "ml_id a < ml_id b" if "a \<in> set (collect_members l)" "b \<in> set (collect_members r)" for a b
    using that pl pr id_less_by_path [of "ml_id a" pre _ "ml_id b"]
    by (auto simp: set_collect_members placed_def)
  then show ?case
    using Internal.IH(1) [OF pl] Internal.IH(2) [OF pr] by (auto simp: sorted_wrt_append)
qed simp_all

lemma collect_members_get:
  assumes "smt_wf H root"
  shows "m \<in> set (collect_members root) \<longleftrightarrow> get_member root (ml_id m) = Some m"
  using assms by (auto simp: set_collect_members get_member_lookup smt_wf_def)

section \<open>The root binds the map\<close>

text \<open>What hashing needs of a leaf to be injective; every leaf the crate builds has it.\<close>

definition leaf_hashable :: "MemberLeaf \<Rightarrow> bool" where
  "leaf_hashable m \<longleftrightarrow> leaf_bounded m \<and> slots_wf (ml_p2p_devices m)"

lemma leaf_wf_hashable: "leaf_wf U m \<Longrightarrow> leaf_hashable m"
  using leaf_wf_bounded by (auto simp: leaf_hashable_def leaf_wf_def)

lemma slot_query_binds:
  assumes nc: "\<not> collides H Q" and eq: "slot_query H s = slot_query H t"
    and Q: "\<And>m. s = Some m \<or> t = Some m \<Longrightarrow> device_queries H (ml_p2p_devices m) \<subseteq> Q"
    and wf: "\<And>m. s = Some m \<or> t = Some m \<Longrightarrow> leaf_hashable m"
  shows "s = t"
proof -
  have "length MEMBER_EMPTY_SENTINEL < length (canonical_bytes m r)" for m r
    by (simp add: MEMBER_EMPTY_SENTINEL_def rstr_def canonical_bytes_def len_prefixed_def)
  then have ne: "canonical_bytes m r \<noteq> MEMBER_EMPTY_SENTINEL" for m r
    by (metis less_irrefl)
  show ?thesis
  proof (cases s)
    case None
    with eq ne show ?thesis by (cases t) (auto simp: slot_query_def dest: sym)
  next
    case (Some m)
    with eq ne obtain n where t: "t = Some n" by (cases t) (auto simp: slot_query_def)
    have "canonical_bytes m (compute_device_root H (ml_p2p_devices m)) =
        canonical_bytes n (compute_device_root H (ml_p2p_devices n))"
      using eq by (simp add: slot_query_def Some t)
    then have mn: "m\<lparr>ml_p2p_devices := ml_p2p_devices n\<rparr> = n"
      and root: "compute_device_root H (ml_p2p_devices m) = compute_device_root H (ml_p2p_devices n)"
      using canonical_bytes_fields [of m n] wf Some t by (auto simp: leaf_hashable_def)
    have "ml_p2p_devices m = ml_p2p_devices n"
      by (rule compute_device_root_binds [OF _ _ root nc])
        (use Q wf Some t in \<open>auto simp: leaf_hashable_def\<close>)
    then show ?thesis using mn Some t by (cases m; cases n) simp
  qed
qed

lemma dense_hash_binds:
  assumes "\<not> collides H Q"
    and "dense_queries H k f \<subseteq> Q" and "dense_queries H k g \<subseteq> Q"
    and "\<And>p m. f p = Some m \<or> g p = Some m \<Longrightarrow> leaf_hashable m"
    and "dense_hash H k f = dense_hash H k g" and "length p = k"
  shows "f p = g p"
  using assms
proof (induction k arbitrary: f g p)
  case 0
  then have "slot_query H (f []) = slot_query H (g [])"
    by (intro no_collision_eq [OF "0.prems"(1)]) simp_all
  then show ?case
    using "0.prems" by (intro slot_query_binds [OF "0.prems"(1)]) (auto split: option.splits)
next
  case (Suc k)
  from Suc.prems(6) obtain b q where p: "p = b # q" "length q = k" by (cases p) auto
  have "dense_query H (Suc k) f = dense_query H (Suc k) g"
    using Suc.prems dense_query_in by (intro no_collision_eq [OF Suc.prems(1)]) (auto simp: dense_hash_def)
  then have "dense_hash H k (\<lambda>p. f (c # p)) = dense_hash H k (\<lambda>p. g (c # p))" for c
    by (cases c) (simp_all add: dense_hash_def)
  then show ?case
    unfolding p(1) using Suc.prems p(2)
    by (intro Suc.IH [of "\<lambda>p. f (b # p)" "\<lambda>p. g (b # p)"]; cases b) auto
qed

text \<open>Trees of different heights have different roots.\<close>

lemma dense_hash_height:
  assumes "\<not> collides H Q" and "dense_queries H j f \<subseteq> Q" and "dense_queries H k g \<subseteq> Q"
    and "dense_hash H j f = dense_hash H k g" and "j < k"
  shows False
  using assms
proof (induction j arbitrary: k f g)
  case 0
  then obtain l where k: "k = Suc l" by (auto simp: gr0_conv_Suc)
  have "dense_query H 0 f = dense_query H k g"
    using "0.prems" dense_query_in by (intro no_collision_eq [OF "0.prems"(1)]) (auto simp: dense_hash_def)
  then show ?case by (simp add: k slot_query_def)
next
  case (Suc j)
  then obtain l where k: "k = Suc l" by (cases k) auto
  have "dense_query H (Suc j) f = dense_query H k g"
    using Suc.prems dense_query_in by (intro no_collision_eq [OF Suc.prems(1)]) (auto simp: dense_hash_def)
  then have "dense_hash H j (\<lambda>p. f (False # p)) = dense_hash H l (\<lambda>p. g (False # p))"
    by (simp add: k dense_hash_def)
  then show ?case using Suc.prems k by (intro Suc.IH) auto
qed

section \<open>The diff of two tries\<close>

definition leaves_hashable :: "Node \<Rightarrow> bool" where
  "leaves_hashable n \<longleftrightarrow> (\<forall>m \<in> set (collect_members n). leaf_hashable m)"

abbreviation node_queries :: "TrieHasher \<Rightarrow> nat \<Rightarrow> Node \<Rightarrow> HashQuery set" where
  "node_queries H k n \<equiv> dense_queries H k (node_lookup n)"

lemma node_queries_children:
  assumes "node_queries H (Suc k) (Node h (Internal l r)) \<subseteq> Q"
  shows "node_queries H k l \<subseteq> Q" and "node_queries H k r \<subseteq> Q"
  using assms by (simp_all only: dense_queries.simps node_lookup_Internal) blast+

lemma no_collision_same_lookup:
  assumes "\<not> collides H Q" and "node_queries H k a \<subseteq> Q" and "node_queries H k b \<subseteq> Q"
    and "node_wf H k a" and "node_wf H k b" and "leaves_hashable a" and "leaves_hashable b"
    and "dense_hash H k (node_lookup a) = dense_hash H k (node_lookup b)"
  shows "node_lookup a = node_lookup b"
proof
  fix p
  show "node_lookup a p = node_lookup b p"
  proof (cases "length p = k")
    case True
    show ?thesis
      by (rule dense_hash_binds [OF assms(1,2,3) _ assms(8) True])
        (use assms(6,7) in \<open>auto simp: leaves_hashable_def set_collect_members\<close>)
  next
    case False
    then have "node_lookup a p = None" and "node_lookup b p = None"
      using node_lookup_length assms(4,5) by (metis option.exhaust)+
    then show ?thesis by simp
  qed
qed

text \<open>An empty subtree of the same or a larger height on one side: everything is a change.\<close>

lemma collect_members_no_lookup:
  "node_lookup n = (\<lambda>_. None) \<Longrightarrow> collect_members n = []"
  using set_collect_members [of _ n] by (simp add: last_in_set) (metis last_in_set)

lemma cell_hash_vs_empty:
  assumes nc: "\<not> collides H Q" "node_queries H k n \<subseteq> Q" "dense_queries H j (\<lambda>_. None) \<subseteq> Q"
    and wf: "node_wf H k n" "leaves_hashable n" "k \<le> j"
    and cell: "hash_cell n = Some (dense_hash H j (\<lambda>_. None))"
  shows "collect_members n = []"
proof -
  have eq: "dense_hash H k (node_lookup n) = dense_hash H j (\<lambda>_. None)"
    using node_wf_cell [OF wf(1) cell] by simp
  then have "k = j" using dense_hash_height [OF nc eq] wf(3) by (cases "k = j") simp_all
  moreover have "node_lookup n = node_lookup (Node (Some (dense_hash H j (\<lambda>_. None))) Empty)"
    if "k = j"
    by (rule no_collision_same_lookup [OF nc(1,2)])
      (use assms eq that in \<open>simp_all add: node_lookup_Empty leaves_hashable_def\<close>)
  ultimately show ?thesis
    by (intro collect_members_no_lookup) (simp add: node_lookup_Empty)
qed

lemma leaves_hashable_Internal:
  "leaves_hashable (Node h (Internal l r)) \<longleftrightarrow> leaves_hashable l \<and> leaves_hashable r"
  by (auto simp: leaves_hashable_def)

lemma diff_against_empty:
  assumes "\<not> collides H Q" "dense_queries H j (\<lambda>_. None) \<subseteq> Q"
    and "node_queries H k n \<subseteq> Q" "node_wf H k n" "leaves_hashable n" "k \<le> j"
  shows "diff_recursive n (Node (Some (dense_hash H j (\<lambda>_. None))) Empty) (rs, us)
      = (rs @ map ml_id (collect_members n), us)
    \<and> diff_recursive (Node (Some (dense_hash H j (\<lambda>_. None))) Empty) n (rs, us)
      = (rs, us @ collect_members n)"
    (is "diff_recursive n ?e _ = _ \<and> _")
  using assms(3-)
proof (induction n arbitrary: k rs us rule: node_induct)
  case (Internal h l r)
  then obtain i where k: "k = Suc i" by (auto simp: gr0_conv_Suc)
  note sub = node_queries_children [OF Internal.prems(1) [unfolded k]]
  have IH: "diff_recursive c ?e (rs, us) = (rs @ map ml_id (collect_members c), us)"
    "diff_recursive ?e c (rs, us) = (rs, us @ collect_members c)" if "c = l \<or> c = r" for c rs us
    using that Internal.IH(1) [of i] Internal.IH(2) [of i] sub Internal.prems k
    by (auto simp: leaves_hashable_Internal)
  note skip = cell_hash_vs_empty [OF assms(1) Internal.prems(1) assms(2) Internal.prems(2-4)]
  have "diff_recursive (Node h (Internal l r)) ?e (rs, us)
      = (rs @ map ml_id (collect_members (Node h (Internal l r))), us)"
    using skip by (subst diff_recursive.simps) (auto simp: IH split: option.splits)
  moreover have "diff_recursive ?e (Node h (Internal l r)) (rs, us)
      = (rs, us @ collect_members (Node h (Internal l r)))"
    using skip by (subst diff_recursive.simps) (auto simp: IH split: option.splits)
  ultimately show ?case ..
next
  case (Leaf h payload)
  note skip = cell_hash_vs_empty [OF assms(1) Leaf(1) assms(2) Leaf(2-4)]
  show ?case
    using skip by (auto simp: diff_recursive.simps split: option.splits)
next
  case (Empty h)
  show ?case by (simp add: diff_recursive.simps split: option.splits)
qed

text \<open>
  The result of \<^verbatim>\<open>diff_recursive\<close> on nodes of the same height, as two filters of the collected leaves.
\<close>

definition diff_removed :: "nat \<Rightarrow> Node \<Rightarrow> Node \<Rightarrow> MemberId list" where
  "diff_removed d old new =
     map ml_id (filter (\<lambda>m. node_lookup new (drop d (id_path (ml_id m))) = None) (collect_members old))"

definition diff_upserted :: "nat \<Rightarrow> Node \<Rightarrow> Node \<Rightarrow> MemberLeaf list" where
  "diff_upserted d old new =
     filter (\<lambda>m. node_lookup old (drop d (id_path (ml_id m))) \<noteq> Some m) (collect_members new)"

lemma placed_drop:
  assumes "placed pre n" and "m \<in> set (collect_members n)"
  shows "node_lookup n (drop (length pre) (id_path (ml_id m))) = Some m"
  using assms by (auto simp: placed_def set_collect_members)

lemma diff_lists_same_lookup:
  assumes "placed pre old" and "placed pre new" and "node_lookup old = node_lookup new"
  shows "diff_removed (length pre) old new = []" and "diff_upserted (length pre) old new = []"
  using placed_drop [OF assms(1)] placed_drop [OF assms(2)] assms(3)
  by (simp_all add: diff_removed_def diff_upserted_def filter_empty_conv)

lemma diff_lists_Internal:
  assumes "placed pre (Node g (Internal ol orr))" and "placed pre (Node h (Internal nl nr))"
  shows "diff_removed (length pre) (Node g (Internal ol orr)) (Node h (Internal nl nr)) =
      diff_removed (Suc (length pre)) ol nl @ diff_removed (Suc (length pre)) orr nr"
    and "diff_upserted (length pre) (Node g (Internal ol orr)) (Node h (Internal nl nr)) =
      diff_upserted (Suc (length pre)) ol nl @ diff_upserted (Suc (length pre)) orr nr"
proof -
  have path: "drop (length pre) (id_path (ml_id m)) = b # drop (Suc (length pre)) (id_path (ml_id m))"
    if "placed (pre @ [b]) n" "m \<in> set (collect_members n)" for b n m
    using that by (auto simp: placed_def set_collect_members)
  note pl = placed_children [OF assms(1)] placed_children [OF assms(2)]
  show "diff_removed (length pre) (Node g (Internal ol orr)) (Node h (Internal nl nr)) =
      diff_removed (Suc (length pre)) ol nl @ diff_removed (Suc (length pre)) orr nr"
    using path [OF pl(1)] path [OF pl(2)] by (simp add: diff_removed_def cong: filter_cong)
  show "diff_upserted (length pre) (Node g (Internal ol orr)) (Node h (Internal nl nr)) =
      diff_upserted (Suc (length pre)) ol nl @ diff_upserted (Suc (length pre)) orr nr"
    using path [OF pl(3)] path [OF pl(4)] by (simp add: diff_upserted_def cong: filter_cong)
qed

text \<open>The hypotheses of a comparison of two nodes of height \<open>k\<close> below the path \<open>pre\<close>.\<close>

definition comparable ::
  "TrieHasher \<Rightarrow> HashQuery set \<Rightarrow> nat \<Rightarrow> bool list \<Rightarrow> Node \<Rightarrow> Node \<Rightarrow> bool" where
  "comparable H Q k pre old new \<longleftrightarrow>
     \<not> collides H Q \<and> node_queries H k old \<subseteq> Q \<and> node_queries H k new \<subseteq> Q
     \<and> node_wf H k old \<and> node_wf H k new \<and> leaves_hashable old \<and> leaves_hashable new
     \<and> placed pre old \<and> placed pre new"

definition diff_exact :: "nat \<Rightarrow> Node \<Rightarrow> Node \<Rightarrow> bool" where
  "diff_exact d old new \<longleftrightarrow> (\<forall>rs us. diff_recursive old new (rs, us) =
     (rs @ diff_removed d old new, us @ diff_upserted d old new))"

lemma diff_exact_skip:
  assumes "comparable H Q k pre old new" and "hash_cell old = Some c" and "hash_cell new = Some c"
  shows "diff_exact (length pre) old new"
proof -
  have c: "\<not> collides H Q" "node_queries H k old \<subseteq> Q" "node_queries H k new \<subseteq> Q"
    "node_wf H k old" "node_wf H k new" "leaves_hashable old" "leaves_hashable new"
    "placed pre old" "placed pre new"
    using assms(1) by (simp_all add: comparable_def)
  have "dense_hash H k (node_lookup old) = dense_hash H k (node_lookup new)"
    using node_wf_cell [OF c(4) assms(2)] node_wf_cell [OF c(5) assms(3)] by simp
  then have "node_lookup old = node_lookup new"
    by (rule no_collision_same_lookup [OF c(1-7)])
  then show ?thesis
    using diff_lists_same_lookup [OF c(8,9)] assms(2,3)
    by (simp add: diff_exact_def diff_recursive.simps)
qed

lemma diff_exact_empty:
  assumes cmp: "comparable H Q k pre old new" and empty: "kind old = Empty \<or> kind new = Empty"
  shows "diff_exact (length pre) old new"
proof -
  have e: "n = Node (Some (dense_hash H k (\<lambda>_. None))) Empty \<and> dense_queries H k (\<lambda>_. None) \<subseteq> Q"
    if "kind n = Empty" "node_wf H k n" "node_queries H k n \<subseteq> Q" for n
    using that by (cases n) (simp add: node_lookup_Empty)
  show ?thesis
    using empty
  proof
    assume "kind new = Empty"
    with e [of new] cmp show ?thesis
      using diff_against_empty [of H Q k k old]
      by (auto simp: comparable_def diff_exact_def diff_removed_def diff_upserted_def)
  next
    assume "kind old = Empty"
    with e [of old] cmp show ?thesis
      using diff_against_empty [of H Q k k new]
      by (auto simp: comparable_def diff_exact_def diff_removed_def diff_upserted_def)
  qed
qed

lemma diff_exact_leaves:
  assumes cmp: "comparable H Q k pre old new" and kinds: "kind old = Leaf p" "kind new = Leaf q"
    and cells: "\<And>c. hash_cell old = Some c \<Longrightarrow> hash_cell new \<noteq> Some c"
  shows "diff_exact (length pre) old new"
proof -
  have path: "drop (length pre) (id_path (ml_id (lp_member r))) = []"
    if "placed pre n" "kind n = Leaf r" for n r
    using placed_drop [OF that(1), of "lp_member r"] that(2) by (cases n) (simp split: if_splits)
  from path [of old p] path [of new q] cmp kinds cells show ?thesis
    by (cases old; cases new)
      (auto simp: comparable_def diff_exact_def diff_recursive.simps diff_removed_def
        diff_upserted_def split: option.splits)
qed

lemma diff_exact_internal:
  assumes pl: "placed pre (Node g (Internal ol orr))" "placed pre (Node h (Internal nl nr))"
    and cells: "\<And>c. g = Some c \<Longrightarrow> h \<noteq> Some c"
    and sub: "diff_exact (Suc (length pre)) ol nl" "diff_exact (Suc (length pre)) orr nr"
  shows "diff_exact (length pre) (Node g (Internal ol orr)) (Node h (Internal nl nr))"
proof -
  have "diff_recursive (Node g (Internal ol orr)) (Node h (Internal nl nr)) (rs, us) =
      diff_recursive orr nr (diff_recursive ol nl (rs, us))" for rs us
    using cells by (subst diff_recursive.simps) (auto split: option.split)
  then show ?thesis
    using sub diff_lists_Internal [OF pl] by (simp add: diff_exact_def)
qed

lemma comparable_children:
  assumes "comparable H Q (Suc k) pre (Node g (Internal ol orr)) (Node h (Internal nl nr))"
  shows "comparable H Q k (pre @ [False]) ol nl" and "comparable H Q k (pre @ [True]) orr nr"
  using assms node_queries_children [of H k g ol orr Q] node_queries_children [of H k h nl nr Q]
    placed_children [of pre g ol orr] placed_children [of pre h nl nr]
  by (simp_all add: comparable_def leaves_hashable_Internal del: dense_queries.simps)

lemma diff_recursive_exact:
  "comparable H Q k pre old new \<Longrightarrow> diff_exact (length pre) old new"
proof (induction k arbitrary: old new pre)
  case 0
  then have "\<exists>p q. kind old = Leaf p \<and> kind new = Leaf q" if "kind old \<noteq> Empty" "kind new \<noteq> Empty"
    using that by (cases old; cases new; cases "kind old"; cases "kind new") (auto simp: comparable_def)
  then show ?case
    using diff_exact_skip [OF 0] diff_exact_empty [OF 0] diff_exact_leaves [OF 0] by blast
next
  case (Suc k)
  obtain g K h L where n: "old = Node g K" "new = Node h L" by (cases old; cases new)
  consider c where "g = Some c" "h = Some c" | "K = Empty \<or> L = Empty"
    | ol orr nl nr where "K = Internal ol orr" "L = Internal nl nr" "\<And>c. g = Some c \<Longrightarrow> h \<noteq> Some c"
    using Suc.prems n by (cases K; cases L) (auto simp: comparable_def)
  then show ?case
  proof cases
    case 1
    then show ?thesis using diff_exact_skip [OF Suc.prems] n by simp
  next
    case 2
    then show ?thesis using diff_exact_empty [OF Suc.prems] n by simp
  next
    case 3
    note cmp = comparable_children [OF Suc.prems [unfolded n 3(1,2)]]
    show ?thesis
      unfolding n 3(1,2)
      by (rule diff_exact_internal)
        (use Suc.prems Suc.IH [OF cmp(1)] Suc.IH [OF cmp(2)] 3 n in \<open>auto simp: comparable_def\<close>)
  qed
qed

section \<open>The tree as a whole\<close>

abbreviation trie_queries :: "TrieHasher \<Rightarrow> Node \<Rightarrow> HashQuery set" where
  "trie_queries H root \<equiv> dense_queries H SMT_DEPTH (node_lookup root)"

lemma smt_comparable:
  assumes "smt_wf H a" "smt_wf H b" "leaves_hashable a" "leaves_hashable b"
    and "\<not> collides H (trie_queries H a \<union> trie_queries H b)"
  shows "comparable H (trie_queries H a \<union> trie_queries H b) SMT_DEPTH [] a b"
  using assms smt_wf_placed by (auto simp: comparable_def smt_wf_def)

lemma get_member_eq_lookup:
  assumes "smt_wf H a" and "smt_wf H b" and "get_member a = get_member b"
  shows "node_lookup a = node_lookup b"
proof
  fix p
  have "node_lookup x p = Some m \<Longrightarrow> node_lookup y p = Some m"
    if "smt_wf H x" "smt_wf H y" "get_member x = get_member y" for x y m
    using that by (metis get_member_lookup smt_wf_def)
  then show "node_lookup a p = node_lookup b p"
    using assms by (metis option.exhaust)
qed

lemma smt_root_binds:
  assumes wf: "smt_wf H a" "smt_wf H b" "leaves_hashable a" "leaves_hashable b"
    and eq: "dense_hash H SMT_DEPTH (node_lookup a) = dense_hash H SMT_DEPTH (node_lookup b)"
  shows "get_member a = get_member b \<or> collides H (trie_queries H a \<union> trie_queries H b)"
proof (rule disjCI)
  assume nc: "\<not> collides H (trie_queries H a \<union> trie_queries H b)"
  have "node_lookup a = node_lookup b"
    by (rule no_collision_same_lookup [OF nc _ _ _ _ wf(3,4) eq]) (use wf in \<open>auto simp: smt_wf_def\<close>)
  then show "get_member a = get_member b" by (simp add: get_member_lookup fun_eq_iff)
qed

lemma diff_tries_exact:
  assumes "smt_wf H old" "smt_wf H new" "leaves_hashable old" "leaves_hashable new"
  shows "diff_tries old new =
      (map ml_id (filter (\<lambda>m. get_member new (ml_id m) = None) (collect_members old)),
       filter (\<lambda>m. get_member old (ml_id m) \<noteq> Some m) (collect_members new))
    \<or> collides H (trie_queries H old \<union> trie_queries H new)"
proof (rule disjCI)
  assume "\<not> collides H (trie_queries H old \<union> trie_queries H new)"
  then have "diff_exact 0 old new"
    using diff_recursive_exact [OF smt_comparable [OF assms]] by simp
  then show "diff_tries old new =
      (map ml_id (filter (\<lambda>m. get_member new (ml_id m) = None) (collect_members old)),
       filter (\<lambda>m. get_member old (ml_id m) \<noteq> Some m) (collect_members new))"
    by (simp add: diff_exact_def diff_tries_def diff_removed_def diff_upserted_def get_member_lookup)
qed

text \<open>The tree is a keyed store, for every hasher.\<close>

interpretation smt: keyed_store "empty_root (default_hashes_compute H)"
    "\<lambda>n m. smt_insert H n m (default_hashes_compute H)" "\<lambda>n i. smt_remove n i (default_hashes_compute H)"
    get_member ml_id "smt_wf H" for H
  by unfold_locales
    (simp_all add: empty_root_wf smt_insert_wf get_member_insert smt_remove_wf get_member_remove)

end
