(* ===== verification/Trie.thy ===== *)
theory Trie
  imports Smt
begin

text \<open>
  The organisation trie and its deltas (\<^verbatim>\<open>trie.rs\<close>, \<^verbatim>\<open>delta.rs\<close> of \<^verbatim>\<open>org-members\<close>).

  \<open>OrgTrie\<close> has the fields of the struct; the hasher type parameter \<^verbatim>\<open>H\<close> and the Unicode tables are
  arguments of the operations. \<^verbatim>\<open>HashMap\<close> indexes are partial maps. \<^verbatim>\<open>usize\<close> counters are natural
  numbers, with the bound of \<^verbatim>\<open>checked_add\<close> written out. An operation returns the new trie or the
  error of the branch it leaves by.
\<close>

type_synonym SkeletonIndex = "RString \<rightharpoonup> RString"
type_synonym HandleIndex = "RString \<rightharpoonup> MemberId"

record OrgTrie =
  ot_root :: Node
  ot_defaults :: DefaultHashes
  ot_member_count :: nat
  ot_cached_root_hash :: "RootHash option"
  ot_last_calculated_root :: Node
  ot_skeleton_index :: SkeletonIndex
  ot_handle_index :: HandleIndex

record Delta =
  d_base_root :: RootHash
  d_removed :: "MemberId list"
  d_upserted :: "MemberLeaf list"

record CandidateTrie =
  ct_root :: Node
  ct_defaults :: DefaultHashes
  ct_member_count :: nat
  ct_root_hash :: RootHash
  ct_skeleton_index :: SkeletonIndex
  ct_handle_index :: HandleIndex

definition delta_is_empty :: "Delta \<Rightarrow> bool" where
  "delta_is_empty d = (d_removed d = [] \<and> d_upserted d = [])"

definition checked_add_usize :: "nat \<Rightarrow> nat \<Rightarrow> nat option" where
  "checked_add_usize a b = (if a + b < 2 ^ 64 then Some (a + b) else None)"

definition checked_sub_usize :: "nat \<Rightarrow> nat \<Rightarrow> nat option" where
  "checked_sub_usize a b = (if b \<le> a then Some (a - b) else None)"

section \<open>The two indexes\<close>

text \<open>
  The check and the two insertions that \<^verbatim>\<open>genesis\<close>, \<^verbatim>\<open>insert_leaf\<close>, \<^verbatim>\<open>update_leaf\<close> and
  \<^verbatim>\<open>apply_delta\<close> all make when a member takes a handle, and the two removals when it gives one up.
\<close>

definition claim_handle ::
  "Unicode \<Rightarrow> MemberLeaf \<Rightarrow> SkeletonIndex \<times> HandleIndex
     \<Rightarrow> OrgMembersError + SkeletonIndex \<times> HandleIndex" where
  "claim_handle U leaf idx =
     (let (skeleton_index, handle_index) = idx;
          skel = handle_skeleton U (ml_handle leaf)
      in case skeleton_index skel of
           Some existing \<Rightarrow>
             if existing \<noteq> ml_handle leaf then Inl ConfusableHandle else Inl DuplicateHandle
         | None \<Rightarrow>
             Inr (skeleton_index(skel \<mapsto> ml_handle leaf), handle_index(ml_handle leaf \<mapsto> ml_id leaf)))"

definition release_handle ::
  "Unicode \<Rightarrow> MemberLeaf \<Rightarrow> SkeletonIndex \<times> HandleIndex \<Rightarrow> SkeletonIndex \<times> HandleIndex" where
  "release_handle U existing idx =
     (let (skeleton_index, handle_index) = idx
      in (skeleton_index(handle_skeleton U (ml_handle existing) := None),
          handle_index(ml_handle existing := None)))"

section \<open>Genesis and queries\<close>

fun genesis_loop ::
  "Unicode \<Rightarrow> TrieHasher \<Rightarrow> DefaultHashes \<Rightarrow> MemberLeaf list
     \<Rightarrow> Node \<times> nat \<times> SkeletonIndex \<times> HandleIndex
     \<Rightarrow> OrgMembersError + Node \<times> nat \<times> SkeletonIndex \<times> HandleIndex" where
  "genesis_loop U H defaults [] st = Inr st"
| "genesis_loop U H defaults (member # members) (root, count, idx) =
     (if get_member root (ml_id member) \<noteq> None then Inl DuplicateId
      else
        and_then (claim_handle U member idx) (\<lambda>idx'.
          genesis_loop U H defaults members (smt_insert H root member defaults, count + 1, idx')))"

definition genesis :: "Unicode \<Rightarrow> TrieHasher \<Rightarrow> MemberLeaf list \<Rightarrow> OrgMembersError + OrgTrie" where
  "genesis U H members =
     (let defaults = default_hashes_compute H
      in and_then (genesis_loop U H defaults members
             (empty_root defaults, 0, Map.empty, Map.empty)) (\<lambda>(root, count, skeleton_index, handle_index).
         and_then (recalculate_hashes H root) (\<lambda>(root_hash, root).
         Inr \<lparr>ot_root = root, ot_defaults = defaults, ot_member_count = count,
              ot_cached_root_hash = Some (root_of_node root_hash), ot_last_calculated_root = root,
              ot_skeleton_index = skeleton_index, ot_handle_index = handle_index\<rparr>)))"

definition root_hash :: "OrgTrie \<Rightarrow> OrgMembersError + RootHash" where
  "root_hash t = ok_or (ot_cached_root_hash t) HashesNotCalculated"

definition is_calculated :: "OrgTrie \<Rightarrow> bool" where
  "is_calculated t = (ot_cached_root_hash t \<noteq> None)"

definition member_count :: "OrgTrie \<Rightarrow> nat" where
  "member_count t = ot_member_count t"

definition contains :: "OrgTrie \<Rightarrow> MemberId \<Rightarrow> bool" where
  "contains t i = (get_member (ot_root t) i \<noteq> None)"

definition contains_handle :: "Unicode \<Rightarrow> OrgTrie \<Rightarrow> RString \<Rightarrow> bool" where
  "contains_handle U t handle = (ot_handle_index t (to_nfc U handle) \<noteq> None)"

definition trie_get :: "OrgTrie \<Rightarrow> MemberId \<Rightarrow> MemberLeaf option" where
  "trie_get t i = get_member (ot_root t) i"

definition get_by_handle :: "Unicode \<Rightarrow> OrgTrie \<Rightarrow> RString \<Rightarrow> MemberLeaf option" where
  "get_by_handle U t handle =
     (case ot_handle_index t (to_nfc U handle) of
        None \<Rightarrow> None
      | Some i \<Rightarrow> get_member (ot_root t) i)"

definition trie_members :: "OrgTrie \<Rightarrow> MemberLeaf list" where
  "trie_members t = collect_members (ot_root t)"

section \<open>Mutations\<close>

definition insert_leaf ::
  "Unicode \<Rightarrow> TrieHasher \<Rightarrow> OrgTrie \<Rightarrow> MemberLeaf \<Rightarrow> OrgMembersError + OrgTrie" where
  "insert_leaf U H t leaf =
     (if get_member (ot_root t) (ml_id leaf) \<noteq> None then Inl DuplicateId
      else
        and_then (claim_handle U leaf (ot_skeleton_index t, ot_handle_index t)) (\<lambda>(skel, hidx).
        let new_root = smt_insert H (ot_root t) leaf (ot_defaults t) in
        and_then (ok_or (checked_add_usize (ot_member_count t) 1) InvariantViolated) (\<lambda>count.
        Inr (t\<lparr>ot_root := new_root, ot_member_count := count, ot_cached_root_hash := None,
               ot_skeleton_index := skel, ot_handle_index := hidx\<rparr>))))"

definition update_leaf ::
  "Unicode \<Rightarrow> TrieHasher \<Rightarrow> OrgTrie \<Rightarrow> MemberLeaf \<Rightarrow> OrgMembersError + OrgTrie" where
  "update_leaf U H t leaf =
     and_then (ok_or (get_member (ot_root t) (ml_id leaf)) IdNotFound) (\<lambda>existing.
     and_then
       (if ml_handle existing \<noteq> ml_handle leaf
        then claim_handle U leaf (release_handle U existing (ot_skeleton_index t, ot_handle_index t))
        else Inr (ot_skeleton_index t, ot_handle_index t)) (\<lambda>(skel, hidx).
     Inr (t\<lparr>ot_root := smt_insert H (ot_root t) leaf (ot_defaults t), ot_cached_root_hash := None,
            ot_skeleton_index := skel, ot_handle_index := hidx\<rparr>)))"

definition delete_by_id :: "Unicode \<Rightarrow> OrgTrie \<Rightarrow> MemberId \<Rightarrow> OrgMembersError + OrgTrie" where
  "delete_by_id U t i =
     and_then (ok_or (get_member (ot_root t) i) IdNotFound) (\<lambda>existing.
     let new_root = smt_remove (ot_root t) i (ot_defaults t);
         (skel, hidx) = release_handle U existing (ot_skeleton_index t, ot_handle_index t) in
     and_then (ok_or (checked_sub_usize (ot_member_count t) 1) InvariantViolated) (\<lambda>count.
     Inr (t\<lparr>ot_root := new_root, ot_member_count := count, ot_cached_root_hash := None,
            ot_skeleton_index := skel, ot_handle_index := hidx\<rparr>)))"

definition add_member ::
  "Unicode \<Rightarrow> TrieHasher \<Rightarrow> OrgTrie \<Rightarrow> MemberLeaf \<Rightarrow> OrgMembersError + OrgTrie" where
  "add_member U H t leaf = insert_leaf U H t leaf"

definition delete_member :: "Unicode \<Rightarrow> OrgTrie \<Rightarrow> MemberId \<Rightarrow> OrgMembersError + OrgTrie" where
  "delete_member U t i = delete_by_id U t i"

definition update_name_surname ::
  "Unicode \<Rightarrow> TrieHasher \<Rightarrow> OrgTrie \<Rightarrow> MemberId \<Rightarrow> RString \<Rightarrow> RString \<Rightarrow> OrgMembersError + OrgTrie" where
  "update_name_surname U H t i name surname =
     and_then (ok_or (get_member (ot_root t) i) IdNotFound) (\<lambda>existing.
     let nfc_name = to_nfc U name in
     if length nfc_name > MAX_NAME_LEN then Inl (FieldTooLong ''name'' MAX_NAME_LEN)
     else
     let nfc_surname = to_nfc U surname in
     if length nfc_surname > MAX_SURNAME_LEN then Inl (FieldTooLong ''surname'' MAX_SURNAME_LEN)
     else update_leaf U H t (with_name_surname existing nfc_name nfc_surname))"

definition update_handle ::
  "Unicode \<Rightarrow> TrieHasher \<Rightarrow> OrgTrie \<Rightarrow> MemberId \<Rightarrow> RString \<Rightarrow> OrgMembersError + OrgTrie" where
  "update_handle U H t i new_handle =
     and_then (ok_or (get_member (ot_root t) i) IdNotFound) (\<lambda>existing.
     and_then (validate_handle U new_handle) (\<lambda>validated.
     update_leaf U H t (with_handle existing validated)))"

definition rotate_p2p_key ::
  "Unicode \<Rightarrow> TrieHasher \<Rightarrow> OrgTrie \<Rightarrow> MemberId \<Rightarrow> P2pMemberKey \<Rightarrow> OrgMembersError + OrgTrie" where
  "rotate_p2p_key U H t i new_p2p_key =
     and_then (ok_or (get_member (ot_root t) i) IdNotFound) (\<lambda>existing.
     update_leaf U H t (with_p2p_key existing new_p2p_key))"

definition add_p2p_device ::
  "Unicode \<Rightarrow> TrieHasher \<Rightarrow> OrgTrie \<Rightarrow> MemberId \<Rightarrow> P2pDeviceKey \<Rightarrow> OrgMembersError + OrgTrie" where
  "add_p2p_device U H t i device =
     and_then (ok_or (get_member (ot_root t) i) IdNotFound) (\<lambda>existing.
     and_then (add_device (ml_p2p_devices existing) device) (\<lambda>new_slots.
     update_leaf U H t (with_p2p_device_slots existing new_slots)))"

definition delete_p2p_device ::
  "Unicode \<Rightarrow> TrieHasher \<Rightarrow> OrgTrie \<Rightarrow> MemberId \<Rightarrow> P2pDeviceKey \<Rightarrow> P2pMemberKey
     \<Rightarrow> OrgMembersError + OrgTrie" where
  "delete_p2p_device U H t i device new_p2p_key =
     and_then (ok_or (get_member (ot_root t) i) IdNotFound) (\<lambda>existing.
     and_then (remove_device (ml_p2p_devices existing) device) (\<lambda>new_slots.
     update_leaf U H t (with_p2p_key (with_p2p_device_slots existing new_slots) new_p2p_key)))"

definition emergency_isolate_member ::
  "Unicode \<Rightarrow> TrieHasher \<Rightarrow> OrgTrie \<Rightarrow> MemberId \<Rightarrow> P2pMemberKey \<Rightarrow> OrgMembersError + OrgTrie" where
  "emergency_isolate_member U H t i new_p2p_key =
     and_then (ok_or (get_member (ot_root t) i) IdNotFound) (\<lambda>existing.
     and_then (device_slots_new []) (\<lambda>empty_slots.
     update_leaf U H t (with_p2p_key (with_p2p_device_slots existing empty_slots) new_p2p_key)))"

section \<open>Deltas\<close>

definition pending_changes :: "OrgTrie \<Rightarrow> OrgMembersError + Delta" where
  "pending_changes t =
     (let (removed, upserted) = diff_tries (ot_last_calculated_root t) (ot_root t)
      in and_then (ok_or (hash_cell (ot_last_calculated_root t)) InvariantViolated) (\<lambda>base_hash.
         Inr \<lparr>d_base_root = root_of_node base_hash, d_removed = removed, d_upserted = upserted\<rparr>))"

definition has_pending_changes :: "OrgTrie \<Rightarrow> bool" where
  "has_pending_changes t = (ot_cached_root_hash t = None)"

definition recalculate :: "TrieHasher \<Rightarrow> OrgTrie \<Rightarrow> OrgMembersError + OrgTrie \<times> Delta" where
  "recalculate H t =
     and_then (pending_changes t) (\<lambda>delta.
     and_then (recalculate_hashes H (ot_root t)) (\<lambda>(root_hash, root).
     Inr (t\<lparr>ot_root := root, ot_cached_root_hash := Some (root_of_node root_hash),
            ot_last_calculated_root := root\<rparr>, delta)))"

text \<open>The two-pointer merge over the sorted ids; \<open>True\<close> when it runs off one end.\<close>

fun disjoint_merge :: "MemberId list \<Rightarrow> MemberLeaf list \<Rightarrow> bool" where
  "disjoint_merge (r # rs) (u # us) =
     (if r < ml_id u then disjoint_merge rs (u # us)
      else if r > ml_id u then disjoint_merge (r # rs) us
      else False)"
| "disjoint_merge _ _ = True"

definition validate_canonical_delta :: "OrgTrie \<Rightarrow> Delta \<Rightarrow> OrgMembersError + unit" where
  "validate_canonical_delta t delta =
     (if \<not> strictly_increasing (d_removed delta)
      then Inl (MalformedDelta ''removed not strictly increasing'')
      else if \<not> list_all (\<lambda>i. get_member (ot_root t) i \<noteq> None) (d_removed delta)
      then Inl (MalformedDelta ''removed id not present in trie'')
      else if \<not> strictly_increasing (map ml_id (d_upserted delta))
      then Inl (MalformedDelta ''upserted not strictly increasing by id'')
      else if \<not> list_all (\<lambda>leaf. get_member (ot_root t) (ml_id leaf) \<noteq> Some leaf) (d_upserted delta)
      then Inl (MalformedDelta ''upserted leaf identical to existing trie state'')
      else if \<not> disjoint_merge (d_removed delta) (d_upserted delta)
      then Inl (MalformedDelta ''id appears in both removed and upserted'')
      else Inr ())"

fun apply_removed ::
  "Unicode \<Rightarrow> DefaultHashes \<Rightarrow> MemberId list \<Rightarrow> Node \<times> nat \<times> SkeletonIndex \<times> HandleIndex
     \<Rightarrow> OrgMembersError + Node \<times> nat \<times> SkeletonIndex \<times> HandleIndex" where
  "apply_removed U defaults [] st = Inr st"
| "apply_removed U defaults (i # ids) (root, count, idx) =
     and_then (ok_or (get_member root i) InvariantViolated) (\<lambda>existing.
     let idx' = release_handle U existing idx; root' = smt_remove root i defaults in
     and_then (ok_or (checked_sub_usize count 1) InvariantViolated) (\<lambda>count'.
     apply_removed U defaults ids (root', count', idx')))"

fun apply_upserted ::
  "Unicode \<Rightarrow> TrieHasher \<Rightarrow> DefaultHashes \<Rightarrow> MemberLeaf list
     \<Rightarrow> Node \<times> nat \<times> SkeletonIndex \<times> HandleIndex
     \<Rightarrow> OrgMembersError + Node \<times> nat \<times> SkeletonIndex \<times> HandleIndex" where
  "apply_upserted U H defaults [] st = Inr st"
| "apply_upserted U H defaults (member # ms) (root, count, idx) =
     (let existing = get_member root (ml_id member);
          idx1 = (case existing of
                    Some old \<Rightarrow> if ml_handle old \<noteq> ml_handle member then release_handle U old idx else idx
                  | None \<Rightarrow> idx);
          needs_check = (case existing of Some old \<Rightarrow> ml_handle old \<noteq> ml_handle member | None \<Rightarrow> True)
      in and_then (if needs_check then claim_handle U member idx1 else Inr idx1) (\<lambda>idx2.
         let root' = smt_insert H root member defaults in
         and_then (if existing = None then ok_or (checked_add_usize count 1) InvariantViolated
                   else Inr count) (\<lambda>count'.
         apply_upserted U H defaults ms (root', count', idx2))))"

definition apply_delta ::
  "Unicode \<Rightarrow> TrieHasher \<Rightarrow> OrgTrie \<Rightarrow> Delta \<Rightarrow> OrgMembersError + CandidateTrie" where
  "apply_delta U H t delta =
     and_then (ok_or (ot_cached_root_hash t) HashesNotCalculated) (\<lambda>current_root.
     if d_base_root delta \<noteq> current_root then Inl DeltaBaseMismatch
     else
     and_then (validate_canonical_delta t delta) (\<lambda>_.
     and_then (apply_removed U (ot_defaults t) (d_removed delta)
         (ot_root t, ot_member_count t, ot_skeleton_index t, ot_handle_index t)) (\<lambda>st.
     and_then (apply_upserted U H (ot_defaults t) (d_upserted delta) st) (\<lambda>(root, count, skel, hidx).
     and_then (recalculate_hashes H root) (\<lambda>(root_hash, root).
     Inr \<lparr>ct_root = root, ct_defaults = ot_defaults t, ct_member_count = count,
          ct_root_hash = root_of_node root_hash, ct_skeleton_index = skel,
          ct_handle_index = hidx\<rparr>)))))"

definition calculate_delta :: "OrgTrie \<Rightarrow> OrgTrie \<Rightarrow> OrgMembersError + Delta" where
  "calculate_delta t old =
     (if \<not> is_calculated t \<or> \<not> is_calculated old then Inl HashesNotCalculated
      else
        let (removed, upserted) = diff_tries (ot_root old) (ot_root t)
        in and_then (root_hash old) (\<lambda>base_root.
           Inr \<lparr>d_base_root = base_root, d_removed = removed, d_upserted = upserted\<rparr>))"

definition from_candidate ::
  "Node \<Rightarrow> DefaultHashes \<Rightarrow> nat \<Rightarrow> RootHash \<Rightarrow> SkeletonIndex \<Rightarrow> HandleIndex \<Rightarrow> OrgTrie" where
  "from_candidate root defaults count rh skel hidx =
     \<lparr>ot_root = root, ot_defaults = defaults, ot_member_count = count,
      ot_cached_root_hash = Some rh, ot_last_calculated_root = root,
      ot_skeleton_index = skel, ot_handle_index = hidx\<rparr>"

definition verify_against :: "CandidateTrie \<Rightarrow> RootHash \<Rightarrow> OrgMembersError + OrgTrie" where
  "verify_against c expected_root =
     (if ct_root_hash c \<noteq> expected_root then Inl VerificationFailed
      else Inr (from_candidate (ct_root c) (ct_defaults c) (ct_member_count c) (ct_root_hash c)
        (ct_skeleton_index c) (ct_handle_index c)))"

end
