(* ===== verification/Membership.thy ===== *)
theory Membership
  imports Trie
begin

text \<open>
  The abstract membership map and the refinement of the trie's operations to it.

  A \<open>Snapshot\<close> is a partial map from member ids to leaves, the state of the Quint model
  \<^verbatim>\<open>quint/membership.qnt\<close>. \<open>spec_add\<close>, \<open>spec_delete\<close> and \<open>spec_update\<close> are its operations: errors are
  decided by looking at the members, with no index and no tree. \<open>trie_inv\<close> is the invariant of an
  \<open>OrgTrie\<close>: well-formed trees, indexes that agree with the members, a count that is their number and
  a cached root hash that is the dense Merkle root. \<open>implements\<close> says that an operation gives the
  specification's outcome, error for error, and keeps the invariant.
\<close>

section \<open>The abstract membership map\<close>

type_synonym Snapshot = "MemberId \<rightharpoonup> MemberLeaf"

abbreviation snapshot :: "OrgTrie \<Rightarrow> Snapshot" where
  "snapshot t \<equiv> get_member (ot_root t)"

text \<open>The other member whose handle has the same skeleton, as the error the code reports for it.\<close>

definition handle_conflict :: "Unicode \<Rightarrow> Snapshot \<Rightarrow> MemberLeaf \<Rightarrow> OrgMembersError option" where
  "handle_conflict U M leaf =
     (if \<exists>i m. M i = Some m \<and> i \<noteq> ml_id leaf
            \<and> handle_skeleton U (ml_handle m) = handle_skeleton U (ml_handle leaf)
      then Some (if \<exists>i m. M i = Some m \<and> i \<noteq> ml_id leaf \<and> ml_handle m = ml_handle leaf
                 then DuplicateHandle else ConfusableHandle)
      else None)"

definition spec_put :: "Unicode \<Rightarrow> Snapshot \<Rightarrow> MemberLeaf \<Rightarrow> OrgMembersError + Snapshot" where
  "spec_put U M leaf =
     (case handle_conflict U M leaf of Some e \<Rightarrow> Inl e | None \<Rightarrow> Inr (M(ml_id leaf \<mapsto> leaf)))"

definition spec_add :: "Unicode \<Rightarrow> Snapshot \<Rightarrow> MemberLeaf \<Rightarrow> OrgMembersError + Snapshot" where
  "spec_add U M leaf = (if M (ml_id leaf) \<noteq> None then Inl DuplicateId else spec_put U M leaf)"

definition spec_delete :: "Snapshot \<Rightarrow> MemberId \<Rightarrow> OrgMembersError + Snapshot" where
  "spec_delete M i = (if M i = None then Inl IdNotFound else Inr (M(i := None)))"

definition spec_update ::
  "Unicode \<Rightarrow> Snapshot \<Rightarrow> MemberId \<Rightarrow> (MemberLeaf \<Rightarrow> OrgMembersError + MemberLeaf)
     \<Rightarrow> OrgMembersError + Snapshot" where
  "spec_update U M i f =
     and_then (ok_or (M i) IdNotFound) (\<lambda>m. and_then (f m) (\<lambda>m'. spec_put U M m'))"

text \<open>The promise of the map: keys are the leaves' ids and no two members share a skeleton.\<close>

definition snapshot_wf :: "Unicode \<Rightarrow> Snapshot \<Rightarrow> bool" where
  "snapshot_wf U M \<longleftrightarrow>
     finite (dom M)
     \<and> (\<forall>i m. M i = Some m \<longrightarrow> ml_id m = i \<and> leaf_wf U m)
     \<and> (\<forall>i j m n. M i = Some m \<longrightarrow> M j = Some n \<longrightarrow>
           handle_skeleton U (ml_handle m) = handle_skeleton U (ml_handle n) \<longrightarrow> i = j)"

section \<open>The indexes\<close>

text \<open>
  The handle index inverts the map from ids to handles, and the skeleton index lists the indexed
  handles by skeleton.
\<close>

definition handle_index_ok :: "Snapshot \<Rightarrow> HandleIndex \<Rightarrow> bool" where
  "handle_index_ok M hx \<longleftrightarrow> (\<forall>h i. hx h = Some i \<longleftrightarrow> map_option ml_handle (M i) = Some h)"

definition skeleton_index_ok :: "Unicode \<Rightarrow> HandleIndex \<Rightarrow> SkeletonIndex \<Rightarrow> bool" where
  "skeleton_index_ok U hx sk \<longleftrightarrow>
     (\<forall>s h. sk s = Some h \<longleftrightarrow> hx h \<noteq> None \<and> handle_skeleton U h = s)"

definition index_ok :: "Unicode \<Rightarrow> Snapshot \<Rightarrow> SkeletonIndex \<times> HandleIndex \<Rightarrow> bool" where
  "index_ok U M idx \<longleftrightarrow> handle_index_ok M (snd idx) \<and> skeleton_index_ok U (snd idx) (fst idx)"

lemma index_ok_empty: "index_ok U Map.empty (Map.empty, Map.empty)"
  by (simp add: index_ok_def handle_index_ok_def skeleton_index_ok_def)

lemma handle_index_okD:
  "handle_index_ok M hx \<Longrightarrow> hx h = Some i \<longleftrightarrow> map_option ml_handle (M i) = Some h"
  by (simp only: handle_index_ok_def)

lemma skeleton_index_okD:
  "skeleton_index_ok U hx sk \<Longrightarrow> sk s = Some h \<longleftrightarrow> hx h \<noteq> None \<and> handle_skeleton U h = s"
  by (simp only: skeleton_index_ok_def)

lemma index_ok_unique:
  assumes "index_ok U M idx" and "M i = Some m" and "M j = Some n"
    and "handle_skeleton U (ml_handle m) = handle_skeleton U (ml_handle n)"
  shows "i = j"
proof -
  have h: "handle_index_ok M (snd idx)" and s: "skeleton_index_ok U (snd idx) (fst idx)"
    using assms(1) by (simp_all add: index_ok_def)
  have ij: "snd idx (ml_handle m) = Some i" "snd idx (ml_handle n) = Some j"
    using assms(2,3) by (simp_all add: handle_index_okD [OF h])
  then have "fst idx (handle_skeleton U (ml_handle m)) = Some (ml_handle m)"
    and "fst idx (handle_skeleton U (ml_handle m)) = Some (ml_handle n)"
    using assms(4) by (simp_all add: skeleton_index_okD [OF s])
  then show ?thesis using ij by simp
qed

lemma handle_index_release:
  assumes "handle_index_ok M hx" and "M i = Some m"
  shows "handle_index_ok (M(i := None)) (hx(ml_handle m := None))"
proof -
  have "hx (ml_handle m) = Some i"
    using assms by (simp add: handle_index_okD)
  then have "map_option ml_handle (M j) = Some (ml_handle m) \<longleftrightarrow> j = i" for j
    using handle_index_okD [OF assms(1), of "ml_handle m" j] by auto
  then show ?thesis
    using assms handle_index_okD [OF assms(1)]
    unfolding handle_index_ok_def by (auto split: if_splits)
qed

lemma skeleton_index_release:
  assumes "skeleton_index_ok U hx sk" and "hx h \<noteq> None"
  shows "skeleton_index_ok U (hx(h := None)) (sk(handle_skeleton U h := None))"
proof -
  have "sk (handle_skeleton U h) = Some h"
    using assms by (simp add: skeleton_index_okD)
  then have "sk (handle_skeleton U h) = Some g \<longleftrightarrow> g = h" for g by auto
  then show ?thesis
    using skeleton_index_okD [OF assms(1)] unfolding skeleton_index_ok_def
    by (auto split: if_splits)
qed

lemma index_ok_release:
  assumes ok: "index_ok U M idx" and i: "M i = Some m"
  shows "index_ok U (M(i := None)) (release_handle U m idx)"
proof -
  have "snd idx (ml_handle m) = Some i"
    using ok i by (simp add: index_ok_def handle_index_okD [of M "snd idx"])
  then show ?thesis
    using ok handle_index_release [of M "snd idx" i m]
      skeleton_index_release [of U "snd idx" "fst idx" "ml_handle m"] i
    by (simp add: index_ok_def release_handle_def case_prod_beta)
qed

text \<open>Claiming a handle for an id that holds none: refused exactly on a conflict.\<close>

lemma conflict_skeleton_index:
  assumes ok: "index_ok U M idx" and fresh: "M (ml_id leaf) = None"
  shows "handle_conflict U M leaf =
    map_option (\<lambda>h. if h = ml_handle leaf then DuplicateHandle else ConfusableHandle)
      (fst idx (handle_skeleton U (ml_handle leaf)))"
proof -
  have h: "handle_index_ok M (snd idx)" and s: "skeleton_index_ok U (snd idx) (fst idx)"
    using ok by (simp_all add: index_ok_def)
  have sk: "fst idx (handle_skeleton U (ml_handle leaf)) = Some g \<longleftrightarrow>
      (\<exists>i m. M i = Some m \<and> i \<noteq> ml_id leaf \<and> ml_handle m = g
        \<and> handle_skeleton U (ml_handle m) = handle_skeleton U (ml_handle leaf))" for g
    using fresh handle_index_okD [OF h, of g] skeleton_index_okD [OF s, of _ g] by fastforce
  show ?thesis
  proof (cases "fst idx (handle_skeleton U (ml_handle leaf))")
    case None
    then show ?thesis using sk by (fastforce simp: handle_conflict_def)
  next
    case (Some g)
    then have one: "\<exists>i m. M i = Some m \<and> i \<noteq> ml_id leaf \<and> ml_handle m = g
        \<and> handle_skeleton U (ml_handle m) = handle_skeleton U (ml_handle leaf)"
      using sk by simp
    moreover have "g = ml_handle leaf" if "M i = Some m" "i \<noteq> ml_id leaf" "ml_handle m = ml_handle leaf" for i m
    proof -
      have "fst idx (handle_skeleton U (ml_handle leaf)) = Some (ml_handle leaf)"
        unfolding sk using that by metis
      then show ?thesis using Some by simp
    qed
    ultimately show ?thesis using Some by (auto simp: handle_conflict_def)
  qed
qed

lemma claim_handle_cases:
  assumes "index_ok U M idx" and "M (ml_id leaf) = None"
  shows "claim_handle U leaf idx =
     (case handle_conflict U M leaf of
        Some e \<Rightarrow> Inl e
      | None \<Rightarrow> Inr ((fst idx)(handle_skeleton U (ml_handle leaf) \<mapsto> ml_handle leaf),
                     (snd idx)(ml_handle leaf \<mapsto> ml_id leaf)))"
  by (simp add: conflict_skeleton_index [OF assms] claim_handle_def Let_def
      split: prod.split option.split)

lemma index_ok_claim:
  assumes ok: "index_ok U M idx" and fresh: "M (ml_id leaf) = None"
    and none: "handle_conflict U M leaf = None"
  shows "index_ok U (M(ml_id leaf \<mapsto> leaf))
     ((fst idx)(handle_skeleton U (ml_handle leaf) \<mapsto> ml_handle leaf),
      (snd idx)(ml_handle leaf \<mapsto> ml_id leaf))"
proof -
  have h: "handle_index_ok M (snd idx)" and s: "skeleton_index_ok U (snd idx) (fst idx)"
    using ok by (simp_all add: index_ok_def)
  have sk: "fst idx (handle_skeleton U (ml_handle leaf)) = None"
    using none by (simp add: conflict_skeleton_index [OF ok fresh])
  then have free: "snd idx g = None" if "handle_skeleton U g = handle_skeleton U (ml_handle leaf)" for g
    using skeleton_index_okD [OF s, of "handle_skeleton U (ml_handle leaf)" g] that by (simp add: sk)
  have free_h: "map_option ml_handle (M j) \<noteq> Some (ml_handle leaf)" for j
    using free [OF refl] handle_index_okD [OF h, of "ml_handle leaf" j] by simp
  have "handle_index_ok (M(ml_id leaf \<mapsto> leaf)) ((snd idx)(ml_handle leaf \<mapsto> ml_id leaf))"
    unfolding handle_index_ok_def
  proof (intro allI)
    fix g i
    show "((snd idx)(ml_handle leaf \<mapsto> ml_id leaf)) g = Some i \<longleftrightarrow>
        map_option ml_handle ((M(ml_id leaf \<mapsto> leaf)) i) = Some g"
      using free_h [of i] handle_index_okD [OF h, of g i] fresh
      by (cases "g = ml_handle leaf"; cases "i = ml_id leaf") simp_all
  qed
  moreover have "skeleton_index_ok U ((snd idx)(ml_handle leaf \<mapsto> ml_id leaf))
      ((fst idx)(handle_skeleton U (ml_handle leaf) \<mapsto> ml_handle leaf))"
    unfolding skeleton_index_ok_def
  proof (intro allI)
    fix k g
    show "((fst idx)(handle_skeleton U (ml_handle leaf) \<mapsto> ml_handle leaf)) k = Some g \<longleftrightarrow>
        ((snd idx)(ml_handle leaf \<mapsto> ml_id leaf)) g \<noteq> None \<and> handle_skeleton U g = k"
      using free [of g] skeleton_index_okD [OF s, of k g] by auto
  qed
  ultimately show ?thesis by (simp add: index_ok_def)
qed

lemma index_ok_same_handle:
  assumes "index_ok U M idx" and "M (ml_id leaf) = Some old" and "ml_handle old = ml_handle leaf"
  shows "index_ok U (M(ml_id leaf \<mapsto> leaf)) idx"
  using assms by (simp add: index_ok_def handle_index_ok_def)

section \<open>The invariant of a trie\<close>

definition smt_root :: "TrieHasher \<Rightarrow> Node \<Rightarrow> RootHash" where
  "smt_root H n = root_of_node (dense_hash H SMT_DEPTH (node_lookup n))"

definition node_members_wf :: "Unicode \<Rightarrow> TrieHasher \<Rightarrow> Node \<Rightarrow> bool" where
  "node_members_wf U H n \<longleftrightarrow> smt_wf H n \<and> (\<forall>i m. get_member n i = Some m \<longrightarrow> leaf_wf U m)"

text \<open>
  The tree part: the current and the last calculated tree are well-formed, the last one is hashed,
  and a cached root hash is the root of the current tree, which then is the last calculated one.
\<close>

definition trees_ok :: "Unicode \<Rightarrow> TrieHasher \<Rightarrow> OrgTrie \<Rightarrow> bool" where
  "trees_ok U H t \<longleftrightarrow>
     ot_defaults t = default_hashes_compute H
     \<and> node_members_wf U H (ot_root t) \<and> node_members_wf U H (ot_last_calculated_root t)
     \<and> hash_cell (ot_last_calculated_root t) \<noteq> None
     \<and> (\<forall>r. ot_cached_root_hash t = Some r \<longrightarrow>
           r = smt_root H (ot_root t) \<and> ot_root t = ot_last_calculated_root t)"

definition trie_inv :: "Unicode \<Rightarrow> TrieHasher \<Rightarrow> OrgTrie \<Rightarrow> bool" where
  "trie_inv U H t \<longleftrightarrow>
     trees_ok U H t
     \<and> index_ok U (snapshot t) (ot_skeleton_index t, ot_handle_index t)
     \<and> ot_member_count t = card (dom (snapshot t))"

lemma members_keys:
  assumes "smt_wf H n"
  shows "dom (get_member n) = set (map ml_id (collect_members n))"
proof -
  have "i \<in> dom (get_member n) \<longleftrightarrow> i \<in> ml_id ` set (collect_members n)" for i
  proof
    assume "i \<in> dom (get_member n)"
    then obtain m where "get_member n i = Some m" by auto
    then have "m \<in> set (collect_members n)" and "ml_id m = i"
      using collect_members_get [OF assms, of m] get_member_id [OF assms] by auto
    then show "i \<in> ml_id ` set (collect_members n)" by blast
  qed (use collect_members_get [OF assms] in auto)
  then show ?thesis by auto
qed

lemma finite_dom_get_member: "smt_wf H n \<Longrightarrow> finite (dom (get_member n))"
  by (simp only: members_keys finite_set)

lemma length_collect_members:
  assumes "smt_wf H n"
  shows "length (collect_members n) = card (dom (get_member n))"
proof -
  have "distinct (map ml_id (collect_members n))"
    using collect_members_sorted [OF smt_wf_placed [OF assms]] by (simp add: strict_sorted_iff)
  then show ?thesis using distinct_card members_keys [OF assms] by (metis length_map)
qed

lemma trie_inv_snapshot_wf: "trie_inv U H t \<Longrightarrow> snapshot_wf U (snapshot t)"
  unfolding snapshot_wf_def
  using finite_dom_get_member get_member_id index_ok_unique
  by (auto simp: trie_inv_def trees_ok_def node_members_wf_def)

lemma trie_invD:
  assumes "trie_inv U H t"
  shows "trees_ok U H t"
    and "index_ok U (snapshot t) (ot_skeleton_index t, ot_handle_index t)"
    and "ot_member_count t = card (dom (snapshot t))"
    and "ot_defaults t = default_hashes_compute H"
    and "node_members_wf U H (ot_root t)"
    and "smt_wf H (ot_root t)"
  using assms unfolding trie_inv_def trees_ok_def node_members_wf_def by blast+

lemma node_members_wf_insert:
  "node_members_wf U H n \<Longrightarrow> leaf_wf U m \<Longrightarrow>
     node_members_wf U H (smt_insert H n m (default_hashes_compute H))"
  by (auto simp: node_members_wf_def smt_insert_wf get_member_insert split: if_splits)

lemma node_members_wf_remove:
  "node_members_wf U H n \<Longrightarrow> node_members_wf U H (smt_remove n i (default_hashes_compute H))"
  by (auto simp: node_members_wf_def smt_remove_wf get_member_remove split: if_splits)

lemma handle_conflict_del: "handle_conflict U (M(ml_id leaf := None)) leaf = handle_conflict U M leaf"
proof -
  have "(\<exists>i m. (M(ml_id leaf := None)) i = Some m \<and> i \<noteq> ml_id leaf \<and> P m) =
      (\<exists>i m. M i = Some m \<and> i \<noteq> ml_id leaf \<and> P m)" for P
    by (metis fun_upd_apply)
  from this [of "\<lambda>m. handle_skeleton U (ml_handle m) = handle_skeleton U (ml_handle leaf)"]
    this [of "\<lambda>m. ml_handle m = ml_handle leaf"]
  show ?thesis unfolding handle_conflict_def by (simp only:)
qed

lemma handle_conflict_same:
  assumes "index_ok U M idx" and "M (ml_id leaf) = Some old" and "ml_handle old = ml_handle leaf"
  shows "handle_conflict U M leaf = None"
  using index_ok_unique [OF assms(1) _ assms(2)] assms(3) by (auto simp: handle_conflict_def)

section \<open>Refinement of the mutations\<close>

text \<open>\<open>implements\<close>: the operation's outcome is the specification's, and a new trie keeps the invariant.\<close>

definition implements ::
  "Unicode \<Rightarrow> TrieHasher \<Rightarrow> OrgMembersError + OrgTrie \<Rightarrow> OrgMembersError + Snapshot \<Rightarrow> bool" where
  "implements U H r s \<longleftrightarrow>
     (case r of
        Inl e \<Rightarrow> s = Inl e
      | Inr t \<Rightarrow> s = Inr (snapshot t) \<and> trie_inv U H t \<and> has_pending_changes t)"

lemma implements_simps [simp]:
  "implements U H (Inl e) s \<longleftrightarrow> s = Inl e"
  "implements U H (Inr t) s \<longleftrightarrow> s = Inr (snapshot t) \<and> trie_inv U H t \<and> has_pending_changes t"
  by (simp_all add: implements_def)

lemma insert_leaf_implements:
  assumes inv: "trie_inv U H t" and wf: "leaf_wf U leaf" and room: "member_count t + 1 < 2 ^ 64"
  shows "implements U H (insert_leaf U H t leaf) (spec_add U (snapshot t) leaf)"
proof (cases "snapshot t (ml_id leaf)")
  case (Some m)
  then show ?thesis by (simp add: insert_leaf_def spec_add_def)
next
  case None
  note tr = trie_invD(1) [OF inv] and ok = trie_invD(2) [OF inv] and card = trie_invD(3) [OF inv]
    and D = trie_invD(4) [OF inv] and n = trie_invD(5) [OF inv] and s = trie_invD(6) [OF inv]
  show ?thesis
  proof (cases "handle_conflict U (snapshot t) leaf")
    case (Some e)
    then show ?thesis
      using None by (simp add: insert_leaf_def spec_add_def spec_put_def claim_handle_cases [OF ok])
  next
    case nc: None
    have "card (dom (snapshot t ++ [ml_id leaf \<mapsto> leaf])) = card (dom (snapshot t)) + 1"
      using None finite_dom_get_member [OF s] by (simp add: card_insert_if domIff)
    then show ?thesis
      using None nc room card index_ok_claim [OF ok None nc] node_members_wf_insert [OF n wf] tr
      by (simp add: insert_leaf_def spec_add_def spec_put_def claim_handle_cases [OF ok] D
          get_member_insert [OF s] checked_add_usize_def member_count_def trie_inv_def trees_ok_def
          has_pending_changes_def)
  qed
qed

lemma update_leaf_implements:
  assumes inv: "trie_inv U H t" and wf: "leaf_wf U leaf"
  shows "implements U H (update_leaf U H t leaf)
     (if snapshot t (ml_id leaf) = None then Inl IdNotFound else spec_put U (snapshot t) leaf)"
proof (cases "snapshot t (ml_id leaf)")
  case None
  then show ?thesis by (simp add: update_leaf_def)
next
  case (Some old)
  note tr = trie_invD(1) [OF inv] and ok = trie_invD(2) [OF inv] and card = trie_invD(3) [OF inv]
    and D = trie_invD(4) [OF inv] and n = trie_invD(5) [OF inv] and s = trie_invD(6) [OF inv]
  have dom: "dom ((snapshot t)(ml_id leaf \<mapsto> leaf)) = dom (snapshot t)"
    using Some by (auto simp: dom_def)
  have inv': "trie_inv U H (t\<lparr>ot_root := smt_insert H (ot_root t) leaf (ot_defaults t),
      ot_cached_root_hash := None, ot_skeleton_index := sk, ot_handle_index := hx\<rparr>)"
    if "index_ok U ((snapshot t)(ml_id leaf \<mapsto> leaf)) (sk, hx)" for sk hx
    using that card dom node_members_wf_insert [OF n wf] tr
    by (simp add: trie_inv_def trees_ok_def get_member_insert [OF s])
  show ?thesis
  proof (cases "ml_handle old = ml_handle leaf")
    case True
    then show ?thesis
      using Some inv' [OF index_ok_same_handle [OF ok Some True]] handle_conflict_same [OF ok Some True]
      by (simp add: update_leaf_def spec_put_def D get_member_insert [OF s] has_pending_changes_def)
  next
    case False
    let ?M = "(snapshot t)(ml_id leaf := None)"
    have ok': "index_ok U ?M (release_handle U old (ot_skeleton_index t, ot_handle_index t))"
      using index_ok_release [OF ok Some] .
    show ?thesis
    proof (cases "handle_conflict U (snapshot t) leaf")
      case (Some e)
      then show ?thesis
        using False \<open>snapshot t (ml_id leaf) = Some old\<close>
        by (simp add: update_leaf_def spec_put_def claim_handle_cases [OF ok'] handle_conflict_del)
    next
      case nc: None
      have "index_ok U (?M(ml_id leaf \<mapsto> leaf))
          ((fst (release_handle U old (ot_skeleton_index t, ot_handle_index t)))
            (handle_skeleton U (ml_handle leaf) \<mapsto> ml_handle leaf),
           (snd (release_handle U old (ot_skeleton_index t, ot_handle_index t)))
            (ml_handle leaf \<mapsto> ml_id leaf))"
        by (rule index_ok_claim [OF ok']) (simp_all add: handle_conflict_del nc)
      then show ?thesis
        using False Some nc inv'
        by (simp add: update_leaf_def spec_put_def claim_handle_cases [OF ok'] handle_conflict_del D
            get_member_insert [OF s] has_pending_changes_def)
    qed
  qed
qed

lemma delete_by_id_implements:
  assumes inv: "trie_inv U H t"
  shows "implements U H (delete_by_id U t i) (spec_delete (snapshot t) i)"
proof (cases "snapshot t i")
  case None
  then show ?thesis by (simp add: delete_by_id_def spec_delete_def)
next
  case (Some m)
  note tr = trie_invD(1) [OF inv] and ok = trie_invD(2) [OF inv] and card = trie_invD(3) [OF inv]
    and D = trie_invD(4) [OF inv] and n = trie_invD(5) [OF inv] and s = trie_invD(6) [OF inv]
  have i: "i \<in> dom (snapshot t)" using Some by auto
  then have "1 \<le> ot_member_count t" and "card (dom (snapshot t) - {i}) = ot_member_count t - 1"
    using card finite_dom_get_member [OF s] card_gt_0_iff [of "dom (snapshot t)"]
    by (auto simp: card_Diff_singleton)
  then show ?thesis
    using Some index_ok_release [OF ok Some] node_members_wf_remove [OF n, of i] tr
    by (simp add: delete_by_id_def spec_delete_def D get_member_remove [OF s] checked_sub_usize_def
        trie_inv_def trees_ok_def has_pending_changes_def case_prod_beta)
qed

text \<open>The shape the domain operations share: look up, edit, write back.\<close>

definition edit_ok :: "Unicode \<Rightarrow> (MemberLeaf \<Rightarrow> OrgMembersError + MemberLeaf) \<Rightarrow> bool" where
  "edit_ok U f \<longleftrightarrow>
     (\<forall>m m'. leaf_wf U m \<longrightarrow> f m = Inr m' \<longrightarrow> ml_id m' = ml_id m \<and> leaf_wf U m')"

lemma update_via_implements:
  assumes inv: "trie_inv U H t" and edit: "edit_ok U f"
  shows "implements U H
     (and_then (ok_or (snapshot t i) IdNotFound) (\<lambda>m. and_then (f m) (update_leaf U H t)))
     (spec_update U (snapshot t) i f)"
proof (cases "snapshot t i")
  case None
  then show ?thesis by (simp add: spec_update_def)
next
  case (Some m)
  have m: "leaf_wf U m" "ml_id m = i"
    using Some trie_inv_snapshot_wf [OF inv] by (auto simp: snapshot_wf_def)
  show ?thesis
  proof (cases "f m")
    case (Inl e)
    then show ?thesis using Some by (simp add: spec_update_def)
  next
    case (Inr m')
    then have "ml_id m' = i" and "leaf_wf U m'"
      using edit m unfolding edit_ok_def by blast+
    then show ?thesis
      using update_leaf_implements [OF inv, of m'] Inr Some by (simp add: spec_update_def)
  qed
qed

definition edit_name_surname :: "Unicode \<Rightarrow> RString \<Rightarrow> RString \<Rightarrow> MemberLeaf \<Rightarrow> OrgMembersError + MemberLeaf" where
  "edit_name_surname U name surname m =
     (if length (nfc U name) > MAX_NAME_LEN then Inl (FieldTooLong ''name'' MAX_NAME_LEN)
      else if length (nfc U surname) > MAX_SURNAME_LEN
      then Inl (FieldTooLong ''surname'' MAX_SURNAME_LEN)
      else Inr (m\<lparr>ml_name := nfc U name, ml_surname := nfc U surname\<rparr>))"

definition edit_handle :: "Unicode \<Rightarrow> RString \<Rightarrow> MemberLeaf \<Rightarrow> OrgMembersError + MemberLeaf" where
  "edit_handle U h m = and_then (validate_handle U h) (\<lambda>v. Inr (m\<lparr>ml_handle := v\<rparr>))"

text \<open>The edits of the device operations, with the device list as a set of at most four keys.\<close>

definition edit_add_device :: "P2pDeviceKey \<Rightarrow> MemberLeaf \<Rightarrow> OrgMembersError + MemberLeaf" where
  "edit_add_device d m =
     (let ds = set (slots (ml_p2p_devices m)) in
      if card ds \<ge> MAX_DEVICES then Inl DeviceSlotsFull
      else if d \<in> ds then Inl DuplicateDevice
      else Inr (m\<lparr>ml_p2p_devices := P2pDeviceSlots (sorted_list_of_set (insert d ds))\<rparr>))"

definition edit_delete_device ::
  "P2pDeviceKey \<Rightarrow> P2pMemberKey \<Rightarrow> MemberLeaf \<Rightarrow> OrgMembersError + MemberLeaf" where
  "edit_delete_device d k m =
     (let ds = set (slots (ml_p2p_devices m)) in
      if d \<notin> ds then Inl DeviceNotFound
      else Inr (m\<lparr>ml_p2p_devices := P2pDeviceSlots (sorted_list_of_set (ds - {d})), ml_p2p_key := k\<rparr>))"

definition edit_isolate :: "P2pMemberKey \<Rightarrow> MemberLeaf \<Rightarrow> OrgMembersError + MemberLeaf" where
  "edit_isolate k m = Inr (m\<lparr>ml_p2p_devices := P2pDeviceSlots [], ml_p2p_key := k\<rparr>)"

lemma slots_as_set: "slots_wf s \<Longrightarrow> s = P2pDeviceSlots (sorted_list_of_set (set (slots s)))"
  by (intro P2pDeviceSlots.expand)
    (simp add: slots_wf_def strict_sorted_iff sorted_distinct_set_unique)

lemma slots_wf_sorted_list_of_set:
  "finite A \<Longrightarrow> card A \<le> MAX_DEVICES \<Longrightarrow> slots_wf (P2pDeviceSlots (sorted_list_of_set A))"
  by (simp add: slots_wf_def strict_sorted_iff)

lemma card_slots: "slots_wf s \<Longrightarrow> card (set (slots s)) = length (slots s)"
  by (simp add: distinct_card slots_wfD)

lemma add_device_set:
  assumes "slots_wf s"
  shows "add_device s d =
     (if card (set (slots s)) \<ge> MAX_DEVICES then Inl DeviceSlotsFull
      else if d \<in> set (slots s) then Inl DuplicateDevice
      else Inr (P2pDeviceSlots (sorted_list_of_set (insert d (set (slots s))))))"
proof (cases "add_device s d")
  case (Inl e)
  then show ?thesis using assms by (auto simp: add_device_cases card_slots split: if_splits)
next
  case (Inr t)
  then have "slots_wf t" and "set (slots t) = insert d (set (slots s))"
    using add_device_wf [OF assms Inr] by simp_all
  then have "t = P2pDeviceSlots (sorted_list_of_set (insert d (set (slots s))))"
    using slots_as_set by metis
  then show ?thesis using Inr assms by (auto simp: add_device_cases card_slots split: if_splits)
qed

lemma remove_device_set:
  assumes "slots_wf s"
  shows "remove_device s d =
     (if d \<notin> set (slots s) then Inl DeviceNotFound
      else Inr (P2pDeviceSlots (sorted_list_of_set (set (slots s) - {d}))))"
  using remove_device_cases [OF assms, of d] slots_as_set by (auto split: if_splits) metis

lemma edit_ok_name_surname: "nfc_laws U \<Longrightarrow> edit_ok U (edit_name_surname U name surname)"
  by (auto simp: edit_ok_def edit_name_surname_def leaf_wf_def nfc_laws_def split: if_splits)

lemma edit_ok_handle: "nfc_laws U \<Longrightarrow> edit_ok U (edit_handle U h)"
  by (auto simp: edit_ok_def edit_handle_def leaf_wf_def and_then_eq_Inr intro: validate_handle_again)

lemma edit_ok_key: "edit_ok U (\<lambda>m. Inr (m\<lparr>ml_p2p_key := k\<rparr>))"
  by (auto simp: edit_ok_def leaf_wf_def)

lemma edit_ok_add_device: "edit_ok U (edit_add_device d)"
proof -
  have "slots_wf (P2pDeviceSlots (sorted_list_of_set (insert d (set (slots s)))))"
    if "\<not> MAX_DEVICES \<le> card (set (slots s))" "d \<notin> set (slots s)" for s
    using that by (intro slots_wf_sorted_list_of_set) (simp_all add: card_insert_if)
  then show ?thesis
    by (auto simp: edit_ok_def edit_add_device_def Let_def leaf_wf_def split: if_splits)
qed

lemma edit_ok_delete_device: "edit_ok U (edit_delete_device d k)"
proof -
  have "card (set (slots s) - {d}) \<le> MAX_DEVICES" if "slots_wf s" for s
    using that card_slots [OF that] by (simp add: slots_wf_def card_Diff_singleton_if le_diff_conv)
  then show ?thesis
    by (auto simp: edit_ok_def edit_delete_device_def Let_def leaf_wf_def
        intro!: slots_wf_sorted_list_of_set split: if_splits)
qed

lemma edit_ok_isolate: "edit_ok U (edit_isolate k)"
  by (auto simp: edit_ok_def edit_isolate_def leaf_wf_def slots_wf_def)

lemma add_member_implements:
  assumes "trie_inv U H t" and "leaf_wf U leaf" and "member_count t + 1 < 2 ^ 64"
  shows "implements U H (add_member U H t leaf) (spec_add U (snapshot t) leaf)"
  using insert_leaf_implements [OF assms] by (simp add: add_member_def)

lemma delete_member_implements:
  assumes "trie_inv U H t"
  shows "implements U H (delete_member U t i) (spec_delete (snapshot t) i)"
  using delete_by_id_implements [OF assms] by (simp add: delete_member_def)

lemma update_name_surname_implements:
  assumes "nfc_laws U" and "trie_inv U H t"
  shows "implements U H (update_name_surname U H t i name surname)
     (spec_update U (snapshot t) i (edit_name_surname U name surname))"
proof -
  have "update_name_surname U H t i name surname =
      and_then (ok_or (snapshot t i) IdNotFound)
        (\<lambda>m. and_then (edit_name_surname U name surname m) (update_leaf U H t))"
    by (cases "snapshot t i") (simp_all add: update_name_surname_def edit_name_surname_def Let_def
        to_nfc_def with_name_surname_def)
  then show ?thesis
    using update_via_implements [OF assms(2) edit_ok_name_surname [OF assms(1)]] by simp
qed

lemma update_handle_implements:
  assumes "nfc_laws U" and "trie_inv U H t"
  shows "implements U H (update_handle U H t i h) (spec_update U (snapshot t) i (edit_handle U h))"
proof -
  have "update_handle U H t i h =
      and_then (ok_or (snapshot t i) IdNotFound) (\<lambda>m. and_then (edit_handle U h m) (update_leaf U H t))"
    by (simp add: update_handle_def edit_handle_def and_then_assoc with_handle_def)
  then show ?thesis
    using update_via_implements [OF assms(2) edit_ok_handle [OF assms(1)]] by simp
qed

lemma rotate_p2p_key_implements:
  assumes "trie_inv U H t"
  shows "implements U H (rotate_p2p_key U H t i k)
     (spec_update U (snapshot t) i (\<lambda>m. Inr (m\<lparr>ml_p2p_key := k\<rparr>)))"
  using update_via_implements [OF assms edit_ok_key, of i k]
  by (simp add: rotate_p2p_key_def with_p2p_key_def)

lemma snapshot_slots_wf:
  "trie_inv U H t \<Longrightarrow> snapshot t i = Some m \<Longrightarrow> slots_wf (ml_p2p_devices m)"
  using trie_inv_snapshot_wf [of U H t] by (auto simp: snapshot_wf_def leaf_wf_def)

lemma add_p2p_device_implements:
  assumes inv: "trie_inv U H t"
  shows "implements U H (add_p2p_device U H t i d) (spec_update U (snapshot t) i (edit_add_device d))"
proof -
  have "add_p2p_device U H t i d =
      and_then (ok_or (snapshot t i) IdNotFound) (\<lambda>m. and_then (edit_add_device d m) (update_leaf U H t))"
    using snapshot_slots_wf [OF inv, of i] by (cases "snapshot t i")
      (simp_all add: add_p2p_device_def edit_add_device_def add_device_set Let_def
        with_p2p_device_slots_def)
  then show ?thesis using update_via_implements [OF inv edit_ok_add_device] by simp
qed

lemma delete_p2p_device_implements:
  assumes inv: "trie_inv U H t"
  shows "implements U H (delete_p2p_device U H t i d k)
     (spec_update U (snapshot t) i (edit_delete_device d k))"
proof -
  have "delete_p2p_device U H t i d k =
      and_then (ok_or (snapshot t i) IdNotFound)
        (\<lambda>m. and_then (edit_delete_device d k m) (update_leaf U H t))"
    using snapshot_slots_wf [OF inv, of i] by (cases "snapshot t i")
      (simp_all add: delete_p2p_device_def edit_delete_device_def remove_device_set Let_def
        with_p2p_device_slots_def with_p2p_key_def)
  then show ?thesis using update_via_implements [OF inv edit_ok_delete_device] by simp
qed

lemma emergency_isolate_member_implements:
  assumes "trie_inv U H t"
  shows "implements U H (emergency_isolate_member U H t i k)
     (spec_update U (snapshot t) i (edit_isolate k))"
proof -
  have "emergency_isolate_member U H t i k =
      and_then (ok_or (snapshot t i) IdNotFound) (\<lambda>m. and_then (edit_isolate k m) (update_leaf U H t))"
    by (simp add: emergency_isolate_member_def device_slots_new_cases edit_isolate_def
        with_p2p_device_slots_def with_p2p_key_def)
  then show ?thesis using update_via_implements [OF assms edit_ok_isolate] by simp
qed

section \<open>Genesis\<close>

fun spec_genesis :: "Unicode \<Rightarrow> Snapshot \<Rightarrow> MemberLeaf list \<Rightarrow> OrgMembersError + Snapshot" where
  "spec_genesis U M [] = Inr M"
| "spec_genesis U M (m # ms) = and_then (spec_add U M m) (\<lambda>M'. spec_genesis U M' ms)"

text \<open>The loop state of \<^verbatim>\<open>genesis\<close> and \<^verbatim>\<open>apply_delta\<close>: tree, count and indexes in agreement.\<close>

definition loop_ok :: "Unicode \<Rightarrow> TrieHasher \<Rightarrow> Node \<times> nat \<times> SkeletonIndex \<times> HandleIndex \<Rightarrow> bool" where
  "loop_ok U H st = (case st of (root, count, idx) \<Rightarrow>
     node_members_wf U H root \<and> count = card (dom (get_member root)) \<and> index_ok U (get_member root) idx)"

lemma loop_ok_add:
  assumes ok: "loop_ok U H (root, count, idx)" and wf: "leaf_wf U m"
    and fresh: "get_member root (ml_id m) = None" and idx: "claim_handle U m idx = Inr idx'"
  shows "loop_ok U H (smt_insert H root m (default_hashes_compute H), count + 1, idx')
    \<and> handle_conflict U (get_member root) m = None"
proof -
  have n: "node_members_wf U H root" "smt_wf H root" and i: "index_ok U (get_member root) idx"
    and c: "count = card (dom (get_member root))"
    using ok by (simp_all add: loop_ok_def node_members_wf_def)
  note claim = claim_handle_cases [OF i fresh]
  have nc: "handle_conflict U (get_member root) m = None"
    using idx claim by (auto split: option.splits)
  have "index_ok U ((get_member root)(ml_id m \<mapsto> m)) idx'"
    using index_ok_claim [OF i fresh nc] idx claim nc by simp
  moreover have "card (dom ((get_member root)(ml_id m \<mapsto> m))) = count + 1"
    using fresh finite_dom_get_member [OF n(2)] by (simp add: c card_insert_if domIff)
  ultimately show ?thesis
    using nc node_members_wf_insert [OF n(1) wf] by (simp add: loop_ok_def get_member_insert [OF n(2)])
qed

definition loop_implements ::
  "Unicode \<Rightarrow> TrieHasher \<Rightarrow> OrgMembersError + Node \<times> nat \<times> SkeletonIndex \<times> HandleIndex
     \<Rightarrow> OrgMembersError + Snapshot \<Rightarrow> bool" where
  "loop_implements U H r s \<longleftrightarrow>
     (case r of
        Inl e \<Rightarrow> s = Inl e
      | Inr st \<Rightarrow> loop_ok U H st \<and> s = Inr (get_member (fst st)))"

lemma loop_implements_simps [simp]:
  "loop_implements U H (Inl e) s \<longleftrightarrow> s = Inl e"
  "loop_implements U H (Inr st) s \<longleftrightarrow> loop_ok U H st \<and> s = Inr (get_member (fst st))"
  by (simp_all add: loop_implements_def)

lemma genesis_loop_correct:
  assumes "loop_ok U H (root, count, idx)" and "\<forall>m\<in>set ms. leaf_wf U m"
  shows "loop_implements U H (genesis_loop U H (default_hashes_compute H) ms (root, count, idx))
     (spec_genesis U (get_member root) ms)"
  using assms
proof (induction ms arbitrary: root count idx)
  case Nil
  then show ?case by simp
next
  case (Cons m ms)
  have n: "smt_wf H root" and i: "index_ok U (get_member root) idx"
    using Cons.prems(1) by (simp_all add: loop_ok_def node_members_wf_def)
  show ?case
  proof (cases "get_member root (ml_id m)")
    case (Some x)
    then show ?thesis by (simp add: spec_add_def)
  next
    case None
    show ?thesis
    proof (cases "claim_handle U m idx")
      case (Inl e)
      then have "handle_conflict U (get_member root) m = Some e"
        using claim_handle_cases [OF i None] by (auto split: option.splits)
      then show ?thesis using Inl None by (simp add: spec_add_def spec_put_def)
    next
      case (Inr idx')
      have step: "loop_ok U H (smt_insert H root m (default_hashes_compute H), count + 1, idx')"
        and nc: "handle_conflict U (get_member root) m = None"
        using loop_ok_add [OF Cons.prems(1) _ None Inr] Cons.prems(2) by simp_all
      show ?thesis
        using Cons.IH [OF step] Cons.prems(2) None Inr nc
        by (simp add: spec_add_def spec_put_def get_member_insert [OF n] fun_upd_def)
    qed
  qed
qed

lemma recalculated_root:
  assumes "node_members_wf U H n"
  obtains n' where "recalculate_hashes H n = Inr (dense_hash H SMT_DEPTH (node_lookup n), n')"
    and "node_members_wf U H n'" and "get_member n' = get_member n" and "smt_root H n' = smt_root H n"
    and "hash_cell n' \<noteq> None" and "node_lookup n' = node_lookup n"
proof -
  from assms have wf: "node_wf H SMT_DEPTH n" by (simp add: node_members_wf_def smt_wf_def)
  obtain n' where n': "recalculate_hashes H n = Inr (dense_hash H SMT_DEPTH (node_lookup n), n')"
      "node_wf H SMT_DEPTH n'" "node_lookup n' = node_lookup n"
      "hash_cell n' = Some (dense_hash H SMT_DEPTH (node_lookup n))"
    using recalculate_hashes_correct [OF wf] by blast
  have "get_member n' = get_member n" using n'(3) by (simp add: get_member_lookup fun_eq_iff)
  moreover have "node_members_wf U H n'"
    using assms n'(2,3) \<open>get_member n' = get_member n\<close> by (simp add: node_members_wf_def smt_wf_def)
  ultimately show ?thesis using n' by (intro that [of n']) (simp_all add: smt_root_def)
qed

text \<open>What is proved of a freshly calculated trie.\<close>

definition calculated_implements ::
  "Unicode \<Rightarrow> TrieHasher \<Rightarrow> OrgMembersError + OrgTrie \<Rightarrow> OrgMembersError + Snapshot \<Rightarrow> bool" where
  "calculated_implements U H r s \<longleftrightarrow>
     (case r of
        Inl e \<Rightarrow> s = Inl e
      | Inr t \<Rightarrow> s = Inr (snapshot t) \<and> trie_inv U H t \<and> root_hash t = Inr (smt_root H (ot_root t)))"

lemma genesis_correct:
  assumes "\<forall>m\<in>set ms. leaf_wf U m"
  shows "calculated_implements U H (genesis U H ms) (spec_genesis U Map.empty ms)"
proof -
  let ?D = "default_hashes_compute H"
  have "loop_ok U H (empty_root ?D, 0, Map.empty, Map.empty)"
    by (simp add: loop_ok_def node_members_wf_def empty_root_wf index_ok_empty)
  from genesis_loop_correct [OF this assms] have loop:
    "loop_implements U H (genesis_loop U H ?D ms (empty_root ?D, 0, Map.empty, Map.empty))
       (spec_genesis U Map.empty ms)"
    by simp
  show ?thesis
  proof (cases "genesis_loop U H ?D ms (empty_root ?D, 0, Map.empty, Map.empty)")
    case (Inl e)
    then show ?thesis using loop by (simp add: genesis_def calculated_implements_def)
  next
    case (Inr st)
    then obtain root count sk hx where st: "st = (root, count, sk, hx)" by (cases st)
    have ok: "loop_ok U H (root, count, sk, hx)"
      and spec: "spec_genesis U Map.empty ms = Inr (get_member root)"
      using loop Inr st by simp_all
    then have "node_members_wf U H root" by (simp add: loop_ok_def)
    then obtain n' where n': "recalculate_hashes H root = Inr (dense_hash H SMT_DEPTH (node_lookup root), n')"
      "node_members_wf U H n'" "get_member n' = get_member root" "smt_root H n' = smt_root H root"
      "hash_cell n' \<noteq> None"
      using recalculated_root by metis
    show ?thesis
      using Inr st n' ok spec
      by (simp add: genesis_def trie_inv_def trees_ok_def loop_ok_def root_hash_def smt_root_def
          calculated_implements_def)
  qed
qed

end
