(* ===== verification/DeltaSync.thy ===== *)
theory DeltaSync
  imports Membership
begin

text \<open>
  Deltas: their canonical form, their application and their production.

  \<open>canonical_delta\<close> is the form the documentation of \<^verbatim>\<open>Delta\<close> promises, \<open>delta_target\<close> the map a delta
  leads to. The lemmas show that \<^verbatim>\<open>validate_canonical_delta\<close> decides the canonical form, that
  \<^verbatim>\<open>apply_delta\<close> followed by \<^verbatim>\<open>verify_against\<close> yields exactly the target map under the expected root,
  that \<^verbatim>\<open>recalculate\<close> produces the canonical delta from the last calculated tree to the current one
  (or a hash collision), and that an honest delta is accepted unless it hands a handle over from one
  surviving member to another.
\<close>

section \<open>Canonical deltas\<close>

text \<open>The canonical form of a delta over a base map, as the documentation of \<^verbatim>\<open>Delta\<close> states it.\<close>

definition canonical_delta :: "Snapshot \<Rightarrow> Delta \<Rightarrow> bool" where
  "canonical_delta M d \<longleftrightarrow>
     sorted_wrt (<) (d_removed d) \<and> set (d_removed d) \<subseteq> dom M
     \<and> sorted_wrt (<) (map ml_id (d_upserted d))
     \<and> (\<forall>m\<in>set (d_upserted d). M (ml_id m) \<noteq> Some m)
     \<and> set (d_removed d) \<inter> ml_id ` set (d_upserted d) = {}"

text \<open>The map a delta leads to.\<close>

definition delta_target :: "Snapshot \<Rightarrow> Delta \<Rightarrow> Snapshot" where
  "delta_target M d =
     M |` (- set (d_removed d)) ++ map_of (map (\<lambda>m. (ml_id m, m)) (d_upserted d))"

fun spec_upserts :: "Unicode \<Rightarrow> Snapshot \<Rightarrow> MemberLeaf list \<Rightarrow> OrgMembersError + Snapshot" where
  "spec_upserts U M [] = Inr M"
| "spec_upserts U M (m # ms) = and_then (spec_put U M m) (\<lambda>M'. spec_upserts U M' ms)"

lemma disjoint_merge_iff:
  "sorted_wrt (<) rs \<Longrightarrow> sorted_wrt (<) (map ml_id us) \<Longrightarrow>
     disjoint_merge rs us \<longleftrightarrow> set rs \<inter> ml_id ` set us = {}"
proof (induction rs us rule: disjoint_merge.induct)
  case (1 r rs u us)
  consider "r < ml_id u" | "ml_id u < r" | "r = ml_id u" by (rule linorder_cases)
  then show ?case
  proof cases
    case 1
    then have "r \<notin> ml_id ` set (u # us)" using "1.prems"(2) by force
    then show ?thesis using 1 "1.IH"(1) "1.prems" by simp
  next
    case 2
    then have "ml_id u \<notin> set (r # rs)" using "1.prems"(1) by force
    then show ?thesis using 2 "1.IH"(2) "1.prems" by force
  next
    case 3
    then show ?thesis by simp
  qed
qed auto

lemma validate_canonical_delta_iff:
  "validate_canonical_delta t d = Inr () \<longleftrightarrow> canonical_delta (snapshot t) d"
  using disjoint_merge_iff [of "d_removed d" "d_upserted d"]
  by (auto simp: validate_canonical_delta_def canonical_delta_def strictly_increasing_iff
      list_all_iff domIff)

text \<open>A canonical delta is determined by the base and the target.\<close>

lemma delta_target_at:
  assumes "sorted_wrt (<) (map ml_id (d_upserted d))"
  shows "delta_target M d i = Some m \<longleftrightarrow>
     m \<in> set (d_upserted d) \<and> ml_id m = i
     \<or> i \<notin> ml_id ` set (d_upserted d) \<and> i \<notin> set (d_removed d) \<and> M i = Some m"
proof -
  let ?f = "map_of (map (\<lambda>m. (ml_id m, m)) (d_upserted d))"
  have "distinct (map fst (map (\<lambda>m. (ml_id m, m)) (d_upserted d)))"
    using assms by (simp add: strict_sorted_iff comp_def)
  then have "?f i = Some m \<longleftrightarrow> m \<in> set (d_upserted d) \<and> ml_id m = i"
    by (subst map_of_eq_Some_iff) auto
  moreover have "?f i = None \<longleftrightarrow> i \<notin> ml_id ` set (d_upserted d)"
    by (simp add: map_of_eq_None_iff image_image)
  ultimately show ?thesis
    by (auto simp: delta_target_def map_add_Some_iff restrict_map_def)
qed

lemma canonical_delta_sets:
  assumes "canonical_delta M d"
  shows "set (d_removed d) = {i. M i \<noteq> None \<and> delta_target M d i = None}"
    and "set (d_upserted d) = {m. delta_target M d (ml_id m) = Some m \<and> M (ml_id m) \<noteq> Some m}"
proof -
  have s: "sorted_wrt (<) (map ml_id (d_upserted d))"
    using assms by (simp add: canonical_delta_def)
  note at = delta_target_at [OF s, of M]
  have "delta_target M d i = None" if "i \<in> set (d_removed d)" for i
  proof (rule ccontr)
    assume "delta_target M d i \<noteq> None"
    then obtain a where "delta_target M d i = Some a" by auto
    then have "i \<in> ml_id ` set (d_upserted d)" using at that by auto
    then show False using that assms by (auto simp: canonical_delta_def)
  qed
  moreover have "i \<in> set (d_removed d)" if "M i = Some m" "delta_target M d i = None" for i m
    using at [of i] that by (metis image_iff option.distinct(1))
  ultimately show "set (d_removed d) = {i. M i \<noteq> None \<and> delta_target M d i = None}"
    using assms by (auto simp: canonical_delta_def)
  show "set (d_upserted d) = {m. delta_target M d (ml_id m) = Some m \<and> M (ml_id m) \<noteq> Some m}"
    using assms by (auto simp: at canonical_delta_def)
qed

lemma canonical_delta_unique:
  assumes "canonical_delta M c" and "canonical_delta M d"
    and "delta_target M c = delta_target M d"
  shows "d_removed c = d_removed d \<and> d_upserted c = d_upserted d"
proof
  show "d_removed c = d_removed d"
    using assms canonical_delta_sets(1) [OF assms(1)] canonical_delta_sets(1) [OF assms(2)]
    by (intro strict_sorted_equal_set) (auto simp: canonical_delta_def)
  show "d_upserted c = d_upserted d"
    using assms canonical_delta_sets(2) [OF assms(1)] canonical_delta_sets(2) [OF assms(2)]
    by (intro strict_sorted_map_equal_set [of ml_id]) (auto simp: canonical_delta_def)
qed

section \<open>Applying a delta\<close>

lemma loop_ok_remove:
  assumes ok: "loop_ok U H (root, count, idx)" and i: "get_member root i = Some m"
  shows "loop_ok U H (smt_remove root i (default_hashes_compute H), count - 1, release_handle U m idx)
    \<and> 1 \<le> count"
proof -
  have n: "node_members_wf U H root" "smt_wf H root" and x: "index_ok U (get_member root) idx"
    and c: "count = card (dom (get_member root))"
    using ok by (simp_all add: loop_ok_def node_members_wf_def)
  have fin: "finite (dom (get_member root))" and d: "i \<in> dom (get_member root)"
    using finite_dom_get_member [OF n(2)] i by auto
  then have "1 \<le> count" using c card_gt_0_iff [of "dom (get_member root)"] by (auto simp: Suc_le_eq)
  moreover have "card (dom ((get_member root)(i := None))) = count - 1"
    using fin d c by (simp add: card_Diff_singleton)
  ultimately show ?thesis
    using index_ok_release [OF x i] node_members_wf_remove [OF n(1), of i]
    by (simp add: loop_ok_def get_member_remove [OF n(2)])
qed

lemma apply_removed_correct:
  assumes "loop_ok U H (root, count, idx)" and "distinct ids" and "set ids \<subseteq> dom (get_member root)"
  shows "\<exists>st. apply_removed U (default_hashes_compute H) ids (root, count, idx)
      = Inr (fold (\<lambda>i n. smt_remove n i (default_hashes_compute H)) ids root, st)
    \<and> loop_ok U H (fold (\<lambda>i n. smt_remove n i (default_hashes_compute H)) ids root, st)"
  using assms
proof (induction ids arbitrary: root count idx)
  case Nil
  then show ?case by auto
next
  case (Cons i ids)
  then obtain m where m: "get_member root i = Some m" by auto
  have wf: "smt_wf H root" using Cons.prems(1) by (simp add: loop_ok_def node_members_wf_def)
  note step = loop_ok_remove [OF Cons.prems(1) m]
  have "set ids \<subseteq> dom (get_member (smt_remove root i (default_hashes_compute H)))"
    using Cons.prems(2,3) by (auto simp: get_member_remove [OF wf])
  with Cons.IH [OF conjunct1 [OF step]] Cons.prems(2) step m show ?case
    by (simp add: checked_sub_usize_def)
qed

lemma loop_ok_update:
  assumes ok: "loop_ok U H (root, count, idx)" and wf: "leaf_wf U m"
    and old: "get_member root (ml_id m) = Some old"
  shows "case (if ml_handle old \<noteq> ml_handle m then claim_handle U m (release_handle U old idx) else Inr idx) of
      Inl e \<Rightarrow> handle_conflict U (get_member root) m = Some e
    | Inr idx' \<Rightarrow> handle_conflict U (get_member root) m = None
        \<and> loop_ok U H (smt_insert H root m (default_hashes_compute H), count, idx')"
proof -
  have n: "node_members_wf U H root" "smt_wf H root" and x: "index_ok U (get_member root) idx"
    and c: "count = card (dom (get_member root))"
    using ok by (simp_all add: loop_ok_def node_members_wf_def)
  have "dom ((get_member root)(ml_id m \<mapsto> m)) = dom (get_member root)"
    using old by auto
  then have put: "loop_ok U H (smt_insert H root m (default_hashes_compute H), count, idx')"
    if "index_ok U ((get_member root)(ml_id m \<mapsto> m)) idx'" for idx'
    using that c node_members_wf_insert [OF n(1) wf] by (simp add: loop_ok_def get_member_insert [OF n(2)])
  show ?thesis
  proof (cases "ml_handle old = ml_handle m")
    case True
    then show ?thesis
      using put [OF index_ok_same_handle [OF x old True]] handle_conflict_same [OF x old True] by simp
  next
    case False
    let ?M = "(get_member root)(ml_id m := None)"
    note x' = index_ok_release [OF x old]
    show ?thesis
      using False claim_handle_cases [OF x', of m] put index_ok_claim [OF x', of m]
      by (auto simp: handle_conflict_del split: option.splits)
  qed
qed

lemma apply_upserted_correct:
  assumes "loop_ok U H (root, count, idx)" and "\<forall>m\<in>set ms. leaf_wf U m"
  shows "loop_implements U H (apply_upserted U H (default_hashes_compute H) ms (root, count, idx))
       (spec_upserts U (get_member root) ms)
     \<or> apply_upserted U H (default_hashes_compute H) ms (root, count, idx) = Inl InvariantViolated
       \<and> 2 ^ 64 \<le> count + length ms"
  using assms
proof (induction ms arbitrary: root count idx)
  case Nil
  then show ?case by simp
next
  case (Cons m ms)
  let ?D = "default_hashes_compute H"
  let ?root = "smt_insert H root m ?D"
  have n: "smt_wf H root" and x: "index_ok U (get_member root) idx"
    using Cons.prems(1) by (simp_all add: loop_ok_def node_members_wf_def)
  have put: "spec_put U (get_member root) m = Inr (get_member ?root)"
    if "handle_conflict U (get_member root) m = None"
    using that by (simp add: spec_put_def get_member_insert [OF n])
  have m: "leaf_wf U m" using Cons.prems by simp
  show ?case
  proof (cases "get_member root (ml_id m)")
    case None
    show ?thesis
    proof (cases "claim_handle U m idx")
      case (Inl e)
      then have "handle_conflict U (get_member root) m = Some e"
        using claim_handle_cases [OF x None] by (auto split: option.splits)
      then show ?thesis using Inl None by (simp add: spec_put_def Let_def)
    next
      case (Inr idx')
      note step = loop_ok_add [OF Cons.prems(1) m None Inr]
      have spec: "spec_upserts U (get_member root) (m # ms) = spec_upserts U (get_member ?root) ms"
        by (simp add: put [OF conjunct2 [OF step]])
      show ?thesis
      proof (cases "count + 1 < 2 ^ 64")
        case True
        then have "apply_upserted U H ?D (m # ms) (root, count, idx) =
            apply_upserted U H ?D ms (?root, count + 1, idx')"
          using Inr None by (simp add: Let_def checked_add_usize_def)
        then show ?thesis
          using Cons.IH [OF conjunct1 [OF step]] Cons.prems by (simp only: spec) simp
      next
        case False
        then show ?thesis using Inr None by (simp add: Let_def checked_add_usize_def)
      qed
    qed
  next
    case (Some old)
    note step = loop_ok_update [OF Cons.prems(1) m Some]
    show ?thesis
    proof (cases "if ml_handle old \<noteq> ml_handle m then claim_handle U m (release_handle U old idx) else Inr idx")
      case (Inl e)
      then show ?thesis using step Some by (simp add: spec_put_def Let_def split: if_splits)
    next
      case (Inr idx')
      have "apply_upserted U H ?D (m # ms) (root, count, idx) =
          apply_upserted U H ?D ms (?root, count, idx')"
        using Inr Some by (simp add: Let_def split: if_splits)
      moreover have "spec_upserts U (get_member root) (m # ms) = spec_upserts U (get_member ?root) ms"
        using step Inr put by simp
      ultimately show ?thesis
        using Cons.IH [of ?root count idx'] step Inr Cons.prems by (simp only:) auto
    qed
  qed
qed

lemma spec_upserts_map_add:
  assumes "distinct (map ml_id ms)" and "spec_upserts U M ms = Inr M'"
  shows "M' = M ++ map_of (map (\<lambda>m. (ml_id m, m)) ms)"
  using assms
proof (induction ms arbitrary: M)
  case (Cons m ms)
  from Cons.prems(2) have "spec_upserts U (M(ml_id m \<mapsto> m)) ms = Inr M'"
    by (auto simp: and_then_eq_Inr spec_put_def split: option.splits)
  with Cons have "M' = M(ml_id m \<mapsto> m) ++ map_of (map (\<lambda>m. (ml_id m, m)) ms)" by simp
  moreover have "ml_id m \<notin> dom (map_of (map (\<lambda>m. (ml_id m, m)) ms))"
    using Cons.prems(1) by (auto simp: dom_map_of_conv_image_fst image_image)
  ultimately show ?case by (auto simp: map_add_def fun_eq_iff split: option.splits)
qed simp

text \<open>The outcome of \<^verbatim>\<open>apply_delta\<close>, on every branch.\<close>

definition spec_apply :: "Unicode \<Rightarrow> Snapshot \<Rightarrow> Delta \<Rightarrow> OrgMembersError + Snapshot" where
  "spec_apply U M d = spec_upserts U (M |` (- set (d_removed d))) (d_upserted d)"

definition candidate_ok :: "Unicode \<Rightarrow> TrieHasher \<Rightarrow> CandidateTrie \<Rightarrow> bool" where
  "candidate_ok U H c \<longleftrightarrow>
     ct_defaults c = default_hashes_compute H \<and> hash_cell (ct_root c) \<noteq> None
     \<and> ct_root_hash c = smt_root H (ct_root c)
     \<and> loop_ok U H (ct_root c, ct_member_count c, ct_skeleton_index c, ct_handle_index c)"

definition candidate_implements ::
  "Unicode \<Rightarrow> TrieHasher \<Rightarrow> OrgMembersError + CandidateTrie \<Rightarrow> OrgMembersError + Snapshot \<Rightarrow> bool" where
  "candidate_implements U H r s \<longleftrightarrow>
     (case r of
        Inl e \<Rightarrow> s = Inl e
      | Inr c \<Rightarrow> s = Inr (get_member (ct_root c)) \<and> candidate_ok U H c)"

text \<open>The second alternative is the overflow of the member counter.\<close>

lemma apply_delta_correct:
  assumes inv: "trie_inv U H t" and ups: "\<forall>m\<in>set (d_upserted d). leaf_wf U m"
    and base: "root_hash t = Inr (d_base_root d)" and can: "canonical_delta (snapshot t) d"
  shows "candidate_implements U H (apply_delta U H t d) (spec_apply U (snapshot t) d)
    \<or> apply_delta U H t d = Inl InvariantViolated \<and> 2 ^ 64 \<le> member_count t + length (d_upserted d)"
proof -
  let ?D = "default_hashes_compute H"
  let ?st = "(ot_root t, ot_member_count t, ot_skeleton_index t, ot_handle_index t)"
  let ?root = "fold (\<lambda>i n. smt_remove n i ?D) (d_removed d) (ot_root t)"
  have ok: "loop_ok U H ?st" using trie_invD [OF inv] by (simp add: loop_ok_def)
  have D: "ot_defaults t = ?D" and wf: "smt_wf H (ot_root t)" using trie_invD [OF inv] by simp_all
  have "distinct (d_removed d)" and "set (d_removed d) \<subseteq> dom (snapshot t)"
    using can by (auto simp: canonical_delta_def strict_sorted_iff)
  from apply_removed_correct [OF ok this] obtain count idx where
    removed: "apply_removed U ?D (d_removed d) ?st = Inr (?root, count, idx)"
    and ok': "loop_ok U H (?root, count, idx)" by (metis prod.collapse)
  have M: "get_member ?root = snapshot t |` (- set (d_removed d))"
    using smt.del_all [OF wf, of "d_removed d"] by simp
  have count: "count \<le> ot_member_count t"
    using ok' ok finite_dom_get_member [OF wf] by (auto simp: loop_ok_def M intro!: card_mono)
  have loop: "loop_implements U H (apply_upserted U H ?D (d_upserted d) (?root, count, idx))
        (spec_apply U (snapshot t) d)
      \<or> apply_upserted U H ?D (d_upserted d) (?root, count, idx) = Inl InvariantViolated
        \<and> 2 ^ 64 \<le> count + length (d_upserted d)"
    using apply_upserted_correct [OF ok' ups] by (simp add: spec_apply_def M)
  have start: "apply_delta U H t d =
      and_then (apply_upserted U H ?D (d_upserted d) (?root, count, idx)) (\<lambda>(root, count, skel, hidx).
      and_then (recalculate_hashes H root) (\<lambda>(root_hash, root).
      Inr \<lparr>ct_root = root, ct_defaults = ?D, ct_member_count = count,
          ct_root_hash = root_of_node root_hash, ct_skeleton_index = skel, ct_handle_index = hidx\<rparr>))"
    using base can removed
    by (simp add: apply_delta_def root_hash_def ok_or_eq_Inr validate_canonical_delta_iff [THEN iffD2] D)
  show ?thesis
  proof (cases "apply_upserted U H ?D (d_upserted d) (?root, count, idx)")
    case (Inl e)
    then show ?thesis
      using loop start count by (auto simp: candidate_implements_def member_count_def)
  next
    case (Inr st)
    then obtain r c sk hx where st: "st = (r, c, sk, hx)" by (cases st)
    then have r: "loop_ok U H (r, c, sk, hx)" "spec_apply U (snapshot t) d = Inr (get_member r)"
      using loop Inr by simp_all
    then have "node_members_wf U H r" by (simp add: loop_ok_def)
    then obtain n' where n': "recalculate_hashes H r = Inr (dense_hash H SMT_DEPTH (node_lookup r), n')"
      "node_members_wf U H n'" "get_member n' = get_member r" "smt_root H n' = smt_root H r"
      "hash_cell n' \<noteq> None"
      using recalculated_root by metis
    then show ?thesis
      using Inr st r start
      by (simp add: candidate_implements_def candidate_ok_def loop_ok_def smt_root_def)
  qed
qed

lemma spec_apply_target:
  assumes "canonical_delta M d" and "spec_apply U M d = Inr M'"
  shows "M' = delta_target M d"
proof -
  have "distinct (map ml_id (d_upserted d))"
    using assms(1) by (simp add: canonical_delta_def strict_sorted_iff)
  then show ?thesis
    using assms(2) spec_upserts_map_add unfolding spec_apply_def delta_target_def by blast
qed

lemma apply_delta_accepts:
  assumes "apply_delta U H t d = Inr c"
  shows "root_hash t = Inr (d_base_root d) \<and> canonical_delta (snapshot t) d"
  using assms
  by (auto simp: apply_delta_def and_then_eq_Inr root_hash_def ok_or_eq_Inr
      validate_canonical_delta_iff split: if_splits)

lemma verify_against_ok:
  assumes "candidate_ok U H c" and "verify_against c r = Inr t"
  shows "trie_inv U H t \<and> root_hash t = Inr r \<and> smt_root H (ot_root t) = r \<and> ot_root t = ct_root c"
  using assms
  by (auto simp: verify_against_def from_candidate_def candidate_ok_def loop_ok_def trie_inv_def
      trees_ok_def root_hash_def split: if_splits)

text \<open>Application and verification together.\<close>

lemma sync_correct:
  assumes inv: "trie_inv U H t" and ups: "\<forall>m\<in>set (d_upserted d). leaf_wf U m"
    and app: "apply_delta U H t d = Inr c" and ver: "verify_against c r = Inr t'"
  shows "trie_inv U H t' \<and> root_hash t' = Inr r \<and> smt_root H (ot_root t') = r
     \<and> snapshot t' = delta_target (snapshot t) d \<and> canonical_delta (snapshot t) d"
proof -
  have base: "root_hash t = Inr (d_base_root d)" and can: "canonical_delta (snapshot t) d"
    using apply_delta_accepts [OF app] by simp_all
  have "spec_apply U (snapshot t) d = Inr (get_member (ct_root c))" and ok: "candidate_ok U H c"
    using apply_delta_correct [OF inv ups base can] app by (simp_all add: candidate_implements_def)
  then have "get_member (ct_root c) = delta_target (snapshot t) d"
    using spec_apply_target [OF can] by simp
  then show ?thesis using verify_against_ok [OF ok ver] can by metis
qed

lemma trie_leaves_hashable:
  assumes "node_members_wf U H n"
  shows "leaves_hashable n"
  unfolding leaves_hashable_def
proof
  fix m
  assume "m \<in> set (collect_members n)"
  then have "get_member n (ml_id m) = Some m"
    using assms collect_members_get [of H n m] by (simp add: node_members_wf_def)
  then show "leaf_hashable m" using assms leaf_wf_hashable by (auto simp: node_members_wf_def)
qed

lemma root_hash_binds:
  assumes "node_members_wf U H a" and "node_members_wf U H b" and "smt_root H a = smt_root H b"
  shows "get_member a = get_member b \<or> collides H (trie_queries H a \<union> trie_queries H b)"
proof -
  have "dense_hash H SMT_DEPTH (node_lookup a) = dense_hash H SMT_DEPTH (node_lookup b)"
    using assms(3) by (auto simp: smt_root_def root_of_node_def intro: NodeHash.expand)
  then show ?thesis
    using assms smt_root_binds trie_leaves_hashable by (auto simp: node_members_wf_def)
qed

section \<open>Producing a delta\<close>

lemma pending_changes_ok:
  assumes inv: "trie_inv U H t"
  obtains d where "pending_changes t = Inr d" and "d_base_root d = smt_root H (ot_last_calculated_root t)"
    and "(d_removed d, d_upserted d) = diff_tries (ot_last_calculated_root t) (ot_root t)"
proof -
  let ?l = "ot_last_calculated_root t"
  have wf: "node_wf H SMT_DEPTH ?l" and "hash_cell ?l \<noteq> None"
    using trie_invD(1) [OF inv] by (simp_all add: trees_ok_def node_members_wf_def smt_wf_def)
  then obtain h where h: "hash_cell ?l = Some h" by auto
  then have "h = dense_hash H SMT_DEPTH (node_lookup ?l)" using node_wf_cell [OF wf] by simp
  then show ?thesis
    using h by (intro that [of "\<lparr>d_base_root = root_of_node h, d_removed = fst (diff_tries ?l (ot_root t)),
        d_upserted = snd (diff_tries ?l (ot_root t))\<rparr>"])
      (simp_all add: pending_changes_def smt_root_def case_prod_beta)
qed

lemma recalculate_ok:
  assumes inv: "trie_inv U H t"
  obtains t' d where "recalculate H t = Inr (t', d)" and "pending_changes t = Inr d"
    and "trie_inv U H t'" and "snapshot t' = snapshot t"
    and "root_hash t' = Inr (smt_root H (ot_root t))" and "smt_root H (ot_root t') = smt_root H (ot_root t)"
    and "node_lookup (ot_root t') = node_lookup (ot_root t)"
proof -
  obtain d where d: "pending_changes t = Inr d" using pending_changes_ok [OF inv] by metis
  obtain n' where n': "recalculate_hashes H (ot_root t) = Inr (dense_hash H SMT_DEPTH (node_lookup (ot_root t)), n')"
      "node_members_wf U H n'" "get_member n' = snapshot t" "smt_root H n' = smt_root H (ot_root t)"
      "hash_cell n' \<noteq> None" "node_lookup n' = node_lookup (ot_root t)"
    using recalculated_root [OF trie_invD(5) [OF inv]] by metis
  let ?t = "t\<lparr>ot_root := n', ot_cached_root_hash := Some (smt_root H (ot_root t)), ot_last_calculated_root := n'\<rparr>"
  have "recalculate H t = Inr (?t, d)"
    using d n'(1) by (simp add: recalculate_def smt_root_def)
  moreover have "trie_inv U H ?t"
    using trie_invD [OF inv] n' by (simp add: trie_inv_def trees_ok_def)
  ultimately show ?thesis
    using that [of ?t d] d n' by (simp add: root_hash_def)
qed

text \<open>The delta between two well-formed trees is canonical and leads from one to the other.\<close>

lemma delta_target_between:
  assumes s: "sorted_wrt (<) (map ml_id (d_upserted d))"
    and r: "\<And>i. i \<in> set (d_removed d) \<longleftrightarrow> M i \<noteq> None \<and> N i = None"
    and u: "\<And>m. m \<in> set (d_upserted d) \<longleftrightarrow> N (ml_id m) = Some m \<and> M (ml_id m) \<noteq> Some m"
    and key: "\<And>i m. N i = Some m \<Longrightarrow> ml_id m = i"
  shows "delta_target M d = N"
proof
  fix i
  note at = delta_target_at [OF s, of M i]
  show "delta_target M d i = N i"
  proof (cases "N i")
    case None
    then have "delta_target M d i \<noteq> Some m" for m using at [of m] u [of m] r [of i] by auto
    then have "delta_target M d i = None" by (metis option.exhaust)
    then show ?thesis using None by simp
  next
    case (Some n)
    then have n: "ml_id n = i" by (rule key)
    have "delta_target M d i = Some n"
    proof (cases "M i = Some n")
      case True
      then have "m \<notin> set (d_upserted d) \<or> ml_id m \<noteq> i" for m using u [of m] Some by auto
      then have "i \<notin> ml_id ` set (d_upserted d)" by blast
      then show ?thesis using at True r [of i] Some by simp
    next
      case False
      then have "n \<in> set (d_upserted d)" using u [of n] Some n by simp
      then show ?thesis using at n by simp
    qed
    then show ?thesis using Some by simp
  qed
qed

lemma diff_is_canonical:
  assumes a: "node_members_wf U H a" and b: "node_members_wf U H b"
    and d: "(d_removed d, d_upserted d) = diff_tries a b"
    and nc: "\<not> collides H (trie_queries H a \<union> trie_queries H b)"
  shows "canonical_delta (get_member a) d \<and> delta_target (get_member a) d = get_member b"
proof -
  have wf: "smt_wf H a" "smt_wf H b" using a b by (simp_all add: node_members_wf_def)
  have rem: "d_removed d = map ml_id (filter (\<lambda>m. get_member b (ml_id m) = None) (collect_members a))"
    and ups: "d_upserted d = filter (\<lambda>m. get_member a (ml_id m) \<noteq> Some m) (collect_members b)"
    using diff_tries_exact [OF wf trie_leaves_hashable [OF a] trie_leaves_hashable [OF b]] nc d by auto
  have sort: "sorted_wrt (<) (map ml_id (filter P (collect_members n)))" if "smt_wf H n" for P n
    using collect_members_sorted [OF smt_wf_placed [OF that]]
    by (simp add: sorted_wrt_map sorted_wrt_filter)
  have r: "i \<in> set (d_removed d) \<longleftrightarrow> get_member a i \<noteq> None \<and> get_member b i = None" for i
  proof -
    have "i \<in> ml_id ` set (collect_members a) \<longleftrightarrow> get_member a i \<noteq> None"
      using members_keys [OF wf(1)] by (auto simp: domIff)
    then show ?thesis by (auto simp: rem)
  qed
  have u: "m \<in> set (d_upserted d) \<longleftrightarrow> get_member b (ml_id m) = Some m \<and> get_member a (ml_id m) \<noteq> Some m" for m
    using collect_members_get [OF wf(2)] by (auto simp: ups)
  have s: "sorted_wrt (<) (map ml_id (d_upserted d))" unfolding ups by (rule sort [OF wf(2)])
  have "sorted_wrt (<) (d_removed d)" unfolding rem by (rule sort [OF wf(1)])
  then have "canonical_delta (get_member a) d"
    using s r u by (auto simp: canonical_delta_def domIff)
  moreover have "delta_target (get_member a) d = get_member b"
    by (rule delta_target_between [OF s r u get_member_id [OF wf(2)]])
  ultimately show ?thesis ..
qed

section \<open>Honest deltas\<close>

text \<open>
  A delta hands a handle over when an upserted leaf takes a handle (or a confusable one) that
  another member of the base holds and that member is not removed by the same delta.
\<close>

definition hands_over :: "Unicode \<Rightarrow> Snapshot \<Rightarrow> Delta \<Rightarrow> bool" where
  "hands_over U M d \<longleftrightarrow>
     (\<exists>m\<in>set (d_upserted d). \<exists>j n. M j = Some n \<and> j \<noteq> ml_id m \<and> j \<notin> set (d_removed d)
        \<and> handle_skeleton U (ml_handle n) = handle_skeleton U (ml_handle m))"

lemma spec_upserts_succeeds:
  assumes "distinct (map ml_id ms)" and "distinct (map (\<lambda>m. handle_skeleton U (ml_handle m)) ms)"
    and "\<And>m j n. m \<in> set ms \<Longrightarrow> M j = Some n \<Longrightarrow> j \<noteq> ml_id m \<Longrightarrow>
           handle_skeleton U (ml_handle n) \<noteq> handle_skeleton U (ml_handle m)"
  shows "\<exists>M'. spec_upserts U M ms = Inr M'"
  using assms
proof (induction ms arbitrary: M)
  case (Cons m ms)
  have "handle_conflict U M m = None"
    using Cons.prems(3) [of m] by (auto simp: handle_conflict_def)
  moreover have "\<exists>M'. spec_upserts U (M(ml_id m \<mapsto> m)) ms = Inr M'"
  proof (rule Cons.IH)
    show "distinct (map ml_id ms)" and "distinct (map (\<lambda>m. handle_skeleton U (ml_handle m)) ms)"
      using Cons.prems by simp_all
    show "handle_skeleton U (ml_handle n) \<noteq> handle_skeleton U (ml_handle k)"
      if "k \<in> set ms" "(M(ml_id m \<mapsto> m)) j = Some n" "j \<noteq> ml_id k" for k j n
    proof (cases "j = ml_id m")
      case True
      then show ?thesis using that Cons.prems(2) by (auto simp: image_iff)
    next
      case False
      then show ?thesis using that Cons.prems(3) [of k j n] by simp
    qed
  qed
  ultimately show ?case by (simp add: spec_put_def)
qed simp

lemma honest_spec_apply:
  assumes can: "canonical_delta M d" and wf: "snapshot_wf U (delta_target M d)"
    and free: "\<not> hands_over U M d"
  shows "spec_apply U M d = Inr (delta_target M d)"
proof -
  have ids: "distinct (map ml_id (d_upserted d))"
    using can by (simp add: canonical_delta_def strict_sorted_iff)
  have "delta_target M d (ml_id m) = Some m" if "m \<in> set (d_upserted d)" for m
    using canonical_delta_sets(2) [OF can] that by auto
  then have "inj_on (\<lambda>m. handle_skeleton U (ml_handle m)) (set (d_upserted d))"
    using wf unfolding snapshot_wf_def by (intro inj_onI) (metis option.inject)
  moreover have "distinct (d_upserted d)" using ids distinct_map by blast
  ultimately have "distinct (map (\<lambda>m. handle_skeleton U (ml_handle m)) (d_upserted d))"
    by (simp add: distinct_map)
  then have "\<exists>M'. spec_apply U M d = Inr M'"
    unfolding spec_apply_def
    by (intro spec_upserts_succeeds ids)
      (use free in \<open>auto simp: hands_over_def restrict_map_def split: if_splits\<close>)
  then show ?thesis using spec_apply_target [OF can] by auto
qed

lemma smt_root_of_map:
  assumes "smt_wf H a" and "smt_wf H b" and "get_member a = get_member b"
  shows "smt_root H a = smt_root H b"
  using get_member_eq_lookup [OF assms] by (simp add: smt_root_def)

lemma honest_delta_applies:
  assumes inv: "trie_inv U H r" and base: "root_hash r = Inr (d_base_root d)"
    and can: "canonical_delta (snapshot r) d" and tgt: "delta_target (snapshot r) d = get_member n"
    and n: "node_members_wf U H n" and N: "snapshot_wf U (get_member n)"
    and free: "\<not> hands_over U (snapshot r) d"
    and room: "member_count r + length (d_upserted d) < 2 ^ 64"
  shows "\<exists>c r'. apply_delta U H r d = Inr c \<and> verify_against c (smt_root H n) = Inr r'
    \<and> snapshot r' = get_member n \<and> trie_inv U H r'"
proof -
  have ups: "\<forall>m\<in>set (d_upserted d). leaf_wf U m"
    using canonical_delta_sets(2) [OF can] N by (auto simp: tgt snapshot_wf_def)
  have "spec_apply U (snapshot r) d = Inr (get_member n)"
    using honest_spec_apply [OF can _ free] N by (simp add: tgt)
  then obtain c where c: "apply_delta U H r d = Inr c" "get_member (ct_root c) = get_member n"
      "candidate_ok U H c"
    using apply_delta_correct [OF inv ups base can] room
    by (auto simp: candidate_implements_def split: sum.splits)
  then have "ct_root_hash c = smt_root H n"
    using n smt_root_of_map [of H "ct_root c" n]
    by (simp add: candidate_ok_def loop_ok_def node_members_wf_def)
  then obtain r' where "verify_against c (smt_root H n) = Inr r'"
    by (simp add: verify_against_def)
  then show ?thesis using c verify_against_ok [OF c(3)] by metis
qed

text \<open>The delta of \<^verbatim>\<open>recalculate\<close> at a replica of the last calculated membership.\<close>

lemma recalculated_delta_applies:
  assumes "trie_inv U H t" and "recalculate H t = Inr (t', d)"
    and "trie_inv U H r" and "root_hash r = Inr (d_base_root d)"
    and "snapshot r = get_member (ot_last_calculated_root t)"
    and "member_count r + length (d_upserted d) < 2 ^ 64"
  shows "(\<exists>c r'. apply_delta U H r d = Inr c \<and> verify_against c (smt_root H (ot_root t)) = Inr r'
       \<and> snapshot r' = snapshot t' \<and> root_hash r' = root_hash t')
    \<or> hands_over U (snapshot r) d
    \<or> collides H (trie_queries H (ot_last_calculated_root t) \<union> trie_queries H (ot_root t))"
proof (cases "hands_over U (snapshot r) d
    \<or> collides H (trie_queries H (ot_last_calculated_root t) \<union> trie_queries H (ot_root t))")
  case False
  then have free: "\<not> hands_over U (snapshot r) d"
    and nc: "\<not> collides H (trie_queries H (ot_last_calculated_root t) \<union> trie_queries H (ot_root t))"
    by simp_all
  obtain d' where d: "pending_changes t = Inr d'"
      "(d_removed d', d_upserted d') = diff_tries (ot_last_calculated_root t) (ot_root t)"
    using pending_changes_ok [OF assms(1)] by metis
  obtain t'' d'' where t: "recalculate H t = Inr (t'', d'')" "pending_changes t = Inr d''"
      "snapshot t'' = snapshot t" "root_hash t'' = Inr (smt_root H (ot_root t))"
    using recalculate_ok [OF assms(1)] by metis
  have eq: "d' = d" "t'' = t'" using assms(2) t d by simp_all
  have wf: "node_members_wf U H (ot_last_calculated_root t)" "node_members_wf U H (ot_root t)"
    using trie_invD(1) [OF assms(1)] by (simp_all add: trees_ok_def)
  have can: "canonical_delta (snapshot r) d" "delta_target (snapshot r) d = snapshot t"
    using diff_is_canonical [OF wf _ nc] d(2) assms(5) by (simp_all add: eq)
  obtain c r' where "apply_delta U H r d = Inr c" "verify_against c (smt_root H (ot_root t)) = Inr r'"
      "snapshot r' = snapshot t" "trie_inv U H r'"
    using honest_delta_applies [OF assms(3,4) can wf(2) trie_inv_snapshot_wf [OF assms(1)] free assms(6)]
    by blast
  moreover from this have "root_hash r' = root_hash t'"
    using t(4) eq by (auto simp: verify_against_def from_candidate_def root_hash_def split: if_splits)
  ultimately show ?thesis using t(3) eq by auto
qed simp

lemma recalculated_upserts_wf:
  assumes "trie_inv U H t" and "recalculate H t = Inr (t', d)"
  shows "(\<forall>m\<in>set (d_upserted d). leaf_wf U m)
    \<or> collides H (trie_queries H (ot_last_calculated_root t) \<union> trie_queries H (ot_root t))"
proof (rule disjCI)
  assume nc: "\<not> collides H (trie_queries H (ot_last_calculated_root t) \<union> trie_queries H (ot_root t))"
  obtain e where e: "pending_changes t = Inr e"
      "(d_removed e, d_upserted e) = diff_tries (ot_last_calculated_root t) (ot_root t)"
    using pending_changes_ok [OF assms(1)] by metis
  have "e = d" using assms(2) e(1) by (auto simp: recalculate_def and_then_eq_Inr)
  have wf: "node_members_wf U H (ot_last_calculated_root t)" "node_members_wf U H (ot_root t)"
    using trie_invD(1) [OF assms(1)] by (simp_all add: trees_ok_def)
  have "canonical_delta (get_member (ot_last_calculated_root t)) d"
    and tgt: "delta_target (get_member (ot_last_calculated_root t)) d = snapshot t"
    using diff_is_canonical [OF wf e(2) nc] \<open>e = d\<close> by simp_all
  from canonical_delta_sets(2) [OF this(1)]
  show "\<forall>m\<in>set (d_upserted d). leaf_wf U m"
    using trie_inv_snapshot_wf [OF assms(1)] by (auto simp: tgt snapshot_wf_def)
qed

end
