(* ===== verification/OrgMembers.thy ===== *)
theory OrgMembers
  imports DeltaSync
begin

text \<open>
  The theorems of the crate \<^verbatim>\<open>org-members\<close>, stated on its operations, with a concrete instance
  (an ASCII Unicode table, a hasher, two members) at which the hypotheses are met.
\<close>

section \<open>A concrete organisation\<close>

definition ex_unicode :: Unicode where
  "ex_unicode =
     \<lparr>nfc = (\<lambda>s. s), is_uppercase = (\<lambda>c. 0x41 \<le> c \<and> c \<le> 0x5A),
      identifier_allowed = (\<lambda>c. 0x61 \<le> c \<and> c \<le> 0x7A), is_single_script = (\<lambda>_. True),
      skeleton = (\<lambda>s. s)\<rparr>"

definition ex_hasher :: TrieHasher where
  "ex_hasher = Blake3Hasher (\<lambda>k d. of_be (k @ d))"

definition ex_leaf :: "bytes32 \<Rightarrow> bytes \<Rightarrow> MemberLeaf" where
  "ex_leaf i h =
     \<lparr>ml_id = MemberId i, ml_handle = h, ml_p2p_key = P2pMemberKey (VerifyingKey i),
      ml_name = rstr ''n'', ml_surname = rstr ''s'',
      ml_p2p_devices = P2pDeviceSlots [P2pDeviceKey (VerifyingKey i)]\<rparr>"

definition ex_alice :: MemberLeaf where "ex_alice = ex_leaf 1 (rstr ''a'')"
definition ex_bob :: MemberLeaf where "ex_bob = ex_leaf 2 (rstr ''b'')"
definition ex_carol :: MemberLeaf where "ex_carol = ex_leaf 3 (rstr ''c'')"

definition ex_trie :: OrgTrie where
  "ex_trie = (case genesis ex_unicode ex_hasher [ex_alice, ex_bob] of Inr t \<Rightarrow> t)"

lemma ex_nfc_laws: "nfc_laws ex_unicode"
  by (simp add: nfc_laws_def ex_unicode_def)

lemma ex_leaf_wf:
  "leaf_wf ex_unicode (ex_leaf i (rstr ''a''))" "leaf_wf ex_unicode (ex_leaf i (rstr ''b''))"
  "leaf_wf ex_unicode (ex_leaf i (rstr ''c''))"
  by (simp_all add: leaf_wf_def ex_leaf_def ex_unicode_def validate_handle_ok rstr_def slots_wf_def
      MAX_HANDLE_LEN_def MAX_NAME_LEN_def MAX_SURNAME_LEN_def MAX_DEVICES_def)

lemma ex_genesis:
  shows "genesis ex_unicode ex_hasher [ex_alice, ex_bob] = Inr ex_trie"
    and "trie_inv ex_unicode ex_hasher ex_trie"
    and "snapshot ex_trie = [MemberId 1 \<mapsto> ex_alice, MemberId 2 \<mapsto> ex_bob]"
    and "root_hash ex_trie = Inr (smt_root ex_hasher (ot_root ex_trie))"
proof -
  have wf: "\<forall>m\<in>set [ex_alice, ex_bob]. leaf_wf ex_unicode m"
    by (simp add: ex_alice_def ex_bob_def ex_leaf_wf)
  have spec: "spec_genesis ex_unicode Map.empty [ex_alice, ex_bob] =
      Inr [MemberId 1 \<mapsto> ex_alice, MemberId 2 \<mapsto> ex_bob]"
    by (auto simp: spec_add_def spec_put_def handle_conflict_def ex_alice_def ex_bob_def ex_leaf_def
        handle_skeleton_def ex_unicode_def rstr_def split: if_splits)
  have "calculated_implements ex_unicode ex_hasher (genesis ex_unicode ex_hasher [ex_alice, ex_bob])
      (Inr [MemberId 1 \<mapsto> ex_alice, MemberId 2 \<mapsto> ex_bob])"
    using genesis_correct [OF wf] spec by simp
  then show "genesis ex_unicode ex_hasher [ex_alice, ex_bob] = Inr ex_trie"
    and "trie_inv ex_unicode ex_hasher ex_trie"
    and "snapshot ex_trie = [MemberId 1 \<mapsto> ex_alice, MemberId 2 \<mapsto> ex_bob]"
    and "root_hash ex_trie = Inr (smt_root ex_hasher (ot_root ex_trie))"
    by (simp_all add: calculated_implements_def ex_trie_def split: sum.splits)
qed

section \<open>Reachable tries\<close>

text \<open>A leaf the crate hands out: from its constructor or from its deserializer.\<close>

definition built :: "Unicode \<Rightarrow> (bytes32 \<Rightarrow> bool) \<Rightarrow> MemberLeaf \<Rightarrow> bool" where
  "built U vk_ok m \<longleftrightarrow>
     (\<exists>i h k n s ds. member_leaf_new U i h k n s ds = Inr m)
     \<or> (\<exists>w. member_leaf_deserialize U vk_ok w = Inr m)"

text \<open>The tries a program can hold: genesis, then any sequence of the public operations.\<close>

inductive reachable :: "Unicode \<Rightarrow> TrieHasher \<Rightarrow> (bytes32 \<Rightarrow> bool) \<Rightarrow> OrgTrie \<Rightarrow> bool"
  for U H vk_ok where
  genesis: "(\<forall>m\<in>set ms. built U vk_ok m) \<Longrightarrow> genesis U H ms = Inr t \<Longrightarrow> reachable U H vk_ok t"
| add: "reachable U H vk_ok t \<Longrightarrow> built U vk_ok m \<Longrightarrow> add_member U H t m = Inr t'
    \<Longrightarrow> reachable U H vk_ok t'"
| delete: "reachable U H vk_ok t \<Longrightarrow> delete_member U t i = Inr t' \<Longrightarrow> reachable U H vk_ok t'"
| rename: "reachable U H vk_ok t \<Longrightarrow> update_name_surname U H t i n s = Inr t'
    \<Longrightarrow> reachable U H vk_ok t'"
| handle: "reachable U H vk_ok t \<Longrightarrow> update_handle U H t i h = Inr t' \<Longrightarrow> reachable U H vk_ok t'"
| rotate: "reachable U H vk_ok t \<Longrightarrow> rotate_p2p_key U H t i k = Inr t' \<Longrightarrow> reachable U H vk_ok t'"
| add_device: "reachable U H vk_ok t \<Longrightarrow> add_p2p_device U H t i d = Inr t'
    \<Longrightarrow> reachable U H vk_ok t'"
| delete_device: "reachable U H vk_ok t \<Longrightarrow> delete_p2p_device U H t i d k = Inr t'
    \<Longrightarrow> reachable U H vk_ok t'"
| isolate: "reachable U H vk_ok t \<Longrightarrow> emergency_isolate_member U H t i k = Inr t'
    \<Longrightarrow> reachable U H vk_ok t'"
| recalculate: "reachable U H vk_ok t \<Longrightarrow> recalculate H t = Inr (t', d) \<Longrightarrow> reachable U H vk_ok t'"
| sync: "reachable U H vk_ok t \<Longrightarrow> (\<forall>m\<in>set (d_upserted d). built U vk_ok m)
    \<Longrightarrow> apply_delta U H t d = Inr c \<Longrightarrow> verify_against c r = Inr t' \<Longrightarrow> reachable U H vk_ok t'"

lemma built_wf: "nfc_laws U \<Longrightarrow> built U vk_ok m \<Longrightarrow> leaf_wf U m"
  unfolding built_def using member_leaf_new_wf member_leaf_deserialize_wf by blast

lemma implements_inv: "implements U H (Inr t) s \<Longrightarrow> trie_inv U H t"
  by simp

lemma add_member_inv:
  assumes inv: "trie_inv U H t" and wf: "leaf_wf U m" and ok: "add_member U H t m = Inr t'"
  shows "trie_inv U H t'"
proof -
  have "member_count t + 1 < 2 ^ 64"
    using ok by (auto simp: add_member_def insert_leaf_def and_then_eq_Inr ok_or_eq_Inr Let_def
        checked_add_usize_def member_count_def split: if_splits prod.splits)
  then show ?thesis using add_member_implements [OF inv wf] ok by simp
qed

lemma reachable_inv:
  assumes U: "nfc_laws U" and "reachable U H vk_ok t"
  shows "trie_inv U H t"
  using assms(2)
proof (induction rule: reachable.induct)
  case (genesis ms t)
  then have "\<forall>m\<in>set ms. leaf_wf U m" using built_wf [OF U] by blast
  from genesis_correct [OF this, of H] genesis(2) show ?case by (simp add: calculated_implements_def)
next
  case (add t m t')
  then show ?case using add_member_inv built_wf [OF U] by blast
next
  case (delete t i t')
  then show ?case using delete_member_implements [of U H t i] by simp
next
  case (rename t i n s t')
  then show ?case using update_name_surname_implements [OF U, of H t i n s] by simp
next
  case (handle t i h t')
  then show ?case using update_handle_implements [OF U, of H t i h] by simp
next
  case (rotate t i k t')
  then show ?case using rotate_p2p_key_implements [of U H t i k] by simp
next
  case (add_device t i d t')
  then show ?case using add_p2p_device_implements [of U H t i d] by simp
next
  case (delete_device t i d k t')
  then show ?case using delete_p2p_device_implements [of U H t i d k] by simp
next
  case (isolate t i k t')
  then show ?case using emergency_isolate_member_implements [of U H t i k] by simp
next
  case (recalculate t t' d)
  then show ?case using recalculate_ok [of U H t] by (metis Inr_inject prod.inject)
next
  case (sync t d c r t')
  then show ?case using sync_correct [of U H t d c r t'] built_wf [OF U] by blast
qed

section \<open>Theorems\<close>

text \<open>
  C1 (reachability invariant). In every trie a program can reach from genesis by the public
  operations, \<^verbatim>\<open>members()\<close> lists the members in strictly increasing id order, exactly those \<^verbatim>\<open>get\<close> finds,
  \<^verbatim>\<open>member_count()\<close> is their number, no two members have handles with the same skeleton, every
  member has at most four devices in strictly increasing order, and a reported root hash is the root
  of the dense Merkle tree over all \<open>2 ^ 256\<close> slots.
\<close>

theorem reachable_trie_invariant:
  assumes "nfc_laws U" and "reachable U H vk_ok t"
  shows "sorted_wrt (<) (map ml_id (trie_members t))
    \<and> (\<forall>m. m \<in> set (trie_members t) \<longleftrightarrow> trie_get t (ml_id m) = Some m)
    \<and> member_count t = length (trie_members t)
    \<and> distinct (map (\<lambda>m. handle_skeleton U (ml_handle m)) (trie_members t))
    \<and> (\<forall>m\<in>set (trie_members t). slots_wf (ml_p2p_devices m))
    \<and> (\<forall>r. root_hash t = Inr r \<longrightarrow>
          r = root_of_node (dense_hash H SMT_DEPTH (\<lambda>p. node_lookup (ot_root t) p)))"
proof -
  have inv: "trie_inv U H t" using reachable_inv [OF assms] .
  note wf = trie_invD(6) [OF inv] and snap = trie_inv_snapshot_wf [OF inv]
  have sorted: "sorted_wrt (<) (map ml_id (trie_members t))"
    using collect_members_sorted [OF smt_wf_placed [OF wf]] by (simp add: trie_members_def)
  have get: "m \<in> set (trie_members t) \<longleftrightarrow> trie_get t (ml_id m) = Some m" for m
    using collect_members_get [OF wf] by (simp add: trie_members_def trie_get_def)
  have "inj_on (\<lambda>m. handle_skeleton U (ml_handle m)) (set (trie_members t))"
    using snap unfolding snapshot_wf_def get trie_get_def
    by (intro inj_onI) (metis (no_types, lifting) get option.inject trie_get_def)
  then have "distinct (map (\<lambda>m. handle_skeleton U (ml_handle m)) (trie_members t))"
    using sorted by (simp add: distinct_map strict_sorted_iff)
  moreover have "member_count t = length (trie_members t)"
    using trie_invD(3) [OF inv] length_collect_members [OF wf]
    by (simp add: member_count_def trie_members_def)
  moreover have "\<forall>m\<in>set (trie_members t). slots_wf (ml_p2p_devices m)"
    using snap by (auto simp: get trie_get_def snapshot_wf_def leaf_wf_def)
  moreover have "\<forall>r. root_hash t = Inr r \<longrightarrow> r = smt_root H (ot_root t)"
    using trie_invD(1) [OF inv] by (auto simp: trees_ok_def root_hash_def ok_or_eq_Inr)
  ultimately show ?thesis using sorted get by (simp add: smt_root_def)
qed

lemma ex_reachable: "reachable ex_unicode ex_hasher (\<lambda>_. True) ex_trie"
proof -
  have "built ex_unicode (\<lambda>_. True) m" if "leaf_wf ex_unicode m" for m
    unfolding built_def
    using member_leaf_serde_roundtrip [OF that, of "\<lambda>_. True"] by (auto simp: leaf_keys_ok_def list_all_iff)
  then have "\<forall>m\<in>set [ex_alice, ex_bob]. built ex_unicode (\<lambda>_. True) m"
    by (simp add: ex_alice_def ex_bob_def ex_leaf_wf)
  then show ?thesis using ex_genesis(1) reachable.genesis by blast
qed

theorem reachable_trie_invariant_witness:
  "member_count ex_trie = length (trie_members ex_trie)"
  using reachable_trie_invariant [OF ex_nfc_laws ex_reachable] by simp

text \<open>
  C10 (the root binds the membership). Two tries that report the same root hash hold the same
  members, or hashing the two exhibits a collision of the hash function.
\<close>

theorem root_hash_binds_membership:
  assumes "trie_inv U H a" and "trie_inv U H b"
    and "root_hash a = Inr r" and "root_hash b = Inr r"
  shows "(\<forall>i. trie_get a i = trie_get b i)
    \<or> collides H (trie_queries H (ot_root a) \<union> trie_queries H (ot_root b))"
proof -
  have "r = smt_root H (ot_root a)" and "r = smt_root H (ot_root b)"
    using assms trie_invD(1) [OF assms(1)] trie_invD(1) [OF assms(2)]
    by (auto simp: trees_ok_def root_hash_def ok_or_eq_Inr)
  then show ?thesis
    using root_hash_binds [OF trie_invD(5) [OF assms(1)] trie_invD(5) [OF assms(2)]]
    by (auto simp: trie_get_def)
qed

theorem root_hash_binds_membership_witness:
  "(\<forall>i. trie_get ex_trie i = trie_get ex_trie i)
    \<or> collides ex_hasher (trie_queries ex_hasher (ot_root ex_trie) \<union> trie_queries ex_hasher (ot_root ex_trie))"
  using root_hash_binds_membership [OF ex_genesis(2) ex_genesis(2) ex_genesis(4) ex_genesis(4)] .

definition ex_delta :: Delta where
  "ex_delta =
     \<lparr>d_base_root = smt_root ex_hasher (ot_root ex_trie), d_removed = [MemberId 1],
      d_upserted = [ex_carol]\<rparr>"

definition ex_candidate :: CandidateTrie where
  "ex_candidate = (case apply_delta ex_unicode ex_hasher ex_trie ex_delta of Inr c \<Rightarrow> c)"

definition ex_synced :: OrgTrie where
  "ex_synced = (case verify_against ex_candidate (ct_root_hash ex_candidate) of Inr t \<Rightarrow> t)"

lemma ex_delta_wf: "\<forall>m\<in>set (d_upserted ex_delta). leaf_wf ex_unicode m"
  by (simp add: ex_delta_def ex_carol_def ex_leaf_wf)

lemma ex_count: "member_count ex_trie \<le> 2"
proof -
  have "dom (snapshot ex_trie) = {MemberId 1, MemberId 2}" by (auto simp: ex_genesis(3))
  then show ?thesis
    using trie_invD(3) [OF ex_genesis(2)] by (simp add: card_insert_if member_count_def)
qed

lemma ex_delta_room: "member_count ex_trie + length (d_upserted ex_delta) < 2 ^ 64"
  using ex_count by (simp add: ex_delta_def)

lemma ex_delta_canonical: "canonical_delta (snapshot ex_trie) ex_delta"
  by (auto simp: canonical_delta_def ex_delta_def ex_genesis(3) ex_carol_def ex_leaf_def)

lemma ex_delta_applied:
  shows "apply_delta ex_unicode ex_hasher ex_trie ex_delta = Inr ex_candidate"
    and "verify_against ex_candidate (ct_root_hash ex_candidate) = Inr ex_synced"
proof -
  have base: "root_hash ex_trie = Inr (d_base_root ex_delta)"
    using ex_genesis(4) by (simp add: ex_delta_def)
  have "\<not> hands_over ex_unicode (snapshot ex_trie) ex_delta"
    by (auto simp: hands_over_def ex_delta_def ex_genesis(3) ex_carol_def ex_alice_def ex_bob_def
        ex_leaf_def handle_skeleton_def ex_unicode_def rstr_def split: if_splits)
  moreover have "spec_upserts ex_unicode (snapshot ex_trie |` (- {MemberId 1})) [ex_carol] \<noteq> Inl e" for e
    by (auto simp: spec_put_def handle_conflict_def ex_genesis(3) ex_carol_def ex_alice_def ex_bob_def
        ex_leaf_def handle_skeleton_def ex_unicode_def rstr_def restrict_map_def split: if_splits)
  ultimately have "\<exists>c. apply_delta ex_unicode ex_hasher ex_trie ex_delta = Inr c"
    using apply_delta_correct [OF ex_genesis(2) ex_delta_wf base ex_delta_canonical] ex_delta_room
    by (auto simp: spec_apply_def ex_delta_def candidate_implements_def split: sum.splits)
  then show "apply_delta ex_unicode ex_hasher ex_trie ex_delta = Inr ex_candidate"
    by (auto simp: ex_candidate_def)
  show "verify_against ex_candidate (ct_root_hash ex_candidate) = Inr ex_synced"
    by (simp add: ex_synced_def verify_against_def)
qed

lemma delta_target_find:
  assumes s: "sorted_wrt (<) (map ml_id (d_upserted d))"
  shows "delta_target M d i = (case find (\<lambda>m. ml_id m = i) (d_upserted d) of
      Some m \<Rightarrow> Some m | None \<Rightarrow> if i \<in> set (d_removed d) then None else M i)"
proof (cases "find (\<lambda>m. ml_id m = i) (d_upserted d)")
  case None
  then have "map_of (map (\<lambda>m. (ml_id m, m)) (d_upserted d)) i = None"
    by (auto simp: find_None_iff map_of_eq_None_iff)
  then show ?thesis using None by (simp add: delta_target_def map_add_def restrict_map_def)
next
  case (Some m)
  then have "m \<in> set (d_upserted d)" and "ml_id m = i"
    by (auto simp: find_Some_iff)
  then show ?thesis using Some delta_target_at [OF s] by simp
qed

text \<open>
  C4 (verified synchronisation). When a replica accepts a delta and the candidate verifies against a
  root, the new trie reports that root, satisfies the invariant and holds exactly the old members
  without the removed ones and with the upserted ones written over them; the delta was in
  canonical form and anchored at the replica's root.
\<close>

theorem apply_delta_verified:
  assumes "trie_inv U H t" and "\<forall>m\<in>set (d_upserted d). leaf_wf U m"
    and "apply_delta U H t d = Inr c" and "verify_against c r = Inr t'"
  shows "trie_inv U H t' \<and> root_hash t' = Inr r
    \<and> root_hash t = Inr (d_base_root d) \<and> canonical_delta (snapshot t) d
    \<and> (\<forall>i. trie_get t' i =
          (case find (\<lambda>m. ml_id m = i) (d_upserted d) of
             Some m \<Rightarrow> Some m
           | None \<Rightarrow> if i \<in> set (d_removed d) then None else trie_get t i))"
proof -
  note sync = sync_correct [OF assms]
  have "sorted_wrt (<) (map ml_id (d_upserted d))"
    using sync by (simp add: canonical_delta_def)
  note delta_target_find [OF this]
  then show ?thesis
    using sync apply_delta_accepts [OF assms(3)] unfolding trie_get_def by simp
qed

theorem apply_delta_verified_witness:
  "root_hash ex_synced = Inr (ct_root_hash ex_candidate)
   \<and> trie_get ex_synced (MemberId 1) = None \<and> trie_get ex_synced (MemberId 3) = Some ex_carol"
proof -
  note ok = apply_delta_verified [OF ex_genesis(2) ex_delta_wf ex_delta_applied]
  have "trie_get ex_synced (MemberId 1) = None" and "trie_get ex_synced (MemberId 3) = Some ex_carol"
    using ok by (simp_all add: ex_delta_def ex_carol_def ex_leaf_def)
  then show ?thesis using ok by simp
qed

text \<open>
  C31 (one delta per transition). Two deltas that a replica accepts and that both verify against the
  same root are the same delta, or a hash collision is exhibited.
\<close>

theorem accepted_delta_unique:
  assumes "trie_inv U H t"
    and "\<forall>m\<in>set (d_upserted d). leaf_wf U m" and "\<forall>m\<in>set (d_upserted e). leaf_wf U m"
    and "apply_delta U H t d = Inr c" and "verify_against c r = Inr t1"
    and "apply_delta U H t e = Inr c'" and "verify_against c' r = Inr t2"
  shows "d = e \<or> collides H (trie_queries H (ot_root t1) \<union> trie_queries H (ot_root t2))"
proof -
  note d = sync_correct [OF assms(1,2,4,5)] and e = sync_correct [OF assms(1,3,6,7)]
  consider "snapshot t1 = snapshot t2"
    | "collides H (trie_queries H (ot_root t1) \<union> trie_queries H (ot_root t2))"
    using root_hash_binds [of U H "ot_root t1" "ot_root t2"] d e trie_invD(5) by metis
  then show ?thesis
  proof cases
    case 1
    then have "d_removed d = d_removed e \<and> d_upserted d = d_upserted e"
      using d e by (intro canonical_delta_unique [of "snapshot t"]) simp_all
    moreover have "d_base_root d = d_base_root e"
      using apply_delta_accepts [OF assms(4)] apply_delta_accepts [OF assms(6)] by simp
    ultimately show ?thesis by (cases d; cases e) simp
  qed simp
qed

theorem accepted_delta_unique_witness:
  "ex_delta = ex_delta
   \<or> collides ex_hasher (trie_queries ex_hasher (ot_root ex_synced) \<union> trie_queries ex_hasher (ot_root ex_synced))"
  using accepted_delta_unique [OF ex_genesis(2) ex_delta_wf ex_delta_wf
      ex_delta_applied ex_delta_applied] .

text \<open>
  Production of deltas. \<^verbatim>\<open>recalculate\<close> succeeds on every trie that satisfies the invariant; it
  keeps the members, reports the Merkle root, and its delta is the canonical one from the last
  calculated membership to the current one, or a hash collision is exhibited.
\<close>

theorem recalculate_delta:
  assumes "trie_inv U H t"
  shows "\<exists>t' d. recalculate H t = Inr (t', d) \<and> trie_inv U H t' \<and> snapshot t' = snapshot t
    \<and> root_hash t' = Inr (smt_root H (ot_root t)) \<and> \<not> has_pending_changes t'
    \<and> d_base_root d = smt_root H (ot_last_calculated_root t)
    \<and> (canonical_delta (get_member (ot_last_calculated_root t)) d
         \<and> delta_target (get_member (ot_last_calculated_root t)) d = snapshot t
       \<or> collides H (trie_queries H (ot_last_calculated_root t) \<union> trie_queries H (ot_root t)))"
proof -
  obtain t' d where r: "recalculate H t = Inr (t', d)" "pending_changes t = Inr d" "trie_inv U H t'"
      "snapshot t' = snapshot t" "root_hash t' = Inr (smt_root H (ot_root t))"
    using recalculate_ok [OF assms] by metis
  obtain d' where d: "pending_changes t = Inr d'" "d_base_root d' = smt_root H (ot_last_calculated_root t)"
      "(d_removed d', d_upserted d') = diff_tries (ot_last_calculated_root t) (ot_root t)"
    using pending_changes_ok [OF assms] by metis
  have wf: "node_members_wf U H (ot_last_calculated_root t)" "node_members_wf U H (ot_root t)"
    using trie_invD(1) [OF assms] by (simp_all add: trees_ok_def)
  have "\<not> has_pending_changes t'"
    using r(5) by (auto simp: has_pending_changes_def root_hash_def ok_or_eq_Inr)
  then show ?thesis
    using r d diff_is_canonical [OF wf d(3)] by auto
qed

theorem recalculate_delta_witness:
  "\<exists>t' d. recalculate ex_hasher ex_synced = Inr (t', d) \<and> snapshot t' = snapshot ex_synced"
proof -
  have "trie_inv ex_unicode ex_hasher ex_synced"
    using sync_correct [OF ex_genesis(2) ex_delta_wf ex_delta_applied] by simp
  from recalculate_delta [OF this] show ?thesis by blast
qed

lemma ex_recalculated:
  obtains t d where "recalculate ex_hasher ex_trie = Inr (t, d)" and "d_upserted d = []"
    and "root_hash ex_trie = Inr (d_base_root d)"
    and "snapshot ex_trie = get_member (ot_last_calculated_root ex_trie)"
proof -
  obtain t d where r: "recalculate ex_hasher ex_trie = Inr (t, d)" "pending_changes ex_trie = Inr d"
    using recalculate_ok [OF ex_genesis(2)] by metis
  have last: "ot_last_calculated_root ex_trie = ot_root ex_trie"
    using trie_invD(1) [OF ex_genesis(2)] ex_genesis(4)
    by (auto simp: trees_ok_def root_hash_def ok_or_eq_Inr)
  obtain h where "hash_cell (ot_root ex_trie) = Some h"
    using trie_invD(1) [OF ex_genesis(2)] last by (auto simp: trees_ok_def)
  then have "diff_tries (ot_root ex_trie) (ot_root ex_trie) = ([], [])"
    by (simp add: diff_tries_def diff_recursive.simps)
  then have "d_base_root d = smt_root ex_hasher (ot_root ex_trie)" "d_upserted d = []"
    using pending_changes_ok [OF ex_genesis(2)] r(2) unfolding last by (metis Inr_inject prod.inject)+
  then show ?thesis using that [OF r(1)] ex_genesis(4) last by simp
qed

text \<open>
  C11 (honest deltas are accepted). A replica at the producer's last calculated membership accepts the
  producer's delta and ends with the producer's members and root, unless the delta hands a handle
  over between surviving members or hashing exhibits a collision.
\<close>

theorem honest_delta_accepted:
  assumes "trie_inv U H t" and "recalculate H t = Inr (t', d)"
    and "trie_inv U H r" and "root_hash r = Inr (d_base_root d)"
    and "snapshot r = get_member (ot_last_calculated_root t)"
    and "member_count r + length (d_upserted d) < 2 ^ 64"
  shows "(\<exists>c r'. apply_delta U H r d = Inr c \<and> verify_against c (smt_root H (ot_root t)) = Inr r'
       \<and> snapshot r' = snapshot t' \<and> root_hash r' = root_hash t')
    \<or> hands_over U (snapshot r) d
    \<or> collides H (trie_queries H (ot_last_calculated_root t) \<union> trie_queries H (ot_root t))"
  using recalculated_delta_applies [OF assms] .

theorem honest_delta_accepted_witness:
  "\<exists>t' d. recalculate ex_hasher ex_trie = Inr (t', d)
    \<and> ((\<exists>c r'. apply_delta ex_unicode ex_hasher ex_trie d = Inr c
           \<and> verify_against c (smt_root ex_hasher (ot_root ex_trie)) = Inr r' \<and> snapshot r' = snapshot t')
       \<or> hands_over ex_unicode (snapshot ex_trie) d
       \<or> collides ex_hasher (trie_queries ex_hasher (ot_last_calculated_root ex_trie)
            \<union> trie_queries ex_hasher (ot_root ex_trie)))"
proof -
  obtain t d where r: "recalculate ex_hasher ex_trie = Inr (t, d)" "d_upserted d = []"
      "root_hash ex_trie = Inr (d_base_root d)"
      "snapshot ex_trie = get_member (ot_last_calculated_root ex_trie)"
    using ex_recalculated by metis
  then have room: "member_count ex_trie + length (d_upserted d) < 2 ^ 64"
    using ex_count by simp
  show ?thesis
    using honest_delta_accepted [OF ex_genesis(2) r(1) ex_genesis(2) r(3,4) room] r(1) by blast
qed

text \<open>
  C37 (handle hand-over is refused). A delta whose first upserted leaf takes the handle of another
  member that the delta does not remove is rejected with \<^verbatim>\<open>DuplicateHandle\<close>, even when a later leaf
  of the same delta moves that member to a different handle.
\<close>

theorem handover_rejected:
  assumes "trie_inv U H t" and "root_hash t = Inr (d_base_root d)" and "canonical_delta (snapshot t) d"
    and "\<forall>m\<in>set (d_upserted d). leaf_wf U m"
    and "member_count t + length (d_upserted d) < 2 ^ 64"
    and "d_upserted d = m # ms" and "trie_get t j = Some n" and "j \<noteq> ml_id m"
    and "j \<notin> set (d_removed d)" and "ml_handle n = ml_handle m"
  shows "apply_delta U H t d = Inl DuplicateHandle"
proof -
  let ?M = "snapshot t |` (- set (d_removed d))"
  have j: "?M j = Some n" using assms(7,9) by (simp add: trie_get_def)
  have "\<exists>i x. ?M i = Some x \<and> i \<noteq> ml_id m \<and> ml_handle x = ml_handle m"
    using j assms(8,10) by blast
  moreover have "\<exists>i x. ?M i = Some x \<and> i \<noteq> ml_id m
      \<and> handle_skeleton U (ml_handle x) = handle_skeleton U (ml_handle m)"
    using j assms(8,10) by (intro exI [of _ j] exI [of _ n]) simp
  ultimately have "handle_conflict U ?M m = Some DuplicateHandle"
    unfolding handle_conflict_def by (simp only: if_True)
  then have "spec_apply U (snapshot t) d = Inl DuplicateHandle"
    by (simp add: spec_apply_def assms(6) spec_put_def)
  then show ?thesis
    using apply_delta_correct [OF assms(1,4,2,3)] assms(5)
    by (auto simp: candidate_implements_def split: sum.splits)
qed

definition ex_handover :: Delta where
  "ex_handover =
     \<lparr>d_base_root = smt_root ex_hasher (ot_root ex_trie), d_removed = [],
      d_upserted = [ex_leaf 1 (rstr ''b''), ex_leaf 2 (rstr ''c'')]\<rparr>"

theorem handover_rejected_witness:
  "apply_delta ex_unicode ex_hasher ex_trie ex_handover = Inl DuplicateHandle"
proof (rule handover_rejected [OF ex_genesis(2)])
  show "root_hash ex_trie = Inr (d_base_root ex_handover)"
    using ex_genesis(4) by (simp add: ex_handover_def)
  show "canonical_delta (snapshot ex_trie) ex_handover"
    by (simp add: canonical_delta_def ex_handover_def ex_genesis(3) ex_leaf_def ex_alice_def
        ex_bob_def less_MemberId_def rstr_def)
  show "\<forall>m\<in>set (d_upserted ex_handover). leaf_wf ex_unicode m"
    by (simp add: ex_handover_def ex_leaf_wf)
  show "member_count ex_trie + length (d_upserted ex_handover) < 2 ^ 64"
    using ex_count by (simp add: ex_handover_def)
  show "d_upserted ex_handover = ex_leaf 1 (rstr ''b'') # [ex_leaf 2 (rstr ''c'')]"
    by (simp add: ex_handover_def)
  show "trie_get ex_trie (MemberId 2) = Some ex_bob"
    by (simp add: trie_get_def ex_genesis(3))
qed (simp_all add: ex_leaf_def ex_handover_def ex_bob_def)

text \<open>
  C32 (refinement of admission and removal). \<^verbatim>\<open>add_member\<close> and \<^verbatim>\<open>delete_member\<close> do on the trie what
  they do on the abstract map: the same error on the same condition (an id already present, a handle
  taken, a confusable handle, an unknown id), otherwise the updated map, with the invariant kept and
  the change pending.
\<close>

theorem add_delete_refine:
  assumes "trie_inv U H t" and "leaf_wf U leaf" and "member_count t + 1 < 2 ^ 64"
  shows "implements U H (add_member U H t leaf) (spec_add U (snapshot t) leaf)
    \<and> implements U H (delete_member U t i) (spec_delete (snapshot t) i)"
  using add_member_implements [OF assms] delete_member_implements [OF assms(1)] by blast

theorem add_delete_refine_witness:
  "implements ex_unicode ex_hasher (add_member ex_unicode ex_hasher ex_trie ex_carol)
     (spec_add ex_unicode (snapshot ex_trie) ex_carol)
   \<and> implements ex_unicode ex_hasher (delete_member ex_unicode ex_trie (MemberId 7)) (Inl IdNotFound)"
  using add_delete_refine [OF ex_genesis(2), of ex_carol "MemberId 7"] ex_count
  by (simp add: ex_carol_def ex_leaf_wf spec_delete_def ex_genesis(3))

text \<open>
  Refinement of the profile updates. \<^verbatim>\<open>update_name_surname\<close>, \<^verbatim>\<open>update_handle\<close> and
  \<^verbatim>\<open>rotate_p2p_key\<close> change only the named fields of the named member, with the validation and the
  conflict errors of the abstract map.
\<close>

theorem profile_updates_refine:
  assumes "nfc_laws U" and "trie_inv U H t"
  shows "implements U H (update_name_surname U H t i name surname)
       (spec_update U (snapshot t) i (edit_name_surname U name surname))
    \<and> implements U H (update_handle U H t i handle) (spec_update U (snapshot t) i (edit_handle U handle))
    \<and> implements U H (rotate_p2p_key U H t i key)
       (spec_update U (snapshot t) i (\<lambda>m. Inr (m\<lparr>ml_p2p_key := key\<rparr>)))"
  using update_name_surname_implements [OF assms] update_handle_implements [OF assms]
    rotate_p2p_key_implements [OF assms(2)] by blast

theorem profile_updates_refine_witness:
  "implements ex_unicode ex_hasher (update_handle ex_unicode ex_hasher ex_trie (MemberId 1) (rstr ''b''))
     (Inl DuplicateHandle)"
proof -
  have v: "validate_handle ex_unicode (rstr ''b'') = Inr (rstr ''b'')"
    using ex_leaf_wf(2) [of 0] by (simp add: leaf_wf_def ex_leaf_def)
  have "spec_update ex_unicode (snapshot ex_trie) (MemberId 1) (edit_handle ex_unicode (rstr ''b''))
      = Inl DuplicateHandle"
    by (auto simp: spec_update_def edit_handle_def v ex_genesis(3) spec_put_def handle_conflict_def
        ex_alice_def ex_bob_def ex_leaf_def split: option.splits if_splits)
      (rule exI [of _ "MemberId 2"], simp)
  then show ?thesis
    using profile_updates_refine [OF ex_nfc_laws ex_genesis(2), of "MemberId 1" "[]" "[]" "rstr ''b''"]
    by simp
qed

text \<open>
  C38 (refinement of the device operations). On a member's devices, read as a set of at most four
  keys: \<^verbatim>\<open>add_p2p_device\<close> inserts a key that is new and fits, \<^verbatim>\<open>delete_p2p_device\<close> removes a present key
  and replaces the member key in the same step, \<^verbatim>\<open>emergency_isolate_member\<close> empties the set and
  replaces the member key.
\<close>

theorem device_operations_refine:
  assumes "trie_inv U H t"
  shows "implements U H (add_p2p_device U H t i d) (spec_update U (snapshot t) i (edit_add_device d))
    \<and> implements U H (delete_p2p_device U H t i d key)
        (spec_update U (snapshot t) i (edit_delete_device d key))
    \<and> implements U H (emergency_isolate_member U H t i key)
        (spec_update U (snapshot t) i (edit_isolate key))"
  using add_p2p_device_implements [OF assms] delete_p2p_device_implements [OF assms]
    emergency_isolate_member_implements [OF assms] by blast

theorem device_operations_refine_witness:
  "implements ex_unicode ex_hasher
     (add_p2p_device ex_unicode ex_hasher ex_trie (MemberId 1) (P2pDeviceKey (VerifyingKey 1)))
     (Inl DuplicateDevice)"
  using device_operations_refine [OF ex_genesis(2), of "MemberId 1" "P2pDeviceKey (VerifyingKey 1)"]
  by (simp add: spec_update_def ex_genesis(3) ex_alice_def ex_leaf_def edit_add_device_def MAX_DEVICES_def)

text \<open>
  Genesis. \<^verbatim>\<open>genesis\<close> admits the members one after the other under the abstract map's rules:
  it fails with the first error, otherwise the trie holds exactly them, satisfies the invariant and
  reports its Merkle root.
\<close>

theorem genesis_refines:
  assumes "\<forall>m\<in>set ms. leaf_wf U m"
  shows "calculated_implements U H (genesis U H ms) (spec_genesis U Map.empty ms)"
  using genesis_correct [OF assms] .

theorem genesis_refines_witness:
  "calculated_implements ex_unicode ex_hasher
     (genesis ex_unicode ex_hasher [ex_alice, ex_alice]) (Inl DuplicateId)"
proof -
  have "spec_genesis ex_unicode Map.empty [ex_alice, ex_alice] = Inl DuplicateId"
    by (auto simp: spec_add_def spec_put_def handle_conflict_def split: option.splits if_splits)
  then show ?thesis
    using genesis_refines [of "[ex_alice, ex_alice]" ex_unicode ex_hasher]
    by (simp add: ex_alice_def ex_leaf_wf)
qed

text \<open>
  Lookup by handle. \<^verbatim>\<open>get_by_handle\<close> finds a member exactly when that member's handle is the
  normal form of the query, and \<^verbatim>\<open>contains_handle\<close> agrees with it.
\<close>

theorem get_by_handle_correct:
  assumes "trie_inv U H t"
  shows "(get_by_handle U t h = Some m \<longleftrightarrow> trie_get t (ml_id m) = Some m \<and> ml_handle m = nfc U h)
    \<and> (contains_handle U t h \<longleftrightarrow> get_by_handle U t h \<noteq> None)"
proof -
  have idx: "ot_handle_index t k = Some i \<longleftrightarrow> map_option ml_handle (snapshot t i) = Some k" for k i
    using trie_invD(2) [OF assms] handle_index_okD [of "snapshot t" "ot_handle_index t"]
    by (simp add: index_ok_def)
  have key: "snapshot t i = Some n \<Longrightarrow> ml_id n = i" for i n
    using get_member_id [OF trie_invD(6) [OF assms]] by blast
  show ?thesis
  proof (cases "ot_handle_index t (nfc U h)")
    case None
    then have "map_option ml_handle (snapshot t i) \<noteq> Some (nfc U h)" for i using idx [of "nfc U h" i] by simp
    then show ?thesis
      using None by (auto simp: get_by_handle_def contains_handle_def to_nfc_def trie_get_def)
  next
    case (Some i)
    then obtain n where n: "snapshot t i = Some n" "ml_handle n = nfc U h" using idx by auto
    have "m = n" if "trie_get t (ml_id m) = Some m" "ml_handle m = nfc U h"
    proof -
      have "ot_handle_index t (nfc U h) = Some (ml_id m)"
        using that by (simp add: idx trie_get_def)
      then show ?thesis using Some n that by (simp add: trie_get_def)
    qed
    moreover have "trie_get t (ml_id n) = Some n" using n key by (simp add: trie_get_def)
    ultimately have "trie_get t (ml_id m) = Some m \<and> ml_handle m = nfc U h \<longleftrightarrow> m = n"
      using n(2) by blast
    then show ?thesis
      using Some n by (auto simp: get_by_handle_def contains_handle_def to_nfc_def)
  qed
qed

theorem get_by_handle_correct_witness: "get_by_handle ex_unicode ex_trie (rstr ''a'') = Some ex_alice"
proof -
  have "trie_get ex_trie (ml_id ex_alice) = Some ex_alice \<and> ml_handle ex_alice = nfc ex_unicode (rstr ''a'')"
    by (simp add: trie_get_def ex_genesis(3) ex_alice_def ex_leaf_def ex_unicode_def)
  then show ?thesis
    using get_by_handle_correct [OF ex_genesis(2), of "rstr ''a''" ex_alice] by simp
qed

text \<open>
  C21 (the sparse tree is the dense tree). Hashing a well-formed tree succeeds and yields the Merkle
  root of the complete tree of depth 256 with the member leaf in the slot of every member's id and
  the empty sentinel in every other slot; and the root depends on the members only, not on the order
  of insertions and removals that built the tree.
\<close>

theorem sparse_tree_is_dense:
  assumes "smt_wf H a" and "smt_wf H b" and "\<forall>i. get_member a i = get_member b i"
  shows "\<exists>a' b'. recalculate_hashes H a = Inr (dense_hash H SMT_DEPTH (node_lookup a), a')
    \<and> recalculate_hashes H b = Inr (dense_hash H SMT_DEPTH (node_lookup a), b')"
proof -
  have "node_lookup b = node_lookup a"
    using get_member_eq_lookup [OF assms(2,1)] assms(3) by (simp add: fun_eq_iff)
  then show ?thesis
    using recalculate_hashes_correct [of H SMT_DEPTH a] recalculate_hashes_correct [of H SMT_DEPTH b] assms(1,2)
    by (auto simp: smt_wf_def)
qed

theorem sparse_tree_is_dense_witness:
  "let D = default_hashes_compute ex_hasher;
       e = empty_root D;
       ab = smt_insert ex_hasher (smt_insert ex_hasher e ex_alice D) ex_bob D;
       ba = smt_insert ex_hasher (smt_insert ex_hasher e ex_bob D) ex_alice D
   in \<exists>a' b'. recalculate_hashes ex_hasher ab = Inr (dense_hash ex_hasher SMT_DEPTH (node_lookup ab), a')
        \<and> recalculate_hashes ex_hasher ba = Inr (dense_hash ex_hasher SMT_DEPTH (node_lookup ab), b')"
  unfolding Let_def
  by (rule sparse_tree_is_dense)
    (auto simp: smt_insert_wf empty_root_wf get_member_insert ex_alice_def ex_bob_def ex_leaf_def)

text \<open>
  The tree is a map. Insertion and removal are update and deletion at the member's id and keep
  the tree well-formed; the empty tree holds nobody.
\<close>

theorem smt_is_map:
  assumes "smt_wf H root"
  shows "get_member (smt_insert H root m (default_hashes_compute H)) i =
       (if i = ml_id m then Some m else get_member root i)
    \<and> get_member (smt_remove root j (default_hashes_compute H)) i =
       (if i = j then None else get_member root i)
    \<and> smt_wf H (smt_insert H root m (default_hashes_compute H))
    \<and> smt_wf H (smt_remove root j (default_hashes_compute H))
    \<and> get_member (empty_root (default_hashes_compute H)) i = None"
  by (simp add: smt.get_put [OF assms] smt.get_del [OF assms] smt.good_put [OF assms]
      smt.good_del [OF assms])

theorem smt_is_map_witness:
  "get_member (smt_insert ex_hasher (empty_root (default_hashes_compute ex_hasher)) ex_alice
     (default_hashes_compute ex_hasher)) (MemberId 1) = Some ex_alice"
  using smt_is_map [OF empty_root_wf, of ex_hasher ex_alice "MemberId 1"]
  by (simp add: ex_alice_def ex_leaf_def)

text \<open>
  The diff is exact. \<^verbatim>\<open>diff_tries\<close> lists, in id order, exactly the ids that lost their member and
  the leaves that are new or changed, or a hash collision between the two trees is exhibited.
\<close>

theorem diff_tries_is_exact:
  assumes "smt_wf H old" and "smt_wf H new" and "leaves_hashable old" and "leaves_hashable new"
  shows "diff_tries old new =
      (map ml_id (filter (\<lambda>m. get_member new (ml_id m) = None) (collect_members old)),
       filter (\<lambda>m. get_member old (ml_id m) \<noteq> Some m) (collect_members new))
    \<or> collides H (trie_queries H old \<union> trie_queries H new)"
  using diff_tries_exact [OF assms] .

theorem diff_tries_is_exact_witness:
  "diff_tries (ot_root ex_trie) (ot_root ex_synced) =
      (map ml_id (filter (\<lambda>m. get_member (ot_root ex_synced) (ml_id m) = None) (collect_members (ot_root ex_trie))),
       filter (\<lambda>m. get_member (ot_root ex_trie) (ml_id m) \<noteq> Some m) (collect_members (ot_root ex_synced)))
    \<or> collides ex_hasher (trie_queries ex_hasher (ot_root ex_trie) \<union> trie_queries ex_hasher (ot_root ex_synced))"
proof -
  have inv: "trie_inv ex_unicode ex_hasher ex_synced"
    using sync_correct [OF ex_genesis(2) ex_delta_wf ex_delta_applied] by simp
  show ?thesis
    by (rule diff_tries_is_exact)
      (use trie_invD [OF inv] trie_invD [OF ex_genesis(2)] trie_leaves_hashable in auto)
qed

text \<open>
  Leaf hashing is injective. For leaves within the crate's field bounds, equal canonical bytes
  mean equal ids, handles, keys, names, surnames and device roots; and equal device roots mean equal
  device sets, or hashing them exhibits a collision.
\<close>

theorem canonical_bytes_injective:
  assumes "leaf_wf U m" and "leaf_wf U n"
    and "canonical_bytes m (compute_device_root H (ml_p2p_devices m)) =
         canonical_bytes n (compute_device_root H (ml_p2p_devices n))"
  shows "m = n \<or> collides H (device_queries H (ml_p2p_devices m) \<union> device_queries H (ml_p2p_devices n))"
proof (rule disjCI)
  assume nc: "\<not> collides H (device_queries H (ml_p2p_devices m) \<union> device_queries H (ml_p2p_devices n))"
  have f: "m\<lparr>ml_p2p_devices := ml_p2p_devices n\<rparr> = n"
    and r: "compute_device_root H (ml_p2p_devices m) = compute_device_root H (ml_p2p_devices n)"
    using canonical_bytes_fields [OF leaf_wf_bounded leaf_wf_bounded] assms by blast+
  have "ml_p2p_devices m = ml_p2p_devices n"
    by (rule compute_device_root_binds [OF _ _ r nc]) (use assms in \<open>auto simp: leaf_wf_def\<close>)
  then show "m = n" using f by (cases m; cases n) simp
qed

theorem canonical_bytes_injective_witness:
  "ex_alice = ex_alice \<or> collides ex_hasher
     (device_queries ex_hasher (ml_p2p_devices ex_alice) \<union> device_queries ex_hasher (ml_p2p_devices ex_alice))"
  by (rule canonical_bytes_injective [of ex_unicode]) (simp_all add: ex_alice_def ex_leaf_wf)

text \<open>
  Serde round trip. Serializing a leaf the crate built and deserializing the result gives the
  leaf back, and whatever the deserializer accepts is a well-formed leaf, so no wire form bypasses
  the handle rules, the length bounds or the device-list order.
\<close>

theorem leaf_serde_roundtrip:
  assumes "nfc_laws U" and "leaf_wf U m" and "leaf_keys_ok vk_ok m"
  shows "member_leaf_deserialize U vk_ok (member_leaf_serialize m) = Inr m
    \<and> (member_leaf_deserialize U vk_ok w = Inr n \<longrightarrow> leaf_wf U n)"
  using member_leaf_serde_roundtrip [OF assms(2,3)] member_leaf_deserialize_wf [OF assms(1)] by blast

theorem leaf_serde_roundtrip_witness:
  "member_leaf_deserialize ex_unicode (\<lambda>_. True) (member_leaf_serialize ex_alice) = Inr ex_alice"
proof -
  have "leaf_wf ex_unicode ex_alice" by (simp add: ex_alice_def ex_leaf_wf)
  moreover have "leaf_keys_ok (\<lambda>_. True) ex_alice" by (simp add: leaf_keys_ok_def list_all_iff)
  ultimately show ?thesis
    using leaf_serde_roundtrip [OF ex_nfc_laws] by blast
qed

text \<open>
  The wire form of a leaf is not unique. The deserializer normalizes names instead of rejecting
  what is not in normal form: under tables that map the Angstrom sign to its composed form, two
  different wire forms are accepted and give the same leaf.
\<close>

definition angstrom_unicode :: Unicode where
  "angstrom_unicode =
     ex_unicode\<lparr>nfc := (\<lambda>s. if s = [0xE2, 0x84, 0xAB] then [0xC3, 0x85] else s)\<rparr>"

definition angstrom_wire :: "bytes \<Rightarrow> MemberLeafWire" where
  "angstrom_wire name =
     \<lparr>mw_id = 1, mw_handle = rstr ''a'', mw_p2p_key = 1, mw_name = name, mw_surname = rstr ''s'',
      mw_p2p_devices = [1]\<rparr>"

theorem leaf_wire_form_not_unique:
  "nfc_laws angstrom_unicode
   \<and> angstrom_wire [0xE2, 0x84, 0xAB] \<noteq> angstrom_wire [0xC3, 0x85]
   \<and> is_ok (member_leaf_deserialize angstrom_unicode (\<lambda>_. True) (angstrom_wire [0xC3, 0x85]))
   \<and> member_leaf_deserialize angstrom_unicode (\<lambda>_. True) (angstrom_wire [0xE2, 0x84, 0xAB]) =
       member_leaf_deserialize angstrom_unicode (\<lambda>_. True) (angstrom_wire [0xC3, 0x85])"
  by (simp add: nfc_laws_def angstrom_unicode_def angstrom_wire_def ex_unicode_def
      member_leaf_deserialize_def member_key_deserialize_def device_slots_deserialize_def
      device_key_deserialize_def validate_handle_def rstr_def Let_def to_nfc_def
      MAX_DEVICES_def MAX_HANDLE_LEN_def MAX_NAME_LEN_def MAX_SURNAME_LEN_def)

text \<open>
  C39 (device slots are bounded sets). The slots type keeps its keys strictly increasing and at most
  four; \<^verbatim>\<open>new\<close> accepts exactly the duplicate-free lists that fit, \<^verbatim>\<open>has_device\<close> (a binary search) is
  membership, \<^verbatim>\<open>add_device\<close> and \<^verbatim>\<open>remove_device\<close> are insertion and removal with their errors.
\<close>

theorem device_slots_are_bounded_sets:
  assumes "slots_wf s"
  shows "device_slots_new ds =
       (if length ds > 4 then Inl DeviceSlotsFull
        else if \<not> distinct ds then Inl DuplicateDevice
        else Inr (P2pDeviceSlots (sorted_list_of_set (set ds))))
    \<and> (has_device s d \<longleftrightarrow> d \<in> set (devices s))
    \<and> add_device s d =
       (if device_count s \<ge> 4 then Inl DeviceSlotsFull
        else if d \<in> set (devices s) then Inl DuplicateDevice
        else Inr (P2pDeviceSlots (sorted_list_of_set (insert d (set (devices s))))))
    \<and> remove_device s d =
       (if d \<notin> set (devices s) then Inl DeviceNotFound
        else Inr (P2pDeviceSlots (sorted_list_of_set (set (devices s) - {d}))))"
  using device_slots_new_cases [of ds] has_device_iff [OF assms, of d] add_device_set [OF assms, of d]
    remove_device_set [OF assms, of d] card_slots [OF assms]
  unfolding devices_def device_count_def MAX_DEVICES_def by presburger

theorem device_slots_are_bounded_sets_witness:
  "has_device (P2pDeviceSlots [P2pDeviceKey (VerifyingKey 1)]) (P2pDeviceKey (VerifyingKey 1))
   \<and> \<not> has_device (P2pDeviceSlots [P2pDeviceKey (VerifyingKey 1)]) (P2pDeviceKey (VerifyingKey 2))"
proof -
  have "slots_wf (P2pDeviceSlots [P2pDeviceKey (VerifyingKey 1)])"
    by (simp add: slots_wf_def MAX_DEVICES_def)
  from device_slots_are_bounded_sets [OF this] show ?thesis by (simp add: devices_def)
qed

text \<open>
  Handle validation. A handle is accepted exactly when it is non-empty and its normal form is
  at most 128 bytes, single-script and made of lower-case characters that are hyphens or allowed
  identifier characters and not dots; the normal form is returned and is itself accepted unchanged.
\<close>

theorem validate_handle_characterised:
  assumes "nfc_laws U"
  shows "(validate_handle U h = Inr v \<longleftrightarrow>
       h \<noteq> [] \<and> v = nfc U h \<and> length v \<le> 128 \<and> is_single_script U v
       \<and> (\<forall>ch\<in>set (utf8_chars v). \<not> is_uppercase U ch \<and> ch \<noteq> 0x2E
            \<and> (ch = 0x2D \<or> identifier_allowed U ch)))
    \<and> (validate_handle U h = Inr v \<longrightarrow> validate_handle U v = Inr v)"
  using validate_handle_again [OF assms]
  by (auto simp: validate_handle_ok check_handle_chars_ok MAX_HANDLE_LEN_def)

theorem validate_handle_characterised_witness:
  "validate_handle ex_unicode (rstr ''a-b'') = Inr (rstr ''a-b'')
   \<and> validate_handle ex_unicode (rstr ''a.b'') \<noteq> Inr (rstr ''a.b'')"
  using validate_handle_characterised [OF ex_nfc_laws, of "rstr ''a-b''" "rstr ''a-b''"]
    validate_handle_characterised [OF ex_nfc_laws, of "rstr ''a.b''" "rstr ''a.b''"]
  by (simp add: ex_unicode_def rstr_def)

text \<open>
  Rejections of \<^verbatim>\<open>apply_delta\<close>. A delta is never applied to a trie with pending changes, nor at
  another base root, nor when it is not in canonical form; each has its own error.
\<close>

theorem apply_delta_rejections:
  shows "(has_pending_changes t \<longrightarrow> apply_delta U H t d = Inl HashesNotCalculated)
    \<and> (root_hash t = Inr r \<longrightarrow> r \<noteq> d_base_root d \<longrightarrow> apply_delta U H t d = Inl DeltaBaseMismatch)
    \<and> (root_hash t = Inr (d_base_root d) \<longrightarrow> \<not> canonical_delta (snapshot t) d \<longrightarrow>
         (\<exists>why. apply_delta U H t d = Inl (MalformedDelta why)))"
proof (intro conjI impI)
  assume "has_pending_changes t"
  then show "apply_delta U H t d = Inl HashesNotCalculated"
    by (simp add: has_pending_changes_def apply_delta_def)
next
  assume "root_hash t = Inr r" and "r \<noteq> d_base_root d"
  then show "apply_delta U H t d = Inl DeltaBaseMismatch"
    by (auto simp: root_hash_def ok_or_eq_Inr apply_delta_def)
next
  assume root: "root_hash t = Inr (d_base_root d)" and "\<not> canonical_delta (snapshot t) d"
  then have "validate_canonical_delta t d \<noteq> Inr ()" using validate_canonical_delta_iff by blast
  then obtain why where "validate_canonical_delta t d = Inl (MalformedDelta why)"
    by (auto simp: validate_canonical_delta_def split: if_splits)
  then show "\<exists>why. apply_delta U H t d = Inl (MalformedDelta why)"
    using root by (auto simp: root_hash_def ok_or_eq_Inr apply_delta_def)
qed

theorem apply_delta_rejections_witness:
  "apply_delta ex_unicode ex_hasher ex_trie
     \<lparr>d_base_root = smt_root ex_hasher (ot_root ex_trie), d_removed = [MemberId 9], d_upserted = []\<rparr>
   \<noteq> Inr ex_candidate"
proof -
  let ?d = "\<lparr>d_base_root = smt_root ex_hasher (ot_root ex_trie), d_removed = [MemberId 9], d_upserted = []\<rparr>"
  have "\<not> canonical_delta (snapshot ex_trie) ?d"
    by (simp add: canonical_delta_def ex_genesis(3))
  then have "\<exists>why. apply_delta ex_unicode ex_hasher ex_trie ?d = Inl (MalformedDelta why)"
    using apply_delta_rejections [of ex_trie ex_unicode ex_hasher ?d] ex_genesis(4) by simp
  then show ?thesis by auto
qed

end
