(* ===== verification/Redaction.thy ===== *)
theory Redaction
  imports Trie
begin

text \<open>
  What the \<^verbatim>\<open>Debug\<close> implementations of \<^verbatim>\<open>org-members\<close> print (\<^verbatim>\<open>{:?}\<close>), and that none of them prints a
  handle, a name or a surname.
\<close>

section \<open>The printed forms\<close>

definition short_hex :: "bytes32 \<Rightarrow> string" where
  "short_hex w = concat (map hex_byte (take 4 (be_bytes 32 w))) @ ''..''"

definition member_id_debug :: "MemberId \<Rightarrow> string" where
  "member_id_debug i = ''MemberId('' @ short_hex (member_id_word i) @ '')''"

definition member_key_debug :: "P2pMemberKey \<Rightarrow> string" where
  "member_key_debug k = ''P2pMemberKey('' @ short_hex (vk_word (member_verifying_key k)) @ '')''"

definition device_key_debug :: "P2pDeviceKey \<Rightarrow> string" where
  "device_key_debug k = ''P2pDeviceKey('' @ short_hex (vk_word (device_verifying_key k)) @ '')''"

definition node_hash_debug :: "NodeHash \<Rightarrow> string" where
  "node_hash_debug h = ''NodeHash('' @ short_hex (node_hash_word h) @ '')''"

definition root_hash_debug :: "RootHash \<Rightarrow> string" where
  "root_hash_debug h = ''RootHash('' @ short_hex (root_hash_word h) @ '')''"

definition device_slots_debug :: "P2pDeviceSlots \<Rightarrow> string" where
  "device_slots_debug s = ''P2pDeviceSlots('' @ show_nat (length (slots s)) @ '')''"

definition REDACTED :: string where
  "REDACTED = [CHR 0x22] @ ''[REDACTED]'' @ [CHR 0x22]"

definition member_leaf_debug :: "MemberLeaf \<Rightarrow> string" where
  "member_leaf_debug m =
     ''MemberLeaf { id: '' @ member_id_debug (ml_id m) @ '', handle: '' @ REDACTED
     @ '', p2p_key: '' @ member_key_debug (ml_p2p_key m) @ '', name: '' @ REDACTED
     @ '', surname: '' @ REDACTED @ '', p2p_devices: '' @ device_slots_debug (ml_p2p_devices m) @ '' }''"

definition option_debug :: "('a \<Rightarrow> string) \<Rightarrow> 'a option \<Rightarrow> string" where
  "option_debug f v = (case v of None \<Rightarrow> ''None'' | Some x \<Rightarrow> ''Some('' @ f x @ '')'')"

definition list_debug :: "('a \<Rightarrow> string) \<Rightarrow> 'a list \<Rightarrow> string" where
  "list_debug f xs = ''['' @ comma_list (map f xs) @ '']''"

definition bool_debug :: "bool \<Rightarrow> string" where
  "bool_debug b = (if b then ''true'' else ''false'')"

definition node_debug :: "Node \<Rightarrow> string" where
  "node_debug n =
     (case kind n of
        Internal _ _ \<Rightarrow>
          ''Node::Internal(hash=''
          @ option_debug (\<lambda>h. list_debug (\<lambda>b. show_nat (unat b)) (take 4 (node_hash_as_bytes h))) (hash_cell n)
          @ '')''
      | Leaf payload \<Rightarrow> ''Node::Leaf('' @ member_leaf_debug (lp_member payload) @ '')''
      | Empty \<Rightarrow> ''Node::Empty'')"

definition org_trie_debug :: "OrgTrie \<Rightarrow> string" where
  "org_trie_debug t =
     ''OrgTrie { member_count: '' @ show_nat (ot_member_count t)
     @ '', root_hash: '' @ option_debug root_hash_debug (ot_cached_root_hash t)
     @ '', is_calculated: '' @ bool_debug (is_calculated t) @ '' }''"

definition delta_debug :: "Delta \<Rightarrow> string" where
  "delta_debug d =
     ''Delta { base_root: '' @ root_hash_debug (d_base_root d)
     @ '', removed: '' @ list_debug member_id_debug (d_removed d)
     @ '', upserted: '' @ list_debug member_leaf_debug (d_upserted d) @ '' }''"

definition candidate_debug :: "CandidateTrie \<Rightarrow> string" where
  "candidate_debug c =
     ''CandidateTrie { root_hash: '' @ root_hash_debug (ct_root_hash c)
     @ '', member_count: '' @ show_nat (ct_member_count c) @ '' }''"

section \<open>No personal data\<close>

text \<open>\<open>anonymise\<close> replaces the personal fields of a leaf; nothing printed changes.\<close>

definition anonymise :: "(MemberLeaf \<Rightarrow> RString \<times> RString \<times> RString) \<Rightarrow> MemberLeaf \<Rightarrow> MemberLeaf" where
  "anonymise f m = (case f m of (h, n, s) \<Rightarrow> m\<lparr>ml_handle := h, ml_name := n, ml_surname := s\<rparr>)"

fun anonymise_node :: "(MemberLeaf \<Rightarrow> RString \<times> RString \<times> RString) \<Rightarrow> Node \<Rightarrow> Node" where
  "anonymise_node f (Node h (Internal l r)) = Node h (Internal (anonymise_node f l) (anonymise_node f r))"
| "anonymise_node f (Node h (Leaf p)) = Node h (Leaf (p\<lparr>lp_member := anonymise f (lp_member p)\<rparr>))"
| "anonymise_node f (Node h Empty) = Node h Empty"

lemma member_leaf_debug_anonymous [simp]: "member_leaf_debug (anonymise f m) = member_leaf_debug m"
  by (simp add: member_leaf_debug_def anonymise_def split: prod.split)

theorem debug_reveals_no_personal_data:
  "node_debug (anonymise_node f n) = node_debug n
   \<and> delta_debug (d\<lparr>d_upserted := map (anonymise f) (d_upserted d)\<rparr>) = delta_debug d
   \<and> org_trie_debug (t\<lparr>ot_root := anonymise_node f (ot_root t)\<rparr>) = org_trie_debug t
   \<and> candidate_debug (c\<lparr>ct_root := anonymise_node f (ct_root c)\<rparr>) = candidate_debug c"
proof -
  have "node_debug (anonymise_node f n) = node_debug n"
    by (cases "(f, n)" rule: anonymise_node.cases) (simp_all add: node_debug_def)
  moreover have "delta_debug (d\<lparr>d_upserted := map (anonymise f) (d_upserted d)\<rparr>) = delta_debug d"
    by (simp add: delta_debug_def list_debug_def o_def)
  moreover have "org_trie_debug (t\<lparr>ot_root := anonymise_node f (ot_root t)\<rparr>) = org_trie_debug t"
    by (simp add: org_trie_debug_def is_calculated_def)
  ultimately show ?thesis by (simp add: candidate_debug_def)
qed

end
