(* ===== verification/Effects.thy ===== *)
theory Effects
  imports Prelude
begin

text \<open>
  Stateful code that can fail. An \<^verbatim>\<open>async fn\<close> or \<^verbatim>\<open>&mut self\<close> method that returns a \<^verbatim>\<open>Result\<close> is an
  effect: a function from the state to a result and the state it leaves behind. The state is returned
  with an error too, because what a method did before it failed stays done. Await points are not
  visible: the repository holds \<^verbatim>\<open>&mut self\<close> across them.

  Also the interface of postcard, the serialization library: a pair of functions on the values of
  serde's data model, with the text of the error as its display string.
\<close>

named_theorems effect_simps \<open>rewriting of effects\<close>

type_synonym ('s, 'e, 'a) effect = "'s \<Rightarrow> ('e + 'a) \<times> 's"

definition eff_return :: "'a \<Rightarrow> ('s, 'e, 'a) effect" where
  "eff_return x s = (Inr x, s)"

definition eff_fail :: "'e \<Rightarrow> ('s, 'e, 'a) effect" where
  "eff_fail e s = (Inl e, s)"

definition eff_bind :: "('s, 'e, 'a) effect \<Rightarrow> ('a \<Rightarrow> ('s, 'e, 'b) effect) \<Rightarrow> ('s, 'e, 'b) effect" where
  "eff_bind m f s = (case m s of (Inl e, s') \<Rightarrow> (Inl e, s') | (Inr x, s') \<Rightarrow> f x s')"

text \<open>A pure result, a reading of the state, an update of the state, a condition to go on.\<close>

definition eff_lift :: "'e + 'a \<Rightarrow> ('s, 'e, 'a) effect" where
  "eff_lift r s = (r, s)"

definition eff_gets :: "('s \<Rightarrow> 'a) \<Rightarrow> ('s, 'e, 'a) effect" where
  "eff_gets f s = (Inr (f s), s)"

definition eff_modify :: "('s \<Rightarrow> 's) \<Rightarrow> ('s, 'e, unit) effect" where
  "eff_modify f s = (Inr (), f s)"

definition eff_assert :: "bool \<Rightarrow> 'e \<Rightarrow> ('s, 'e, unit) effect" where
  "eff_assert b e s = (if b then Inr () else Inl e, s)"

definition eff_map_err :: "('e \<Rightarrow> 'f) \<Rightarrow> ('s, 'e, 'a) effect \<Rightarrow> ('s, 'f, 'a) effect" where
  "eff_map_err f m s = (let (r, s') = m s in (map_err f r, s'))"

text \<open>An effect on a component of the state.\<close>

definition eff_zoom :: "('s \<Rightarrow> 't) \<Rightarrow> ('t \<Rightarrow> 's \<Rightarrow> 's) \<Rightarrow> ('t, 'e, 'a) effect \<Rightarrow> ('s, 'e, 'a) effect" where
  "eff_zoom get_part put_part m s = (let (r, t) = m (get_part s) in (r, put_part t s))"

lemma eff_simps [simp, effect_simps]:
  "eff_return x s = (Inr x, s)"
  "eff_fail e s = (Inl e, s)"
  "eff_lift r s = (r, s)"
  "eff_gets f s = (Inr (f s), s)"
  "eff_modify g s = (Inr (), g s)"
  "eff_assert b e s = (if b then Inr () else Inl e, s)"
  by (simp_all add: eff_return_def eff_fail_def eff_lift_def eff_gets_def eff_modify_def eff_assert_def)

lemma eff_bind_return: "eff_bind (eff_return x) f = f x"
  by (rule ext) (simp add: eff_bind_def)

lemma eff_bind_assoc: "eff_bind (eff_bind m f) g = eff_bind m (\<lambda>x. eff_bind (f x) g)"
  by (rule ext) (simp add: eff_bind_def split: prod.splits sum.splits)

text \<open>The runs of a sequence that succeed, and the ones that fail in either half.\<close>

lemma eff_bind_ok [effect_simps]:
  "eff_bind m f s = (Inr y, s') \<longleftrightarrow> (\<exists>x s1. m s = (Inr x, s1) \<and> f x s1 = (Inr y, s'))"
  by (auto simp: eff_bind_def split: prod.splits sum.splits)

lemma eff_bind_error [effect_simps]:
  "eff_bind m f s = (Inl e, s') \<longleftrightarrow>
     m s = (Inl e, s') \<or> (\<exists>x s1. m s = (Inr x, s1) \<and> f x s1 = (Inl e, s'))"
  by (auto simp: eff_bind_def split: prod.splits sum.splits)

lemma eff_bind_step: "m s = (Inr x, s1) \<Longrightarrow> eff_bind m f s = f x s1"
  by (simp add: eff_bind_def)

lemma eff_bind_stop: "m s = (Inl e, s1) \<Longrightarrow> eff_bind m f s = (Inl e, s1)"
  by (simp add: eff_bind_def)

lemma eff_bind_pure [simp]:
  "eff_bind (eff_return x) f s = f x s"
  "eff_bind (eff_fail e) f s = (Inl e, s)"
  "eff_bind (eff_gets h) f s = f (h s) s"
  "eff_bind (eff_modify g) (k :: unit \<Rightarrow> ('s, 'e, 'b) effect) s = k () (g s)"
  "eff_bind (eff_lift (Inr x)) f s = f x s"
  "eff_bind (eff_lift (Inl e)) f s = (Inl e, s)"
  by (simp_all add: eff_bind_def)

lemma eff_map_err_ok [effect_simps]:
  "eff_map_err f m s = (Inr x, s') \<longleftrightarrow> m s = (Inr x, s')"
  by (auto simp: eff_map_err_def map_err_eq_Inr split: prod.splits)

lemma eff_map_err_error [effect_simps]:
  "eff_map_err f m s = (Inl e, s') \<longleftrightarrow> (\<exists>e0. m s = (Inl e0, s') \<and> e = f e0)"
  by (auto simp: eff_map_err_def map_err_eq_Inl split: prod.splits)

lemma eff_zoom_run [effect_simps]:
  "eff_zoom g p m s = (r, s') \<longleftrightarrow> (\<exists>t. m (g s) = (r, t) \<and> s' = p t s)"
  by (auto simp: eff_zoom_def split: prod.splits)

lemma eff_lift_run [effect_simps]: "eff_lift r s = (q, s') \<longleftrightarrow> r = q \<and> s' = s"
  by auto

text \<open>A property of the state that an effect keeps, whatever its result.\<close>

definition eff_keeps :: "('s \<Rightarrow> 's \<Rightarrow> bool) \<Rightarrow> ('s, 'e, 'a) effect \<Rightarrow> bool" where
  "eff_keeps R m \<longleftrightarrow> (\<forall>s. R s (snd (m s)))"

lemma eff_keeps_bind:
  assumes "transp R" and "eff_keeps R m" and "\<And>x. eff_keeps R (f x)"
  shows "eff_keeps R (eff_bind m f)"
  unfolding eff_keeps_def
proof
  fix s
  obtain r t where t: "m s = (r, t)" by fastforce
  have "R s t" using assms(2) t by (metis eff_keeps_def snd_conv)
  moreover have "R t (snd (f x t))" for x using assms(3) by (simp add: eff_keeps_def)
  ultimately show "R s (snd (eff_bind m f s))"
    using t assms(1) by (cases r) (auto simp: eff_bind_def dest: transpD)
qed

lemma eff_keeps_pure:
  assumes "reflp R"
  shows "eff_keeps R (eff_return x)" and "eff_keeps R (eff_fail e)" and "eff_keeps R (eff_lift r)"
    and "eff_keeps R (eff_gets h)" and "eff_keeps R (eff_assert b e')"
  using assms by (simp_all add: eff_keeps_def reflpD)

lemma eff_keeps_map_err: "eff_keeps R m \<Longrightarrow> eff_keeps R (eff_map_err f m)"
  by (auto simp: eff_keeps_def eff_map_err_def split: prod.splits) (metis snd_conv)

section \<open>Postcard\<close>

record 'w Codec =
  to_allocvec :: "'w \<Rightarrow> string + bytes"
  from_bytes :: "bytes \<Rightarrow> string + 'w"

text \<open>What is documented of postcard: what it encodes, it decodes.\<close>

definition codec_correct :: "'w Codec \<Rightarrow> bool" where
  "codec_correct P \<longleftrightarrow> (\<forall>w b. to_allocvec P w = Inr b \<longrightarrow> from_bytes P b = Inr w)"

lemma codec_correctD: "codec_correct P \<Longrightarrow> to_allocvec P w = Inr b \<Longrightarrow> from_bytes P b = Inr w"
  by (simp add: codec_correct_def)

end
