(* ===== verification/Envelope.thy ===== *)
theory Envelope
  imports DeltaSync Effects
begin

text \<open>
  The receiving side of \<^verbatim>\<open>org-node\<close>: \<^verbatim>\<open>ids.rs\<close>, \<^verbatim>\<open>error.rs\<close>, \<^verbatim>\<open>keys.rs\<close>, \<^verbatim>\<open>chain.rs\<close>,
  \<^verbatim>\<open>sequence.rs\<close>, \<^verbatim>\<open>envelope.rs\<close> and \<^verbatim>\<open>verify.rs\<close>.

  Third-party code is a parameter: \<open>Ed25519\<close> holds the three functions of \<^verbatim>\<open>ed25519_dalek\<close> the crate
  calls, and a \<open>DeltaWire Codec\<close> the two of postcard on deltas. Postcard works on serde's data model,
  so the codec's values are \<open>DeltaWire\<close>s; the repository's own \<^verbatim>\<open>Deserialize\<close> implementations are
  \<open>delta_deserialize\<close> and the leaf deserializer it calls. A chain reader is the function its trait
  method is.
\<close>

section \<open>Identifiers, errors and keys\<close>

datatype OrgId = OrgId (org_id_word: bytes20)

definition org_id_as_bytes :: "OrgId \<Rightarrow> bytes" where
  "org_id_as_bytes i = be_bytes 20 (org_id_word i)"

datatype OrgNodeError =
    OrgIdMismatch
  | BadSignature
  | StaleSeq u64 u64
  | NodeMalformedDelta
  | NodeDeltaBaseMismatch
  | OrgNotOnChain
  | RootMismatch
  | StaleEpoch u64 u64
  | Chain string
  | NodeTrie OrgMembersError

type_synonym Sig = "512 word"

record Ed25519 =
  ed_verifying_key :: "bytes32 \<Rightarrow> VerifyingKey"
  ed_sign :: "bytes32 \<Rightarrow> bytes \<Rightarrow> Sig"
  ed_verify :: "VerifyingKey \<Rightarrow> bytes \<Rightarrow> Sig \<Rightarrow> bool"

text \<open>What is documented of signatures: a signature of a key verifies under its verifying key.\<close>

definition ed_correct :: "Ed25519 \<Rightarrow> bool" where
  "ed_correct E \<longleftrightarrow> (\<forall>seed msg. ed_verify E (ed_verifying_key E seed) msg (ed_sign E seed msg))"

datatype SigningKeypair = SigningKeypair (keypair_seed: bytes32)

definition keypair_from_seed :: "bytes32 \<Rightarrow> SigningKeypair" where
  "keypair_from_seed seed = SigningKeypair seed"

definition keypair_to_seed :: "SigningKeypair \<Rightarrow> bytes32" where
  "keypair_to_seed kp = keypair_seed kp"

definition keypair_verifying_key :: "Ed25519 \<Rightarrow> SigningKeypair \<Rightarrow> VerifyingKey" where
  "keypair_verifying_key E kp = ed_verifying_key E (keypair_seed kp)"

definition member_key :: "Ed25519 \<Rightarrow> SigningKeypair \<Rightarrow> P2pMemberKey" where
  "member_key E kp = P2pMemberKey (keypair_verifying_key E kp)"

definition device_key :: "Ed25519 \<Rightarrow> SigningKeypair \<Rightarrow> P2pDeviceKey" where
  "device_key E kp = P2pDeviceKey (keypair_verifying_key E kp)"

definition keypair_sign :: "Ed25519 \<Rightarrow> SigningKeypair \<Rightarrow> bytes \<Rightarrow> Sig" where
  "keypair_sign E kp msg = ed_sign E (keypair_seed kp) msg"

definition sig_verify :: "Ed25519 \<Rightarrow> VerifyingKey \<Rightarrow> bytes \<Rightarrow> Sig \<Rightarrow> bool" where
  "sig_verify E vk msg sig = ed_verify E vk msg sig"

section \<open>The chain as an oracle\<close>

record OrgState =
  os_root_hash :: RootHash
  os_org_pub_key :: bytes32
  os_epoch :: u64

type_synonym ChainReader = "OrgId \<Rightarrow> string + OrgState option"

type_synonym MockChain = "OrgId \<rightharpoonup> OrgState"

definition mock_chain_new :: MockChain where
  "mock_chain_new = Map.empty"

definition mock_chain_set :: "MockChain \<Rightarrow> OrgId \<Rightarrow> OrgState \<Rightarrow> MockChain" where
  "mock_chain_set chain i st = chain(i \<mapsto> st)"

definition mock_chain_get_org_state :: "MockChain \<Rightarrow> ChainReader" where
  "mock_chain_get_org_state chain i = Inr (chain i)"

section \<open>Replay guard\<close>

datatype SeqGuard = SeqGuard (last_seen: u64)

definition seq_guard_new :: SeqGuard where
  "seq_guard_new = SeqGuard 0"

definition seq_guard_from_last_seen :: "u64 \<Rightarrow> SeqGuard" where
  "seq_guard_from_last_seen s = SeqGuard s"

definition seq_check :: "SeqGuard \<Rightarrow> u64 \<Rightarrow> OrgNodeError + unit" where
  "seq_check g s = (if s > last_seen g then Inr () else Inl (StaleSeq s (last_seen g)))"

definition seq_advance :: "SeqGuard \<Rightarrow> u64 \<Rightarrow> SeqGuard" where
  "seq_advance g s = (if s > last_seen g then SeqGuard s else g)"

section \<open>Envelopes\<close>

record DeltaWire =
  dw_base_root :: bytes32
  dw_removed :: "bytes32 list"
  dw_upserted :: "MemberLeafWire list"

definition delta_serialize :: "Delta \<Rightarrow> DeltaWire" where
  "delta_serialize d =
     \<lparr>dw_base_root = root_hash_word (d_base_root d), dw_removed = map member_id_word (d_removed d),
      dw_upserted = map member_leaf_serialize (d_upserted d)\<rparr>"

definition delta_deserialize ::
  "Unicode \<Rightarrow> (bytes32 \<Rightarrow> bool) \<Rightarrow> DeltaWire \<Rightarrow> DeError + Delta" where
  "delta_deserialize U vk_ok w =
     and_then (collect_results (map (member_leaf_deserialize U vk_ok) (dw_upserted w))) (\<lambda>ups.
     Inr \<lparr>d_base_root = RootHash (dw_base_root w), d_removed = map MemberId (dw_removed w),
          d_upserted = ups\<rparr>)"

record SignedDeltaEnvelope =
  env_org_id :: OrgId
  env_parent_seq :: u64
  env_delta_bytes :: bytes
  env_signature :: Sig

definition transcript :: "OrgId \<Rightarrow> u64 \<Rightarrow> bytes \<Rightarrow> bytes" where
  "transcript i parent_seq delta_bytes =
     org_id_as_bytes i @ le_bytes 8 parent_seq @ delta_bytes"

definition envelope_build ::
  "Ed25519 \<Rightarrow> DeltaWire Codec \<Rightarrow> OrgId \<Rightarrow> u64 \<Rightarrow> Delta \<Rightarrow> SigningKeypair
     \<Rightarrow> OrgNodeError + SignedDeltaEnvelope" where
  "envelope_build E P i parent_seq delta author =
     and_then (map_err (\<lambda>_. NodeMalformedDelta) (to_allocvec P (delta_serialize delta))) (\<lambda>delta_bytes.
     let sig = keypair_sign E author (transcript i parent_seq delta_bytes) in
     Inr \<lparr>env_org_id = i, env_parent_seq = parent_seq, env_delta_bytes = delta_bytes,
          env_signature = sig\<rparr>)"

definition decode_delta ::
  "Unicode \<Rightarrow> (bytes32 \<Rightarrow> bool) \<Rightarrow> DeltaWire Codec \<Rightarrow> SignedDeltaEnvelope \<Rightarrow> OrgNodeError + Delta" where
  "decode_delta U vk_ok P env =
     and_then (map_err (\<lambda>_. NodeMalformedDelta) (from_bytes P (env_delta_bytes env))) (\<lambda>w.
     map_err (\<lambda>_. NodeMalformedDelta) (delta_deserialize U vk_ok w))"

definition verify_signature :: "Ed25519 \<Rightarrow> SignedDeltaEnvelope \<Rightarrow> VerifyingKey \<Rightarrow> bool" where
  "verify_signature E env author_member_key =
     sig_verify E author_member_key
       (transcript (env_org_id env) (env_parent_seq env) (env_delta_bytes env)) (env_signature env)"

section \<open>Verification against the chain\<close>

record VerifyContext =
  vc_expected_org_id :: OrgId
  vc_author_member_key :: VerifyingKey
  vc_seq_guard :: SeqGuard
  vc_last_committed_epoch :: u64

record VerifiedUpdate =
  vu_trie :: OrgTrie
  vu_seq_guard :: SeqGuard
  vu_epoch :: u64

text \<open>The environment of a node: Unicode tables, hasher, key validity, signatures, postcard.\<close>

record NodeEnv =
  ne_unicode :: Unicode
  ne_hasher :: TrieHasher
  ne_vk_ok :: "bytes32 \<Rightarrow> bool"
  ne_ed :: Ed25519
  ne_codec :: "DeltaWire Codec"

definition verify_envelope_against_chain ::
  "NodeEnv \<Rightarrow> OrgTrie \<Rightarrow> SignedDeltaEnvelope \<Rightarrow> VerifyContext \<Rightarrow> ChainReader
     \<Rightarrow> OrgNodeError + VerifiedUpdate" where
  "verify_envelope_against_chain N local_trie env ctx chain =
     (if env_org_id env \<noteq> vc_expected_org_id ctx then Inl OrgIdMismatch
      else if \<not> verify_signature (ne_ed N) env (vc_author_member_key ctx) then Inl BadSignature
      else
      and_then (seq_check (vc_seq_guard ctx) (env_parent_seq env)) (\<lambda>_.
      and_then (decode_delta (ne_unicode N) (ne_vk_ok N) (ne_codec N) env) (\<lambda>delta.
      and_then (map_err NodeTrie (root_hash local_trie)) (\<lambda>local_root.
      if d_base_root delta \<noteq> local_root then Inl NodeDeltaBaseMismatch
      else
      and_then (map_err NodeTrie (apply_delta (ne_unicode N) (ne_hasher N) local_trie delta)) (\<lambda>candidate.
      and_then (map_err Chain (chain (vc_expected_org_id ctx))) (\<lambda>state.
      and_then (ok_or state OrgNotOnChain) (\<lambda>on_chain.
      if os_epoch on_chain \<le> vc_last_committed_epoch ctx
      then Inl (StaleEpoch (os_epoch on_chain) (vc_last_committed_epoch ctx))
      else
      and_then (map_err (\<lambda>_. RootMismatch) (verify_against candidate (os_root_hash on_chain))) (\<lambda>committed.
      Inr \<lparr>vu_trie = committed, vu_seq_guard = seq_advance (vc_seq_guard ctx) (env_parent_seq env),
           vu_epoch = os_epoch on_chain\<rparr>))))))))"

section \<open>Guards as an interface\<close>

text \<open>
  The contract of a monotone guard: a check passes exactly for tokens above the mark, and advancing
  over a checked token moves the mark there. Both guards of a receiver follow it: the sequence guard
  and the comparison of the on-chain epoch with the last committed one.
\<close>

locale monotone_guard =
  fixes passes :: "'g \<Rightarrow> 't::linorder \<Rightarrow> bool"
    and bump :: "'g \<Rightarrow> 't \<Rightarrow> 'g"
    and mark :: "'g \<Rightarrow> 't"
  assumes passes_iff: "passes g t \<longleftrightarrow> mark g < t"
    and mark_bump: "passes g t \<Longrightarrow> mark (bump g t) = t"
begin

text \<open>A run of guarded commits: each token is checked against the guard its predecessors left.\<close>

fun accepted_run :: "'g \<Rightarrow> 't list \<Rightarrow> bool" where
  "accepted_run g [] = True"
| "accepted_run g (t # ts) = (passes g t \<and> accepted_run (bump g t) ts)"

lemma run_above: "accepted_run g ts \<Longrightarrow> t \<in> set ts \<Longrightarrow> mark g < t"
proof (induction ts arbitrary: g)
  case (Cons a ts)
  then have a: "passes g a" and run: "accepted_run (bump g a) ts" by simp_all
  have "mark g < a" using a passes_iff by blast
  moreover have "a < t" if "t \<noteq> a"
    using that Cons.IH [OF run] Cons.prems(2) mark_bump [OF a] by simp
  ultimately show ?case using less_trans by blast
qed simp

lemma run_increasing: "accepted_run g ts \<Longrightarrow> sorted_wrt (<) ts"
proof (induction ts arbitrary: g)
  case (Cons a ts)
  then have a: "passes g a" and run: "accepted_run (bump g a) ts" by simp_all
  have "\<forall>t\<in>set ts. a < t"
    using run_above [OF run] mark_bump [OF a] by simp
  then show ?case using Cons.IH [OF run] by simp
qed simp

lemma no_replay: "passes g t \<Longrightarrow> s \<le> t \<Longrightarrow> \<not> passes (bump g t) s"
  by (simp add: passes_iff [of "bump g t"] mark_bump)

end

interpretation seq_guard: monotone_guard "\<lambda>g s. is_ok (seq_check g s)" seq_advance last_seen
  by unfold_locales (auto simp: seq_check_def seq_advance_def)

interpretation epoch_guard: monotone_guard "\<lambda>last e. \<not> e \<le> (last :: u64)" "\<lambda>_ e. e" "\<lambda>last. last"
  by unfold_locales auto

end
