(* ===== verification/NodeVerify.thy ===== *)
theory NodeVerify
  imports Envelope OrgMembers
begin

text \<open>
  What the receive path of \<^verbatim>\<open>org-node\<close> guarantees: the theorems about \<open>verify_envelope_against_chain\<close> and
  about a receiver that commits envelopes over time, and a concrete node on which they are applied.
\<close>

section \<open>Deltas on the wire\<close>

lemma delta_deserialize_wf:
  assumes "nfc_laws U" and "delta_deserialize U vk_ok w = Inr d"
  shows "\<forall>m\<in>set (d_upserted d). leaf_wf U m"
proof
  fix m
  assume m: "m \<in> set (d_upserted d)"
  have "collect_results (map (member_leaf_deserialize U vk_ok) (dw_upserted w)) = Inr (d_upserted d)"
    using assms(2) by (auto simp: delta_deserialize_def and_then_eq_Inr)
  then have "list_all2 (\<lambda>r x. r = Inr x) (map (member_leaf_deserialize U vk_ok) (dw_upserted w)) (d_upserted d)"
    by (simp only: collect_results_eq_Inr)
  then obtain v where "member_leaf_deserialize U vk_ok v = Inr m"
    using m by (auto simp: list_all2_conv_all_nth in_set_conv_nth)
  then show "leaf_wf U m" using member_leaf_deserialize_wf [OF assms(1)] by blast
qed

definition delta_wire_ok :: "Unicode \<Rightarrow> (bytes32 \<Rightarrow> bool) \<Rightarrow> Delta \<Rightarrow> bool" where
  "delta_wire_ok U vk_ok d \<longleftrightarrow> (\<forall>m\<in>set (d_upserted d). leaf_wf U m \<and> leaf_keys_ok vk_ok m)"

lemma delta_serde_roundtrip:
  assumes "delta_wire_ok U vk_ok d"
  shows "delta_deserialize U vk_ok (delta_serialize d) = Inr d"
proof -
  have "map (member_leaf_deserialize U vk_ok) (map member_leaf_serialize (d_upserted d)) = map Inr (d_upserted d)"
    using assms member_leaf_serde_roundtrip by (simp add: delta_wire_ok_def)
  then have "collect_results (map (member_leaf_deserialize U vk_ok) (map member_leaf_serialize (d_upserted d)))
      = Inr (d_upserted d)"
    by (simp only: collect_results_map_Inr)
  moreover have "map MemberId (map member_id_word (d_removed d)) = d_removed d"
    by (simp add: map_idI)
  ultimately show ?thesis
    by (simp add: delta_deserialize_def delta_serialize_def del: map_map)
qed

lemma decode_delta_wf:
  assumes "nfc_laws U" and "decode_delta U vk_ok P env = Inr d"
  shows "\<forall>m\<in>set (d_upserted d). leaf_wf U m"
  using assms delta_deserialize_wf by (auto simp: decode_delta_def and_then_eq_Inr map_err_eq_Inr)

lemma build_decode:
  assumes "codec_correct P" and "delta_wire_ok U vk_ok d" and "envelope_build E P i s d kp = Inr env"
  shows "decode_delta U vk_ok P env = Inr d"
  using assms delta_serde_roundtrip [OF assms(2)]
  by (auto simp: envelope_build_def decode_delta_def codec_correct_def and_then_eq_Inr map_err_eq_Inr Let_def)

lemma build_signature:
  assumes "ed_correct E" and "envelope_build E P i s d kp = Inr env"
  shows "verify_signature E env (keypair_verifying_key E kp)"
  using assms
  by (auto simp: envelope_build_def and_then_eq_Inr Let_def verify_signature_def sig_verify_def
      keypair_verifying_key_def keypair_sign_def ed_correct_def)

section \<open>Commits\<close>

lemma verify_commit_cases:
  "verify_envelope_against_chain N t env ctx chain = Inr v \<longleftrightarrow>
     env_org_id env = vc_expected_org_id ctx
     \<and> verify_signature (ne_ed N) env (vc_author_member_key ctx)
     \<and> last_seen (vc_seq_guard ctx) < env_parent_seq env
     \<and> (\<exists>d c s. decode_delta (ne_unicode N) (ne_vk_ok N) (ne_codec N) env = Inr d
         \<and> root_hash t = Inr (d_base_root d)
         \<and> apply_delta (ne_unicode N) (ne_hasher N) t d = Inr c
         \<and> chain (vc_expected_org_id ctx) = Inr (Some s)
         \<and> vc_last_committed_epoch ctx < os_epoch s
         \<and> verify_against c (os_root_hash s) = Inr (vu_trie v)
         \<and> vu_epoch v = os_epoch s)
     \<and> vu_seq_guard v = SeqGuard (env_parent_seq env)"
  by (cases v) (auto simp: verify_envelope_against_chain_def seq_check_def seq_advance_def
      and_then_eq_Inr map_err_eq_Inr ok_or_eq_Inr not_le split: if_splits)

lemma verify_commit_state:
  assumes "nfc_laws (ne_unicode N)" and "trie_inv (ne_unicode N) (ne_hasher N) t"
    and "verify_envelope_against_chain N t env ctx chain = Inr v"
  obtains d s where "decode_delta (ne_unicode N) (ne_vk_ok N) (ne_codec N) env = Inr d"
    and "chain (vc_expected_org_id ctx) = Inr (Some s)" and "vu_epoch v = os_epoch s"
    and "trie_inv (ne_unicode N) (ne_hasher N) (vu_trie v)"
    and "root_hash (vu_trie v) = Inr (os_root_hash s)"
    and "snapshot (vu_trie v) = delta_target (snapshot t) d" and "canonical_delta (snapshot t) d"
proof -
  obtain d c s where d: "decode_delta (ne_unicode N) (ne_vk_ok N) (ne_codec N) env = Inr d"
      "apply_delta (ne_unicode N) (ne_hasher N) t d = Inr c"
      "chain (vc_expected_org_id ctx) = Inr (Some s)" "vu_epoch v = os_epoch s"
      "verify_against c (os_root_hash s) = Inr (vu_trie v)"
    using assms(3) by (auto simp: verify_commit_cases)
  show ?thesis
    using that [OF d(1,3,4)] sync_correct [OF assms(2) decode_delta_wf [OF assms(1) d(1)] d(2,5)]
    by blast
qed

text \<open>
  A receiver over time: its trie, guard and last epoch, and the sequence of commits it makes, each
  labelled with the envelope's sequence number, the on-chain epoch and the on-chain root. A rejected
  envelope leaves the state as it is.
\<close>

record Receiver =
  rc_trie :: OrgTrie
  rc_guard :: SeqGuard
  rc_epoch :: u64

definition receiver_ctx :: "OrgId \<Rightarrow> VerifyingKey \<Rightarrow> Receiver \<Rightarrow> VerifyContext" where
  "receiver_ctx i key r =
     \<lparr>vc_expected_org_id = i, vc_author_member_key = key, vc_seq_guard = rc_guard r,
      vc_last_committed_epoch = rc_epoch r\<rparr>"

inductive receiver_run ::
  "NodeEnv \<Rightarrow> OrgId \<Rightarrow> VerifyingKey \<Rightarrow> Receiver \<Rightarrow> (u64 \<times> u64 \<times> RootHash) list \<Rightarrow> Receiver \<Rightarrow> bool"
  for N i key where
  idle: "receiver_run N i key r [] r"
| reject: "verify_envelope_against_chain N (rc_trie r) env (receiver_ctx i key r) chain = Inl e
    \<Longrightarrow> receiver_run N i key r cs r' \<Longrightarrow> receiver_run N i key r cs r'"
| commit: "verify_envelope_against_chain N (rc_trie r) env (receiver_ctx i key r) chain = Inr v
    \<Longrightarrow> chain i = Inr (Some s)
    \<Longrightarrow> receiver_run N i key \<lparr>rc_trie = vu_trie v, rc_guard = vu_seq_guard v, rc_epoch = vu_epoch v\<rparr> cs r'
    \<Longrightarrow> receiver_run N i key r ((env_parent_seq env, os_epoch s, os_root_hash s) # cs) r'"

lemma receiver_run_guards:
  "receiver_run N i key r cs r' \<Longrightarrow>
     seq_guard.accepted_run (rc_guard r) (map fst cs)
     \<and> epoch_guard.accepted_run (rc_epoch r) (map (fst \<circ> snd) cs)"
proof (induction rule: receiver_run.induct)
  case (commit r env chain v s cs r')
  then have "last_seen (rc_guard r) < env_parent_seq env" "rc_epoch r < os_epoch s"
      "vu_seq_guard v = SeqGuard (env_parent_seq env)" "vu_epoch v = os_epoch s"
    by (auto simp: verify_commit_cases receiver_ctx_def)
  then have "is_ok (seq_check (rc_guard r) (env_parent_seq env))" "\<not> os_epoch s \<le> rc_epoch r"
      "seq_advance (rc_guard r) (env_parent_seq env) = vu_seq_guard v" "vu_epoch v = os_epoch s"
    by (simp_all add: seq_check_def seq_advance_def)
  then show ?case
    using commit.IH
    by (simp only: list.map comp_apply fst_conv snd_conv seq_guard.accepted_run.simps
        epoch_guard.accepted_run.simps Receiver.simps simp_thms)
qed (simp_all only: list.map seq_guard.accepted_run.simps epoch_guard.accepted_run.simps simp_thms)

lemma receiver_run_idle: "receiver_run N i key r cs r' \<Longrightarrow> cs = [] \<Longrightarrow> r' = r"
  by (induction rule: receiver_run.induct) simp_all

lemma receiver_run_inv:
  assumes "nfc_laws (ne_unicode N)" and "receiver_run N i key r cs r'"
    and "trie_inv (ne_unicode N) (ne_hasher N) (rc_trie r)"
  shows "trie_inv (ne_unicode N) (ne_hasher N) (rc_trie r')
    \<and> (cs \<noteq> [] \<longrightarrow> root_hash (rc_trie r') = Inr (snd (snd (last cs))))"
  using assms(2,3)
proof (induction rule: receiver_run.induct)
  case (commit r env chain v s cs r')
  obtain s' where "chain i = Inr (Some s')" "trie_inv (ne_unicode N) (ne_hasher N) (vu_trie v)"
      "root_hash (vu_trie v) = Inr (os_root_hash s')"
    using verify_commit_state [OF assms(1) commit.prems commit.hyps(1)] by (auto simp: receiver_ctx_def)
  then show ?case
    using commit receiver_run_idle [OF commit.hyps(3)] by (cases "cs = []") auto
qed simp_all

section \<open>A concrete node\<close>

definition ex_ed :: Ed25519 where
  "ex_ed =
     \<lparr>ed_verifying_key = VerifyingKey, ed_sign = (\<lambda>seed msg. of_be msg),
      ed_verify = (\<lambda>vk msg sig. sig = of_be msg)\<rparr>"

text \<open>A codec that knows one delta.\<close>

definition ex_codec :: "DeltaWire \<Rightarrow> DeltaWire Codec" where
  "ex_codec w =
     \<lparr>to_allocvec = (\<lambda>v. if v = w then Inr [1] else Inl []),
      from_bytes = (\<lambda>b. if b = [1] then Inr w else Inl [])\<rparr>"

definition ex_node :: "Delta \<Rightarrow> NodeEnv" where
  "ex_node d =
     \<lparr>ne_unicode = ex_unicode, ne_hasher = ex_hasher, ne_vk_ok = (\<lambda>_. True), ne_ed = ex_ed,
      ne_codec = ex_codec (delta_serialize d)\<rparr>"

definition ex_envelope :: "Delta \<Rightarrow> SignedDeltaEnvelope" where
  "ex_envelope d =
     \<lparr>env_org_id = OrgId 5, env_parent_seq = 1, env_delta_bytes = [1],
      env_signature = of_be (transcript (OrgId 5) 1 [1])\<rparr>"

definition ex_ctx :: VerifyContext where
  "ex_ctx =
     \<lparr>vc_expected_org_id = OrgId 5, vc_author_member_key = VerifyingKey 1,
      vc_seq_guard = seq_guard_new, vc_last_committed_epoch = 1\<rparr>"

definition ex_chain :: "RootHash \<Rightarrow> MockChain" where
  "ex_chain r = mock_chain_set mock_chain_new (OrgId 5)
     \<lparr>os_root_hash = r, os_org_pub_key = 0, os_epoch = 2\<rparr>"

lemma ex_env_built:
  "envelope_build ex_ed (ex_codec (delta_serialize d)) (OrgId 5) 1 d (SigningKeypair 1) = Inr (ex_envelope d)"
  by (simp add: envelope_build_def ex_codec_def ex_envelope_def keypair_sign_def ex_ed_def)

lemma ex_laws: "ed_correct ex_ed" "codec_correct (ex_codec w)"
  by (auto simp: ed_correct_def ex_ed_def codec_correct_def ex_codec_def)

lemma ex_delta_wire_ok: "delta_wire_ok ex_unicode (\<lambda>_. True) ex_delta"
  using ex_delta_wf by (simp add: delta_wire_ok_def leaf_keys_ok_def list_all_iff)

lemma ex_commit:
  "verify_envelope_against_chain (ex_node ex_delta) ex_trie (ex_envelope ex_delta) ex_ctx
     (mock_chain_get_org_state (ex_chain (ct_root_hash ex_candidate))) =
   Inr \<lparr>vu_trie = ex_synced, vu_seq_guard = SeqGuard 1, vu_epoch = 2\<rparr>"
proof -
  have dec: "decode_delta ex_unicode (\<lambda>_. True) (ex_codec (delta_serialize ex_delta)) (ex_envelope ex_delta) = Inr ex_delta"
    using build_decode [OF ex_laws(2) ex_delta_wire_ok ex_env_built] .
  have sig: "verify_signature ex_ed (ex_envelope ex_delta) (VerifyingKey 1)"
    using build_signature [OF ex_laws(1) ex_env_built] by (simp add: keypair_verifying_key_def ex_ed_def)
  have base: "root_hash ex_trie = Inr (d_base_root ex_delta)"
    using ex_genesis(4) by (simp add: ex_delta_def)
  show ?thesis
    unfolding verify_commit_cases
    using dec sig base ex_delta_applied
    by (simp add: ex_node_def ex_ctx_def ex_chain_def mock_chain_get_org_state_def mock_chain_set_def
        mock_chain_new_def seq_guard_new_def) (simp add: ex_envelope_def)
qed

section \<open>Theorems\<close>

lemma org_id_as_bytes_inject: "org_id_as_bytes i = org_id_as_bytes j \<longleftrightarrow> i = j"
  by (auto simp: org_id_as_bytes_def be_bytes_inject intro: OrgId.expand)

text \<open>
  The transcript binds. The signed transcript determines the organisation, the sequence number
  and the delta bytes, so a signature on one envelope's transcript is not a signature on another's.
\<close>

theorem transcript_binds:
  "transcript i s b = transcript j t c \<longleftrightarrow> i = j \<and> s = t \<and> b = c"
  using org_id_as_bytes_inject [of i j]
  by (auto simp: transcript_def le_bytes_inject append_eq_append_conv org_id_as_bytes_def)

text \<open>
  C8 (commits are sound). An envelope is committed only if it names the expected organisation, its
  transcript carries the author's signature, its sequence number is above the last one seen, and the
  chain holds a state of a newer epoch whose root is the root of the committed trie; the committed
  trie satisfies the invariant and holds exactly the members of every other well-formed trie with
  that on-chain root, or hashing the two exhibits a collision.
\<close>

theorem verify_commit_sound:
  assumes "nfc_laws (ne_unicode N)" and "trie_inv (ne_unicode N) (ne_hasher N) t"
    and "verify_envelope_against_chain N t env ctx chain = Inr v"
  shows "env_org_id env = vc_expected_org_id ctx
    \<and> ed_verify (ne_ed N) (vc_author_member_key ctx)
        (transcript (vc_expected_org_id ctx) (env_parent_seq env) (env_delta_bytes env)) (env_signature env)
    \<and> last_seen (vc_seq_guard ctx) < env_parent_seq env
    \<and> last_seen (vu_seq_guard v) = env_parent_seq env
    \<and> (\<exists>s. chain (vc_expected_org_id ctx) = Inr (Some s) \<and> vu_epoch v = os_epoch s
         \<and> vc_last_committed_epoch ctx < os_epoch s
         \<and> root_hash (vu_trie v) = Inr (os_root_hash s)
         \<and> trie_inv (ne_unicode N) (ne_hasher N) (vu_trie v)
         \<and> (\<forall>a. trie_inv (ne_unicode N) (ne_hasher N) a \<longrightarrow> root_hash a = Inr (os_root_hash s) \<longrightarrow>
              snapshot (vu_trie v) = snapshot a
              \<or> collides (ne_hasher N) (trie_queries (ne_hasher N) (ot_root (vu_trie v))
                  \<union> trie_queries (ne_hasher N) (ot_root a))))"
proof -
  let ?U = "ne_unicode N" and ?H = "ne_hasher N"
  obtain d s where s: "chain (vc_expected_org_id ctx) = Inr (Some s)" "vu_epoch v = os_epoch s"
      "trie_inv ?U ?H (vu_trie v)" "root_hash (vu_trie v) = Inr (os_root_hash s)"
    using verify_commit_state [OF assms] by metis
  have root: "smt_root ?H (ot_root a) = r" if "trie_inv ?U ?H a" "root_hash a = Inr r" for a r
    using that trie_invD(1) [OF that(1)] by (auto simp: trees_ok_def root_hash_def ok_or_eq_Inr)
  have "snapshot (vu_trie v) = snapshot a
      \<or> collides ?H (trie_queries ?H (ot_root (vu_trie v)) \<union> trie_queries ?H (ot_root a))"
    if "trie_inv ?U ?H a" "root_hash a = Inr (os_root_hash s)" for a
    using root_hash_binds [OF trie_invD(5) [OF s(3)] trie_invD(5) [OF that(1)]]
      root [OF s(3,4)] root [OF that] by simp
  then show ?thesis
    using assms(3) s by (auto simp: verify_commit_cases verify_signature_def sig_verify_def)
qed

theorem verify_commit_sound_witness:
  "root_hash ex_synced = Inr (ct_root_hash ex_candidate)
   \<and> last_seen (vc_seq_guard ex_ctx) < env_parent_seq (ex_envelope ex_delta)"
  using verify_commit_sound [OF _ _ ex_commit] ex_nfc_laws ex_genesis(2)
  by (simp add: ex_node_def ex_ctx_def ex_chain_def mock_chain_get_org_state_def mock_chain_set_def
      seq_guard_new_def)

text \<open>
  C13 (no replay, no rollback). Along every run of a receiver, with rejected envelopes in between,
  the committed sequence numbers and the committed epochs are both strictly increasing and above the
  receiver's starting marks, the trie satisfies the invariant, and after the last commit its root is
  the on-chain root of that commit.
\<close>

theorem receiver_never_replays:
  assumes "nfc_laws (ne_unicode N)" and "trie_inv (ne_unicode N) (ne_hasher N) (rc_trie r)"
    and "receiver_run N i key r cs r'"
  shows "sorted_wrt (<) (map fst cs) \<and> (\<forall>c\<in>set cs. last_seen (rc_guard r) < fst c)
    \<and> sorted_wrt (<) (map (fst \<circ> snd) cs) \<and> (\<forall>c\<in>set cs. rc_epoch r < fst (snd c))
    \<and> trie_inv (ne_unicode N) (ne_hasher N) (rc_trie r')
    \<and> (cs \<noteq> [] \<longrightarrow> root_hash (rc_trie r') = Inr (snd (snd (last cs))))"
proof -
  have s: "seq_guard.accepted_run (rc_guard r) (map fst cs)"
    and e: "epoch_guard.accepted_run (rc_epoch r) (map (fst \<circ> snd) cs)"
    using receiver_run_guards [OF assms(3)] by blast+
  have "\<forall>c\<in>set cs. last_seen (rc_guard r) < fst c"
    using seq_guard.run_above [OF s] by auto
  moreover have "\<forall>c\<in>set cs. rc_epoch r < fst (snd c)"
    using epoch_guard.run_above [OF e] by auto
  ultimately show ?thesis
    using seq_guard.run_increasing [OF s] epoch_guard.run_increasing [OF e]
      receiver_run_inv [OF assms(1,3,2)] by blast
qed

theorem receiver_never_replays_witness:
  "root_hash ex_synced = Inr (ct_root_hash ex_candidate)"
proof -
  let ?r = "\<lparr>rc_trie = ex_trie, rc_guard = seq_guard_new, rc_epoch = 1\<rparr>"
  let ?r' = "\<lparr>rc_trie = ex_synced, rc_guard = SeqGuard 1, rc_epoch = 2\<rparr>"
  have ctx: "receiver_ctx (OrgId 5) (VerifyingKey 1) ?r = ex_ctx"
    by (simp add: receiver_ctx_def ex_ctx_def)
  have "receiver_run (ex_node ex_delta) (OrgId 5) (VerifyingKey 1) ?r
      [(env_parent_seq (ex_envelope ex_delta), 2, ct_root_hash ex_candidate)] ?r'"
    using receiver_run.commit [of "ex_node ex_delta" ?r "ex_envelope ex_delta" "OrgId 5" "VerifyingKey 1"
        "mock_chain_get_org_state (ex_chain (ct_root_hash ex_candidate))"
        "\<lparr>vu_trie = ex_synced, vu_seq_guard = SeqGuard 1, vu_epoch = 2\<rparr>"
        "\<lparr>os_root_hash = ct_root_hash ex_candidate, os_org_pub_key = 0, os_epoch = 2\<rparr>" "[]" ?r']
      receiver_run.idle ex_commit
    by (simp add: ctx ex_chain_def mock_chain_get_org_state_def mock_chain_set_def)
  from receiver_never_replays [OF _ _ this] show ?thesis
    using ex_nfc_laws ex_genesis(2) by (simp add: ex_node_def)
qed

lemma built_envelope_verifies:
  assumes "ed_correct (ne_ed N)" and "codec_correct (ne_codec N)"
    and "delta_wire_ok (ne_unicode N) (ne_vk_ok N) d"
    and "envelope_build (ne_ed N) (ne_codec N) (vc_expected_org_id ctx) s d kp = Inr env"
    and "vc_author_member_key ctx = keypair_verifying_key (ne_ed N) kp"
    and "last_seen (vc_seq_guard ctx) < s" and "root_hash r = Inr (d_base_root d)"
    and "apply_delta (ne_unicode N) (ne_hasher N) r d = Inr c" and "verify_against c (os_root_hash st) = Inr r'"
    and "chain (vc_expected_org_id ctx) = Inr (Some st)" and "vc_last_committed_epoch ctx < os_epoch st"
  shows "verify_envelope_against_chain N r env ctx chain =
    Inr \<lparr>vu_trie = r', vu_seq_guard = SeqGuard s, vu_epoch = os_epoch st\<rparr>"
proof -
  have env: "env_org_id env = vc_expected_org_id ctx" "env_parent_seq env = s"
    using assms(4) by (auto simp: envelope_build_def and_then_eq_Inr Let_def)
  show ?thesis
    unfolding verify_commit_cases
    using env assms build_decode [OF assms(2-4)] build_signature [OF assms(1,4)] by simp
qed

text \<open>
  Honest envelopes commit. An envelope that the author builds over the delta of
  \<^verbatim>\<open>recalculate\<close> is committed by a receiver at the author's last calculated membership, once the
  chain shows the author's new root at a newer epoch, and gives the receiver the author's members;
  unless the delta hands a handle over or hashing exhibits a collision.
\<close>

theorem honest_envelope_commits:
  assumes "ed_correct (ne_ed N)" and "codec_correct (ne_codec N)"
    and "trie_inv (ne_unicode N) (ne_hasher N) t" and "recalculate (ne_hasher N) t = Inr (t', d)"
    and "\<forall>m\<in>set (d_upserted d). leaf_keys_ok (ne_vk_ok N) m"
    and "envelope_build (ne_ed N) (ne_codec N) (vc_expected_org_id ctx) s d kp = Inr env"
    and "vc_author_member_key ctx = keypair_verifying_key (ne_ed N) kp"
    and "last_seen (vc_seq_guard ctx) < s"
    and "trie_inv (ne_unicode N) (ne_hasher N) r" and "root_hash r = Inr (d_base_root d)"
    and "snapshot r = get_member (ot_last_calculated_root t)"
    and "member_count r + length (d_upserted d) < 2 ^ 64"
    and "chain (vc_expected_org_id ctx) = Inr (Some st)"
    and "os_root_hash st = smt_root (ne_hasher N) (ot_root t)"
    and "vc_last_committed_epoch ctx < os_epoch st"
  shows "(\<exists>v. verify_envelope_against_chain N r env ctx chain = Inr v \<and> snapshot (vu_trie v) = snapshot t')
    \<or> hands_over (ne_unicode N) (snapshot r) d
    \<or> collides (ne_hasher N) (trie_queries (ne_hasher N) (ot_last_calculated_root t)
        \<union> trie_queries (ne_hasher N) (ot_root t))"
proof -
  let ?U = "ne_unicode N" and ?H = "ne_hasher N"
  have main: "\<exists>v. verify_envelope_against_chain N r env ctx chain = Inr v \<and> snapshot (vu_trie v) = snapshot t'"
    if ok: "apply_delta ?U ?H r d = Inr c" "verify_against c (smt_root ?H (ot_root t)) = Inr r'"
      "snapshot r' = snapshot t'" "delta_wire_ok ?U (ne_vk_ok N) d" for c r'
    using built_envelope_verifies [where chain = chain and st = st, OF assms(1,2) ok(4) assms(6-8,10) ok(1)]
      assms(13-15) ok by simp
  have "delta_wire_ok ?U (ne_vk_ok N) d
      \<or> collides ?H (trie_queries ?H (ot_last_calculated_root t) \<union> trie_queries ?H (ot_root t))"
    using recalculated_upserts_wf [OF assms(3,4)] assms(5) by (auto simp: delta_wire_ok_def)
  then show ?thesis
    using recalculated_delta_applies [OF assms(3,4,9-12)] main by blast
qed

theorem honest_envelope_commits_witness:
  "\<exists>t' d. recalculate ex_hasher ex_trie = Inr (t', d)
    \<and> ((\<exists>v. verify_envelope_against_chain (ex_node d) ex_trie (ex_envelope d) ex_ctx
           (mock_chain_get_org_state (ex_chain (smt_root ex_hasher (ot_root ex_trie)))) = Inr v
         \<and> snapshot (vu_trie v) = snapshot t')
       \<or> hands_over ex_unicode (snapshot ex_trie) d
       \<or> collides ex_hasher (trie_queries ex_hasher (ot_last_calculated_root ex_trie)
            \<union> trie_queries ex_hasher (ot_root ex_trie)))"
proof -
  obtain t d where r: "recalculate ex_hasher ex_trie = Inr (t, d)" "d_upserted d = []"
      "root_hash ex_trie = Inr (d_base_root d)"
      "snapshot ex_trie = get_member (ot_last_calculated_root ex_trie)"
    using ex_recalculated by metis
  show ?thesis
    using honest_envelope_commits [of "ex_node d" ex_trie t d ex_ctx 1 "SigningKeypair 1" "ex_envelope d" ex_trie
        "mock_chain_get_org_state (ex_chain (smt_root ex_hasher (ot_root ex_trie)))"
        "\<lparr>os_root_hash = smt_root ex_hasher (ot_root ex_trie), os_org_pub_key = 0, os_epoch = 2\<rparr>"]
      ex_laws ex_genesis(2) r ex_env_built ex_count
    by (simp add: ex_node_def ex_ctx_def ex_chain_def mock_chain_get_org_state_def mock_chain_set_def
        seq_guard_new_def keypair_verifying_key_def ex_ed_def)
qed

end
