(* ===== verification/Transport.thy ===== *)
theory Transport
  imports Envelope
begin

text \<open>
  Messages between devices: \<^verbatim>\<open>transport/mod.rs\<close>, \<^verbatim>\<open>transport/wire.rs\<close>, \<^verbatim>\<open>transport/endpoint.rs\<close> and
  \<^verbatim>\<open>blobs.rs\<close> of \<^verbatim>\<open>org-node\<close>, and the signature's serde helper of \<^verbatim>\<open>envelope.rs\<close>.

  The QUIC library iroh is the parameter \<open>Iroh\<close>: one field per call the endpoint makes, each an effect
  on the state of the network, with the display string of its error. Handles of endpoints,
  connections and streams are numbers. Base64 is a pair of functions.
\<close>

section \<open>The wire message\<close>

record WireMessage =
  wm_envelope :: SignedDeltaEnvelope
  wm_org_secret :: "bytes32 option"
  wm_genesis_snapshot :: "bytes option"

datatype TransportMode = Loopback | Networked

definition ALPN :: bytes where
  "ALPN = rstr ''/ods/org-node/1''"

datatype TransportError =
    Bind string
  | Connect string
  | Accept string
  | Stream string
  | FrameTooLarge nat
  | Malformed

definition MAX_FRAME :: nat where
  "MAX_FRAME = 2 ^ 20"

text \<open>
  The serde helper of the signature: it is serialized as a byte string, and read back from a byte
  string of exactly 64 bytes, or from a sequence of at least 64 elements.
\<close>

definition sig_bytes_serialize :: "Sig \<Rightarrow> bytes" where
  "sig_bytes_serialize sig = be_bytes 64 sig"

definition sig_visit_bytes :: "bytes \<Rightarrow> string + Sig" where
  "sig_visit_bytes v = (if length v = 64 then Inr (of_be v) else Inl ''invalid length'')"

fun sig_visit_seq :: "nat \<Rightarrow> bytes \<Rightarrow> string + bytes" where
  "sig_visit_seq 0 bs = Inr []"
| "sig_visit_seq (Suc n) [] = Inl ''invalid length''"
| "sig_visit_seq (Suc n) (b # bs) = and_then (sig_visit_seq n bs) (\<lambda>out. Inr (b # out))"

text \<open>Envelopes and messages in serde's data model: postcard hands byte strings to \<^verbatim>\<open>visit_bytes\<close>.\<close>

record EnvelopeWire =
  ew_org_id :: bytes20
  ew_parent_seq :: u64
  ew_delta_bytes :: bytes
  ew_signature :: bytes

record MessageWire =
  mw_envelope :: EnvelopeWire
  mw_org_secret :: "bytes32 option"
  mw_genesis_snapshot :: "bytes option"

definition envelope_serialize :: "SignedDeltaEnvelope \<Rightarrow> EnvelopeWire" where
  "envelope_serialize env =
     \<lparr>ew_org_id = org_id_word (env_org_id env), ew_parent_seq = env_parent_seq env,
      ew_delta_bytes = env_delta_bytes env, ew_signature = sig_bytes_serialize (env_signature env)\<rparr>"

definition envelope_deserialize :: "EnvelopeWire \<Rightarrow> string + SignedDeltaEnvelope" where
  "envelope_deserialize w =
     and_then (sig_visit_bytes (ew_signature w)) (\<lambda>sig.
     Inr \<lparr>env_org_id = OrgId (ew_org_id w), env_parent_seq = ew_parent_seq w,
          env_delta_bytes = ew_delta_bytes w, env_signature = sig\<rparr>)"

definition message_serialize :: "WireMessage \<Rightarrow> MessageWire" where
  "message_serialize msg =
     \<lparr>mw_envelope = envelope_serialize (wm_envelope msg), mw_org_secret = wm_org_secret msg,
      mw_genesis_snapshot = wm_genesis_snapshot msg\<rparr>"

definition message_deserialize :: "MessageWire \<Rightarrow> string + WireMessage" where
  "message_deserialize w =
     and_then (envelope_deserialize (mw_envelope w)) (\<lambda>env.
     Inr \<lparr>wm_envelope = env, wm_org_secret = mw_org_secret w,
          wm_genesis_snapshot = mw_genesis_snapshot w\<rparr>)"

definition encode_frame :: "MessageWire Codec \<Rightarrow> WireMessage \<Rightarrow> TransportError + bytes" where
  "encode_frame P msg =
     and_then (map_err (\<lambda>_. Malformed) (to_allocvec P (message_serialize msg))) (\<lambda>body.
     if length body > MAX_FRAME then Inl (FrameTooLarge (length body))
     else Inr (le_bytes 4 (of_nat (length body) :: u32) @ body))"

definition decode_body :: "MessageWire Codec \<Rightarrow> bytes \<Rightarrow> TransportError + WireMessage" where
  "decode_body P body =
     (if length body > MAX_FRAME then Inl (FrameTooLarge (length body))
      else
        and_then (map_err (\<lambda>_. Malformed) (from_bytes P body)) (\<lambda>w.
        map_err (\<lambda>_. Malformed) (message_deserialize w)))"

section \<open>Out-of-band blobs\<close>

record Invite =
  inv_org_id :: OrgId
  inv_org_pub_key :: bytes32
  inv_admin_member_key :: bytes32
  inv_admin_device_key :: bytes32
  inv_admin_node_addr :: bytes

record JoinRequest =
  jr_handle :: RString
  jr_name :: RString
  jr_surname :: RString
  jr_member_key :: bytes32
  jr_device_key :: bytes32
  jr_node_addr :: bytes

record Base64 =
  b64_encode :: "bytes \<Rightarrow> string"
  b64_decode :: "string \<Rightarrow> string + bytes"

definition base64_correct :: "Base64 \<Rightarrow> bool" where
  "base64_correct B \<longleftrightarrow> (\<forall>b. b64_decode B (b64_encode B b) = Inr b)"

definition blob_encode :: "Base64 \<Rightarrow> 'w Codec \<Rightarrow> 'w \<Rightarrow> OrgNodeError + string" where
  "blob_encode B P v =
     and_then (map_err (\<lambda>e. Chain (''blob encode: '' @ e)) (to_allocvec P v)) (\<lambda>bs.
     Inr (b64_encode B bs))"

definition blob_decode :: "Base64 \<Rightarrow> 'w Codec \<Rightarrow> string \<Rightarrow> OrgNodeError + 'w" where
  "blob_decode B P s =
     and_then (map_err (\<lambda>e. Chain (''blob base64: '' @ e)) (b64_decode B s)) (\<lambda>bs.
     map_err (\<lambda>e. Chain (''blob decode: '' @ e)) (from_bytes P bs))"

section \<open>Endpoints\<close>

datatype IrohPreset = Minimal | N0

record EndpointAddr =
  ea_id :: bytes32
  ea_addrs :: "string list"

text \<open>\<^verbatim>\<open>EndpointId\<close> converts into an address without socket addresses.\<close>

definition endpoint_addr_of_id :: "bytes32 \<Rightarrow> EndpointAddr" where
  "endpoint_addr_of_id i = \<lparr>ea_id = i, ea_addrs = []\<rparr>"

record 'n Iroh =
  ir_bind :: "IrohPreset \<Rightarrow> bool \<Rightarrow> bytes32 \<Rightarrow> bytes list \<Rightarrow> ('n, string, nat) effect"
  ir_id :: "'n \<Rightarrow> nat \<Rightarrow> bytes32"
  ir_bound_sockets :: "'n \<Rightarrow> nat \<Rightarrow> string list"
  ir_connect :: "nat \<Rightarrow> EndpointAddr \<Rightarrow> bytes \<Rightarrow> ('n, string, nat) effect"
  ir_open_bi :: "nat \<Rightarrow> ('n, string, nat) effect"
  ir_write_all :: "nat \<Rightarrow> bytes \<Rightarrow> ('n, string, unit) effect"
  ir_finish :: "nat \<Rightarrow> ('n, string, unit) effect"
  ir_stopped :: "nat \<Rightarrow> ('n, string, unit) effect"
  ir_close :: "nat \<Rightarrow> 'n \<Rightarrow> 'n"
  ir_accept :: "nat \<Rightarrow> 'n \<Rightarrow> nat option \<times> 'n"
  ir_incoming :: "nat \<Rightarrow> ('n, string, nat) effect"
  ir_remote_id :: "'n \<Rightarrow> nat \<Rightarrow> bytes32"
  ir_accept_bi :: "nat \<Rightarrow> ('n, string, nat) effect"
  ir_read_to_end :: "nat \<Rightarrow> nat \<Rightarrow> ('n, string, bytes) effect"

record OrgEndpoint =
  oe_inner :: nat
  oe_device_key :: P2pDeviceKey

definition bind_with_mode ::
  "Ed25519 \<Rightarrow> 'n Iroh \<Rightarrow> SigningKeypair \<Rightarrow> TransportMode \<Rightarrow> ('n, TransportError, OrgEndpoint) effect" where
  "bind_with_mode E I device mode =
     (let sk = keypair_to_seed device in
      eff_bind
        (eff_map_err Bind
          (case mode of
             Loopback \<Rightarrow> ir_bind I Minimal True sk [ALPN]
           | Networked \<Rightarrow> ir_bind I N0 False sk [ALPN])) (\<lambda>inner.
      eff_return \<lparr>oe_inner = inner, oe_device_key = device_key E device\<rparr>))"

definition endpoint_bind ::
  "Ed25519 \<Rightarrow> 'n Iroh \<Rightarrow> SigningKeypair \<Rightarrow> ('n, TransportError, OrgEndpoint) effect" where
  "endpoint_bind E I device = bind_with_mode E I device Loopback"

definition node_addr_for_dial :: "'n Iroh \<Rightarrow> 'n \<Rightarrow> OrgEndpoint \<Rightarrow> EndpointAddr" where
  "node_addr_for_dial I n ep =
     \<lparr>ea_id = ir_id I n (oe_inner ep), ea_addrs = ir_bound_sockets I n (oe_inner ep)\<rparr>"

definition send_conn ::
  "'n Iroh \<Rightarrow> MessageWire Codec \<Rightarrow> OrgEndpoint \<Rightarrow> EndpointAddr \<Rightarrow> WireMessage
     \<Rightarrow> ('n, TransportError, unit) effect" where
  "send_conn I P ep addr msg =
     eff_bind (eff_map_err Connect (ir_connect I (oe_inner ep) addr ALPN)) (\<lambda>conn.
     eff_bind (eff_map_err Stream (ir_open_bi I conn)) (\<lambda>send.
     eff_bind (eff_lift (encode_frame P msg)) (\<lambda>framed.
     eff_bind (eff_map_err Stream (ir_write_all I send framed)) (\<lambda>_.
     eff_bind (eff_map_err Stream (ir_finish I send)) (\<lambda>_.
     eff_bind (eff_map_err Stream (ir_stopped I send)) (\<lambda>_.
     eff_modify (ir_close I conn)))))))"

definition endpoint_send ::
  "'n Iroh \<Rightarrow> MessageWire Codec \<Rightarrow> OrgEndpoint \<Rightarrow> EndpointAddr \<Rightarrow> WireMessage
     \<Rightarrow> ('n, TransportError, unit) effect" where
  "endpoint_send I P ep peer msg = send_conn I P ep peer msg"

definition send_to_id ::
  "'n Iroh \<Rightarrow> MessageWire Codec \<Rightarrow> OrgEndpoint \<Rightarrow> bytes32 \<Rightarrow> WireMessage
     \<Rightarrow> ('n, TransportError, unit) effect" where
  "send_to_id I P ep peer_id msg = send_conn I P ep (endpoint_addr_of_id peer_id) msg"

text \<open>The length prefix is stripped; it is not compared with the length of the rest.\<close>

definition frame_payload :: "bytes \<Rightarrow> bytes" where
  "frame_payload raw = (if length raw \<ge> 4 then drop 4 raw else raw)"

definition recv_one ::
  "(bytes32 \<Rightarrow> bool) \<Rightarrow> 'n Iroh \<Rightarrow> MessageWire Codec \<Rightarrow> OrgEndpoint
     \<Rightarrow> ('n, TransportError, P2pDeviceKey \<times> WireMessage) effect" where
  "recv_one vk_ok I P ep =
     eff_bind (\<lambda>n. let (inc, n') = ir_accept I (oe_inner ep) n
                    in (ok_or inc (Accept ''endpoint closed''), n')) (\<lambda>incoming.
     eff_bind (eff_map_err Accept (ir_incoming I incoming)) (\<lambda>conn.
     eff_bind (eff_gets (\<lambda>n. ir_remote_id I n conn)) (\<lambda>remote_id.
     eff_bind (eff_lift (if vk_ok remote_id then Inr (VerifyingKey remote_id) else Inl Malformed)) (\<lambda>verifying.
     eff_bind (eff_map_err Stream (ir_accept_bi I conn)) (\<lambda>recv.
     eff_bind (eff_map_err Stream (ir_read_to_end I recv (MAX_FRAME + 4))) (\<lambda>raw.
     eff_bind (eff_lift (decode_body P (frame_payload raw))) (\<lambda>msg.
     eff_return (P2pDeviceKey verifying, msg))))))))"

section \<open>Round trips\<close>

lemma sig_visit_serialize: "sig_visit_bytes (sig_bytes_serialize sig) = Inr sig"
  by (simp add: sig_visit_bytes_def sig_bytes_serialize_def)

lemma sig_visit_seq_ok: "sig_visit_seq n bs = Inr out \<longleftrightarrow> n \<le> length bs \<and> out = take n bs"
  by (induction n bs arbitrary: out rule: sig_visit_seq.induct) (auto simp: and_then_eq_Inr)

lemma message_serde_roundtrip: "message_deserialize (message_serialize msg) = Inr msg"
  by (simp add: message_deserialize_def message_serialize_def envelope_deserialize_def
      envelope_serialize_def sig_visit_serialize)

lemma envelope_deserialize_serialize:
  assumes "envelope_deserialize w = Inr env"
  shows "envelope_serialize env = w"
proof -
  have len: "length (ew_signature w) = 64" and env: "env = \<lparr>env_org_id = OrgId (ew_org_id w),
      env_parent_seq = ew_parent_seq w, env_delta_bytes = ew_delta_bytes w,
      env_signature = of_be (ew_signature w)\<rparr>"
    using assms by (auto simp: envelope_deserialize_def sig_visit_bytes_def and_then_eq_Inr split: if_splits)
  have "be_bytes 64 (of_be (ew_signature w) :: Sig) = ew_signature w"
    using len be_bytes_of_be [of "ew_signature w", where 'a = 512] by simp
  then show ?thesis
    by (simp add: env envelope_serialize_def sig_bytes_serialize_def)
qed

lemma encode_frame_ok:
  "encode_frame P msg = Inr framed \<longleftrightarrow>
     (\<exists>body. to_allocvec P (message_serialize msg) = Inr body \<and> length body \<le> MAX_FRAME
        \<and> framed = le_bytes 4 (of_nat (length body) :: u32) @ body)"
  by (auto simp: encode_frame_def and_then_eq_Inr map_err_eq_Inr not_less)

lemma frame_payload_framed: "length p = 4 \<Longrightarrow> frame_payload (p @ body) = body"
  by (simp add: frame_payload_def)

lemma decode_body_encoded:
  assumes "codec_correct P" and "to_allocvec P (message_serialize msg) = Inr body"
    and "length body \<le> MAX_FRAME"
  shows "decode_body P body = Inr msg"
  using assms codec_correctD [OF assms(1,2)] by (simp add: decode_body_def message_serde_roundtrip)

lemma frame_roundtrip:
  assumes "codec_correct P" and "encode_frame P msg = Inr framed"
  shows "decode_body P (frame_payload framed) = Inr msg" and "length framed \<le> MAX_FRAME + 4"
    and "unat (of_le (take 4 framed) :: u32) = length framed - 4"
proof -
  obtain body where body: "to_allocvec P (message_serialize msg) = Inr body" "length body \<le> MAX_FRAME"
      "framed = le_bytes 4 (of_nat (length body) :: u32) @ body"
    using assms(2) by (auto simp: encode_frame_ok)
  show "decode_body P (frame_payload framed) = Inr msg"
    using body decode_body_encoded [OF assms(1)] by (simp add: frame_payload_framed)
  show "length framed \<le> MAX_FRAME + 4" using body by simp
  have "length body < 2 ^ 32" using body(2) by (simp add: MAX_FRAME_def)
  then show "unat (of_le (take 4 framed) :: u32) = length framed - 4"
    using body by (simp add: unat_of_nat_u32)
qed

lemma blob_roundtrip:
  assumes "base64_correct B" and "codec_correct P" and "blob_encode B P v = Inr s"
  shows "blob_decode B P s = Inr v"
  using assms by (auto simp: blob_encode_def blob_decode_def base64_correct_def and_then_eq_Inr
      map_err_eq_Inr dest: codec_correctD)

end
