(* ===== verification/Store.thy ===== *)
theory Store
  imports Envelope
begin

text \<open>
  Encrypted persistence of personas and organisations (\<^verbatim>\<open>store.rs\<close> of \<^verbatim>\<open>org-node\<close>).

  Argon2 and XChaCha20-Poly1305 are the parameter \<open>Crypto\<close>; postcard on \<open>StoreData\<close> is a codec, since
  all its types derive serde. The file system is a map from paths to contents; reading and writing
  may fail with an error that depends on the path. \<^verbatim>\<open>String\<close>s that are only compared and printed are
  \<open>string\<close>s. The random nonce is an argument of the save.
\<close>

datatype PersonaStatus = Proposed | Active | Revoked

record PersonaRecord =
  pr_persona_id :: string
  pr_org_id :: "OrgId option"
  pr_handle :: RString
  pr_name :: RString
  pr_surname :: RString
  pr_member_seed :: bytes32
  pr_device_seed :: bytes32
  pr_member_id :: "bytes32 option"
  pr_status :: PersonaStatus

record MemberSnapshot =
  ms_id :: bytes32
  ms_handle :: RString
  ms_name :: RString
  ms_surname :: RString
  ms_member_key :: bytes32
  ms_device_keys :: "bytes32 list"

record OrgRecord =
  or_org_id :: OrgId
  or_root_hash :: bytes32
  or_org_pub_key :: bytes32
  or_epoch :: u64
  or_org_secret :: "bytes32 option"
  or_last_seq :: u64
  or_admin_member_key :: bytes32
  or_trie_members :: "MemberSnapshot list"
  or_proxy_account :: "bytes32 option"

record PendingInvite =
  pi_org_id :: OrgId
  pi_admin_device_key :: bytes32
  pi_admin_member_key :: bytes32
  pi_org_pub_key :: bytes32

record StoreData =
  sd_personas :: "PersonaRecord list"
  sd_orgs :: "OrgRecord list"
  sd_pending_invites :: "PendingInvite list"

definition store_data_default :: StoreData where
  "store_data_default = \<lparr>sd_personas = [], sd_orgs = [], sd_pending_invites = []\<rparr>"

record Crypto =
  hash_password_into :: "string \<Rightarrow> bytes \<Rightarrow> string + bytes32"
  aead_new_from_slice :: "bytes \<Rightarrow> string + bytes"
  aead_encrypt :: "bytes \<Rightarrow> bytes \<Rightarrow> bytes \<Rightarrow> string + bytes"
  aead_decrypt :: "bytes \<Rightarrow> bytes \<Rightarrow> bytes \<Rightarrow> string + bytes"

text \<open>What is documented of the cipher: under the same key and nonce, decryption undoes encryption.\<close>

definition aead_correct :: "Crypto \<Rightarrow> bool" where
  "aead_correct K \<longleftrightarrow>
     (\<forall>key nonce pt ct. length nonce = 24 \<longrightarrow> aead_encrypt K key nonce pt = Inr ct \<longrightarrow>
        aead_decrypt K key nonce ct = Inr pt)"

record Disk =
  dk_files :: "string \<rightharpoonup> bytes"
  dk_read_error :: "string \<Rightarrow> string option"
  dk_write_error :: "string \<Rightarrow> (string \<times> bytes option) option"

definition fs_read :: "Disk \<Rightarrow> string \<Rightarrow> string + bytes" where
  "fs_read disk path =
     (case dk_read_error disk path of
        Some e \<Rightarrow> Inl e
      | None \<Rightarrow> ok_or (dk_files disk path) ''No such file or directory (os error 2)'')"

definition fs_write :: "string \<Rightarrow> bytes \<Rightarrow> (Disk, string, unit) effect" where
  "fs_write path content disk =
     (case dk_write_error disk path of
        Some (e, left) \<Rightarrow> (Inl e, disk\<lparr>dk_files := (dk_files disk)(path := left)\<rparr>)
      | None \<Rightarrow> (Inr (), disk\<lparr>dk_files := (dk_files disk)(path \<mapsto> content)\<rparr>))"

record PersonaStore =
  ps_path :: string
  ps_key :: bytes
  ps_data :: StoreData

definition derive_key :: "Crypto \<Rightarrow> string \<Rightarrow> bytes \<Rightarrow> OrgNodeError + bytes32" where
  "derive_key K passphrase salt =
     map_err (\<lambda>e. Chain (''kdf failed: '' @ e)) (hash_password_into K passphrase salt)"

definition APP_SALT :: bytes where
  "APP_SALT = rstr ''ods-phase2-personastore-v1______''"

definition store_open ::
  "Crypto \<Rightarrow> StoreData Codec \<Rightarrow> Disk \<Rightarrow> string \<Rightarrow> string \<Rightarrow> OrgNodeError + PersonaStore" where
  "store_open K P disk path passphrase =
     and_then (derive_key K passphrase APP_SALT) (\<lambda>key_bytes.
     and_then (map_err (\<lambda>e. Chain (''bad key length: '' @ e))
         (aead_new_from_slice K (be_bytes 32 key_bytes))) (\<lambda>key.
     and_then
       (if dk_files disk path \<noteq> None
        then
          and_then (map_err Chain (fs_read disk path)) (\<lambda>blob.
          if length blob < 24 then Inl (Chain ''store file too short'')
          else
            and_then (map_err (\<lambda>_. Chain ''decrypt failed (wrong passphrase?)'')
                (aead_decrypt K key (take 24 blob) (drop 24 blob))) (\<lambda>pt.
            map_err (\<lambda>e. Chain (''store decode: '' @ e)) (from_bytes P pt)))
        else Inr store_data_default) (\<lambda>data.
     Inr \<lparr>ps_path = path, ps_key = key, ps_data = data\<rparr>)))"

definition store_save ::
  "Crypto \<Rightarrow> StoreData Codec \<Rightarrow> PersonaStore \<Rightarrow> bytes \<Rightarrow> (Disk, OrgNodeError, unit) effect" where
  "store_save K P st nonce =
     eff_bind (eff_lift (map_err (\<lambda>e. Chain (''store encode: '' @ e)) (to_allocvec P (ps_data st)))) (\<lambda>pt.
     eff_bind (eff_lift (map_err (\<lambda>e. Chain (''encrypt failed: '' @ e))
         (aead_encrypt K (ps_key st) nonce pt))) (\<lambda>ct.
     eff_map_err Chain (fs_write (ps_path st) (nonce @ ct))))"

section \<open>What a save leaves on disk\<close>

text \<open>A failed save touches at most the store's own file.\<close>

lemma store_save_error:
  assumes "store_save K P st nonce disk = (Inl e, disk')" and "path \<noteq> ps_path st"
  shows "dk_files disk' path = dk_files disk path"
  using assms by (auto simp: store_save_def effect_simps fs_write_def split: option.splits prod.splits)

lemma store_save_ok:
  "store_save K P st nonce disk = (Inr (), disk') \<longleftrightarrow>
     (\<exists>pt ct. to_allocvec P (ps_data st) = Inr pt \<and> aead_encrypt K (ps_key st) nonce pt = Inr ct
        \<and> dk_write_error disk (ps_path st) = None
        \<and> disk' = disk\<lparr>dk_files := (dk_files disk)(ps_path st \<mapsto> nonce @ ct)\<rparr>)"
  by (cases "dk_write_error disk (ps_path st)")
    (auto simp: store_save_def effect_simps fs_write_def map_err_eq_Inr)

text \<open>Opening a store fixes its path and its key, which depends on the passphrase only.\<close>

lemma store_open_key:
  assumes "store_open K P disk path pw = Inr st"
  shows "ps_path st = path" and "\<exists>kb. hash_password_into K pw APP_SALT = Inr kb
    \<and> aead_new_from_slice K (be_bytes 32 kb) = Inr (ps_key st)"
  using assms by (auto simp: store_open_def derive_key_def and_then_eq_Inr map_err_eq_Inr)

lemma store_reopen:
  assumes "aead_correct K" and "codec_correct P" and "length nonce = 24"
    and opened: "store_open K P disk0 path pw = Inr st0"
    and st: "ps_path st = path" "ps_key st = ps_key st0"
    and saved: "store_save K P st nonce disk = (Inr (), disk')" and "dk_read_error disk path = None"
  shows "store_open K P disk' path pw = Inr st"
proof -
  obtain kb where kb: "hash_password_into K pw APP_SALT = Inr kb"
      "aead_new_from_slice K (be_bytes 32 kb) = Inr (ps_key st)"
    using store_open_key(2) [OF opened] st(2) by auto
  obtain pt ct where ct: "to_allocvec P (ps_data st) = Inr pt" "aead_encrypt K (ps_key st) nonce pt = Inr ct"
      "disk' = disk\<lparr>dk_files := (dk_files disk)(ps_path st \<mapsto> nonce @ ct)\<rparr>"
    using saved by (auto simp: store_save_ok)
  have "aead_decrypt K (ps_key st) nonce ct = Inr pt"
    using assms(1,3) ct(2) by (auto simp: aead_correct_def)
  moreover have "fs_read disk' path = Inr (nonce @ ct)"
    using ct(3) st(1) assms(8) by (simp add: fs_read_def)
  ultimately show ?thesis
    using kb ct st(1) assms(3) codec_correctD [OF assms(2) ct(1)]
    by (simp add: store_open_def derive_key_def)
qed

end
