(* ===== verification/Service.thy ===== *)
theory Service
  imports Transport Store
begin

text \<open>
  The composition of store, chain and transport (\<^verbatim>\<open>service.rs\<close> of \<^verbatim>\<open>org-node\<close>): the user stories of an
  organisation, from creating a persona to revoking a member.

  \<open>OrgService\<close> has the fields of the struct, followed by the world they act on: the disk, the chain
  behind \<^verbatim>\<open>ChainOps\<close>, the network behind iroh, and the random number generator. A method is an effect
  on it. \<^verbatim>\<open>u64\<close> addition wraps around, as in a release build. \<open>ServiceEnv\<close> collects the third-party
  functions; \<^verbatim>\<open>ChainOps\<close> is a record of effects on a chain state, and \<open>mock_chain_ops\<close> is the
  repository's in-memory implementation of it.
\<close>

section \<open>Chain operations\<close>

record 'c ChainOps =
  co_submit_genesis :: "bytes32 \<Rightarrow> bytes32 \<Rightarrow> ('c, OrgNodeError, OrgId \<times> bytes32 option) effect"
  co_submit_update :: "OrgId \<Rightarrow> bytes32 \<Rightarrow> bytes32 \<Rightarrow> u64 \<Rightarrow> bytes32 option \<Rightarrow> ('c, OrgNodeError, unit) effect"
  co_read_state :: "OrgId \<Rightarrow> ('c, OrgNodeError, OrgState option) effect"

record MockChainInner =
  mc_slots :: "OrgId \<rightharpoonup> OrgState"
  mc_next_id_seed :: u8

definition mock_chain_ops_new :: MockChainInner where
  "mock_chain_ops_new = \<lparr>mc_slots = Map.empty, mc_next_id_seed = 0\<rparr>"

definition mock_chain_ops_set :: "OrgId \<Rightarrow> OrgState \<Rightarrow> MockChainInner \<Rightarrow> MockChainInner" where
  "mock_chain_ops_set i st g = g\<lparr>mc_slots := (mc_slots g)(i \<mapsto> st)\<rparr>"

definition mock_chain_ops_get :: "MockChainInner \<Rightarrow> OrgId \<Rightarrow> OrgState option" where
  "mock_chain_ops_get g i = mc_slots g i"

text \<open>The first 16 bytes of an array in hexadecimal.\<close>

definition hex_id :: "bytes32 \<Rightarrow> string" where
  "hex_id b = concat (map hex_byte (take 16 (be_bytes 32 b)))"

text \<open>The first 20 bytes of the root, the first of them xored with the counter.\<close>

definition mock_org_id :: "bytes32 \<Rightarrow> u8 \<Rightarrow> OrgId" where
  "mock_org_id genesis_root seed =
     (let id_bytes = take 20 (be_bytes 32 genesis_root)
      in OrgId (of_be (id_bytes[0 := id_bytes ! 0 XOR seed])))"

definition mock_submit_genesis ::
  "bytes32 \<Rightarrow> bytes32 \<Rightarrow> (MockChainInner, OrgNodeError, OrgId \<times> bytes32 option) effect" where
  "mock_submit_genesis genesis_root org_pub_key g =
     (let org_id = mock_org_id genesis_root (mc_next_id_seed g)
      in (Inr (org_id, None),
          \<lparr>mc_slots = (mc_slots g)(org_id \<mapsto>
             \<lparr>os_root_hash = RootHash genesis_root, os_org_pub_key = org_pub_key, os_epoch = 1\<rparr>),
           mc_next_id_seed = mc_next_id_seed g + 1\<rparr>))"

definition mock_submit_update ::
  "OrgId \<Rightarrow> bytes32 \<Rightarrow> bytes32 \<Rightarrow> u64 \<Rightarrow> bytes32 option \<Rightarrow> (MockChainInner, OrgNodeError, unit) effect" where
  "mock_submit_update org_id new_root org_pub_key expected_epoch proxy_account g =
     (case mc_slots g org_id of
        None \<Rightarrow> (Inl OrgNotOnChain, g)
      | Some state \<Rightarrow>
          if os_epoch state \<noteq> expected_epoch
          then (Inl (Chain (''epoch mismatch: expected '' @ show_nat (unat expected_epoch)
                  @ '', found '' @ show_nat (unat (os_epoch state)))), g)
          else
            (Inr (), g\<lparr>mc_slots := (mc_slots g)(org_id \<mapsto>
               \<lparr>os_root_hash = RootHash new_root, os_org_pub_key = org_pub_key,
                os_epoch = expected_epoch + 1\<rparr>)\<rparr>))"

definition mock_read_state :: "OrgId \<Rightarrow> (MockChainInner, OrgNodeError, OrgState option) effect" where
  "mock_read_state org_id g = (Inr (mc_slots g org_id), g)"

definition mock_chain_ops :: "MockChainInner ChainOps" where
  "mock_chain_ops =
     \<lparr>co_submit_genesis = mock_submit_genesis, co_submit_update = mock_submit_update,
      co_read_state = mock_read_state\<rparr>"

section \<open>The service and its world\<close>

type_synonym Rng = "nat \<Rightarrow> u8"

definition draw_bytes :: "nat \<Rightarrow> Rng \<Rightarrow> bytes \<times> Rng" where
  "draw_bytes k rng = (map rng [0..<k], (\<lambda>i. rng (i + k)))"

definition keypair_generate :: "Rng \<Rightarrow> SigningKeypair \<times> Rng" where
  "keypair_generate rng = (let (seed, rng') = draw_bytes 32 rng in (SigningKeypair (of_be seed), rng'))"

record ('c, 'n) ServiceEnv =
  se_node :: NodeEnv
  se_vk_error :: "bytes32 \<Rightarrow> string"
  se_endpoint_id_ok :: "bytes32 \<Rightarrow> bool"
  se_crypto :: Crypto
  se_base64 :: Base64
  se_store_codec :: "StoreData Codec"
  se_message_codec :: "MessageWire Codec"
  se_snapshot_codec :: "MemberSnapshot list Codec"
  se_invite_codec :: "Invite Codec"
  se_join_codec :: "JoinRequest Codec"
  se_addr_codec :: "EndpointAddr Codec"
  se_iroh :: "'n Iroh"
  se_chain :: "'c ChainOps"

record ('c, 'n) OrgService =
  sv_store :: PersonaStore
  sv_endpoint :: "OrgEndpoint option"
  sv_transport_mode :: TransportMode
  sv_disk :: Disk
  sv_chain :: 'c
  sv_net :: 'n
  sv_rng :: Rng

type_synonym ('c, 'n, 'a) svc = "(('c, 'n) OrgService, OrgNodeError, 'a) effect"

definition service_new ::
  "PersonaStore \<Rightarrow> Disk \<Rightarrow> 'c \<Rightarrow> 'n \<Rightarrow> Rng \<Rightarrow> ('c, 'n) OrgService" where
  "service_new store disk chain net rng =
     \<lparr>sv_store = store, sv_endpoint = None, sv_transport_mode = Loopback, sv_disk = disk,
      sv_chain = chain, sv_net = net, sv_rng = rng\<rparr>"

definition set_transport_mode :: "TransportMode \<Rightarrow> ('c, 'n) OrgService \<Rightarrow> ('c, 'n) OrgService" where
  "set_transport_mode mode s = s\<lparr>sv_transport_mode := mode\<rparr>"

definition with_endpoint :: "OrgEndpoint \<Rightarrow> ('c, 'n) OrgService \<Rightarrow> ('c, 'n) OrgService" where
  "with_endpoint ep s = s\<lparr>sv_endpoint := Some ep\<rparr>"

abbreviation svc_data :: "('c, 'n) OrgService \<Rightarrow> StoreData" where
  "svc_data s \<equiv> ps_data (sv_store s)"

definition svc_update_data :: "(StoreData \<Rightarrow> StoreData) \<Rightarrow> ('c, 'n) OrgService \<Rightarrow> ('c, 'n) OrgService" where
  "svc_update_data f s = s\<lparr>sv_store := (sv_store s)\<lparr>ps_data := f (svc_data s)\<rparr>\<rparr>"

definition on_chain :: "('c, OrgNodeError, 'a) effect \<Rightarrow> ('c, 'n, 'a) svc" where
  "on_chain m = eff_zoom sv_chain (\<lambda>c s. s\<lparr>sv_chain := c\<rparr>) m"

definition on_net :: "('n, 'e, 'a) effect \<Rightarrow> (('c, 'n) OrgService, 'e, 'a) effect" where
  "on_net m = eff_zoom sv_net (\<lambda>n s. s\<lparr>sv_net := n\<rparr>) m"

definition svc_save :: "('c, 'n) ServiceEnv \<Rightarrow> ('c, 'n, unit) svc" where
  "svc_save S s =
     (let (nonce, rng') = draw_bytes 24 (sv_rng s);
          (r, disk') = store_save (se_crypto S) (se_store_codec S) (sv_store s) nonce (sv_disk s)
      in (r, s\<lparr>sv_rng := rng', sv_disk := disk'\<rparr>))"

text \<open>\<^verbatim>\<open>iter_mut().find(..)\<close> followed by an assignment: the first match changes.\<close>

fun update_first :: "('a \<Rightarrow> bool) \<Rightarrow> ('a \<Rightarrow> 'a) \<Rightarrow> 'a list \<Rightarrow> 'a list" where
  "update_first Q f [] = []"
| "update_first Q f (x # xs) = (if Q x then f x # xs else x # update_first Q f xs)"

section \<open>Helpers\<close>

definition member_id_from_key :: "bytes \<Rightarrow> bytes32" where
  "member_id_from_key key = of_be (take 32 key @ replicate (32 - length key) 0)"

definition parse_vk :: "('c, 'n) ServiceEnv \<Rightarrow> string \<Rightarrow> bytes32 \<Rightarrow> OrgNodeError + VerifyingKey" where
  "parse_vk S label b =
     (if ne_vk_ok (se_node S) b then Inr (VerifyingKey b) else Inl (Chain (label @ se_vk_error S b)))"

definition snapshot_of_leaf :: "MemberLeaf \<Rightarrow> MemberSnapshot" where
  "snapshot_of_leaf m =
     \<lparr>ms_id = member_id_word (ml_id m), ms_handle = ml_handle m, ms_name = ml_name m,
      ms_surname = ml_surname m, ms_member_key = vk_word (member_verifying_key (ml_p2p_key m)),
      ms_device_keys = map (\<lambda>d. vk_word (device_verifying_key d)) (devices (ml_p2p_devices m))\<rparr>"

definition leaf_from_snapshot ::
  "('c, 'n) ServiceEnv \<Rightarrow> MemberSnapshot \<Rightarrow> OrgNodeError + MemberLeaf" where
  "leaf_from_snapshot S s =
     and_then (parse_vk S ''bad member key: '' (ms_member_key s)) (\<lambda>member_vk.
     let device_keys = collect_results (map (\<lambda>dk.
           and_then (parse_vk S ''bad device key: '' dk) (\<lambda>vk. Inr (P2pDeviceKey vk))) (ms_device_keys s)) in
     and_then device_keys (\<lambda>dks.
     map_err NodeTrie
       (member_leaf_new (ne_unicode (se_node S)) (MemberId (ms_id s)) (ms_handle s)
          (P2pMemberKey member_vk) (ms_name s) (ms_surname s) dks)))"

definition trie_from_snapshots ::
  "('c, 'n) ServiceEnv \<Rightarrow> MemberSnapshot list \<Rightarrow> OrgNodeError + OrgTrie" where
  "trie_from_snapshots S snapshots =
     and_then (collect_results (map (leaf_from_snapshot S) snapshots)) (\<lambda>leaves.
     map_err NodeTrie (genesis (ne_unicode (se_node S)) (ne_hasher (se_node S)) leaves))"

definition find_persona :: "string \<Rightarrow> StoreData \<Rightarrow> OrgNodeError + PersonaRecord" where
  "find_persona persona_id d =
     ok_or (find (\<lambda>p. pr_persona_id p = persona_id) (sd_personas d))
       (Chain (''persona not found: '' @ persona_id))"

definition find_org :: "OrgId \<Rightarrow> StoreData \<Rightarrow> OrgNodeError + OrgRecord" where
  "find_org org_id d = ok_or (find (\<lambda>r. or_org_id r = org_id) (sd_orgs d)) OrgNotOnChain"

definition admin_persona_for_org ::
  "Ed25519 \<Rightarrow> OrgId \<Rightarrow> StoreData \<Rightarrow> OrgNodeError + PersonaRecord" where
  "admin_persona_for_org E org_id d =
     and_then (find_org org_id d) (\<lambda>org_rec.
     ok_or (find (\<lambda>p. vk_word (keypair_verifying_key E (keypair_from_seed (pr_member_seed p)))
                = or_admin_member_key org_rec) (sd_personas d))
       (Chain ''admin persona not found for org''))"

definition persona_keys ::
  "string \<Rightarrow> StoreData \<Rightarrow> OrgNodeError + (SigningKeypair \<times> SigningKeypair \<times> RString \<times> RString \<times> RString)" where
  "persona_keys persona_id d =
     and_then (find_persona persona_id d) (\<lambda>p.
     Inr (keypair_from_seed (pr_member_seed p), keypair_from_seed (pr_device_seed p),
          pr_handle p, pr_name p, pr_surname p))"

definition update_persona_status ::
  "string \<Rightarrow> OrgId \<Rightarrow> PersonaStatus \<Rightarrow> ('c, 'n, unit) svc" where
  "update_persona_status persona_id org_id status =
     eff_bind (eff_gets svc_data) (\<lambda>d.
     eff_bind (eff_lift (find_persona persona_id d)) (\<lambda>_.
     eff_modify (svc_update_data (\<lambda>d. d\<lparr>sd_personas :=
       update_first (\<lambda>p. pr_persona_id p = persona_id)
         (\<lambda>p. p\<lparr>pr_status := status, pr_org_id := Some org_id\<rparr>) (sd_personas d)\<rparr>))))"

definition show_transport_error :: "TransportError \<Rightarrow> string" where
  "show_transport_error e =
     (case e of
        Bind m \<Rightarrow> ''iroh bind error: '' @ m
      | Connect m \<Rightarrow> ''iroh connect error: '' @ m
      | Accept m \<Rightarrow> ''iroh accept error: '' @ m
      | Stream m \<Rightarrow> ''stream error: '' @ m
      | FrameTooLarge n \<Rightarrow> ''frame too large: '' @ show_nat n @ '' bytes (max '' @ show_nat MAX_FRAME @ '')''
      | Malformed \<Rightarrow> ''malformed wire message'')"

definition ensure_endpoint :: "('c, 'n) ServiceEnv \<Rightarrow> string \<Rightarrow> ('c, 'n, OrgEndpoint) svc" where
  "ensure_endpoint S persona_id =
     eff_bind (eff_gets sv_endpoint) (\<lambda>ep.
     eff_bind
       (if ep = None
        then
          eff_bind (eff_gets svc_data) (\<lambda>d.
          eff_bind (eff_lift (find_persona persona_id d)) (\<lambda>persona.
          let device_kp = keypair_from_seed (pr_device_seed persona) in
          eff_bind (eff_gets sv_transport_mode) (\<lambda>mode.
          eff_bind (eff_map_err (\<lambda>e. Chain (''endpoint bind: '' @ show_transport_error e))
              (on_net (bind_with_mode (ne_ed (se_node S)) (se_iroh S) device_kp mode))) (\<lambda>ep.
          eff_modify (\<lambda>s. s\<lparr>sv_endpoint := Some ep\<rparr>)))))
        else eff_return ()) (\<lambda>_.
     eff_bind (eff_gets sv_endpoint) (\<lambda>ep.
     eff_lift (ok_or ep (Chain ''endpoint bind failed unexpectedly'')))))"

section \<open>Personas and organisations\<close>

definition create_persona ::
  "('c, 'n) ServiceEnv \<Rightarrow> RString \<Rightarrow> RString \<Rightarrow> RString \<Rightarrow> ('c, 'n, string) svc" where
  "create_persona S handle name surname =
     eff_bind (\<lambda>s. let (kp, rng) = keypair_generate (sv_rng s) in (Inr kp, s\<lparr>sv_rng := rng\<rparr>)) (\<lambda>member_kp.
     eff_bind (\<lambda>s. let (kp, rng) = keypair_generate (sv_rng s) in (Inr kp, s\<lparr>sv_rng := rng\<rparr>)) (\<lambda>device_kp.
     let persona_id = hex_id (vk_word (keypair_verifying_key (ne_ed (se_node S)) member_kp));
         rec = \<lparr>pr_persona_id = persona_id, pr_org_id = None, pr_handle = handle, pr_name = name,
                pr_surname = surname, pr_member_seed = keypair_to_seed member_kp,
                pr_device_seed = keypair_to_seed device_kp, pr_member_id = None,
                pr_status = Proposed\<rparr> in
     eff_bind (eff_modify (svc_update_data (\<lambda>d. d\<lparr>sd_personas := sd_personas d @ [rec]\<rparr>))) (\<lambda>_.
     eff_bind (svc_save S) (\<lambda>_.
     eff_return persona_id))))"

definition create_organisation :: "('c, 'n) ServiceEnv \<Rightarrow> string \<Rightarrow> ('c, 'n, OrgId) svc" where
  "create_organisation S persona_id =
     (let E = ne_ed (se_node S); U = ne_unicode (se_node S); H = ne_hasher (se_node S) in
      eff_bind (eff_gets svc_data) (\<lambda>d.
      eff_bind (eff_lift (persona_keys persona_id d)) (\<lambda>(member_kp, device_kp, handle, name, surname).
      let member_vk = vk_word (keypair_verifying_key E member_kp);
          admin_id = MemberId (member_id_from_key (be_bytes 32 member_vk)) in
      eff_bind (eff_lift (map_err NodeTrie
          (member_leaf_new U admin_id handle (member_key E member_kp) name surname
             [device_key E device_kp]))) (\<lambda>admin_leaf.
      eff_bind (eff_lift (map_err NodeTrie
          (and_then (genesis U H [admin_leaf]) (recalculate H)))) (\<lambda>(trie, _).
      eff_bind (eff_lift (map_err NodeTrie (root_hash trie))) (\<lambda>genesis_root_hash.
      let genesis_root = root_hash_word genesis_root_hash; org_pub_key = member_vk in
      eff_bind (on_chain (co_submit_genesis (se_chain S) genesis_root org_pub_key)) (\<lambda>(org_id, proxy_account).
      let admin_snap = \<lparr>ms_id = member_id_word admin_id, ms_handle = handle, ms_name = name,
                        ms_surname = surname, ms_member_key = member_vk,
                        ms_device_keys = [vk_word (keypair_verifying_key E device_kp)]\<rparr>;
          org_rec = \<lparr>or_org_id = org_id, or_root_hash = genesis_root, or_org_pub_key = org_pub_key,
                     or_epoch = 1, or_org_secret = None, or_last_seq = 0,
                     or_admin_member_key = member_vk, or_trie_members = [admin_snap],
                     or_proxy_account = proxy_account\<rparr> in
      eff_bind (eff_modify (svc_update_data (\<lambda>d. d\<lparr>sd_orgs := sd_orgs d @ [org_rec]\<rparr>))) (\<lambda>_.
      eff_bind (update_persona_status persona_id org_id Active) (\<lambda>_.
      eff_bind (svc_save S) (\<lambda>_.
      eff_return org_id))))))))))"

section \<open>Invites and join requests\<close>

definition encoded_node_addr :: "('c, 'n) ServiceEnv \<Rightarrow> ('c, 'n, bytes) svc" where
  "encoded_node_addr S s =
     (case sv_endpoint s of
        Some ep \<Rightarrow>
          (map_err (\<lambda>e. Chain (''addr encode: '' @ e))
             (to_allocvec (se_addr_codec S) (node_addr_for_dial (se_iroh S) (sv_net s) ep)), s)
      | None \<Rightarrow> (Inr [], s))"

definition export_invite :: "('c, 'n) ServiceEnv \<Rightarrow> OrgId \<Rightarrow> ('c, 'n, string) svc" where
  "export_invite S org_id =
     eff_bind (eff_gets svc_data) (\<lambda>d.
     eff_bind (eff_lift (find_org org_id d)) (\<lambda>org_rec.
     eff_bind (eff_lift (admin_persona_for_org (ne_ed (se_node S)) org_id d)) (\<lambda>persona.
     let device_kp = keypair_from_seed (pr_device_seed persona) in
     eff_bind (encoded_node_addr S) (\<lambda>addr.
     eff_lift (blob_encode (se_base64 S) (se_invite_codec S)
       \<lparr>inv_org_id = org_id, inv_org_pub_key = or_org_pub_key org_rec,
        inv_admin_member_key = or_admin_member_key org_rec,
        inv_admin_device_key = vk_word (keypair_verifying_key (ne_ed (se_node S)) device_kp),
        inv_admin_node_addr = addr\<rparr>)))))"

definition import_invite :: "('c, 'n) ServiceEnv \<Rightarrow> string \<Rightarrow> ('c, 'n, Invite) svc" where
  "import_invite S blob =
     eff_bind (eff_lift (blob_decode (se_base64 S) (se_invite_codec S) blob)) (\<lambda>inv.
     let pending = \<lparr>pi_org_id = inv_org_id inv, pi_admin_device_key = inv_admin_device_key inv,
                    pi_admin_member_key = inv_admin_member_key inv,
                    pi_org_pub_key = inv_org_pub_key inv\<rparr> in
     eff_bind (eff_modify (svc_update_data (\<lambda>d.
       if find (\<lambda>p. pi_org_id p = inv_org_id inv) (sd_pending_invites d) \<noteq> None
       then d\<lparr>sd_pending_invites :=
              update_first (\<lambda>p. pi_org_id p = inv_org_id inv) (\<lambda>_. pending) (sd_pending_invites d)\<rparr>
       else d\<lparr>sd_pending_invites := sd_pending_invites d @ [pending]\<rparr>))) (\<lambda>_.
     eff_bind (svc_save S) (\<lambda>_.
     eff_return inv)))"

definition export_join_request :: "('c, 'n) ServiceEnv \<Rightarrow> string \<Rightarrow> ('c, 'n, string) svc" where
  "export_join_request S persona_id =
     eff_bind (eff_gets svc_data) (\<lambda>d.
     eff_bind (eff_lift (find_persona persona_id d)) (\<lambda>persona.
     let device_kp = keypair_from_seed (pr_device_seed persona);
         member_kp = keypair_from_seed (pr_member_seed persona) in
     eff_bind (encoded_node_addr S) (\<lambda>addr.
     eff_lift (blob_encode (se_base64 S) (se_join_codec S)
       \<lparr>jr_handle = pr_handle persona, jr_name = pr_name persona, jr_surname = pr_surname persona,
        jr_member_key = vk_word (keypair_verifying_key (ne_ed (se_node S)) member_kp),
        jr_device_key = vk_word (keypair_verifying_key (ne_ed (se_node S)) device_kp),
        jr_node_addr = addr\<rparr>))))"

definition import_join_request :: "('c, 'n) ServiceEnv \<Rightarrow> string \<Rightarrow> OrgNodeError + JoinRequest" where
  "import_join_request S blob = blob_decode (se_base64 S) (se_join_codec S) blob"

section \<open>Admission and revocation\<close>

text \<open>What both stories read of the organisation's record before they change the trie.\<close>

definition load_admin_org ::
  "('c, 'n) ServiceEnv \<Rightarrow> OrgId \<Rightarrow> StoreData \<Rightarrow> OrgNodeError + (OrgRecord \<times> OrgTrie \<times> SigningKeypair)" where
  "load_admin_org S org_id d =
     and_then (find_org org_id d) (\<lambda>org_rec.
     and_then (trie_from_snapshots S (or_trie_members org_rec)) (\<lambda>trie.
     and_then (admin_persona_for_org (ne_ed (se_node S)) org_id d) (\<lambda>admin_persona.
     Inr (org_rec, trie, keypair_from_seed (pr_member_seed admin_persona)))))"

definition send_message ::
  "('c, 'n) ServiceEnv \<Rightarrow> OrgEndpoint \<Rightarrow> EndpointAddr \<Rightarrow> WireMessage \<Rightarrow> ('c, 'n, unit) svc" where
  "send_message S ep peer_addr msg =
     eff_map_err (\<lambda>e. Chain (''iroh send: '' @ show_transport_error e))
       (on_net (endpoint_send (se_iroh S) (se_message_codec S) ep peer_addr msg))"

definition send_message_to_id ::
  "('c, 'n) ServiceEnv \<Rightarrow> OrgEndpoint \<Rightarrow> bytes32 \<Rightarrow> WireMessage \<Rightarrow> ('c, 'n, unit) svc" where
  "send_message_to_id S ep peer_id msg =
     eff_map_err (\<lambda>e. Chain (''iroh send (networked): '' @ show_transport_error e))
       (on_net (send_to_id (se_iroh S) (se_message_codec S) ep peer_id msg))"

definition update_org_record ::
  "OrgId \<Rightarrow> (OrgRecord \<Rightarrow> OrgRecord) \<Rightarrow> ('c, 'n, unit) svc" where
  "update_org_record org_id f =
     eff_bind (eff_gets svc_data) (\<lambda>d.
     eff_bind (eff_lift (find_org org_id d)) (\<lambda>_.
     eff_modify (svc_update_data (\<lambda>d. d\<lparr>sd_orgs :=
       update_first (\<lambda>r. or_org_id r = org_id) f (sd_orgs d)\<rparr>))))"

definition record_and_save ::
  "('c, 'n) ServiceEnv \<Rightarrow> OrgId \<Rightarrow> (OrgRecord \<Rightarrow> OrgRecord) \<Rightarrow> 'a \<Rightarrow> ('c, 'n, 'a) svc" where
  "record_and_save S org_id f x =
     eff_bind (update_org_record org_id f) (\<lambda>_.
     eff_bind (svc_save S) (\<lambda>_.
     eff_return x))"

text \<open>
  Each story has four parts: what it computes from the stored data, the submission to the chain, the
  delivery of the signed envelope, and the update of the record.
\<close>

definition plan_admission ::
  "('c, 'n) ServiceEnv \<Rightarrow> OrgId \<Rightarrow> JoinRequest \<Rightarrow> StoreData
     \<Rightarrow> OrgNodeError + (OrgRecord \<times> SigningKeypair \<times> MemberId \<times> bytes32 \<times> Delta)" where
  "plan_admission S org_id jr d =
     (let U = ne_unicode (se_node S); H = ne_hasher (se_node S) in
      and_then (load_admin_org S org_id d) (\<lambda>(org_rec, trie, admin_member_kp).
      let new_member_id = MemberId (member_id_from_key (be_bytes 32 (jr_member_key jr))) in
      and_then (parse_vk S ''bad member key: '' (jr_member_key jr)) (\<lambda>member_vk.
      and_then (parse_vk S ''bad device key: '' (jr_device_key jr)) (\<lambda>device_vk.
      and_then (map_err NodeTrie
          (member_leaf_new U new_member_id (jr_handle jr) (P2pMemberKey member_vk) (jr_name jr)
             (jr_surname jr) [P2pDeviceKey device_vk])) (\<lambda>new_leaf.
      and_then (map_err NodeTrie (and_then (add_member U H trie new_leaf) (recalculate H))) (\<lambda>(new_trie, delta).
      and_then (map_err NodeTrie (root_hash new_trie)) (\<lambda>new_root_hash.
      Inr (org_rec, admin_member_kp, new_member_id, root_hash_word new_root_hash, delta))))))))"

definition admission_message ::
  "('c, 'n) ServiceEnv \<Rightarrow> OrgId \<Rightarrow> bytes32 option
     \<Rightarrow> OrgRecord \<times> SigningKeypair \<times> MemberId \<times> bytes32 \<times> Delta \<Rightarrow> OrgNodeError + WireMessage" where
  "admission_message S org_id org_secret plan =
     (let (org_rec, admin_member_kp, new_member_id, new_root, delta) = plan;
          parent_seq = or_last_seq org_rec + 1 in
      and_then (map_err (\<lambda>_. NodeMalformedDelta)
          (envelope_build (ne_ed (se_node S)) (ne_codec (se_node S)) org_id parent_seq delta
             admin_member_kp)) (\<lambda>envelope.
      let genesis_snapshot =
            (case to_allocvec (se_snapshot_codec S) (or_trie_members org_rec) of
               Inr b \<Rightarrow> Some b | Inl _ \<Rightarrow> None) in
      Inr \<lparr>wm_envelope = envelope, wm_org_secret = org_secret,
           wm_genesis_snapshot = genesis_snapshot\<rparr>))"

definition deliver_admission ::
  "('c, 'n) ServiceEnv \<Rightarrow> OrgId \<Rightarrow> JoinRequest \<Rightarrow> EndpointAddr \<Rightarrow> bytes32 option
     \<Rightarrow> OrgRecord \<times> SigningKeypair \<times> MemberId \<times> bytes32 \<times> Delta \<Rightarrow> ('c, 'n, unit) svc" where
  "deliver_admission S org_id jr peer_addr org_secret plan =
     (let E = ne_ed (se_node S) in
      eff_bind (eff_lift (admission_message S org_id org_secret plan)) (\<lambda>msg.
      eff_bind (eff_gets svc_data) (\<lambda>d.
      eff_bind (eff_lift (admin_persona_for_org E org_id d)) (\<lambda>admin_persona.
      eff_bind (eff_gets sv_transport_mode) (\<lambda>mode.
      eff_bind (ensure_endpoint S (pr_persona_id admin_persona)) (\<lambda>ep.
      case mode of
        Loopback \<Rightarrow> send_message S ep peer_addr msg
      | Networked \<Rightarrow>
          eff_bind (eff_assert (se_endpoint_id_ok S (jr_device_key jr))
              (Chain ''invalid joiner device key for EndpointId'')) (\<lambda>_.
          send_message_to_id S ep (jr_device_key jr) msg)))))))"

definition admit_member ::
  "('c, 'n) ServiceEnv \<Rightarrow> OrgId \<Rightarrow> JoinRequest \<Rightarrow> EndpointAddr \<Rightarrow> bytes32 option \<Rightarrow> ('c, 'n, bytes32) svc" where
  "admit_member S org_id jr peer_addr org_secret =
     eff_bind (eff_gets svc_data) (\<lambda>d.
     eff_bind (eff_lift (plan_admission S org_id jr d)) (\<lambda>plan.
     let (org_rec, _, new_member_id, new_root, _) = plan in
     eff_bind (on_chain (co_submit_update (se_chain S) org_id new_root (or_org_pub_key org_rec)
         (or_epoch org_rec) (or_proxy_account org_rec))) (\<lambda>_.
     let new_epoch = or_epoch org_rec + 1; parent_seq = or_last_seq org_rec + 1 in
     eff_bind (deliver_admission S org_id jr peer_addr org_secret plan) (\<lambda>_.
     let new_snap = \<lparr>ms_id = member_id_word new_member_id, ms_handle = jr_handle jr,
                     ms_name = jr_name jr, ms_surname = jr_surname jr,
                     ms_member_key = jr_member_key jr, ms_device_keys = [jr_device_key jr]\<rparr> in
     record_and_save S org_id (\<lambda>r. r\<lparr>or_root_hash := new_root, or_epoch := new_epoch,
         or_last_seq := parent_seq, or_trie_members := or_trie_members r @ [new_snap]\<rparr>)
       (member_id_word new_member_id)))))"

definition plan_revocation ::
  "('c, 'n) ServiceEnv \<Rightarrow> OrgId \<Rightarrow> bytes32 \<Rightarrow> StoreData
     \<Rightarrow> OrgNodeError + (OrgRecord \<times> SigningKeypair \<times> OrgTrie \<times> bytes32 \<times> Delta)" where
  "plan_revocation S org_id member_id d =
     (let U = ne_unicode (se_node S); H = ne_hasher (se_node S) in
      and_then (load_admin_org S org_id d) (\<lambda>(org_rec, trie, admin_member_kp).
      and_then (map_err NodeTrie
          (and_then (delete_member U trie (MemberId member_id)) (recalculate H))) (\<lambda>(new_trie, delta).
      and_then (map_err NodeTrie (root_hash new_trie)) (\<lambda>new_root_hash.
      Inr (org_rec, admin_member_kp, new_trie, root_hash_word new_root_hash, delta)))))"

definition deliver_revocation ::
  "('c, 'n) ServiceEnv \<Rightarrow> OrgId \<Rightarrow> bytes32 \<Rightarrow> EndpointAddr
     \<Rightarrow> OrgRecord \<times> SigningKeypair \<times> OrgTrie \<times> bytes32 \<times> Delta \<Rightarrow> ('c, 'n, unit) svc" where
  "deliver_revocation S org_id member_id peer_addr plan =
     (let E = ne_ed (se_node S);
          (org_rec, admin_member_kp, new_trie, new_root, delta) = plan;
          parent_seq = or_last_seq org_rec + 1 in
      eff_bind (eff_lift (map_err (\<lambda>_. NodeMalformedDelta)
          (envelope_build E (ne_codec (se_node S)) org_id parent_seq delta admin_member_kp))) (\<lambda>envelope.
      eff_bind (eff_gets svc_data) (\<lambda>d.
      eff_bind (eff_lift (find_org org_id d)) (\<lambda>org_rec.
      eff_bind (eff_lift (admin_persona_for_org E org_id d)) (\<lambda>admin_persona.
      eff_bind (eff_gets sv_transport_mode) (\<lambda>mode.
      eff_bind
        (if mode = Networked
         then
           eff_bind (eff_lift (ok_or
               (case find (\<lambda>s. ms_id s = member_id) (or_trie_members org_rec) of
                  None \<Rightarrow> None
                | Some s \<Rightarrow> (case ms_device_keys s of [] \<Rightarrow> None | dk # _ \<Rightarrow> Some dk))
               (Chain ''revoked member device key not found in trie snapshot''))) (\<lambda>dk.
           eff_bind (eff_assert (se_endpoint_id_ok S dk)
               (Chain ''invalid device key for EndpointId'')) (\<lambda>_.
           eff_return (Some dk)))
         else eff_return None) (\<lambda>networked_peer_id.
      let genesis_snapshot =
            (case to_allocvec (se_snapshot_codec S) (or_trie_members org_rec) of
               Inr b \<Rightarrow> Some b | Inl _ \<Rightarrow> None);
          msg = \<lparr>wm_envelope = envelope, wm_org_secret = None,
                 wm_genesis_snapshot = genesis_snapshot\<rparr> in
      eff_bind (ensure_endpoint S (pr_persona_id admin_persona)) (\<lambda>ep.
      case mode of
        Loopback \<Rightarrow> send_message S ep peer_addr msg
      | Networked \<Rightarrow>
          eff_bind (eff_lift (ok_or networked_peer_id
              (Chain ''networked_peer_id missing in Networked mode''))) (\<lambda>peer_id.
          send_message_to_id S ep peer_id msg)))))))))"

definition revoke_member ::
  "('c, 'n) ServiceEnv \<Rightarrow> OrgId \<Rightarrow> bytes32 \<Rightarrow> EndpointAddr \<Rightarrow> ('c, 'n, unit) svc" where
  "revoke_member S org_id member_id peer_addr =
     eff_bind (eff_gets svc_data) (\<lambda>d.
     eff_bind (eff_lift (plan_revocation S org_id member_id d)) (\<lambda>plan.
     let (org_rec, _, new_trie, new_root, _) = plan in
     eff_bind (on_chain (co_submit_update (se_chain S) org_id new_root (or_org_pub_key org_rec)
         (or_epoch org_rec) (or_proxy_account org_rec))) (\<lambda>_.
     let new_epoch = or_epoch org_rec + 1; parent_seq = or_last_seq org_rec + 1 in
     eff_bind (deliver_revocation S org_id member_id peer_addr plan) (\<lambda>_.
     let new_snaps = map snapshot_of_leaf (trie_members new_trie) in
     record_and_save S org_id (\<lambda>r. r\<lparr>or_root_hash := new_root, or_epoch := new_epoch,
         or_last_seq := parent_seq, or_trie_members := new_snaps\<rparr>) ()))))"

section \<open>Receiving\<close>

record ReceiveOutcome =
  ro_org_id :: OrgId
  ro_epoch :: u64
  ro_root :: bytes32

datatype SelfDeleteOutcome = SelfDeleted OrgId | UpdatedNotRevoked OrgId

text \<open>The adapter that answers every query with the state already read.\<close>

definition chain_ops_reader :: "OrgState \<Rightarrow> ChainReader" where
  "chain_ops_reader state org_id = Inr (Some state)"

definition NO_PERSONA :: string where
  "NO_PERSONA = ''no persona found '' @ [CHR 0xE2, CHR 0x80, CHR 0x94] @ '' create one first''"

text \<open>Both receiving stories bind the first persona's endpoint and take one message.\<close>

definition receive_message :: "('c, 'n) ServiceEnv \<Rightarrow> ('c, 'n, P2pDeviceKey \<times> WireMessage) svc" where
  "receive_message S =
     eff_bind (eff_gets svc_data) (\<lambda>d.
     eff_bind (eff_lift (case sd_personas d of [] \<Rightarrow> Inl (Chain NO_PERSONA) | p # _ \<Rightarrow> Inr p)) (\<lambda>first.
     eff_bind (ensure_endpoint S (pr_persona_id first)) (\<lambda>ep.
     eff_map_err (\<lambda>e. Chain (''iroh recv: '' @ show_transport_error e))
       (on_net (recv_one (ne_vk_ok (se_node S)) (se_iroh S) (se_message_codec S) ep)))))"

definition fallback_trie :: "('c, 'n) ServiceEnv \<Rightarrow> OrgState \<Rightarrow> VerifyingKey \<Rightarrow> OrgNodeError + OrgTrie" where
  "fallback_trie S chain_state author_vk =
     (let U = ne_unicode (se_node S); H = ne_hasher (se_node S);
          admin_id = MemberId (member_id_from_key (be_bytes 32 (os_org_pub_key chain_state))) in
      and_then (map_err NodeTrie (member_leaf_new U admin_id (rstr ''admin'') (P2pMemberKey author_vk)
          (rstr ''Admin'') (rstr ''User'') [P2pDeviceKey author_vk])) (\<lambda>admin_leaf.
      and_then (map_err NodeTrie (and_then (genesis U H [admin_leaf]) (recalculate H))) (\<lambda>(t, _).
      Inr t)))"

text \<open>
  The trie to verify against, with the last sequence number and epoch: from the record of a known
  organisation, or from the snapshot in the message, or from placeholders.
\<close>

definition local_view ::
  "('c, 'n) ServiceEnv \<Rightarrow> StoreData \<Rightarrow> WireMessage \<Rightarrow> OrgState \<Rightarrow> VerifyingKey
     \<Rightarrow> OrgNodeError + (OrgTrie \<times> u64 \<times> u64)" where
  "local_view S d msg chain_state author_vk =
     (case find (\<lambda>r. or_org_id r = env_org_id (wm_envelope msg)) (sd_orgs d) of
        Some existing \<Rightarrow>
          and_then (trie_from_snapshots S (or_trie_members existing)) (\<lambda>trie.
          Inr (trie, or_last_seq existing, or_epoch existing))
      | None \<Rightarrow>
          and_then
            (case wm_genesis_snapshot msg of
               Some snap_bytes \<Rightarrow>
                 and_then (map_err (\<lambda>e. Chain (''genesis_snapshot decode: '' @ e))
                     (from_bytes (se_snapshot_codec S) snap_bytes)) (\<lambda>snaps.
                 trie_from_snapshots S snaps)
             | None \<Rightarrow> fallback_trie S chain_state author_vk) (\<lambda>trie.
          Inr (trie, 0, 0)))"

definition device_in_trie :: "OrgTrie \<Rightarrow> P2pDeviceKey \<Rightarrow> bool" where
  "device_in_trie t dk = list_ex (\<lambda>m. has_device (ml_p2p_devices m) dk) (trie_members t)"

definition persona_device :: "Ed25519 \<Rightarrow> PersonaRecord \<Rightarrow> P2pDeviceKey" where
  "persona_device E p = P2pDeviceKey (keypair_verifying_key E (keypair_from_seed (pr_device_seed p)))"

text \<open>The checks of an incoming message, from the author's key to the sender's device.\<close>

definition is_first_admission :: "StoreData \<Rightarrow> OrgId \<Rightarrow> bool" where
  "is_first_admission d org_id = (find (\<lambda>r. or_org_id r = org_id) (sd_orgs d) = None)"

definition verify_incoming ::
  "('c, 'n) ServiceEnv \<Rightarrow> StoreData \<Rightarrow> P2pDeviceKey \<Rightarrow> WireMessage \<Rightarrow> OrgState
     \<Rightarrow> OrgNodeError + VerifiedUpdate" where
  "verify_incoming S d remote_device_key msg chain_state =
     (let org_id = env_org_id (wm_envelope msg); first = is_first_admission d org_id in
      and_then (parse_vk S ''bad org_pub_key: '' (os_org_pub_key chain_state)) (\<lambda>author_vk.
      and_then (local_view S d msg chain_state author_vk) (\<lambda>(local_trie, last_seq, last_epoch).
      if first \<and> (case find (\<lambda>p. pi_org_id p = org_id) (sd_pending_invites d) of
                Some invite \<Rightarrow> device_key_as_bytes remote_device_key \<noteq> be_bytes 32 (pi_admin_device_key invite)
              | None \<Rightarrow> False)
      then Inl BadSignature
      else
      let ctx = \<lparr>vc_expected_org_id = org_id, vc_author_member_key = author_vk,
                 vc_seq_guard = seq_guard_from_last_seen last_seq, vc_last_committed_epoch = last_epoch\<rparr> in
      and_then (verify_envelope_against_chain (se_node S) local_trie (wm_envelope msg) ctx
          (chain_ops_reader chain_state)) (\<lambda>verified.
      if \<not> first \<and> \<not> device_in_trie (vu_trie verified) remote_device_key then Inl BadSignature
      else Inr verified))))"

text \<open>The first persona with a device in the trie that is not the author's.\<close>

definition my_persona :: "Ed25519 \<Rightarrow> StoreData \<Rightarrow> OrgTrie \<Rightarrow> bytes32 \<Rightarrow> PersonaRecord option" where
  "my_persona E d t org_pub_key =
     find (\<lambda>p. list_ex (\<lambda>m. has_device (ml_p2p_devices m) (persona_device E p)
         \<and> vk_word (member_verifying_key (ml_p2p_key m)) \<noteq> org_pub_key) (trie_members t)) (sd_personas d)"

definition my_member_id ::
  "Ed25519 \<Rightarrow> StoreData \<Rightarrow> OrgTrie \<Rightarrow> string option \<Rightarrow> OrgNodeError + bytes32 option" where
  "my_member_id E d t persona_id =
     (case persona_id of
        Some pid \<Rightarrow>
          and_then (find_persona pid d) (\<lambda>persona.
          Inr (map_option (\<lambda>m. member_id_word (ml_id m))
            (find (\<lambda>m. has_device (ml_p2p_devices m) (persona_device E persona)) (trie_members t))))
      | None \<Rightarrow> Inr None)"

definition commit_org_record ::
  "OrgState \<Rightarrow> WireMessage \<Rightarrow> VerifiedUpdate \<Rightarrow> bytes32 \<Rightarrow> StoreData \<Rightarrow> StoreData" where
  "commit_org_record chain_state msg verified new_root d =
     (let org_id = env_org_id (wm_envelope msg);
          new_snapshots = map snapshot_of_leaf (trie_members (vu_trie verified)) in
      if find (\<lambda>r. or_org_id r = org_id) (sd_orgs d) \<noteq> None
      then d\<lparr>sd_orgs := update_first (\<lambda>r. or_org_id r = org_id) (\<lambda>existing.
             existing\<lparr>or_root_hash := new_root, or_epoch := vu_epoch verified,
               or_last_seq := last_seen (vu_seq_guard verified),
               or_org_secret := wm_org_secret msg, or_trie_members := new_snapshots\<rparr>) (sd_orgs d)\<rparr>
      else d\<lparr>sd_orgs := sd_orgs d @
             [\<lparr>or_org_id = org_id, or_root_hash = new_root,
               or_org_pub_key = os_org_pub_key chain_state, or_epoch = vu_epoch verified,
               or_org_secret = wm_org_secret msg, or_last_seq = last_seen (vu_seq_guard verified),
               or_admin_member_key = os_org_pub_key chain_state, or_trie_members = new_snapshots,
               or_proxy_account = None\<rparr>]\<rparr>)"

definition consume_invite :: "bool \<Rightarrow> OrgId \<Rightarrow> StoreData \<Rightarrow> StoreData" where
  "consume_invite first org_id d =
     (if first
      then d\<lparr>sd_pending_invites := filter (\<lambda>p. pi_org_id p \<noteq> org_id) (sd_pending_invites d)\<rparr>
      else d)"

definition activate_persona :: "string option \<Rightarrow> OrgId \<Rightarrow> bytes32 option \<Rightarrow> StoreData \<Rightarrow> StoreData" where
  "activate_persona persona_id org_id member_id d =
     (case persona_id of
        Some pid \<Rightarrow> d\<lparr>sd_personas := update_first (\<lambda>p. pr_persona_id p = pid)
          (\<lambda>p. p\<lparr>pr_status := Active, pr_org_id := Some org_id, pr_member_id := member_id\<rparr>)
          (sd_personas d)\<rparr>
      | None \<Rightarrow> d)"

definition receive_and_verify :: "('c, 'n) ServiceEnv \<Rightarrow> ('c, 'n, ReceiveOutcome) svc" where
  "receive_and_verify S =
     (let E = ne_ed (se_node S) in
      eff_bind (receive_message S) (\<lambda>(remote_device_key, msg).
      let org_id = env_org_id (wm_envelope msg) in
      eff_bind (on_chain (co_read_state (se_chain S) org_id)) (\<lambda>state.
      eff_bind (eff_lift (ok_or state OrgNotOnChain)) (\<lambda>chain_state.
      eff_bind (eff_gets svc_data) (\<lambda>d.
      eff_bind (eff_lift (verify_incoming S d remote_device_key msg chain_state)) (\<lambda>verified.
      eff_bind (eff_lift (map_err NodeTrie (root_hash (vu_trie verified)))) (\<lambda>new_root_hash.
      let new_root = root_hash_word new_root_hash;
          my_persona_id = map_option pr_persona_id
            (my_persona E d (vu_trie verified) (os_org_pub_key chain_state)) in
      eff_bind (eff_lift (my_member_id E d (vu_trie verified) my_persona_id)) (\<lambda>member_id.
      eff_bind (eff_modify (svc_update_data (\<lambda>d.
          activate_persona my_persona_id org_id member_id
            (consume_invite (is_first_admission d org_id) org_id
              (commit_org_record chain_state msg verified new_root d))))) (\<lambda>_.
      eff_bind (svc_save S) (\<lambda>_.
      eff_return \<lparr>ro_org_id = org_id, ro_epoch = vu_epoch verified, ro_root = new_root\<rparr>))))))))))"

definition verify_known_org ::
  "('c, 'n) ServiceEnv \<Rightarrow> StoreData \<Rightarrow> WireMessage \<Rightarrow> OrgState \<Rightarrow> OrgNodeError + VerifiedUpdate" where
  "verify_known_org S d msg chain_state =
     (let org_id = env_org_id (wm_envelope msg) in
      and_then (parse_vk S ''bad org_pub_key: '' (os_org_pub_key chain_state)) (\<lambda>author_vk.
      and_then (find_org org_id d) (\<lambda>existing.
      and_then (trie_from_snapshots S (or_trie_members existing)) (\<lambda>local_trie.
      let ctx = \<lparr>vc_expected_org_id = org_id, vc_author_member_key = author_vk,
                 vc_seq_guard = seq_guard_from_last_seen (or_last_seq existing),
                 vc_last_committed_epoch = or_epoch existing\<rparr> in
      verify_envelope_against_chain (se_node S) local_trie (wm_envelope msg) ctx
        (chain_ops_reader chain_state)))))"

definition still_present :: "Ed25519 \<Rightarrow> StoreData \<Rightarrow> OrgId \<Rightarrow> OrgTrie \<Rightarrow> bool" where
  "still_present E d org_id t =
     list_ex (\<lambda>p. device_in_trie t (persona_device E p))
       (filter (\<lambda>p. pr_org_id p = Some org_id) (sd_personas d))"

definition receive_and_self_delete_if_revoked ::
  "('c, 'n) ServiceEnv \<Rightarrow> ('c, 'n, SelfDeleteOutcome) svc" where
  "receive_and_self_delete_if_revoked S =
     (let E = ne_ed (se_node S) in
      eff_bind (receive_message S) (\<lambda>(remote_device_key, msg).
      let org_id = env_org_id (wm_envelope msg) in
      eff_bind (on_chain (co_read_state (se_chain S) org_id)) (\<lambda>state.
      eff_bind (eff_lift (ok_or state OrgNotOnChain)) (\<lambda>chain_state.
      eff_bind (eff_gets svc_data) (\<lambda>d.
      eff_bind (eff_lift (verify_known_org S d msg chain_state)) (\<lambda>verified.
      if still_present E d org_id (vu_trie verified)
      then
        let new_snaps = map snapshot_of_leaf (trie_members (vu_trie verified)) in
        eff_bind (eff_lift (map_err NodeTrie (root_hash (vu_trie verified)))) (\<lambda>new_root_hash.
        eff_bind (eff_modify (svc_update_data (\<lambda>d. d\<lparr>sd_orgs :=
            update_first (\<lambda>r. or_org_id r = org_id) (\<lambda>r.
              r\<lparr>or_root_hash := root_hash_word new_root_hash, or_epoch := vu_epoch verified,
                or_last_seq := last_seen (vu_seq_guard verified), or_trie_members := new_snaps\<rparr>)
              (sd_orgs d)\<rparr>))) (\<lambda>_.
        eff_bind (svc_save S) (\<lambda>_.
        eff_return (UpdatedNotRevoked org_id))))
      else
        eff_bind (eff_modify (svc_update_data (\<lambda>d. d\<lparr>sd_orgs :=
            filter (\<lambda>r. or_org_id r \<noteq> org_id) (sd_orgs d)\<rparr>))) (\<lambda>_.
        eff_bind (eff_modify (svc_update_data (\<lambda>d. d\<lparr>sd_personas :=
            map (\<lambda>p. if pr_org_id p = Some org_id then p\<lparr>pr_status := Revoked\<rparr> else p)
              (sd_personas d)\<rparr>))) (\<lambda>_.
        eff_bind (svc_save S) (\<lambda>_.
        eff_return (SelfDeleted org_id))))))))))"

definition list_personas :: "('c, 'n) OrgService \<Rightarrow> PersonaRecord list" where
  "list_personas s = sd_personas (svc_data s)"

definition list_orgs :: "('c, 'n) OrgService \<Rightarrow> OrgRecord list" where
  "list_orgs s = sd_orgs (svc_data s)"

end
