(* ===== verification/Rebuild.thy ===== *)
theory Rebuild
  imports Service
begin

text \<open>
  Tries rebuilt from a store. \<^verbatim>\<open>org-node\<close> keeps no trie: every story rebuilds it from the member snapshots
  of the organisation's record. A leaf survives this when it is \<open>storable\<close>; the members of a trie of
  storable leaves rebuild the same members and root, and pushing a snapshot is adding its member.
\<close>

section \<open>Leaves\<close>

abbreviation svc_U :: "('c, 'n) ServiceEnv \<Rightarrow> Unicode" where "svc_U S \<equiv> ne_unicode (se_node S)"
abbreviation svc_H :: "('c, 'n) ServiceEnv \<Rightarrow> TrieHasher" where "svc_H S \<equiv> ne_hasher (se_node S)"
abbreviation svc_vk :: "('c, 'n) ServiceEnv \<Rightarrow> bytes32 \<Rightarrow> bool" where "svc_vk S \<equiv> ne_vk_ok (se_node S)"

text \<open>A leaf that survives a store: well-formed, with valid keys and at least one device.\<close>

definition storable :: "('c, 'n) ServiceEnv \<Rightarrow> MemberLeaf \<Rightarrow> bool" where
  "storable S m \<longleftrightarrow>
     leaf_wf (svc_U S) m \<and> leaf_keys_ok (svc_vk S) m \<and> slots (ml_p2p_devices m) \<noteq> []"

lemma parse_vk_ok [simp]: "parse_vk S l b = Inr k \<longleftrightarrow> svc_vk S b \<and> k = VerifyingKey b"
  by (auto simp: parse_vk_def)

lemma parse_devices_ok:
  "collect_results (map (\<lambda>dk. and_then (parse_vk S l dk) (\<lambda>vk. Inr (P2pDeviceKey vk))) bs) = Inr ds \<longleftrightarrow>
     (\<forall>b\<in>set bs. svc_vk S b) \<and> ds = map (\<lambda>b. P2pDeviceKey (VerifyingKey b)) bs"
  by (induction bs arbitrary: ds) (auto simp: and_then_eq_Inr)

lemma leaf_from_snapshot_ok:
  "leaf_from_snapshot S s = Inr m \<longleftrightarrow>
     svc_vk S (ms_member_key s) \<and> (\<forall>b\<in>set (ms_device_keys s). svc_vk S b)
     \<and> member_leaf_new (svc_U S) (MemberId (ms_id s)) (ms_handle s)
         (P2pMemberKey (VerifyingKey (ms_member_key s))) (ms_name s) (ms_surname s)
         (map (\<lambda>b. P2pDeviceKey (VerifyingKey b)) (ms_device_keys s)) = Inr m"
  unfolding leaf_from_snapshot_def Let_def
  by (auto simp: and_then_eq_Inr map_err_eq_Inr parse_devices_ok)

lemma leaf_from_snapshot_storable:
  assumes "nfc_laws (svc_U S)" and "leaf_from_snapshot S s = Inr m"
  shows "storable S m"
proof -
  have new: "member_leaf_new (svc_U S) (MemberId (ms_id s)) (ms_handle s)
         (P2pMemberKey (VerifyingKey (ms_member_key s))) (ms_name s) (ms_surname s)
         (map (\<lambda>b. P2pDeviceKey (VerifyingKey b)) (ms_device_keys s)) = Inr m"
    and keys: "svc_vk S (ms_member_key s)" "\<forall>b\<in>set (ms_device_keys s). svc_vk S b"
    using assms(2) by (auto simp: leaf_from_snapshot_ok)
  have "set (slots (ml_p2p_devices m)) = (\<lambda>b. P2pDeviceKey (VerifyingKey b)) ` set (ms_device_keys s)"
    using new device_slots_new_wf by (fastforce simp: member_leaf_new_ok)
  moreover have "ml_p2p_key m = P2pMemberKey (VerifyingKey (ms_member_key s))"
    using new by (simp add: member_leaf_new_ok)
  ultimately have "leaf_keys_ok (svc_vk S) m"
    using keys by (auto simp: leaf_keys_ok_def list_all_iff)
  then show ?thesis using member_leaf_new_wf [OF assms(1) new] by (simp add: storable_def)
qed

lemma device_slots_new_slots: "slots_wf s \<Longrightarrow> device_slots_new (slots s) = Inr s"
  using slots_wfD [of s]
  by (cases s) (simp add: device_slots_new_def Let_def sort_key_id_if_sorted has_adjacent_equal_sorted MAX_DEVICES_def)

lemma leaf_snapshot_roundtrip:
  assumes "storable S m"
  shows "leaf_from_snapshot S (snapshot_of_leaf m) = Inr m"
proof -
  have wf: "leaf_wf (svc_U S) m" "leaf_keys_ok (svc_vk S) m" "slots (ml_p2p_devices m) \<noteq> []"
    using assms by (simp_all add: storable_def)
  have ds: "map (\<lambda>d. P2pDeviceKey (VerifyingKey (vk_word (device_verifying_key d)))) xs = xs" for xs
    by (simp add: map_idI)
  show ?thesis
    using wf device_slots_new_slots [of "ml_p2p_devices m"]
    by (auto simp: leaf_from_snapshot_ok snapshot_of_leaf_def devices_def leaf_keys_ok_def list_all_iff
        leaf_wf_def member_leaf_new_ok comp_def ds)
qed

section \<open>Tries\<close>

lemma spec_genesis_append:
  "spec_genesis U M (ms @ ns) = and_then (spec_genesis U M ms) (\<lambda>M'. spec_genesis U M' ns)"
  by (induction ms arbitrary: M) (auto simp: and_then_assoc)

lemma spec_genesis_keys:
  "spec_genesis U M ms = Inr M' \<Longrightarrow> M' j = Some n \<Longrightarrow> M j = Some n \<or> n \<in> set ms"
  by (induction ms arbitrary: M)
    (fastforce simp: and_then_eq_Inr spec_add_def spec_put_def split: if_splits option.splits)+

lemma spec_genesis_distinct:
  assumes "distinct (map ml_id ms)" and "distinct (map (\<lambda>m. handle_skeleton U (ml_handle m)) ms)"
    and "\<And>m. m \<in> set ms \<Longrightarrow> M (ml_id m) = None"
    and "\<And>m j n. m \<in> set ms \<Longrightarrow> M j = Some n \<Longrightarrow>
           handle_skeleton U (ml_handle n) \<noteq> handle_skeleton U (ml_handle m)"
  shows "spec_genesis U M ms = Inr (M ++ map_of (map (\<lambda>m. (ml_id m, m)) ms))"
  using assms
proof (induction ms arbitrary: M)
  case (Cons m ms)
  have "handle_conflict U M m = None"
    using Cons.prems(4) [of m] by (auto simp: handle_conflict_def)
  then have add: "spec_add U M m = Inr (M(ml_id m \<mapsto> m))"
    using Cons.prems(3) [of m] by (simp add: spec_add_def spec_put_def)
  have "spec_genesis U (M(ml_id m \<mapsto> m)) ms =
      Inr (M(ml_id m \<mapsto> m) ++ map_of (map (\<lambda>m. (ml_id m, m)) ms))"
    using Cons.prems by (intro Cons.IH) (auto simp: image_iff split: if_splits)
  moreover have "M(ml_id m \<mapsto> m) ++ map_of (map (\<lambda>m. (ml_id m, m)) ms) =
      M ++ map_of (map (\<lambda>m. (ml_id m, m)) (m # ms))"
    using Cons.prems(1) by (simp add: map_add_upd_left image_image map_of_map_restrict dom_map_of_conv_image_fst)
  ultimately show ?case using add by (simp only: spec_genesis.simps and_then_simps)
qed simp


text \<open>What a rebuilt trie is.\<close>

lemma trie_from_snapshots_leaves:
  "trie_from_snapshots S xs = Inr t \<longleftrightarrow>
     (\<exists>ms. list_all2 (\<lambda>x m. leaf_from_snapshot S x = Inr m) xs ms
        \<and> genesis (svc_U S) (svc_H S) ms = Inr t)"
  by (auto simp: trie_from_snapshots_def and_then_eq_Inr map_err_eq_Inr collect_results_eq_Inr list_all2_map1)

lemma genesis_ok:
  assumes "\<forall>m\<in>set ms. leaf_wf U m"
  shows "genesis U H ms = Inr t \<Longrightarrow>
      spec_genesis U Map.empty ms = Inr (snapshot t) \<and> trie_inv U H t \<and> root_hash t = Inr (smt_root H (ot_root t))"
    and "spec_genesis U Map.empty ms = Inr M \<Longrightarrow> \<exists>t. genesis U H ms = Inr t \<and> snapshot t = M"
  using genesis_correct [OF assms, of H]
  by (auto simp: calculated_implements_def split: sum.splits)

lemma rebuilt_leaves_storable:
  assumes "nfc_laws (svc_U S)" and "list_all2 (\<lambda>x m. leaf_from_snapshot S x = Inr m) xs ms"
  shows "\<forall>m\<in>set ms. storable S m"
  using assms(2) by (induction rule: list_all2_induct) (auto intro: leaf_from_snapshot_storable [OF assms(1)])

lemma rebuilt_trie:
  assumes "nfc_laws (svc_U S)" and "trie_from_snapshots S xs = Inr t"
  shows "trie_inv (svc_U S) (svc_H S) t" and "root_hash t = Inr (smt_root (svc_H S) (ot_root t))"
    and "snapshot t i = Some m \<Longrightarrow> storable S m"
proof -
  obtain ms where ms: "list_all2 (\<lambda>x m. leaf_from_snapshot S x = Inr m) xs ms"
      "genesis (svc_U S) (svc_H S) ms = Inr t"
    using assms(2) by (auto simp: trie_from_snapshots_leaves)
  have st: "\<forall>m\<in>set ms. storable S m" using rebuilt_leaves_storable [OF assms(1) ms(1)] .
  then have "\<forall>m\<in>set ms. leaf_wf (svc_U S) m" by (simp add: storable_def)
  note g = genesis_ok(1) [OF this ms(2)]
  show "trie_inv (svc_U S) (svc_H S) t" and "root_hash t = Inr (smt_root (svc_H S) (ot_root t))"
    using g by simp_all
  show "storable S m" if "snapshot t i = Some m"
    using g st that spec_genesis_keys by fastforce
qed

lemma distinct_mapI: "distinct (map f xs) \<Longrightarrow> distinct xs"
  by (simp add: distinct_map)

lemma map_of_members:
  assumes "distinct (map ml_id ms)" and "\<And>m. m \<in> set ms \<longleftrightarrow> M (ml_id m) = Some m"
    and "\<And>i m. M i = Some m \<Longrightarrow> ml_id m = i"
  shows "map_of (map (\<lambda>m. (ml_id m, m)) ms) i = M i"
proof (cases "M i")
  case None
  then have "i \<notin> ml_id ` set ms" using assms(2) by force
  then show ?thesis using None by (simp add: map_of_eq_None_iff image_image)
next
  case (Some m)
  then have "m \<in> set ms" "ml_id m = i" using assms(2,3) by auto
  then have "map_of (map (\<lambda>m. (ml_id m, m)) ms) i = Some m"
    using assms(1) by (intro map_of_is_SomeI) (auto simp: comp_def)
  then show ?thesis using Some by simp
qed

text \<open>The members of a trie, as snapshots, rebuild a trie with the same members and root.\<close>

lemma snapshots_rebuild:
  assumes inv: "trie_inv (svc_U S) (svc_H S) t" and st: "\<And>i m. snapshot t i = Some m \<Longrightarrow> storable S m"
  obtains t' where "trie_from_snapshots S (map snapshot_of_leaf (trie_members t)) = Inr t'"
    and "snapshot t' = snapshot t" and "trie_inv (svc_U S) (svc_H S) t'"
    and "root_hash t' = Inr (smt_root (svc_H S) (ot_root t))"
proof -
  let ?U = "svc_U S" and ?H = "svc_H S" and ?ms = "trie_members t"
  have wf: "smt_wf ?H (ot_root t)" using trie_invD(6) [OF inv] .
  have mem: "m \<in> set ?ms \<longleftrightarrow> snapshot t (ml_id m) = Some m" for m
    using collect_members_get [OF wf] by (simp add: trie_members_def)
  have sw: "snapshot_wf ?U (snapshot t)" using trie_inv_snapshot_wf [OF inv] .
  have ids: "distinct (map ml_id ?ms)"
    using collect_members_sorted [OF smt_wf_placed [OF wf]] by (simp add: trie_members_def strict_sorted_iff)
  have "inj_on (\<lambda>m. handle_skeleton ?U (ml_handle m)) (set ?ms)"
  proof (rule inj_onI)
    fix a b
    assume "a \<in> set ?ms" "b \<in> set ?ms" "handle_skeleton ?U (ml_handle a) = handle_skeleton ?U (ml_handle b)"
    moreover from this have "ml_id a = ml_id b" using sw mem unfolding snapshot_wf_def by metis
    ultimately show "a = b" using mem [of a] mem [of b] by simp
  qed
  then have skel: "distinct (map (\<lambda>m. handle_skeleton ?U (ml_handle m)) ?ms)"
    using distinct_mapI [OF ids] by (simp add: distinct_map)
  have "spec_genesis ?U Map.empty ?ms = Inr (Map.empty ++ map_of (map (\<lambda>m. (ml_id m, m)) ?ms))"
    by (rule spec_genesis_distinct [OF ids skel]) simp_all
  moreover have "map_of (map (\<lambda>m. (ml_id m, m)) ?ms) i = snapshot t i" for i
    using map_of_members [OF ids mem] get_member_id [OF wf] by blast
  ultimately have spec: "spec_genesis ?U Map.empty ?ms = Inr (snapshot t)"
    by (simp add: fun_eq_iff)
  have leaves: "\<forall>m\<in>set ?ms. leaf_wf ?U m" and all: "\<forall>m\<in>set ?ms. storable S m"
    using st mem by (auto simp: storable_def)
  obtain t' where t': "genesis ?U ?H ?ms = Inr t'" "snapshot t' = snapshot t"
    using genesis_ok(2) [OF leaves spec] by metis
  have "list_all2 (\<lambda>x m. leaf_from_snapshot S x = Inr m) (map snapshot_of_leaf ?ms) ?ms"
    using all by (simp add: list_all2_conv_all_nth leaf_snapshot_roundtrip)
  then have "trie_from_snapshots S (map snapshot_of_leaf ?ms) = Inr t'"
    using t'(1) by (auto simp: trie_from_snapshots_leaves)
  moreover note g = genesis_ok(1) [OF leaves t'(1)]
  moreover have "smt_root ?H (ot_root t') = smt_root ?H (ot_root t)"
    using g wf t'(2) trie_invD(6) smt_root_of_map by blast
  ultimately show ?thesis using that t'(2) by simp
qed

text \<open>A trie with an isolated member does not survive a store.\<close>

lemma isolated_not_rebuilt:
  assumes "x \<in> set xs" and "ms_device_keys x = []"
  shows "trie_from_snapshots S xs \<noteq> Inr t"
proof
  assume "trie_from_snapshots S xs = Inr t"
  then obtain m where "leaf_from_snapshot S x = Inr m"
    using assms(1) by (auto simp: trie_from_snapshots_leaves list_all2_conv_all_nth in_set_conv_nth)
  then show False using assms(2) by (simp add: leaf_from_snapshot_ok member_leaf_new_ok)
qed

text \<open>Pushing one more snapshot is adding its member.\<close>

lemma snapshots_push:
  assumes laws: "nfc_laws (svc_U S)" and t: "trie_from_snapshots S xs = Inr t"
    and m: "leaf_from_snapshot S x = Inr m" and add: "add_member (svc_U S) (svc_H S) t m = Inr t1"
  obtains t' where "trie_from_snapshots S (xs @ [x]) = Inr t'" and "snapshot t' = snapshot t1"
proof -
  let ?U = "svc_U S" and ?H = "svc_H S"
  obtain ms where ms: "list_all2 (\<lambda>x m. leaf_from_snapshot S x = Inr m) xs ms" "genesis ?U ?H ms = Inr t"
    using t by (auto simp: trie_from_snapshots_leaves)
  have wf: "\<forall>m\<in>set (ms @ [m]). leaf_wf ?U m"
    using rebuilt_leaves_storable [OF laws ms(1)] leaf_from_snapshot_storable [OF laws m]
    by (auto simp: storable_def)
  have g: "spec_genesis ?U Map.empty ms = Inr (snapshot t)" "trie_inv ?U ?H t"
    using genesis_ok(1) [OF _ ms(2)] wf by auto
  have "member_count t + 1 < 2 ^ 64"
    using add by (auto simp: add_member_def insert_leaf_def and_then_eq_Inr ok_or_eq_Inr Let_def
        checked_add_usize_def member_count_def split: if_splits prod.splits)
  then have "spec_add ?U (snapshot t) m = Inr (snapshot t1)"
    using add_member_implements [OF g(2), of m] wf add by simp
  then have "spec_genesis ?U Map.empty (ms @ [m]) = Inr (snapshot t1)"
    using g(1) by (simp add: spec_genesis_append)
  then obtain t' where "genesis ?U ?H (ms @ [m]) = Inr t'" "snapshot t' = snapshot t1"
    using genesis_ok(2) [OF wf] by metis
  then show ?thesis
    using that ms(1) m by (auto simp: trie_from_snapshots_leaves intro!: exI [of _ "ms @ [m]"] list_all2_appendI)
qed

end
