(* ===== verification/Ledger.thy ===== *)
theory Ledger
  imports Rebuild
begin

text \<open>
  The stories of an administrator against the chain. What each step of a story touches; the interface
  \<open>chain_ledger\<close> the service relies on, with the repository's mock chain as its instance; and, proved
  once from the interface, that admission and revocation keep a record in step with the chain, and
  that a record the chain has left behind stays behind.
\<close>

section \<open>What each step touches\<close>

text \<open>Only the disk and the random numbers; only the network; only the network and the endpoint.\<close>

lemma svc_update_data_simps [simp]:
  "svc_data (svc_update_data f s) = f (svc_data s)"
  "sv_chain (svc_update_data f s) = sv_chain s"
  "sv_net (svc_update_data f s) = sv_net s"
  "sv_endpoint (svc_update_data f s) = sv_endpoint s"
  "sv_transport_mode (svc_update_data f s) = sv_transport_mode s"
  "sv_disk (svc_update_data f s) = sv_disk s"
  "ps_path (sv_store (svc_update_data f s)) = ps_path (sv_store s)"
  "ps_key (sv_store (svc_update_data f s)) = ps_key (sv_store s)"
  by (simp_all add: svc_update_data_def)

lemma svc_save_frame:
  assumes "svc_save S s = (r, s')"
  shows "sv_store s' = sv_store s" and "sv_chain s' = sv_chain s" and "sv_net s' = sv_net s"
    and "sv_endpoint s' = sv_endpoint s" and "sv_transport_mode s' = sv_transport_mode s"
  using assms by (auto simp: svc_save_def Let_def split: prod.splits)

lemma on_chain_run:
  "on_chain m s = (r, s') \<longleftrightarrow> (\<exists>c. m (sv_chain s) = (r, c) \<and> s' = s\<lparr>sv_chain := c\<rparr>)"
  by (simp add: on_chain_def eff_zoom_run)

lemma on_net_run:
  "on_net m s = (r, s') \<longleftrightarrow> (\<exists>n. m (sv_net s) = (r, n) \<and> s' = s\<lparr>sv_net := n\<rparr>)"
  by (simp add: on_net_def eff_zoom_run)

text \<open>States that differ in the network and the endpoint only.\<close>

definition same_node :: "('c, 'n) OrgService \<Rightarrow> ('c, 'n) OrgService \<Rightarrow> bool" where
  "same_node s s' \<longleftrightarrow>
     sv_store s' = sv_store s \<and> sv_chain s' = sv_chain s \<and> sv_disk s' = sv_disk s
     \<and> sv_transport_mode s' = sv_transport_mode s \<and> sv_rng s' = sv_rng s"

lemma same_node_order: "transp same_node" "reflp same_node"
  by (auto simp: same_node_def transp_def reflp_def)

lemma same_node_keeps:
  "eff_keeps same_node (on_net m)" "eff_keeps same_node (eff_modify (\<lambda>s. s\<lparr>sv_endpoint := ep\<rparr>))"
  by (auto simp: eff_keeps_def on_net_def eff_zoom_def same_node_def split: prod.splits)

lemmas keeps_rules =
  eff_keeps_bind [OF same_node_order(1)] eff_keeps_pure [OF same_node_order(2)] eff_keeps_map_err same_node_keeps

lemma ensure_endpoint_keeps: "eff_keeps same_node (ensure_endpoint S pid)"
  by (auto simp: ensure_endpoint_def Let_def intro!: keeps_rules)

lemma send_keeps:
  "eff_keeps same_node (send_message S ep addr msg)" "eff_keeps same_node (send_message_to_id S ep i msg)"
  by (auto simp: send_message_def send_message_to_id_def intro!: keeps_rules)

lemma receive_message_keeps: "eff_keeps same_node (receive_message S)"
  by (auto simp: receive_message_def intro!: keeps_rules ensure_endpoint_keeps)

lemma keeps_run: "eff_keeps R m \<Longrightarrow> m s = (r, s') \<Longrightarrow> R s s'"
  by (metis eff_keeps_def snd_conv)

lemma same_node_data: "same_node s s' \<Longrightarrow> svc_data s' = svc_data s \<and> sv_chain s' = sv_chain s"
  by (simp add: same_node_def)

section \<open>Records\<close>

lemma find_update_first:
  assumes "\<And>x. Q x \<Longrightarrow> Q (f x)"
  shows "find Q (update_first Q f xs) = map_option f (find Q xs)"
  using assms by (induction xs) auto

lemma find_update_first_other:
  assumes "\<And>x. Q x \<Longrightarrow> \<not> P x \<and> \<not> P (f x)"
  shows "find P (update_first Q f xs) = find P xs"
  using assms by (induction xs) auto

lemma find_org_ok: "find_org i d = Inr r \<longleftrightarrow> find (\<lambda>r. or_org_id r = i) (sd_orgs d) = Some r"
  by (simp add: find_org_def ok_or_eq_Inr)

lemma find_org_id: "find_org i d = Inr r \<Longrightarrow> or_org_id r = i"
  by (auto simp: find_org_ok find_Some_iff)

lemma update_org_record_ok:
  "update_org_record i f s = (Inr u, s') \<longleftrightarrow>
     (\<exists>r. find_org i (svc_data s) = Inr r) \<and>
     s' = svc_update_data (\<lambda>d. d\<lparr>sd_orgs := update_first (\<lambda>r. or_org_id r = i) f (sd_orgs d)\<rparr>) s"
  by (auto simp: update_org_record_def effect_simps)

lemma update_org_record_error:
  "update_org_record i f s = (Inl e, s') \<Longrightarrow> s' = s"
  by (auto simp: update_org_record_def effect_simps)

lemma find_org_updated:
  assumes "\<And>r. or_org_id (f r) = or_org_id r" and "find_org i d = Inr r"
  shows "find_org i (d\<lparr>sd_orgs := update_first (\<lambda>r. or_org_id r = i) f (sd_orgs d)\<rparr>) = Inr (f r)"
    and "j \<noteq> i \<Longrightarrow> find_org j (d\<lparr>sd_orgs := update_first (\<lambda>r. or_org_id r = i) f (sd_orgs d)\<rparr>) = find_org j d"
  using assms find_update_first [of "\<lambda>r. or_org_id r = i" f "sd_orgs d"]
    find_update_first_other [of "\<lambda>r. or_org_id r = i" "\<lambda>r. or_org_id r = j" f "sd_orgs d"]
  by (auto simp: find_org_def ok_or_eq_Inr)

section \<open>The parts of a story\<close>

lemma deliver_keeps:
  "eff_keeps same_node (deliver_admission S i jr a sec plan)"
  "eff_keeps same_node (deliver_revocation S i m a plan')"
  by (cases plan; cases plan';
      auto simp: deliver_admission_def deliver_revocation_def Let_def split: TransportMode.split
        intro!: keeps_rules ensure_endpoint_keeps send_keeps)+

lemma deliver_admission_frame:
  "deliver_admission S i jr a sec plan s = (q, s') \<Longrightarrow> svc_data s' = svc_data s \<and> sv_chain s' = sv_chain s"
  by (rule same_node_data [OF keeps_run [OF deliver_keeps(1)]])

lemma record_and_save_ok:
  assumes "record_and_save S i f x s = (Inr y, s')" and "\<And>r. or_org_id (f r) = or_org_id r"
    and "find_org i (svc_data s) = Inr r"
  shows "y = x" and "sv_chain s' = sv_chain s" and "find_org i (svc_data s') = Inr (f r)"
    and "j \<noteq> i \<Longrightarrow> find_org j (svc_data s') = find_org j (svc_data s)"
proof -
  obtain s1 where s1: "s1 = svc_update_data (\<lambda>d. d\<lparr>sd_orgs := update_first (\<lambda>r. or_org_id r = i) f (sd_orgs d)\<rparr>) s"
      "svc_save S s1 = (Inr (), s')" "y = x"
    using assms(1) by (auto simp: record_and_save_def effect_simps update_org_record_ok)
  note fr = svc_save_frame [OF s1(2)]
  show "y = x" using s1 by simp
  show "sv_chain s' = sv_chain s" using fr s1(1) by simp
  show "find_org i (svc_data s') = Inr (f r)" and
    "j \<noteq> i \<Longrightarrow> find_org j (svc_data s') = find_org j (svc_data s)"
    using fr s1(1) find_org_updated [OF assms(2,3)] by simp_all
qed

text \<open>When it fails on a record that exists, the record is changed in memory and saving has failed.\<close>

lemma record_and_save_fails:
  assumes "record_and_save S i f x s = (Inl e, s')" and "\<And>r. or_org_id (f r) = or_org_id r"
    and "find_org i (svc_data s) = Inr r"
  shows "find_org i (svc_data s') = Inr (f r)" and "sv_chain s' = sv_chain s"
    and "\<exists>s1. svc_save S s1 = (Inl e, s')"
proof -
  define s1 where "s1 = svc_update_data (\<lambda>d. d\<lparr>sd_orgs := update_first (\<lambda>r. or_org_id r = i) f (sd_orgs d)\<rparr>) s"
  have "update_org_record i f s = (Inr (), s1)" using assms(3) by (simp add: update_org_record_ok s1_def)
  then have save: "svc_save S s1 = (Inl e, s')"
    using assms(1) by (auto simp: record_and_save_def effect_simps)
  then show "\<exists>s1. svc_save S s1 = (Inl e, s')" by blast
  show "find_org i (svc_data s') = Inr (f r)" and "sv_chain s' = sv_chain s"
    using svc_save_frame [OF save] find_org_updated(1) [OF assms(2,3)] by (simp_all add: s1_def)
qed

lemma record_and_save_chain:
  assumes "record_and_save S i f x s = (q, s')"
  shows "sv_chain s' = sv_chain s"
  using assms
  by (cases q)
    (auto simp: record_and_save_def effect_simps update_org_record_ok
      dest: svc_save_frame(2) update_org_record_error)

lemma member_id_from_key_id [simp]: "member_id_from_key (be_bytes 32 (k :: bytes32)) = k"
  by (simp add: member_id_from_key_def)

definition joiner_snapshot :: "JoinRequest \<Rightarrow> MemberSnapshot" where
  "joiner_snapshot jr =
     \<lparr>ms_id = jr_member_key jr, ms_handle = jr_handle jr, ms_name = jr_name jr,
      ms_surname = jr_surname jr, ms_member_key = jr_member_key jr,
      ms_device_keys = [jr_device_key jr]\<rparr>"

lemma load_admin_org_ok:
  "load_admin_org S i d = Inr (r, t, kp) \<longleftrightarrow>
     find_org i d = Inr r \<and> trie_from_snapshots S (or_trie_members r) = Inr t
     \<and> (\<exists>p. admin_persona_for_org (ne_ed (se_node S)) i d = Inr p \<and> kp = keypair_from_seed (pr_member_seed p))"
  by (auto simp: load_admin_org_def and_then_eq_Inr)

lemma plan_admission_ok:
  assumes "plan_admission S i jr d = Inr (r, kp, mid, root, delta)"
  obtains t leaf t1 t2 where "find_org i d = Inr r" and "trie_from_snapshots S (or_trie_members r) = Inr t"
    and "leaf_from_snapshot S (joiner_snapshot jr) = Inr leaf"
    and "add_member (svc_U S) (svc_H S) t leaf = Inr t1" and "recalculate (svc_H S) t1 = Inr (t2, delta)"
    and "root_hash t2 = Inr (RootHash root)" and "mid = MemberId (jr_member_key jr)"
    and "load_admin_org S i d = Inr (r, t, kp)"
  using assms
  by (fastforce simp: plan_admission_def Let_def and_then_eq_Inr map_err_eq_Inr load_admin_org_ok
      leaf_from_snapshot_ok joiner_snapshot_def split: prod.splits)

lemma plan_revocation_ok:
  assumes "plan_revocation S i m d = Inr (r, kp, t2, root, delta)"
  obtains t t1 where "find_org i d = Inr r" and "trie_from_snapshots S (or_trie_members r) = Inr t"
    and "delete_member (svc_U S) t (MemberId m) = Inr t1" and "recalculate (svc_H S) t1 = Inr (t2, delta)"
    and "root_hash t2 = Inr (RootHash root)" and "load_admin_org S i d = Inr (r, t, kp)"
  using assms
  by (fastforce simp: plan_revocation_def Let_def and_then_eq_Inr map_err_eq_Inr load_admin_org_ok
      split: prod.splits)

section \<open>Rebuilding after a change\<close>

lemma recalculated:
  assumes "trie_inv U H t1" and "recalculate H t1 = Inr (t2, d)"
  shows "trie_inv U H t2" and "snapshot t2 = snapshot t1" and "root_hash t2 = Inr (smt_root H (ot_root t1))"
  using recalculate_ok [OF assms(1)] assms(2) by (metis old.prod.inject sum.inject(2))+

lemma rebuilt_root:
  assumes "nfc_laws (svc_U S)" and "trie_from_snapshots S xs = Inr t'" and "trie_inv (svc_U S) (svc_H S) t1"
    and "snapshot t' = snapshot t1"
  shows "root_hash t' = Inr (smt_root (svc_H S) (ot_root t1))"
  using rebuilt_trie [OF assms(1,2)] assms(3,4) trie_invD(6) smt_root_of_map by metis

lemma add_member_snapshot:
  assumes "trie_inv U H t" and "leaf_wf U m" and "add_member U H t m = Inr t1"
  shows "trie_inv U H t1" and "snapshot t1 = (snapshot t)(ml_id m \<mapsto> m)" and "snapshot t (ml_id m) = None"
proof -
  have "member_count t + 1 < 2 ^ 64"
    using assms(3) by (auto simp: add_member_def insert_leaf_def and_then_eq_Inr ok_or_eq_Inr Let_def
        checked_add_usize_def member_count_def split: if_splits prod.splits)
  then have *: "spec_add U (snapshot t) m = Inr (snapshot t1)" "trie_inv U H t1"
    using add_member_implements [OF assms(1,2)] assms(3) by simp_all
  then show "trie_inv U H t1" by simp
  show "snapshot t1 = (snapshot t)(ml_id m \<mapsto> m)" and "snapshot t (ml_id m) = None"
    using *(1) by (auto simp: spec_add_def spec_put_def split: if_splits option.splits)
qed

lemma rebuilt_push:
  assumes laws: "nfc_laws (svc_U S)" and t: "trie_from_snapshots S xs = Inr t"
    and m: "leaf_from_snapshot S x = Inr m" and add: "add_member (svc_U S) (svc_H S) t m = Inr t1"
    and rec: "recalculate (svc_H S) t1 = Inr (t2, d)"
  obtains t' where "trie_from_snapshots S (xs @ [x]) = Inr t'" and "root_hash t' = root_hash t2"
    and "snapshot t' = (snapshot t)(ml_id m \<mapsto> m)" and "snapshot t (ml_id m) = None"
proof -
  have wf: "leaf_wf (svc_U S) m" using leaf_from_snapshot_storable [OF laws m] by (simp add: storable_def)
  note t1 = add_member_snapshot [OF rebuilt_trie(1) [OF laws t] wf add]
  obtain t' where t': "trie_from_snapshots S (xs @ [x]) = Inr t'" "snapshot t' = snapshot t1"
    using snapshots_push [OF laws t m add] .
  show ?thesis
    using that [OF t'(1)] rebuilt_root [OF laws t'(1) t1(1) t'(2)] recalculated(3) [OF t1(1) rec] t' t1 by simp
qed

lemma rebuilt_delete:
  assumes laws: "nfc_laws (svc_U S)" and t: "trie_from_snapshots S xs = Inr t"
    and del: "delete_member (svc_U S) t i = Inr t1" and rec: "recalculate (svc_H S) t1 = Inr (t2, d)"
  obtains t' where "trie_from_snapshots S (map snapshot_of_leaf (trie_members t2)) = Inr t'"
    and "root_hash t' = root_hash t2" and "snapshot t' = (snapshot t)(i := None)" and "snapshot t i \<noteq> None"
proof -
  let ?U = "svc_U S" and ?H = "svc_H S"
  have "implements ?U ?H (delete_member ?U t i) (spec_delete (snapshot t) i)"
    using delete_member_implements [OF rebuilt_trie(1) [OF laws t]] .
  then have t1: "trie_inv ?U ?H t1" "snapshot t1 = (snapshot t)(i := None)" "snapshot t i \<noteq> None"
    using del by (auto simp: spec_delete_def split: if_splits)
  note t2 = recalculated [OF t1(1) rec]
  have st: "storable S m" if "snapshot t2 j = Some m" for j m
    using that t2(2) t1(2) rebuilt_trie(3) [OF laws t] by (auto split: if_splits)
  obtain t' where t': "trie_from_snapshots S (map snapshot_of_leaf (trie_members t2)) = Inr t'"
      "snapshot t' = snapshot t2"
    by (rule snapshots_rebuild [OF t2(1)]) (use st in blast)+
  have "snapshot t' = snapshot t1" using t' t2 by simp
  then show ?thesis
    using that [OF t'(1)] rebuilt_root [OF laws t'(1) t1(1)] t2(3) t1 by simp
qed

section \<open>The stages of a story\<close>

text \<open>
  A successful admission or revocation: the planned trie, the submission to the chain, the record. This
  holds for any implementation of \<^verbatim>\<open>ChainOps\<close>.
\<close>

lemma admit_stages:
  assumes run: "admit_member S i jr a sec s = (Inr x, s')"
  obtains r t leaf t1 t2 root delta r' where
    "find_org i (svc_data s) = Inr r" and "trie_from_snapshots S (or_trie_members r) = Inr t"
    and "leaf_from_snapshot S (joiner_snapshot jr) = Inr leaf"
    and "add_member (svc_U S) (svc_H S) t leaf = Inr t1" and "recalculate (svc_H S) t1 = Inr (t2, delta)"
    and "root_hash t2 = Inr (RootHash root)" and "x = jr_member_key jr"
    and "find_org i (svc_data s') = Inr r'"
    and "r' = r\<lparr>or_root_hash := root, or_epoch := or_epoch r + 1, or_last_seq := or_last_seq r + 1,
           or_trie_members := or_trie_members r @ [joiner_snapshot jr]\<rparr>"
    and "\<And>j. j \<noteq> i \<Longrightarrow> find_org j (svc_data s') = find_org j (svc_data s)"
    and "co_submit_update (se_chain S) i root (or_org_pub_key r) (or_epoch r) (or_proxy_account r) (sv_chain s)
        = (Inr (), sv_chain s')"
proof -
  obtain r kp mid root delta c s1 where plan: "plan_admission S i jr (svc_data s) = Inr (r, kp, mid, root, delta)"
    and sub: "co_submit_update (se_chain S) i root (or_org_pub_key r) (or_epoch r) (or_proxy_account r) (sv_chain s) = (Inr (), c)"
    and del: "deliver_admission S i jr a sec (r, kp, mid, root, delta) (s\<lparr>sv_chain := c\<rparr>) = (Inr (), s1)"
    and rec: "record_and_save S i (\<lambda>q. q\<lparr>or_root_hash := root, or_epoch := or_epoch r + 1,
         or_last_seq := or_last_seq r + 1, or_trie_members := or_trie_members q @ [\<lparr>ms_id = member_id_word mid,
           ms_handle = jr_handle jr, ms_name = jr_name jr, ms_surname = jr_surname jr,
           ms_member_key = jr_member_key jr, ms_device_keys = [jr_device_key jr]\<rparr>]\<rparr>)
       (member_id_word mid) s1 = (Inr x, s')"
    using run by (auto simp: admit_member_def effect_simps on_chain_run Let_def split: prod.splits)
  have fr: "svc_data s1 = svc_data s" "sv_chain s1 = c"
    using deliver_admission_frame [OF del] by simp_all
  obtain t leaf t1 t2 where t: "find_org i (svc_data s) = Inr r" "trie_from_snapshots S (or_trie_members r) = Inr t"
    "leaf_from_snapshot S (joiner_snapshot jr) = Inr leaf"
    "add_member (svc_U S) (svc_H S) t leaf = Inr t1" "recalculate (svc_H S) t1 = Inr (t2, delta)"
    "root_hash t2 = Inr (RootHash root)" "mid = MemberId (jr_member_key jr)"
    using plan_admission_ok [OF plan] by metis
  note ok = record_and_save_ok [OF rec _ t(1) [folded fr(1)]]
  show ?thesis
    by (rule that [OF t(1-6)])
      (use ok t(7) fr sub in \<open>simp_all add: joiner_snapshot_def\<close>)
qed

lemma revoke_stages:
  assumes run: "revoke_member S i m a s = (Inr x, s')"
  obtains r t t1 t2 root delta r' where
    "find_org i (svc_data s) = Inr r" and "trie_from_snapshots S (or_trie_members r) = Inr t"
    and "delete_member (svc_U S) t (MemberId m) = Inr t1" and "recalculate (svc_H S) t1 = Inr (t2, delta)"
    and "root_hash t2 = Inr (RootHash root)"
    and "find_org i (svc_data s') = Inr r'"
    and "r' = r\<lparr>or_root_hash := root, or_epoch := or_epoch r + 1, or_last_seq := or_last_seq r + 1,
           or_trie_members := map snapshot_of_leaf (trie_members t2)\<rparr>"
    and "\<And>j. j \<noteq> i \<Longrightarrow> find_org j (svc_data s') = find_org j (svc_data s)"
    and "co_submit_update (se_chain S) i root (or_org_pub_key r) (or_epoch r) (or_proxy_account r) (sv_chain s)
        = (Inr (), sv_chain s')"
proof -
  obtain r kp t2 root delta c s1 where plan: "plan_revocation S i m (svc_data s) = Inr (r, kp, t2, root, delta)"
    and sub: "co_submit_update (se_chain S) i root (or_org_pub_key r) (or_epoch r) (or_proxy_account r) (sv_chain s) = (Inr (), c)"
    and del: "deliver_revocation S i m a (r, kp, t2, root, delta) (s\<lparr>sv_chain := c\<rparr>) = (Inr (), s1)"
    and rec: "record_and_save S i (\<lambda>q. q\<lparr>or_root_hash := root, or_epoch := or_epoch r + 1,
         or_last_seq := or_last_seq r + 1, or_trie_members := map snapshot_of_leaf (trie_members t2)\<rparr>)
       () s1 = (Inr x, s')"
    using run by (auto simp: revoke_member_def effect_simps on_chain_run Let_def split: prod.splits)
  have fr: "svc_data s1 = svc_data s" "sv_chain s1 = c"
    using same_node_data [OF keeps_run [OF deliver_keeps(2) del]] by simp_all
  obtain t t1 where t: "find_org i (svc_data s) = Inr r" "trie_from_snapshots S (or_trie_members r) = Inr t"
    "delete_member (svc_U S) t (MemberId m) = Inr t1" "recalculate (svc_H S) t1 = Inr (t2, delta)"
    "root_hash t2 = Inr (RootHash root)"
    using plan_revocation_ok [OF plan] by metis
  note ok = record_and_save_ok [OF rec _ t(1) [folded fr(1)]]
  show ?thesis
    by (rule that [OF t]) (use ok fr sub in simp_all)
qed

section \<open>The chain as a ledger\<close>

text \<open>
  What the service relies on of \<^verbatim>\<open>ChainOps\<close>: reading returns the slot, an update succeeds only at the
  expected epoch and then replaces the slot under the next one, a failed update changes no slot.
\<close>

locale chain_ledger =
  fixes ops :: "'c ChainOps"
    and slots_of :: "'c \<Rightarrow> OrgId \<rightharpoonup> OrgState"
  assumes read_state: "co_read_state ops i c = (Inr (slots_of c i), c)"
    and update_ok: "co_submit_update ops i r k e p c = (Inr (), c') \<Longrightarrow>
      (\<exists>st. slots_of c i = Some st \<and> os_epoch st = e)
      \<and> slots_of c' = (slots_of c)(i \<mapsto> \<lparr>os_root_hash = RootHash r, os_org_pub_key = k, os_epoch = e + 1\<rparr>)"
    and update_error: "co_submit_update ops i r k e p c = (Inl err, c') \<Longrightarrow> slots_of c' = slots_of c"
    and genesis_ok: "co_submit_genesis ops r k c = (Inr (i, p), c') \<Longrightarrow>
      slots_of c' = (slots_of c)(i \<mapsto> \<lparr>os_root_hash = RootHash r, os_org_pub_key = k, os_epoch = 1\<rparr>)"

interpretation mock: chain_ledger mock_chain_ops mc_slots
  by unfold_locales
    (auto simp: mock_chain_ops_def mock_read_state_def mock_submit_update_def mock_submit_genesis_def Let_def
      split: option.splits if_splits)

text \<open>A record in step with the chain, and one that the chain has left behind.\<close>

definition in_sync ::
  "('c, 'n) ServiceEnv \<Rightarrow> ('c \<Rightarrow> OrgId \<rightharpoonup> OrgState) \<Rightarrow> OrgId \<Rightarrow> ('c, 'n) OrgService \<Rightarrow> bool" where
  "in_sync S slots_of i s \<longleftrightarrow>
     (\<exists>r st t. find_org i (svc_data s) = Inr r \<and> slots_of (sv_chain s) i = Some st
        \<and> trie_from_snapshots S (or_trie_members r) = Inr t \<and> root_hash t = Inr (os_root_hash st)
        \<and> RootHash (or_root_hash r) = os_root_hash st \<and> or_epoch r = os_epoch st
        \<and> or_org_pub_key r = os_org_pub_key st)"

definition left_behind ::
  "('c \<Rightarrow> OrgId \<rightharpoonup> OrgState) \<Rightarrow> OrgId \<Rightarrow> ('c, 'n) OrgService \<Rightarrow> bool" where
  "left_behind slots_of i s \<longleftrightarrow>
     (\<exists>r st. find_org i (svc_data s) = Inr r \<and> slots_of (sv_chain s) i = Some st
        \<and> os_epoch st \<noteq> or_epoch r)"

context chain_ledger
begin

lemma admit_runs:
  assumes ops: "se_chain S = ops" and run: "admit_member S i jr a sec s = (Inr x, s')"
  obtains r t leaf t1 t2 root delta r' where
    "find_org i (svc_data s) = Inr r" and "trie_from_snapshots S (or_trie_members r) = Inr t"
    and "leaf_from_snapshot S (joiner_snapshot jr) = Inr leaf"
    and "add_member (svc_U S) (svc_H S) t leaf = Inr t1" and "recalculate (svc_H S) t1 = Inr (t2, delta)"
    and "root_hash t2 = Inr (RootHash root)" and "x = jr_member_key jr"
    and "find_org i (svc_data s') = Inr r'"
    and "r' = r\<lparr>or_root_hash := root, or_epoch := or_epoch r + 1, or_last_seq := or_last_seq r + 1,
           or_trie_members := or_trie_members r @ [joiner_snapshot jr]\<rparr>"
    and "\<And>j. j \<noteq> i \<Longrightarrow> find_org j (svc_data s') = find_org j (svc_data s)"
    and "slots_of (sv_chain s') = (slots_of (sv_chain s))(i \<mapsto> \<lparr>os_root_hash = RootHash root,
           os_org_pub_key = or_org_pub_key r, os_epoch = or_epoch r + 1\<rparr>)"
  by (rule admit_stages [OF run], rule that, assumption+) (auto simp: ops dest: update_ok)

lemma revoke_runs:
  assumes ops: "se_chain S = ops" and run: "revoke_member S i m a s = (Inr x, s')"
  obtains r t t1 t2 root delta r' where
    "find_org i (svc_data s) = Inr r" and "trie_from_snapshots S (or_trie_members r) = Inr t"
    and "delete_member (svc_U S) t (MemberId m) = Inr t1" and "recalculate (svc_H S) t1 = Inr (t2, delta)"
    and "root_hash t2 = Inr (RootHash root)"
    and "find_org i (svc_data s') = Inr r'"
    and "r' = r\<lparr>or_root_hash := root, or_epoch := or_epoch r + 1, or_last_seq := or_last_seq r + 1,
           or_trie_members := map snapshot_of_leaf (trie_members t2)\<rparr>"
    and "\<And>j. j \<noteq> i \<Longrightarrow> find_org j (svc_data s') = find_org j (svc_data s)"
    and "slots_of (sv_chain s') = (slots_of (sv_chain s))(i \<mapsto> \<lparr>os_root_hash = RootHash root,
           os_org_pub_key = or_org_pub_key r, os_epoch = or_epoch r + 1\<rparr>)"
  by (rule revoke_stages [OF run], rule that, assumption+) (auto simp: ops dest: update_ok)

text \<open>A record the chain has left behind stays so: both stories fail at the submission.\<close>

lemma left_behind_stuck:
  assumes ops: "se_chain S = ops" and lb: "left_behind slots_of i s"
  shows "admit_member S i jr a sec s = (q, s') \<Longrightarrow> \<not> is_ok q \<and> left_behind slots_of i s'"
    and "revoke_member S i m a s = (q', s') \<Longrightarrow> \<not> is_ok q' \<and> left_behind slots_of i s'"
proof -
  obtain r st where r: "find_org i (svc_data s) = Inr r" "slots_of (sv_chain s) i = Some st" "os_epoch st \<noteq> or_epoch r"
    using lb by (auto simp: left_behind_def)
  have sub: "\<exists>e. o' = Inl e \<and> slots_of c = slots_of (sv_chain s)"
    if "co_submit_update ops i root k (or_epoch r) p (sv_chain s) = (o', c)" for o' root k p c
  proof (cases o')
    case (Inl e)
    then show ?thesis using that update_error by blast
  next
    case (Inr u)
    then show ?thesis using that r(2,3) update_ok [of i root k "or_epoch r" p "sv_chain s" c] by simp
  qed
  have keep: "left_behind slots_of i (s\<lparr>sv_chain := c\<rparr>)" if "slots_of c = slots_of (sv_chain s)" for c
    using lb that by (simp add: left_behind_def)
  show "\<not> is_ok q \<and> left_behind slots_of i s'" if "admit_member S i jr a sec s = (q, s')"
  proof (cases "plan_admission S i jr (svc_data s)")
    case (Inl e)
    then show ?thesis using that lb by (auto simp: admit_member_def)
  next
    case (Inr plan)
    obtain q0 kp mid root delta where plan: "plan = (q0, kp, mid, root, delta)" by (cases plan)
    have "q0 = r" using plan_admission_ok [OF Inr [unfolded plan]] r(1) by (metis sum.inject(2))
    obtain e c where "co_submit_update ops i root (or_org_pub_key r) (or_epoch r) (or_proxy_account r) (sv_chain s) = (Inl e, c)"
        "slots_of c = slots_of (sv_chain s)"
      using sub by (metis surj_pair)
    then show ?thesis
      using that Inr plan ops keep \<open>q0 = r\<close>
      by (auto simp: admit_member_def eff_bind_def on_chain_def eff_zoom_def)
  qed
  show "\<not> is_ok q' \<and> left_behind slots_of i s'" if "revoke_member S i m a s = (q', s')"
  proof (cases "plan_revocation S i m (svc_data s)")
    case (Inl e)
    then show ?thesis using that lb by (auto simp: revoke_member_def)
  next
    case (Inr plan)
    obtain q0 kp mid root delta where plan: "plan = (q0, kp, mid, root, delta)" by (cases plan)
    have "q0 = r" using plan_revocation_ok [OF Inr [unfolded plan]] r(1) by (metis sum.inject(2))
    obtain e c where "co_submit_update ops i root (or_org_pub_key r) (or_epoch r) (or_proxy_account r) (sv_chain s) = (Inl e, c)"
        "slots_of c = slots_of (sv_chain s)"
      using sub by (metis surj_pair)
    then show ?thesis
      using that Inr plan ops keep \<open>q0 = r\<close>
      by (auto simp: revoke_member_def eff_bind_def on_chain_def eff_zoom_def)
  qed
qed

text \<open>
  An admission that fails after the chain took its update: either nothing was recorded, and the record is
  left behind, or saving the recorded change has failed, and the record in memory is in step.
\<close>

lemma failed_admission:
  assumes laws: "nfc_laws (svc_U S)" and ops: "se_chain S = ops"
    and run: "admit_member S i jr a sec s = (Inl e, s')" and moved: "slots_of (sv_chain s') \<noteq> slots_of (sv_chain s)"
  shows "svc_data s' = svc_data s \<and> left_behind slots_of i s'
    \<or> (\<exists>s1. svc_save S s1 = (Inl e, s')) \<and> in_sync S slots_of i s'"
proof -
  obtain r kp mid root delta where plan: "plan_admission S i jr (svc_data s) = Inr (r, kp, mid, root, delta)"
    using run moved by (cases "plan_admission S i jr (svc_data s)") (auto simp: admit_member_def)
  obtain q c where sub: "co_submit_update ops i root (or_org_pub_key r) (or_epoch r) (or_proxy_account r) (sv_chain s) = (q, c)"
    by fastforce
  have "q = Inr ()"
    using run plan ops moved sub update_error
    by (cases q) (auto simp: admit_member_def eff_bind_def on_chain_def eff_zoom_def)
  note slots = update_ok [OF sub [unfolded \<open>q = Inr ()\<close>], THEN conjunct2]
  obtain t leaf t1 t2 where t: "find_org i (svc_data s) = Inr r" "trie_from_snapshots S (or_trie_members r) = Inr t"
    "leaf_from_snapshot S (joiner_snapshot jr) = Inr leaf"
    "add_member (svc_U S) (svc_H S) t leaf = Inr t1" "recalculate (svc_H S) t1 = Inr (t2, delta)"
    "root_hash t2 = Inr (RootHash root)" "mid = MemberId (jr_member_key jr)"
    using plan_admission_ok [OF plan] by metis
  obtain d s1 where del: "deliver_admission S i jr a sec (r, kp, mid, root, delta) (s\<lparr>sv_chain := c\<rparr>) = (d, s1)"
    by fastforce
  have fr: "svc_data s1 = svc_data s" "sv_chain s1 = c" using deliver_admission_frame [OF del] by simp_all
  show ?thesis
  proof (cases d)
    case (Inl e1)
    then have "s' = s1" using run plan ops sub \<open>q = Inr ()\<close> del
      by (auto simp: admit_member_def effect_simps on_chain_run Let_def)
    then show ?thesis using fr t(1) slots by (simp add: left_behind_def)
  next
    case (Inr u)
    let ?f = "\<lambda>q. q\<lparr>or_root_hash := root, or_epoch := or_epoch r + 1,
         or_last_seq := or_last_seq r + 1, or_trie_members := or_trie_members q @ [joiner_snapshot jr]\<rparr>"
    have rec: "record_and_save S i ?f (member_id_word mid) s1 = (Inl e, s')"
      using run plan ops sub \<open>q = Inr ()\<close> del Inr t(7)
      by (auto simp: admit_member_def effect_simps on_chain_run Let_def joiner_snapshot_def)
    note out = record_and_save_fails [OF rec _ t(1) [folded fr(1)], simplified]
    obtain t' where t': "trie_from_snapshots S (or_trie_members r @ [joiner_snapshot jr]) = Inr t'" "root_hash t' = root_hash t2"
      by (rule rebuilt_push [OF laws t(2-5)])
    have "in_sync S slots_of i s'"
      unfolding in_sync_def using out(1,2) t' t(6) slots fr(2) by simp
    then show ?thesis using out(3) by blast
  qed
qed

lemma admit_sync:
  assumes laws: "nfc_laws (svc_U S)" and ops: "se_chain S = ops"
    and run: "admit_member S i jr a sec s = (Inr x, s')"
  shows "in_sync S slots_of i s' \<and> x = jr_member_key jr
    \<and> (\<exists>r r' t t' leaf. find_org i (svc_data s) = Inr r \<and> find_org i (svc_data s') = Inr r'
        \<and> trie_from_snapshots S (or_trie_members r) = Inr t \<and> trie_from_snapshots S (or_trie_members r') = Inr t'
        \<and> leaf_from_snapshot S (joiner_snapshot jr) = Inr leaf
        \<and> snapshot t (MemberId x) = None \<and> snapshot t' = (snapshot t)(MemberId x \<mapsto> leaf)
        \<and> or_epoch r' = or_epoch r + 1 \<and> or_last_seq r' = or_last_seq r + 1)
    \<and> (\<forall>j. j \<noteq> i \<longrightarrow> find_org j (svc_data s') = find_org j (svc_data s)
        \<and> slots_of (sv_chain s') j = slots_of (sv_chain s) j)"
proof -
  obtain r t leaf t1 t2 root delta r' where
    r: "find_org i (svc_data s) = Inr r" "trie_from_snapshots S (or_trie_members r) = Inr t"
      "leaf_from_snapshot S (joiner_snapshot jr) = Inr leaf"
      "add_member (svc_U S) (svc_H S) t leaf = Inr t1" "recalculate (svc_H S) t1 = Inr (t2, delta)"
    and root: "root_hash t2 = Inr (RootHash root)" "x = jr_member_key jr"
    and r': "find_org i (svc_data s') = Inr r'"
      "r' = r\<lparr>or_root_hash := root, or_epoch := or_epoch r + 1, or_last_seq := or_last_seq r + 1,
           or_trie_members := or_trie_members r @ [joiner_snapshot jr]\<rparr>"
    and other: "\<And>j. j \<noteq> i \<Longrightarrow> find_org j (svc_data s') = find_org j (svc_data s)"
    and chain: "slots_of (sv_chain s') = (slots_of (sv_chain s))(i \<mapsto> \<lparr>os_root_hash = RootHash root,
           os_org_pub_key = or_org_pub_key r, os_epoch = or_epoch r + 1\<rparr>)"
    by (rule admit_runs [OF ops run]) (rule that)
  have "ml_id leaf = MemberId x"
    using r(3) root(2) by (simp add: leaf_from_snapshot_ok member_leaf_new_ok joiner_snapshot_def)
  moreover have mem: "or_trie_members r' = or_trie_members r @ [joiner_snapshot jr]" using r'(2) by simp
  obtain t' where t': "trie_from_snapshots S (or_trie_members r') = Inr t'" "root_hash t' = root_hash t2"
      "snapshot t' = (snapshot t)(ml_id leaf \<mapsto> leaf)" "snapshot t (ml_id leaf) = None"
    by (rule rebuilt_push [OF laws r(2-5)]) (simp add: mem)
  moreover have "in_sync S slots_of i s'"
    using t' r' root chain by (simp add: in_sync_def)
  ultimately show ?thesis
    using r r'(1) root(2) chain other by (simp add: r'(2))
qed

lemma revoke_sync:
  assumes laws: "nfc_laws (svc_U S)" and ops: "se_chain S = ops"
    and run: "revoke_member S i m a s = (Inr x, s')"
  shows "in_sync S slots_of i s'
    \<and> (\<exists>r r' t t'. find_org i (svc_data s) = Inr r \<and> find_org i (svc_data s') = Inr r'
        \<and> trie_from_snapshots S (or_trie_members r) = Inr t \<and> trie_from_snapshots S (or_trie_members r') = Inr t'
        \<and> snapshot t (MemberId m) \<noteq> None \<and> snapshot t' = (snapshot t)(MemberId m := None)
        \<and> or_epoch r' = or_epoch r + 1 \<and> or_last_seq r' = or_last_seq r + 1)
    \<and> (\<forall>j. j \<noteq> i \<longrightarrow> find_org j (svc_data s') = find_org j (svc_data s)
        \<and> slots_of (sv_chain s') j = slots_of (sv_chain s) j)"
proof -
  obtain r t t1 t2 root delta r' where
    r: "find_org i (svc_data s) = Inr r" "trie_from_snapshots S (or_trie_members r) = Inr t"
      "delete_member (svc_U S) t (MemberId m) = Inr t1" "recalculate (svc_H S) t1 = Inr (t2, delta)"
    and root: "root_hash t2 = Inr (RootHash root)"
    and r': "find_org i (svc_data s') = Inr r'"
      "r' = r\<lparr>or_root_hash := root, or_epoch := or_epoch r + 1, or_last_seq := or_last_seq r + 1,
           or_trie_members := map snapshot_of_leaf (trie_members t2)\<rparr>"
    and other: "\<And>j. j \<noteq> i \<Longrightarrow> find_org j (svc_data s') = find_org j (svc_data s)"
    and chain: "slots_of (sv_chain s') = (slots_of (sv_chain s))(i \<mapsto> \<lparr>os_root_hash = RootHash root,
           os_org_pub_key = or_org_pub_key r, os_epoch = or_epoch r + 1\<rparr>)"
    by (rule revoke_runs [OF ops run]) (rule that)
  have mem: "or_trie_members r' = map snapshot_of_leaf (trie_members t2)" using r'(2) by simp
  obtain t' where t': "trie_from_snapshots S (or_trie_members r') = Inr t'" "root_hash t' = root_hash t2"
      "snapshot t' = (snapshot t)(MemberId m := None)" "snapshot t (MemberId m) \<noteq> None"
    by (rule rebuilt_delete [OF laws r(2-4)]) (simp add: mem)
  moreover have "in_sync S slots_of i s'"
    using t' r' root chain by (simp add: in_sync_def)
  ultimately show ?thesis
    using r r'(1) chain other by (simp add: r'(2))
qed

end

end
