(* ===== verification/Receive.thy ===== *)
theory Receive
  imports Ledger NodeVerify
begin

text \<open>
  The stories of founding and receiving: what a run of \<^verbatim>\<open>create_organisation\<close>, \<^verbatim>\<open>receive_and_verify\<close> and
  \<^verbatim>\<open>receive_and_self_delete_if_revoked\<close> does to the stored records, and that the message of an admission
  is accepted by the joiner it admits.
\<close>

section \<open>Founding an organisation\<close>

text \<open>What is documented of ed25519: the verifying key of a seed is a valid key.\<close>

definition keys_valid :: "('c, 'n) ServiceEnv \<Rightarrow> bool" where
  "keys_valid S \<longleftrightarrow> (\<forall>seed. svc_vk S (vk_word (ed_verifying_key (ne_ed (se_node S)) seed)))"

lemma keys_validD: "keys_valid S \<Longrightarrow> svc_vk S (vk_word (keypair_verifying_key (ne_ed (se_node S)) kp))"
  by (simp add: keys_valid_def keypair_verifying_key_def)

lemma update_persona_status_ok:
  "update_persona_status pid i st s = (Inr u, s') \<longleftrightarrow>
     (\<exists>p. find_persona pid (svc_data s) = Inr p) \<and>
     s' = svc_update_data (\<lambda>d. d\<lparr>sd_personas := update_first (\<lambda>p. pr_persona_id p = pid)
       (\<lambda>p. p\<lparr>pr_status := st, pr_org_id := Some i\<rparr>) (sd_personas d)\<rparr>) s"
  by (auto simp: update_persona_status_def effect_simps)

lemma find_append_none: "find Q xs = None \<Longrightarrow> find Q (xs @ ys) = find Q ys"
  by (induction xs) (auto split: if_splits)

text \<open>The member key of a persona, the snapshot of a founder and the record of the organisation.\<close>

definition persona_member_vk :: "Ed25519 \<Rightarrow> PersonaRecord \<Rightarrow> bytes32" where
  "persona_member_vk E p = vk_word (keypair_verifying_key E (keypair_from_seed (pr_member_seed p)))"

definition founder_snapshot :: "Ed25519 \<Rightarrow> PersonaRecord \<Rightarrow> MemberSnapshot" where
  "founder_snapshot E p =
     \<lparr>ms_id = persona_member_vk E p, ms_handle = pr_handle p, ms_name = pr_name p,
      ms_surname = pr_surname p, ms_member_key = persona_member_vk E p,
      ms_device_keys = [vk_word (device_verifying_key (persona_device E p))]\<rparr>"

definition founder_record :: "Ed25519 \<Rightarrow> PersonaRecord \<Rightarrow> OrgId \<Rightarrow> bytes32 \<Rightarrow> bytes32 option \<Rightarrow> OrgRecord" where
  "founder_record E p i root pa =
     \<lparr>or_org_id = i, or_root_hash = root, or_org_pub_key = persona_member_vk E p, or_epoch = 1,
      or_org_secret = None, or_last_seq = 0, or_admin_member_key = persona_member_vk E p,
      or_trie_members = [founder_snapshot E p], or_proxy_account = pa\<rparr>"

lemma svc_save_same: "svc_save S s = (r, s') \<Longrightarrow> sv_store s' = sv_store s \<and> sv_chain s' = sv_chain s"
  using svc_save_frame by blast

lemma create_organisation_runs:
  assumes valid: "keys_valid S" and run: "create_organisation S pid s = (Inr i, s')"
  obtains p leaf t0 t d rh c pa where "find_persona pid (svc_data s) = Inr p"
    and "leaf_from_snapshot S (founder_snapshot (ne_ed (se_node S)) p) = Inr leaf"
    and "genesis (svc_U S) (svc_H S) [leaf] = Inr t0" and "recalculate (svc_H S) t0 = Inr (t, d)"
    and "root_hash t = Inr rh"
    and "co_submit_genesis (se_chain S) (root_hash_word rh) (persona_member_vk (ne_ed (se_node S)) p)
        (sv_chain s) = (Inr (i, pa), c)"
    and "sv_chain s' = c"
    and "svc_data s' = (svc_data s)\<lparr>
        sd_personas := update_first (\<lambda>p. pr_persona_id p = pid)
          (\<lambda>p. p\<lparr>pr_status := Active, pr_org_id := Some i\<rparr>) (sd_personas (svc_data s)),
        sd_orgs := sd_orgs (svc_data s) @ [founder_record (ne_ed (se_node S)) p i (root_hash_word rh) pa]\<rparr>"
  using run
  by (auto simp: create_organisation_def persona_keys_def Let_def effect_simps on_chain_run
      and_then_eq_Inr map_err_eq_Inr update_persona_status_ok leaf_from_snapshot_ok keys_validD [OF valid]
      founder_record_def founder_snapshot_def persona_member_vk_def persona_device_def
      member_key_def device_key_def dest!: svc_save_same)

lemma founder_trie:
  assumes laws: "nfc_laws (svc_U S)" and leaf: "leaf_from_snapshot S x = Inr m"
    and t: "genesis (svc_U S) (svc_H S) [m] = Inr t0" "recalculate (svc_H S) t0 = Inr (t, d)"
  shows "trie_from_snapshots S [x] = Inr t0" and "root_hash t0 = root_hash t" and "trie_members t0 = [m]"
proof -
  have wf: "\<forall>n\<in>set [m]. leaf_wf (svc_U S) n"
    using leaf_from_snapshot_storable [OF laws leaf] by (simp add: storable_def)
  note g = genesis_ok(1) [OF wf t(1)]
  show "trie_from_snapshots S [x] = Inr t0" using leaf t(1) by (auto simp: trie_from_snapshots_leaves)
  show "root_hash t0 = root_hash t" using g recalculated(3) [OF _ t(2), of "svc_U S"] by simp
  have snap: "snapshot t0 = [ml_id m \<mapsto> m]"
    using g by (auto simp: spec_add_def spec_put_def handle_conflict_def)
  have inv: "smt_wf (svc_H S) (ot_root t0)" using g trie_invD(6) by blast
  have "length (trie_members t0) = 1"
    using length_collect_members [OF inv] by (simp add: trie_members_def snap)
  moreover have "m \<in> set (trie_members t0)"
    using collect_members_get [OF inv, of m] by (simp add: trie_members_def snap)
  ultimately show "trie_members t0 = [m]" by (cases "trie_members t0") auto
qed

context chain_ledger
begin

lemma create_organisation_sync:
  assumes laws: "nfc_laws (svc_U S)" "keys_valid S" and ops: "se_chain S = ops"
    and run: "create_organisation S pid s = (Inr i, s')" and fresh: "is_first_admission (svc_data s) i"
  shows "in_sync S slots_of i s' \<and> (\<exists>st. slots_of (sv_chain s') i = Some st \<and> os_epoch st = 1)
    \<and> (\<exists>p r t m. find_persona pid (svc_data s) = Inr p
        \<and> find_persona pid (svc_data s') = Inr (p\<lparr>pr_status := Active, pr_org_id := Some i\<rparr>)
        \<and> find_org i (svc_data s') = Inr r \<and> trie_from_snapshots S (or_trie_members r) = Inr t
        \<and> trie_members t = [m]
        \<and> vk_word (member_verifying_key (ml_p2p_key m)) = or_org_pub_key r
        \<and> slots (ml_p2p_devices m) = [persona_device (ne_ed (se_node S)) p])"
proof -
  let ?E = "ne_ed (se_node S)"
  obtain p leaf t0 t d rh c pa where p: "find_persona pid (svc_data s) = Inr p"
    and leaf: "leaf_from_snapshot S (founder_snapshot ?E p) = Inr leaf"
    and t: "genesis (svc_U S) (svc_H S) [leaf] = Inr t0" "recalculate (svc_H S) t0 = Inr (t, d)"
    and rh: "root_hash t = Inr rh"
    and sub: "co_submit_genesis (se_chain S) (root_hash_word rh) (persona_member_vk ?E p) (sv_chain s) = (Inr (i, pa), c)"
    and s': "sv_chain s' = c" "svc_data s' = (svc_data s)\<lparr>
        sd_personas := update_first (\<lambda>p. pr_persona_id p = pid)
          (\<lambda>p. p\<lparr>pr_status := Active, pr_org_id := Some i\<rparr>) (sd_personas (svc_data s)),
        sd_orgs := sd_orgs (svc_data s) @ [founder_record ?E p i (root_hash_word rh) pa]\<rparr>"
    by (rule create_organisation_runs [OF laws(2) run]) (rule that)
  note tr = founder_trie [OF laws(1) leaf t]
  have rec: "find_org i (svc_data s') = Inr (founder_record ?E p i (root_hash_word rh) pa)"
    using fresh s'(2) by (simp add: find_org_ok is_first_admission_def find_append_none founder_record_def)
  moreover have "find_persona pid (svc_data s') = Inr (p\<lparr>pr_status := Active, pr_org_id := Some i\<rparr>)"
    using p s'(2) find_update_first [of "\<lambda>p. pr_persona_id p = pid" _ "sd_personas (svc_data s)"]
    by (simp add: find_persona_def ok_or_eq_Inr)
  moreover have "slots_of (sv_chain s') i = Some \<lparr>os_root_hash = rh, os_org_pub_key = persona_member_vk ?E p, os_epoch = 1\<rparr>"
    using genesis_ok [OF sub [unfolded ops]] s'(1) by simp
  moreover have "vk_word (member_verifying_key (ml_p2p_key leaf)) = persona_member_vk ?E p"
      "P2pDeviceSlots [persona_device ?E p] = ml_p2p_devices leaf"
    using leaf by (auto simp: leaf_from_snapshot_ok member_leaf_new_ok founder_snapshot_def device_slots_new_cases
        split: if_splits)
  ultimately show ?thesis
    using tr rh p by (simp add: in_sync_def founder_record_def) (metis P2pDeviceSlots.sel)
qed

end

section \<open>Receiving\<close>

lemma wf_leaf_rebuilt:
  assumes "leaf_wf (svc_U S) m" and "leaf_from_snapshot S (snapshot_of_leaf m) = Inr m'"
  shows "m' = m"
proof -
  have ds: "map (\<lambda>d. P2pDeviceKey (VerifyingKey (vk_word (device_verifying_key d)))) xs = xs" for xs
    by (simp add: map_idI)
  show ?thesis
    using assms device_slots_new_slots [of "ml_p2p_devices m"]
    by (cases m') (auto simp: leaf_from_snapshot_ok member_leaf_new_ok snapshot_of_leaf_def leaf_wf_def
        devices_def comp_def ds)
qed

text \<open>When the members of a trie can be rebuilt at all, they rebuild its members and root.\<close>

lemma rebuilt_members:
  assumes laws: "nfc_laws (svc_U S)" and inv: "trie_inv (svc_U S) (svc_H S) t"
    and t': "trie_from_snapshots S (map snapshot_of_leaf (trie_members t)) = Inr t'"
  shows "snapshot t' = snapshot t" and "root_hash t' = Inr (smt_root (svc_H S) (ot_root t))"
proof -
  have wf: "smt_wf (svc_H S) (ot_root t)" using trie_invD(6) [OF inv] .
  obtain ms where ms: "list_all2 (\<lambda>x m. leaf_from_snapshot S x = Inr m)
      (map snapshot_of_leaf (trie_members t)) ms"
    using t' by (auto simp: trie_from_snapshots_leaves)
  have "storable S m" if "snapshot t i = Some m" for i m
  proof -
    have "m \<in> set (trie_members t)"
      using that collect_members_get [OF wf, of m] get_member_id [OF wf that] by (simp add: trie_members_def)
    then obtain m' where m': "leaf_from_snapshot S (snapshot_of_leaf m) = Inr m'"
      using ms by (auto simp: list_all2_conv_all_nth in_set_conv_nth)
    moreover have "leaf_wf (svc_U S) m"
      using that trie_inv_snapshot_wf [OF inv] by (auto simp: snapshot_wf_def)
    ultimately show ?thesis using wf_leaf_rebuilt leaf_from_snapshot_storable [OF laws] by blast
  qed
  then obtain t'' where t'': "trie_from_snapshots S (map snapshot_of_leaf (trie_members t)) = Inr t''"
      "snapshot t'' = snapshot t" "root_hash t'' = Inr (smt_root (svc_H S) (ot_root t))"
    using snapshots_rebuild [OF inv] by metis
  then show "snapshot t' = snapshot t" and "root_hash t' = Inr (smt_root (svc_H S) (ot_root t))"
    using t' by simp_all
qed

lemma receive_message_frame:
  "receive_message S s = (q, s') \<Longrightarrow> svc_data s' = svc_data s \<and> sv_chain s' = sv_chain s"
  by (rule same_node_data [OF keeps_run [OF receive_message_keeps]])

text \<open>The local trie of either receiver satisfies the invariant.\<close>

lemma local_view_inv:
  assumes laws: "nfc_laws (svc_U S)" and "local_view S d msg st k = Inr (t, q, e)"
  shows "trie_inv (svc_U S) (svc_H S) t"
proof -
  have "trie_inv (svc_U S) (svc_H S) t" if fb: "fallback_trie S st k = Inr t"
  proof -
    obtain m t0 d where m: "member_leaf_new (svc_U S) (MemberId (os_org_pub_key st)) (rstr ''admin'') (P2pMemberKey k)
          (rstr ''Admin'') (rstr ''User'') [P2pDeviceKey k] = Inr m"
        "genesis (svc_U S) (svc_H S) [m] = Inr t0" "recalculate (svc_H S) t0 = Inr (t, d)"
      using fb by (auto simp: fallback_trie_def Let_def and_then_eq_Inr map_err_eq_Inr)
    have "\<forall>n\<in>set [m]. leaf_wf (svc_U S) n" using member_leaf_new_wf [OF laws m(1)] by simp
    from genesis_ok(1) [OF this m(2)] show ?thesis using recalculated(1) [OF _ m(3)] by blast
  qed
  then show ?thesis
    using assms(2) rebuilt_trie(1) [OF laws]
    by (auto simp: local_view_def and_then_eq_Inr split: option.splits)
qed

lemma local_view_known:
  assumes "find_org (env_org_id (wm_envelope msg)) d = Inr r" and "local_view S d msg st k = Inr (t, q, e)"
  shows "trie_from_snapshots S (or_trie_members r) = Inr t" and "q = or_last_seq r" and "e = or_epoch r"
  using assms by (auto simp: local_view_def find_org_ok and_then_eq_Inr)

lemma verify_incoming_sound:
  assumes laws: "nfc_laws (svc_U S)" and ok: "verify_incoming S d dk msg st = Inr v"
  shows "trie_inv (svc_U S) (svc_H S) (vu_trie v)" and "root_hash (vu_trie v) = Inr (os_root_hash st)"
    and "vu_epoch v = os_epoch st" and "last_seen (vu_seq_guard v) = env_parent_seq (wm_envelope msg)"
    and "find_org (env_org_id (wm_envelope msg)) d = Inr r \<Longrightarrow>
           or_epoch r < os_epoch st \<and> or_last_seq r < env_parent_seq (wm_envelope msg)
           \<and> device_in_trie (vu_trie v) dk"
    and "ed_verify (ne_ed (se_node S)) (VerifyingKey (os_org_pub_key st))
           (transcript (env_org_id (wm_envelope msg)) (env_parent_seq (wm_envelope msg))
              (env_delta_bytes (wm_envelope msg))) (env_signature (wm_envelope msg))"
proof -
  let ?env = "wm_envelope msg"
  obtain t q e where lv: "local_view S d msg st (VerifyingKey (os_org_pub_key st)) = Inr (t, q, e)"
    and ver: "verify_envelope_against_chain (se_node S) t ?env
       \<lparr>vc_expected_org_id = env_org_id ?env, vc_author_member_key = VerifyingKey (os_org_pub_key st),
        vc_seq_guard = seq_guard_from_last_seen q, vc_last_committed_epoch = e\<rparr> (chain_ops_reader st) = Inr v"
    and dev: "is_first_admission d (env_org_id ?env) \<or> device_in_trie (vu_trie v) dk"
    using ok by (auto simp: verify_incoming_def Let_def and_then_eq_Inr split: if_splits)
  have st: "chain_ops_reader st i = Inr (Some st)" for i by (simp add: chain_ops_reader_def)
  note cs = ver [unfolded verify_commit_cases, simplified, unfolded st, simplified]
  show "trie_inv (svc_U S) (svc_H S) (vu_trie v)" and "root_hash (vu_trie v) = Inr (os_root_hash st)"
    and "vu_epoch v = os_epoch st"
    using verify_commit_state [OF laws local_view_inv [OF laws lv] ver] st by (auto simp: st)
  show "last_seen (vu_seq_guard v) = env_parent_seq ?env" using cs by simp
  show "ed_verify (ne_ed (se_node S)) (VerifyingKey (os_org_pub_key st))
           (transcript (env_org_id ?env) (env_parent_seq ?env) (env_delta_bytes ?env)) (env_signature ?env)"
    using cs by (simp add: verify_signature_def sig_verify_def)
  show "or_epoch r < os_epoch st \<and> or_last_seq r < env_parent_seq ?env \<and> device_in_trie (vu_trie v) dk"
    if r: "find_org (env_org_id ?env) d = Inr r"
    using cs dev r local_view_known [OF r lv]
    by (auto simp: seq_guard_from_last_seen_def is_first_admission_def find_org_ok)
qed

lemma consume_activate_orgs:
  "find_org j (activate_persona pid i mid (consume_invite b i d)) = find_org j d"
  by (simp add: find_org_def activate_persona_def consume_invite_def split: option.splits)

lemma find_append_some: "find Q xs = Some y \<Longrightarrow> find Q (xs @ ys) = Some y"
  by (induction xs) (auto split: if_splits)

lemma find_append_other: "(\<And>y. y \<in> set ys \<Longrightarrow> \<not> Q y) \<Longrightarrow> find Q (xs @ ys) = find Q xs"
proof (induction xs)
  case Nil
  then show ?case by (metis append_Nil find.simps(1) find_None_iff)
qed auto

text \<open>The record a commit leaves for the organisation of the message; the others stay.\<close>

lemma commit_org_record_known:
  assumes "find_org (env_org_id (wm_envelope msg)) d = Inr r"
  shows "find_org (env_org_id (wm_envelope msg)) (commit_org_record st msg v root d) =
      Inr (r\<lparr>or_root_hash := root, or_epoch := vu_epoch v, or_last_seq := last_seen (vu_seq_guard v),
             or_org_secret := wm_org_secret msg,
             or_trie_members := map snapshot_of_leaf (trie_members (vu_trie v))\<rparr>)"
    and "j \<noteq> env_org_id (wm_envelope msg) \<Longrightarrow> find_org j (commit_org_record st msg v root d) = find_org j d"
proof -
  let ?f = "\<lambda>r. r\<lparr>or_root_hash := root, or_epoch := vu_epoch v, or_last_seq := last_seen (vu_seq_guard v),
             or_org_secret := wm_org_secret msg,
             or_trie_members := map snapshot_of_leaf (trie_members (vu_trie v))\<rparr>"
  have "commit_org_record st msg v root d =
      d\<lparr>sd_orgs := update_first (\<lambda>r. or_org_id r = env_org_id (wm_envelope msg)) ?f (sd_orgs d)\<rparr>"
    using assms by (simp add: commit_org_record_def Let_def find_org_ok)
  then show "find_org (env_org_id (wm_envelope msg)) (commit_org_record st msg v root d) = Inr (?f r)"
    and "j \<noteq> env_org_id (wm_envelope msg) \<Longrightarrow> find_org j (commit_org_record st msg v root d) = find_org j d"
    using find_org_updated [of ?f, OF _ assms] by simp_all
qed

lemma commit_org_record_fresh:
  assumes "is_first_admission d (env_org_id (wm_envelope msg))"
  shows "find_org (env_org_id (wm_envelope msg)) (commit_org_record st msg v root d) =
      Inr \<lparr>or_org_id = env_org_id (wm_envelope msg), or_root_hash = root,
           or_org_pub_key = os_org_pub_key st, or_epoch = vu_epoch v,
           or_org_secret = wm_org_secret msg, or_last_seq = last_seen (vu_seq_guard v),
           or_admin_member_key = os_org_pub_key st,
           or_trie_members = map snapshot_of_leaf (trie_members (vu_trie v)), or_proxy_account = None\<rparr>"
    and "j \<noteq> env_org_id (wm_envelope msg) \<Longrightarrow> find_org j (commit_org_record st msg v root d) = find_org j d"
  using assms
  by (auto simp: commit_org_record_def Let_def find_org_def is_first_admission_def find_append_none)
    (subst find_append_other; simp)

text \<open>What a receiver stores when it commits a verified message.\<close>

definition committed_data ::
  "OrgState \<Rightarrow> WireMessage \<Rightarrow> VerifiedUpdate \<Rightarrow> bytes32 \<Rightarrow> string option \<Rightarrow> bytes32 option \<Rightarrow> StoreData \<Rightarrow> StoreData" where
  "committed_data st msg v root pid mid d =
     (let i = env_org_id (wm_envelope msg) in
      activate_persona pid i mid (consume_invite (is_first_admission d i) i (commit_org_record st msg v root d)))"

lemma committed_data_find:
  "find_org j (committed_data st msg v root pid mid d) = find_org j (commit_org_record st msg v root d)"
  by (simp add: committed_data_def Let_def consume_activate_orgs)

context chain_ledger
begin

lemma read_bind:
  "eff_bind (on_chain (co_read_state ops i)) f s = f (slots_of (sv_chain s) i) s"
  by (simp add: eff_bind_def on_chain_def eff_zoom_def read_state)

text \<open>A run of \<^verbatim>\<open>receive_and_verify\<close> whose message verifies ends with a save.\<close>

lemma receive_runs:
  assumes ops: "se_chain S = ops" and msg: "receive_message S s = (Inr (dk, msg), s1)"
    and st: "slots_of (sv_chain s) (env_org_id (wm_envelope msg)) = Some st"
    and ver: "verify_incoming S (svc_data s) dk msg st = Inr v"
    and root: "root_hash (vu_trie v) = Inr rh"
  obtains pid mid r s3 where
    "svc_save S (svc_update_data (committed_data st msg v (root_hash_word rh) pid mid) s1) = (r, s3)"
    and "receive_and_verify S s = (and_then r (\<lambda>_. Inr \<lparr>ro_org_id = env_org_id (wm_envelope msg),
           ro_epoch = vu_epoch v, ro_root = root_hash_word rh\<rparr>), s3)"
proof -
  let ?i = "env_org_id (wm_envelope msg)" and ?E = "ne_ed (se_node S)"
  let ?p = "my_persona ?E (svc_data s) (vu_trie v) (os_org_pub_key st)"
  have fr: "svc_data s1 = svc_data s" "sv_chain s1 = sv_chain s" using receive_message_frame [OF msg] by simp_all
  have "\<exists>q. find_persona (pr_persona_id p) (svc_data s) = Inr q" if "?p = Some p" for p
  proof -
    have "p \<in> set (sd_personas (svc_data s))" using that by (auto simp: my_persona_def find_Some_iff)
    then show ?thesis by (cases "find_persona (pr_persona_id p) (svc_data s)")
        (auto simp: find_persona_def ok_or_eq_Inl find_None_iff)
  qed
  then obtain mid where mid: "my_member_id ?E (svc_data s) (vu_trie v) (map_option pr_persona_id ?p) = Inr mid"
    by (cases ?p) (fastforce simp: my_member_id_def)+
  obtain r s3 where sv: "svc_save S (svc_update_data (committed_data st msg v (root_hash_word rh)
      (map_option pr_persona_id ?p) mid) s1) = (r, s3)" by fastforce
  have "receive_and_verify S s = (and_then r (\<lambda>_. Inr \<lparr>ro_org_id = ?i,
           ro_epoch = vu_epoch v, ro_root = root_hash_word rh\<rparr>), s3)"
    unfolding receive_and_verify_def Let_def
    using ver root sv [unfolded committed_data_def [abs_def] Let_def] st
    by (simp add: eff_bind_step [where m = "receive_message S", OF msg] ops read_bind fr mid Let_def) (simp add: eff_bind_def split: sum.splits)
  then show ?thesis using that sv by blast
qed

text \<open>The other way around: a run that succeeds has verified its message.\<close>

lemma receive_ok:
  assumes ops: "se_chain S = ops" and run: "receive_and_verify S s = (Inr out, s')"
  obtains dk msg s1 st v rh where "receive_message S s = (Inr (dk, msg), s1)"
    and "slots_of (sv_chain s) (env_org_id (wm_envelope msg)) = Some st"
    and "verify_incoming S (svc_data s) dk msg st = Inr v" and "root_hash (vu_trie v) = Inr rh"
proof -
  obtain q s1 where q: "receive_message S s = (q, s1)" by fastforce
  show ?thesis
  proof (cases q)
    case (Inl e)
    then show ?thesis
      using run by (simp add: receive_and_verify_def Let_def
          eff_bind_stop [where m = "receive_message S", OF q [unfolded Inl]])
  next
    case (Inr p)
    obtain dk msg where p: "p = (dk, msg)" by (cases p)
    note m = q [unfolded Inr p]
    show ?thesis
      using run that [OF m] receive_message_frame [OF m]
      by (auto simp: receive_and_verify_def Let_def eff_bind_step [where m = "receive_message S", OF m] ops
          read_bind eff_bind_ok ok_or_eq_Inr map_err_eq_Inr)
  qed
qed

lemma receive_error:
  assumes ops: "se_chain S = ops" and run: "receive_and_verify S s = (Inl e, s')"
  shows "sv_chain s' = sv_chain s \<and> (svc_data s' = svc_data s \<or> (\<exists>s2. svc_save S s2 = (Inl e, s')))"
proof (cases "receive_message S s")
  case (Pair q s1)
  note fr = receive_message_frame [OF Pair]
  show ?thesis
  proof (cases q)
    case (Inl e')
    then show ?thesis using run fr by (simp add: receive_and_verify_def Let_def eff_bind_stop [where m = "receive_message S", OF Pair [unfolded Inl]])
  next
    case (Inr p)
    obtain dk msg where p: "p = (dk, msg)" by (cases p)
    note m = Pair [unfolded Inr p]
    show ?thesis
      using run fr
      by (auto simp: receive_and_verify_def eff_bind_step [where m = "receive_message S", OF m] ops read_bind
          eff_bind_error Let_def split: option.splits dest: svc_save_frame(2))
  qed
qed

end

end
