(* ===== verification/Joining.thy ===== *)
theory Joining
  imports Receive
begin

text \<open>
  The message of a change meets its receiver: a replica of the membership the administrator changed
  accepts the envelope of one admission or revocation, so the joiner of an admission commits it; and a
  receiver whose record is not at that membership rejects every envelope over it.
\<close>

section \<open>One change at a replica\<close>

text \<open>
  \<open>t1\<close> is \<open>t\<close> with the entry of one member changed, and \<open>q\<close> is a replica of \<open>t\<close>.
\<close>

definition one_change :: "OrgTrie \<Rightarrow> OrgTrie \<Rightarrow> MemberId \<Rightarrow> bool" where
  "one_change t t1 i \<longleftrightarrow>
     ot_last_calculated_root t1 = ot_root t \<and> (\<forall>j. j \<noteq> i \<longrightarrow> snapshot t1 j = snapshot t j)"

lemma calculated_roots:
  "trie_inv U H t \<Longrightarrow> root_hash t = Inr h \<Longrightarrow> ot_last_calculated_root t = ot_root t"
  using trie_invD(1) by (auto simp: trees_ok_def root_hash_def ok_or_eq_Inr)

lemma one_change_add:
  assumes "trie_inv U H t" and "root_hash t = Inr h" and "leaf_wf U m" and "add_member U H t m = Inr t1"
  shows "one_change t t1 (ml_id m)"
  using calculated_roots [OF assms(1,2)] add_member_snapshot [OF assms(1,3,4)] assms(4)
  by (auto simp: one_change_def add_member_def insert_leaf_def and_then_eq_Inr ok_or_eq_Inr Let_def
      split: if_splits prod.splits)

lemma delete_member_snapshot:
  assumes "trie_inv U H t" and "delete_member U t i = Inr t1"
  shows "trie_inv U H t1" and "snapshot t1 = (snapshot t)(i := None)" and "snapshot t i \<noteq> None"
  using delete_member_implements [OF assms(1), of i] assms(2)
  by (auto simp: spec_delete_def split: if_splits)

lemma one_change_delete:
  assumes "trie_inv U H t" and "root_hash t = Inr h" and "delete_member U t i = Inr t1"
  shows "one_change t t1 i"
  using calculated_roots [OF assms(1,2)] delete_member_snapshot [OF assms(1,3)] assms(3)
  by (auto simp: one_change_def delete_member_def delete_by_id_def and_then_eq_Inr ok_or_eq_Inr Let_def
      case_prod_beta split: if_splits)

text \<open>The queries of a change: two runs of hashing that the exception of a collision speaks of.\<close>

abbreviation change_collides :: "TrieHasher \<Rightarrow> OrgTrie \<Rightarrow> OrgTrie \<Rightarrow> bool" where
  "change_collides H t t1 \<equiv> collides H (trie_queries H (ot_root t) \<union> trie_queries H (ot_root t1))"

lemma one_change_delta:
  assumes t: "trie_inv U H t" and t1: "trie_inv U H t1" and one: "one_change t t1 i"
    and rec: "recalculate H t1 = Inr (t2, d)" and nc: "\<not> change_collides H t t1"
  shows "d_base_root d = smt_root H (ot_root t)"
    and "set (d_upserted d) \<subseteq> {m. snapshot t1 i = Some m \<and> ml_id m = i}"
    and "length (d_upserted d) \<le> 1" and "\<not> hands_over U (snapshot t) d"
proof -
  have last: "ot_last_calculated_root t1 = ot_root t" using one by (simp add: one_change_def)
  obtain e where e: "pending_changes t1 = Inr e" "d_base_root e = smt_root H (ot_root t)"
      "(d_removed e, d_upserted e) = diff_tries (ot_root t) (ot_root t1)"
    using pending_changes_ok [OF t1] last by metis
  have ed: "e = d" using rec e(1) by (auto simp: recalculate_def and_then_eq_Inr)
  then show "d_base_root d = smt_root H (ot_root t)" using e(2) by simp
  have can: "canonical_delta (snapshot t) d" "delta_target (snapshot t) d = snapshot t1"
    using diff_is_canonical [OF trie_invD(5) [OF t] trie_invD(5) [OF t1] e(3) nc] ed by simp_all
  show ups: "set (d_upserted d) \<subseteq> {m. snapshot t1 i = Some m \<and> ml_id m = i}"
    using canonical_delta_sets(2) [OF can(1)] one by (auto simp: can(2) one_change_def)
  have "distinct (map ml_id (d_upserted d))"
    using can(1) by (simp add: canonical_delta_def strict_sorted_iff)
  moreover have "set (map ml_id (d_upserted d)) \<subseteq> {i}" using ups by auto
  ultimately show "length (d_upserted d) \<le> 1"
    by (metis card_mono card.empty card_insert_disjoint distinct_card empty_iff finite.emptyI finite.insertI
        length_map One_nat_def)
  have uniq: "j = k" if "snapshot t1 j = Some n" "snapshot t1 k = Some m"
      "handle_skeleton U (ml_handle n) = handle_skeleton U (ml_handle m)" for j k n m
    using that trie_inv_snapshot_wf [OF t1] unfolding snapshot_wf_def by blast
  show "\<not> hands_over U (snapshot t) d"
  proof
    assume "hands_over U (snapshot t) d"
    then obtain m j n where m: "m \<in> set (d_upserted d)" "snapshot t j = Some n" "j \<noteq> ml_id m"
        "handle_skeleton U (ml_handle n) = handle_skeleton U (ml_handle m)"
      unfolding hands_over_def by blast
    have i: "snapshot t1 i = Some m" "ml_id m = i" using ups m(1) by auto
    then have "snapshot t1 j = Some n" using m(2,3) one by (simp add: one_change_def)
    then show False using uniq [OF _ i(1) m(4)] m(3) i(2) by blast
  qed
qed

lemma change_applies:
  assumes t: "trie_inv U H t" and t1: "trie_inv U H t1" and one: "one_change t t1 i"
    and rec: "recalculate H t1 = Inr (t2, d)" and nc: "\<not> change_collides H t t1"
    and q: "trie_inv U H q" "root_hash q = Inr h" "snapshot q = snapshot t"
    and room: "member_count q + 1 < 2 ^ 64"
  obtains c q' where "root_hash q = Inr (d_base_root d)" and "apply_delta U H q d = Inr c"
    and "verify_against c (smt_root H (ot_root t1)) = Inr q'" and "snapshot q' = snapshot t1"
proof -
  note d = one_change_delta [OF t t1 one rec nc]
  have "h = smt_root H (ot_root q)"
    using q(2) trie_invD(1) [OF q(1)] by (simp add: trees_ok_def root_hash_def ok_or_eq_Inr)
  moreover have "smt_root H (ot_root q) = smt_root H (ot_root t)"
    by (rule smt_root_of_map) (use q t trie_invD(6) in auto)
  ultimately have base: "root_hash q = Inr (d_base_root d)" using q(2) d(1) by simp
  have last: "ot_last_calculated_root t1 = ot_root t" using one by (simp add: one_change_def)
  have room': "member_count q + length (d_upserted d) < 2 ^ 64" using room d(3) by linarith
  obtain c q' where "apply_delta U H q d = Inr c" "verify_against c (smt_root H (ot_root t1)) = Inr q'"
      "snapshot q' = snapshot t2"
    using recalculated_delta_applies [OF t1 rec q(1) base _ room'] q(3) last d(4) nc by auto
  then show ?thesis using that base recalculated(2) [OF t1 rec] by metis
qed

section \<open>The message of an admission\<close>

lemma admin_key_pair:
  assumes "load_admin_org S i d = Inr (r, t, kp)"
  shows "keypair_verifying_key (ne_ed (se_node S)) kp = VerifyingKey (or_admin_member_key r)"
proof -
  obtain p where "find (\<lambda>p. vk_word (keypair_verifying_key (ne_ed (se_node S)) (keypair_from_seed (pr_member_seed p)))
        = or_admin_member_key r) (sd_personas d) = Some p" "kp = keypair_from_seed (pr_member_seed p)"
    using assms by (auto simp: load_admin_org_ok admin_persona_for_org_def and_then_eq_Inr ok_or_eq_Inr)
  then have "vk_word (keypair_verifying_key (ne_ed (se_node S)) kp) = or_admin_member_key r"
    by (auto simp: find_Some_iff)
  then show ?thesis by (metis VerifyingKey.collapse)
qed

lemma built_envelope_ids:
  "envelope_build E P i s d kp = Inr env \<Longrightarrow> env_org_id env = i \<and> env_parent_seq env = s"
  by (auto simp: envelope_build_def and_then_eq_Inr Let_def)

text \<open>The invite check of a first admission: the device that calls is the invite's, if there is one.\<close>

definition invited_by :: "StoreData \<Rightarrow> OrgId \<Rightarrow> P2pDeviceKey \<Rightarrow> bool" where
  "invited_by d i dk \<longleftrightarrow>
     (\<forall>p. find (\<lambda>p. pi_org_id p = i) (sd_pending_invites d) = Some p \<longrightarrow>
        device_key_as_bytes dk = be_bytes 32 (pi_admin_device_key p))"

lemma verify_incoming_accepts:
  assumes laws: "ed_correct (ne_ed (se_node S))" "codec_correct (ne_codec (se_node S))"
    and key: "svc_vk S (os_org_pub_key st)" "keypair_verifying_key (ne_ed (se_node S)) kp = VerifyingKey (os_org_pub_key st)"
    and env: "envelope_build (ne_ed (se_node S)) (ne_codec (se_node S)) i n delta kp = Inr (wm_envelope msg)"
    and lv: "local_view S d msg st (VerifyingKey (os_org_pub_key st)) = Inr (q, k, e)"
    and fresh: "k < n" "e < os_epoch st" and wire: "delta_wire_ok (svc_U S) (svc_vk S) delta"
    and app: "root_hash q = Inr (d_base_root delta)" "apply_delta (svc_U S) (svc_H S) q delta = Inr c"
      "verify_against c (os_root_hash st) = Inr q'"
    and who: "if is_first_admission d i then invited_by d i dk else device_in_trie q' dk"
  shows "verify_incoming S d dk msg st =
    Inr \<lparr>vu_trie = q', vu_seq_guard = SeqGuard n, vu_epoch = os_epoch st\<rparr>"
proof -
  have i: "env_org_id (wm_envelope msg) = i" using built_envelope_ids [OF env] by simp
  let ?ctx = "\<lparr>vc_expected_org_id = i, vc_author_member_key = VerifyingKey (os_org_pub_key st),
               vc_seq_guard = seq_guard_from_last_seen k, vc_last_committed_epoch = e\<rparr>"
  have "verify_envelope_against_chain (se_node S) q (wm_envelope msg) ?ctx (chain_ops_reader st) =
      Inr \<lparr>vu_trie = q', vu_seq_guard = SeqGuard n, vu_epoch = os_epoch st\<rparr>"
    by (rule built_envelope_verifies [OF laws wire _ _ _ app(1,2), where st = st and kp = kp])
      (use env key fresh app in \<open>simp_all add: seq_guard_from_last_seen_def chain_ops_reader_def\<close>)
  then show ?thesis
    using lv key(1) who
    by (auto simp: verify_incoming_def Let_def i parse_vk_def invited_by_def split: option.splits if_splits)
qed

text \<open>What the planned admission promises a replica of the record it starts from.\<close>

lemma planned_admission_applies:
  assumes laws: "nfc_laws (svc_U S)" and plan: "plan_admission S i jr d = Inr (r, kp, mid, root, delta)"
  obtains t leaf t1 where "find_org i d = Inr r" and "trie_from_snapshots S (or_trie_members r) = Inr t"
    and "leaf_from_snapshot S (joiner_snapshot jr) = Inr leaf" and "ml_id leaf = MemberId (jr_member_key jr)"
    and "snapshot t1 = (snapshot t)(ml_id leaf \<mapsto> leaf)" and "trie_inv (svc_U S) (svc_H S) t1"
    and "keypair_verifying_key (ne_ed (se_node S)) kp = VerifyingKey (or_admin_member_key r)"
    and "\<not> change_collides (svc_H S) t t1 \<Longrightarrow> delta_wire_ok (svc_U S) (svc_vk S) delta"
    and "\<And>q h. \<not> change_collides (svc_H S) t t1 \<Longrightarrow> trie_inv (svc_U S) (svc_H S) q \<Longrightarrow>
        root_hash q = Inr h \<Longrightarrow> snapshot q = snapshot t \<Longrightarrow>
        \<exists>c q'. root_hash q = Inr (d_base_root delta) \<and> apply_delta (svc_U S) (svc_H S) q delta = Inr c
          \<and> verify_against c (RootHash root) = Inr q' \<and> snapshot q' = snapshot t1"
proof -
  let ?U = "svc_U S" and ?H = "svc_H S"
  obtain t leaf t1 t2 where a: "find_org i d = Inr r" "trie_from_snapshots S (or_trie_members r) = Inr t"
    "leaf_from_snapshot S (joiner_snapshot jr) = Inr leaf"
    "add_member ?U ?H t leaf = Inr t1" "recalculate ?H t1 = Inr (t2, delta)"
    "root_hash t2 = Inr (RootHash root)" "load_admin_org S i d = Inr (r, t, kp)"
    using plan_admission_ok [OF plan] by metis
  have leaf: "storable S leaf" using leaf_from_snapshot_storable [OF laws a(3)] .
  then have wf: "leaf_wf ?U leaf" by (simp add: storable_def)
  note t = rebuilt_trie(1,2) [OF laws a(2)]
  note t1 = add_member_snapshot [OF t(1) wf a(4)]
  note one = one_change_add [OF t wf a(4)]
  have root: "RootHash root = smt_root ?H (ot_root t1)" using recalculated(3) [OF t1(1) a(5)] a(6) by simp
  have mid: "ml_id leaf = MemberId (jr_member_key jr)"
    using a(3) by (simp add: leaf_from_snapshot_ok member_leaf_new_ok joiner_snapshot_def)
  have room: "member_count t + 1 < 2 ^ 64"
    using a(4) by (auto simp: add_member_def insert_leaf_def and_then_eq_Inr ok_or_eq_Inr Let_def
        checked_add_usize_def member_count_def split: if_splits prod.splits)
  have count: "member_count q = member_count t" if "trie_inv ?U ?H q" "snapshot q = snapshot t" for q
    using that trie_invD(3) [OF that(1)] trie_invD(3) [OF t(1)] by (simp add: member_count_def)
  show ?thesis
  proof (rule that [OF a(1-3) mid t1(2,1) admin_key_pair [OF a(7)]])
    show "delta_wire_ok ?U (svc_vk S) delta" if nc: "\<not> change_collides ?H t t1"
      using one_change_delta(2) [OF t(1) t1(1) one a(5) nc] leaf t1(2)
      by (auto simp: delta_wire_ok_def storable_def)
    show "\<exists>c q'. root_hash q = Inr (d_base_root delta) \<and> apply_delta ?U ?H q delta = Inr c
          \<and> verify_against c (RootHash root) = Inr q' \<and> snapshot q' = snapshot t1"
      if nc: "\<not> change_collides ?H t t1" and q: "trie_inv ?U ?H q" "root_hash q = Inr h" "snapshot q = snapshot t"
      for q h
      using change_applies [OF t(1) t1(1) one a(5) nc q] room count [OF q(1,3)] root by metis
  qed
qed

lemma admission_message_ok:
  "admission_message S i sec (r, kp, mid, root, delta) = Inr msg \<longleftrightarrow>
     (\<exists>env. envelope_build (ne_ed (se_node S)) (ne_codec (se_node S)) i (or_last_seq r + 1) delta kp = Inr env
        \<and> msg = \<lparr>wm_envelope = env, wm_org_secret = sec,
             wm_genesis_snapshot = (case to_allocvec (se_snapshot_codec S) (or_trie_members r) of
               Inr b \<Rightarrow> Some b | Inl _ \<Rightarrow> None)\<rparr>)"
  by (auto simp: admission_message_def Let_def and_then_eq_Inr map_err_eq_Inr)

text \<open>The joiner accepts the message of its admission.\<close>

lemma joiner_accepts:
  assumes laws: "nfc_laws (svc_U S)" "ed_correct (ne_ed (se_node S))" "codec_correct (ne_codec (se_node S))"
      "codec_correct (se_snapshot_codec S)"
    and plan: "plan_admission S i jr d = Inr (r, kp, mid, root, delta)"
    and msg: "admission_message S i sec (r, kp, mid, root, delta) = Inr msg"
    and snap: "to_allocvec (se_snapshot_codec S) (or_trie_members r) = Inr b"
    and key: "svc_vk S (or_org_pub_key r)" "or_admin_member_key r = or_org_pub_key r"
    and wrap: "or_last_seq r + 1 \<noteq> 0" "or_epoch r + 1 \<noteq> 0"
    and st: "st = \<lparr>os_root_hash = RootHash root, os_org_pub_key = or_org_pub_key r, os_epoch = or_epoch r + 1\<rparr>"
    and joiner: "is_first_admission dj i" "invited_by dj i dk"
  shows "\<exists>t leaf t1. trie_from_snapshots S (or_trie_members r) = Inr t
    \<and> leaf_from_snapshot S (joiner_snapshot jr) = Inr leaf
    \<and> snapshot t1 = (snapshot t)(ml_id leaf \<mapsto> leaf)
    \<and> (change_collides (svc_H S) t t1
       \<or> (\<exists>v. verify_incoming S dj dk msg st = Inr v \<and> snapshot (vu_trie v) = snapshot t1
            \<and> vu_epoch v = or_epoch r + 1 \<and> last_seen (vu_seq_guard v) = or_last_seq r + 1))"
proof -
  obtain t leaf t1 where a: "trie_from_snapshots S (or_trie_members r) = Inr t"
    "leaf_from_snapshot S (joiner_snapshot jr) = Inr leaf" "snapshot t1 = (snapshot t)(ml_id leaf \<mapsto> leaf)"
    and kp: "keypair_verifying_key (ne_ed (se_node S)) kp = VerifyingKey (or_admin_member_key r)"
    and wire: "\<not> change_collides (svc_H S) t t1 \<Longrightarrow> delta_wire_ok (svc_U S) (svc_vk S) delta"
    and app: "\<And>q h. \<not> change_collides (svc_H S) t t1 \<Longrightarrow> trie_inv (svc_U S) (svc_H S) q \<Longrightarrow>
        root_hash q = Inr h \<Longrightarrow> snapshot q = snapshot t \<Longrightarrow>
        \<exists>c q'. root_hash q = Inr (d_base_root delta) \<and> apply_delta (svc_U S) (svc_H S) q delta = Inr c
          \<and> verify_against c (RootHash root) = Inr q' \<and> snapshot q' = snapshot t1"
    by (rule planned_admission_applies [OF laws(1) plan]) (rule that)
  have env: "envelope_build (ne_ed (se_node S)) (ne_codec (se_node S)) i (or_last_seq r + 1) delta kp = Inr (wm_envelope msg)"
    and gs: "wm_genesis_snapshot msg = Some b"
    using msg snap by (auto simp: admission_message_ok)
  have "local_view S dj msg st (VerifyingKey (os_org_pub_key st)) = Inr (t, 0, 0)"
    using joiner(1) gs a(1) codec_correctD [OF laws(4) snap] built_envelope_ids [OF env]
    by (simp add: local_view_def is_first_admission_def)
  note acc = verify_incoming_accepts [OF laws(2,3) _ _ env this]
  have "\<exists>v. verify_incoming S dj dk msg st = Inr v \<and> snapshot (vu_trie v) = snapshot t1
      \<and> vu_epoch v = or_epoch r + 1 \<and> last_seen (vu_seq_guard v) = or_last_seq r + 1"
    if nc: "\<not> change_collides (svc_H S) t t1"
  proof -
    obtain c q' where q': "root_hash t = Inr (d_base_root delta)" "apply_delta (svc_U S) (svc_H S) t delta = Inr c"
        "verify_against c (RootHash root) = Inr q'" "snapshot q' = snapshot t1"
      using app [OF nc rebuilt_trie(1,2) [OF laws(1) a(1)]] by auto
    then show ?thesis
      using acc [OF _ _ _ _ wire [OF nc], of c q' dk] st key kp joiner wrap by (simp add: word_neq_0_conv)
  qed
  then show ?thesis using a by blast
qed

section \<open>The message of a revocation\<close>

lemma planned_revocation_applies:
  assumes laws: "nfc_laws (svc_U S)" and plan: "plan_revocation S i m d = Inr (r, kp, t2, root, delta)"
  obtains t t1 where "find_org i d = Inr r" and "trie_from_snapshots S (or_trie_members r) = Inr t"
    and "snapshot t1 = (snapshot t)(MemberId m := None)" and "snapshot t (MemberId m) \<noteq> None"
    and "trie_inv (svc_U S) (svc_H S) t1"
    and "keypair_verifying_key (ne_ed (se_node S)) kp = VerifyingKey (or_admin_member_key r)"
    and "\<not> change_collides (svc_H S) t t1 \<Longrightarrow> delta_wire_ok (svc_U S) (svc_vk S) delta"
    and "\<not> change_collides (svc_H S) t t1 \<Longrightarrow> root_hash t = Inr (d_base_root delta)"
    and "\<And>q h. \<not> change_collides (svc_H S) t t1 \<Longrightarrow> trie_inv (svc_U S) (svc_H S) q \<Longrightarrow>
        root_hash q = Inr h \<Longrightarrow> snapshot q = snapshot t \<Longrightarrow> member_count q + 1 < 2 ^ 64 \<Longrightarrow>
        \<exists>c q'. root_hash q = Inr (d_base_root delta) \<and> apply_delta (svc_U S) (svc_H S) q delta = Inr c
          \<and> verify_against c (RootHash root) = Inr q' \<and> snapshot q' = snapshot t1"
proof -
  let ?U = "svc_U S" and ?H = "svc_H S"
  obtain t t1 where a: "find_org i d = Inr r" "trie_from_snapshots S (or_trie_members r) = Inr t"
    "delete_member ?U t (MemberId m) = Inr t1" "recalculate ?H t1 = Inr (t2, delta)"
    "root_hash t2 = Inr (RootHash root)" "load_admin_org S i d = Inr (r, t, kp)"
    using plan_revocation_ok [OF plan] by metis
  note t = rebuilt_trie(1,2) [OF laws a(2)]
  note t1 = delete_member_snapshot [OF t(1) a(3)]
  note one = one_change_delete [OF t a(3)]
  have root: "RootHash root = smt_root ?H (ot_root t1)" using recalculated(3) [OF t1(1) a(4)] a(5) by simp
  show ?thesis
  proof (rule that [OF a(1,2) t1(2,3,1) admin_key_pair [OF a(6)]])
    assume nc: "\<not> change_collides ?H t t1"
    note d = one_change_delta [OF t(1) t1(1) one a(4) nc]
    show "delta_wire_ok ?U (svc_vk S) delta" using d(2) t1(2) by (auto simp: delta_wire_ok_def)
    show "root_hash t = Inr (d_base_root delta)" using d(1) t(2) by simp
    show "\<exists>c q'. root_hash q = Inr (d_base_root delta) \<and> apply_delta ?U ?H q delta = Inr c
          \<and> verify_against c (RootHash root) = Inr q' \<and> snapshot q' = snapshot t1"
      if q: "trie_inv ?U ?H q" "root_hash q = Inr h" "snapshot q = snapshot t" "member_count q + 1 < 2 ^ 64"
      for q h
      using change_applies [OF t(1) t1(1) one a(4) nc q] root by metis
  qed
qed

text \<open>The verification of the message by a device with a record of the organisation.\<close>

lemma verify_known_unfold:
  assumes "find_org i d = Inr r" and "trie_from_snapshots S (or_trie_members r) = Inr q"
    and "env_org_id (wm_envelope msg) = i" and "svc_vk S (os_org_pub_key st)"
  shows "verify_known_org S d msg st =
    verify_envelope_against_chain (se_node S) q (wm_envelope msg)
      \<lparr>vc_expected_org_id = i, vc_author_member_key = VerifyingKey (os_org_pub_key st),
       vc_seq_guard = seq_guard_from_last_seen (or_last_seq r), vc_last_committed_epoch = or_epoch r\<rparr>
      (chain_ops_reader st)"
  using assms by (simp add: verify_known_org_def parse_vk_def Let_def)

lemma revoked_accepts:
  assumes laws: "nfc_laws (svc_U S)" "ed_correct (ne_ed (se_node S))" "codec_correct (ne_codec (se_node S))"
    and plan: "plan_revocation S i m d = Inr (r, kp, t2, root, delta)"
    and env: "envelope_build (ne_ed (se_node S)) (ne_codec (se_node S)) i (or_last_seq r + 1) delta kp
        = Inr (wm_envelope msg)"
    and key: "svc_vk S (or_org_pub_key r)" "or_admin_member_key r = or_org_pub_key r"
    and st: "st = \<lparr>os_root_hash = RootHash root, os_org_pub_key = or_org_pub_key r, os_epoch = or_epoch r + 1\<rparr>"
    and rec: "find_org i dm = Inr rm" "trie_from_snapshots S (or_trie_members rm) = Inr q"
    and t: "trie_from_snapshots S (or_trie_members r) = Inr t"
    and same: "snapshot q = snapshot t" "or_last_seq rm < or_last_seq r + 1" "or_epoch rm < or_epoch r + 1"
      "member_count q + 1 < 2 ^ 64"
  shows "\<exists>t1. snapshot t1 = (snapshot t)(MemberId m := None)
    \<and> (change_collides (svc_H S) t t1
       \<or> (\<exists>v. verify_known_org S dm msg st = Inr v \<and> snapshot (vu_trie v) = (snapshot t)(MemberId m := None)))"
proof -
  obtain t1 where a: "snapshot t1 = (snapshot t)(MemberId m := None)"
    and kp: "keypair_verifying_key (ne_ed (se_node S)) kp = VerifyingKey (or_admin_member_key r)"
    and wire: "\<not> change_collides (svc_H S) t t1 \<Longrightarrow> delta_wire_ok (svc_U S) (svc_vk S) delta"
    and app: "\<And>q h. \<not> change_collides (svc_H S) t t1 \<Longrightarrow> trie_inv (svc_U S) (svc_H S) q \<Longrightarrow>
        root_hash q = Inr h \<Longrightarrow> snapshot q = snapshot t \<Longrightarrow> member_count q + 1 < 2 ^ 64 \<Longrightarrow>
        \<exists>c q'. root_hash q = Inr (d_base_root delta) \<and> apply_delta (svc_U S) (svc_H S) q delta = Inr c
          \<and> verify_against c (RootHash root) = Inr q' \<and> snapshot q' = snapshot t1"
    by (rule planned_revocation_applies [OF laws(1) plan]) (use t that in simp)
  have i: "env_org_id (wm_envelope msg) = i" using built_envelope_ids [OF env] by simp
  note known = verify_known_unfold [OF rec i, of st]
  have "\<exists>v. verify_known_org S dm msg st = Inr v \<and> snapshot (vu_trie v) = (snapshot t)(MemberId m := None)"
    if nc: "\<not> change_collides (svc_H S) t t1"
  proof -
    obtain c q' where q': "root_hash q = Inr (d_base_root delta)" "apply_delta (svc_U S) (svc_H S) q delta = Inr c"
        "verify_against c (RootHash root) = Inr q'" "snapshot q' = snapshot t1"
      using app [OF nc rebuilt_trie(1,2) [OF laws(1) rec(2)] same(1,4)] by auto
    let ?ctx = "\<lparr>vc_expected_org_id = i, vc_author_member_key = VerifyingKey (os_org_pub_key st),
       vc_seq_guard = seq_guard_from_last_seen (or_last_seq rm), vc_last_committed_epoch = or_epoch rm\<rparr>"
    have "verify_envelope_against_chain (se_node S) q (wm_envelope msg) ?ctx (chain_ops_reader st) =
        Inr \<lparr>vu_trie = q', vu_seq_guard = SeqGuard (or_last_seq r + 1), vu_epoch = os_epoch st\<rparr>"
      by (rule built_envelope_verifies [OF laws(2,3) wire [OF nc] _ _ _ q'(1,2), where st = st and kp = kp])
        (use env key kp same st q'(3) in \<open>simp_all add: seq_guard_from_last_seen_def chain_ops_reader_def\<close>)
    then show ?thesis using known key(1) st q'(4) a by simp
  qed
  then show ?thesis using a by blast
qed

text \<open>A record that is not at the membership the envelope starts from rejects it.\<close>

lemma stale_rejects:
  assumes laws: "nfc_laws (svc_U S)" "ed_correct (ne_ed (se_node S))" "codec_correct (ne_codec (se_node S))"
    and env: "envelope_build (ne_ed (se_node S)) (ne_codec (se_node S)) i n delta kp = Inr (wm_envelope msg)"
    and wire: "delta_wire_ok (svc_U S) (svc_vk S) delta"
    and key: "svc_vk S (os_org_pub_key st)" "keypair_verifying_key (ne_ed (se_node S)) kp = VerifyingKey (os_org_pub_key st)"
    and rec: "find_org i d = Inr r" "trie_from_snapshots S (or_trie_members r) = Inr q"
    and stale: "root_hash q \<noteq> Inr (d_base_root delta)" and seq: "or_last_seq r < n"
  shows "verify_known_org S d msg st = Inl NodeDeltaBaseMismatch"
    and "verify_incoming S d dk msg st = Inl NodeDeltaBaseMismatch"
proof -
  have i: "env_org_id (wm_envelope msg) = i" "env_parent_seq (wm_envelope msg) = n"
    using built_envelope_ids [OF env] by simp_all
  let ?ctx = "\<lparr>vc_expected_org_id = i, vc_author_member_key = VerifyingKey (os_org_pub_key st),
     vc_seq_guard = seq_guard_from_last_seen (or_last_seq r), vc_last_committed_epoch = or_epoch r\<rparr>"
  have "verify_envelope_against_chain (se_node S) q (wm_envelope msg) ?ctx (chain_ops_reader st) =
      Inl NodeDeltaBaseMismatch"
    using build_decode [OF laws(3) wire env] build_signature [OF laws(2) env] i seq key(2) stale
      rebuilt_trie(2) [OF laws(1) rec(2)]
    by (auto simp: verify_envelope_against_chain_def seq_check_def seq_guard_from_last_seen_def)
  then show "verify_known_org S d msg st = Inl NodeDeltaBaseMismatch"
    and "verify_incoming S d dk msg st = Inl NodeDeltaBaseMismatch"
    using verify_known_unfold [OF rec i(1)] rec i(1) key(1)
    by (auto simp: verify_incoming_def local_view_def Let_def is_first_admission_def find_org_ok parse_vk_def)
qed

section \<open>Self-deletion\<close>

text \<open>What the device stores when it is still a member, and when it is not.\<close>

definition updated_data :: "OrgId \<Rightarrow> VerifiedUpdate \<Rightarrow> bytes32 \<Rightarrow> StoreData \<Rightarrow> StoreData" where
  "updated_data i v root d = d\<lparr>sd_orgs := update_first (\<lambda>r. or_org_id r = i) (\<lambda>r.
     r\<lparr>or_root_hash := root, or_epoch := vu_epoch v, or_last_seq := last_seen (vu_seq_guard v),
       or_trie_members := map snapshot_of_leaf (trie_members (vu_trie v))\<rparr>) (sd_orgs d)\<rparr>"

definition removed_data :: "OrgId \<Rightarrow> StoreData \<Rightarrow> StoreData" where
  "removed_data i d = d\<lparr>sd_orgs := filter (\<lambda>r. or_org_id r \<noteq> i) (sd_orgs d),
     sd_personas := map (\<lambda>p. if pr_org_id p = Some i then p\<lparr>pr_status := Revoked\<rparr> else p) (sd_personas d)\<rparr>"

lemma find_filter_other: "(\<And>x. Q x \<Longrightarrow> P x) \<Longrightarrow> find Q (filter P xs) = find Q xs"
  by (induction xs) auto

lemma removed_data_orgs:
  "find_org i (removed_data i d) = Inl OrgNotOnChain"
  "j \<noteq> i \<Longrightarrow> find_org j (removed_data i d) = find_org j d"
proof -
  show "find_org i (removed_data i d) = Inl OrgNotOnChain"
    by (simp add: find_org_def removed_data_def find_None_iff ok_or_eq_Inl)
  show "find_org j (removed_data i d) = find_org j d" if "j \<noteq> i"
    using that find_filter_other [of "\<lambda>r. or_org_id r = j" "\<lambda>r. or_org_id r \<noteq> i" "sd_orgs d"]
    by (auto simp: find_org_def removed_data_def)
qed

lemma removed_data_personas:
  "p \<in> set (sd_personas (removed_data i d)) \<Longrightarrow> pr_org_id p = Some i \<Longrightarrow> pr_status p = Revoked"
  by (auto simp: removed_data_def)

lemma updated_data_orgs:
  assumes "find_org i d = Inr r"
  shows "find_org i (updated_data i v root d) = Inr (r\<lparr>or_root_hash := root, or_epoch := vu_epoch v,
      or_last_seq := last_seen (vu_seq_guard v), or_trie_members := map snapshot_of_leaf (trie_members (vu_trie v))\<rparr>)"
    and "j \<noteq> i \<Longrightarrow> find_org j (updated_data i v root d) = find_org j d"
  unfolding updated_data_def by (rule find_org_updated [OF _ assms]; simp)+

context chain_ledger
begin

lemma self_delete_runs:
  assumes ops: "se_chain S = ops" and msg: "receive_message S s = (Inr (dk, msg), s1)"
    and i: "env_org_id (wm_envelope msg) = i" and st: "slots_of (sv_chain s) i = Some st"
    and ver: "verify_known_org S (svc_data s) msg st = Inr v" and root: "root_hash (vu_trie v) = Inr rh"
    and d: "(upd, out) = (if still_present (ne_ed (se_node S)) (svc_data s) i (vu_trie v)
        then (updated_data i v (root_hash_word rh), UpdatedNotRevoked i) else (removed_data i, SelfDeleted i))"
    and sv: "svc_save S (svc_update_data upd s1) = (q, s3)"
  shows "receive_and_self_delete_if_revoked S s = (and_then q (\<lambda>_. Inr out), s3)"
proof -
  have fr: "svc_data s1 = svc_data s" "sv_chain s1 = sv_chain s" using receive_message_frame [OF msg] by simp_all
  have two: "svc_update_data f (svc_update_data g s1) = svc_update_data (\<lambda>d. f (g d)) s1" for f g
    by (simp add: svc_update_data_def)
  have rd: "(\<lambda>d. d\<lparr>sd_orgs := filter (\<lambda>r. or_org_id r \<noteq> i) (sd_orgs d),
      sd_personas := map (\<lambda>p. if pr_org_id p = Some i then p\<lparr>pr_status := Revoked\<rparr> else p) (sd_personas d)\<rparr>)
      = removed_data i"
    by (rule ext) (simp add: removed_data_def)
  show ?thesis
    unfolding receive_and_self_delete_if_revoked_def Let_def
    using ver root sv st d
    by (simp add: eff_bind_step [where m = "receive_message S", OF msg] ops read_bind fr i two rd [simplified]
        updated_data_def [abs_def] split: if_splits)
      (simp_all add: eff_bind_def split: sum.splits)
qed

lemma self_delete_error:
  assumes ops: "se_chain S = ops" and msg: "receive_message S s = (Inr (dk, msg), s1)"
    and st: "slots_of (sv_chain s) (env_org_id (wm_envelope msg)) = Some st"
    and ver: "verify_known_org S (svc_data s) msg st = Inl e"
  shows "receive_and_self_delete_if_revoked S s = (Inl e, s1)"
  using st ver receive_message_frame [OF msg]
  by (simp add: receive_and_self_delete_if_revoked_def Let_def eff_bind_step [where m = "receive_message S", OF msg]
      ops read_bind)

lemma receive_and_verify_error:
  assumes ops: "se_chain S = ops" and msg: "receive_message S s = (Inr (dk, msg), s1)"
    and st: "slots_of (sv_chain s) (env_org_id (wm_envelope msg)) = Some st"
    and ver: "verify_incoming S (svc_data s) dk msg st = Inl e"
  shows "receive_and_verify S s = (Inl e, s1)"
  using st ver receive_message_frame [OF msg]
  by (simp add: receive_and_verify_def Let_def eff_bind_step [where m = "receive_message S", OF msg] ops read_bind)

end

section \<open>What a receiver stores\<close>

text \<open>The members of a verified update rebuild a trie with the on-chain root.\<close>

lemma verified_rebuilds:
  assumes laws: "nfc_laws (svc_U S)" and ver: "verify_incoming S d dk msg st = Inr v"
    and st: "\<And>i m. snapshot (vu_trie v) i = Some m \<Longrightarrow> storable S m"
  obtains t' where "trie_from_snapshots S (map snapshot_of_leaf (trie_members (vu_trie v))) = Inr t'"
    and "snapshot t' = snapshot (vu_trie v)" and "root_hash t' = Inr (os_root_hash st)"
proof -
  note sound = verify_incoming_sound(1,2) [OF laws ver]
  have root: "os_root_hash st = smt_root (svc_H S) (ot_root (vu_trie v))"
    using sound(2) trie_invD(1) [OF sound(1)] by (simp add: trees_ok_def root_hash_def ok_or_eq_Inr)
  obtain t' where "trie_from_snapshots S (map snapshot_of_leaf (trie_members (vu_trie v))) = Inr t'"
      "snapshot t' = snapshot (vu_trie v)" "root_hash t' = Inr (smt_root (svc_H S) (ot_root (vu_trie v)))"
    by (rule snapshots_rebuild [OF sound(1)]) (use st in blast)+
  then show ?thesis using that root by simp
qed

text \<open>The record after a commit, known or fresh.\<close>

lemma committed_record:
  obtains r' where "find_org (env_org_id (wm_envelope msg)) (committed_data st msg v root pid mid d) = Inr r'"
    and "or_root_hash r' = root" and "or_epoch r' = vu_epoch v" and "or_last_seq r' = last_seen (vu_seq_guard v)"
    and "or_trie_members r' = map snapshot_of_leaf (trie_members (vu_trie v))"
    and "is_first_admission d (env_org_id (wm_envelope msg)) \<Longrightarrow> or_org_pub_key r' = os_org_pub_key st"
    and "\<And>j. j \<noteq> env_org_id (wm_envelope msg) \<Longrightarrow> find_org j (committed_data st msg v root pid mid d) = find_org j d"
proof (cases "is_first_admission d (env_org_id (wm_envelope msg))")
  case True
  note fresh = commit_org_record_fresh [OF True, where st = st and v = v and root = root]
  show ?thesis
    by (rule that [OF committed_data_find [THEN trans, OF fresh(1)]]) (simp_all add: committed_data_find fresh(2))
next
  case False
  then obtain r where r: "find_org (env_org_id (wm_envelope msg)) d = Inr r"
    by (auto simp: is_first_admission_def find_org_ok)
  note known = commit_org_record_known [OF r, where st = st and v = v and root = root]
  show ?thesis
    by (rule that [OF committed_data_find [THEN trans, OF known(1)]])
      (use False in \<open>simp_all add: committed_data_find known(2)\<close>)
qed

context chain_ledger
begin

text \<open>A run whose message verifies leaves the verified members as the record, whatever the save does.\<close>

lemma receive_commits:
  assumes ops: "se_chain S = ops" and msg: "receive_message S s = (Inr (dk, msg), s1)"
    and st: "slots_of (sv_chain s) (env_org_id (wm_envelope msg)) = Some st"
    and ver: "verify_incoming S (svc_data s) dk msg st = Inr v" and root: "root_hash (vu_trie v) = Inr rh"
  obtains q s' r' where "receive_and_verify S s = (q, s')"
    and "\<And>e. q = Inl e \<Longrightarrow> \<exists>s2. svc_save S s2 = (Inl e, s')"
    and "\<And>out. q = Inr out \<Longrightarrow> out = \<lparr>ro_org_id = env_org_id (wm_envelope msg), ro_epoch = vu_epoch v, ro_root = root_hash_word rh\<rparr>"
    and "sv_chain s' = sv_chain s" and "find_org (env_org_id (wm_envelope msg)) (svc_data s') = Inr r'"
    and "or_root_hash r' = root_hash_word rh" and "or_epoch r' = vu_epoch v"
    and "or_last_seq r' = last_seen (vu_seq_guard v)"
    and "or_trie_members r' = map snapshot_of_leaf (trie_members (vu_trie v))"
    and "is_first_admission (svc_data s) (env_org_id (wm_envelope msg)) \<Longrightarrow> or_org_pub_key r' = os_org_pub_key st"
    and "\<And>j. j \<noteq> env_org_id (wm_envelope msg) \<Longrightarrow> find_org j (svc_data s') = find_org j (svc_data s)"
proof -
  let ?i = "env_org_id (wm_envelope msg)"
  obtain pid mid r s3 where sv: "svc_save S (svc_update_data (committed_data st msg v (root_hash_word rh) pid mid) s1) = (r, s3)"
    and run: "receive_and_verify S s = (and_then r (\<lambda>_. Inr \<lparr>ro_org_id = ?i, ro_epoch = vu_epoch v,
        ro_root = root_hash_word rh\<rparr>), s3)"
    by (rule receive_runs [OF ops msg st ver root]) (rule that)
  have s3: "svc_data s3 = committed_data st msg v (root_hash_word rh) pid mid (svc_data s)" "sv_chain s3 = sv_chain s"
    using svc_save_same [OF sv] receive_message_frame [OF msg] by simp_all
  obtain r' where r': "find_org ?i (committed_data st msg v (root_hash_word rh) pid mid (svc_data s)) = Inr r'"
    "or_root_hash r' = root_hash_word rh" "or_epoch r' = vu_epoch v" "or_last_seq r' = last_seen (vu_seq_guard v)"
    "or_trie_members r' = map snapshot_of_leaf (trie_members (vu_trie v))"
    "is_first_admission (svc_data s) ?i \<Longrightarrow> or_org_pub_key r' = os_org_pub_key st"
    "\<And>j. j \<noteq> ?i \<Longrightarrow> find_org j (committed_data st msg v (root_hash_word rh) pid mid (svc_data s)) = find_org j (svc_data s)"
    by (rule committed_record) (rule that)
  show ?thesis
    by (rule that [OF run _ _ s3(2), of r']) (use sv r' s3(1) in \<open>auto simp: and_then_eq_Inl and_then_eq_Inr\<close>)
qed

lemma receive_sound:
  assumes laws: "nfc_laws (svc_U S)" and ops: "se_chain S = ops" and run: "receive_and_verify S s = (Inr out, s')"
  obtains dk msg s1 st r' where "receive_message S s = (Inr (dk, msg), s1)"
    and "ro_org_id out = env_org_id (wm_envelope msg)"
    and "slots_of (sv_chain s) (ro_org_id out) = Some st"
    and "ed_verify (ne_ed (se_node S)) (VerifyingKey (os_org_pub_key st))
        (transcript (ro_org_id out) (env_parent_seq (wm_envelope msg)) (env_delta_bytes (wm_envelope msg)))
        (env_signature (wm_envelope msg))"
    and "RootHash (ro_root out) = os_root_hash st" and "ro_epoch out = os_epoch st"
    and "find_org (ro_org_id out) (svc_data s') = Inr r'"
    and "or_root_hash r' = ro_root out" and "or_epoch r' = ro_epoch out"
    and "or_last_seq r' = env_parent_seq (wm_envelope msg)"
    and "\<And>r. find_org (ro_org_id out) (svc_data s) = Inr r \<Longrightarrow> or_epoch r < or_epoch r' \<and> or_last_seq r < or_last_seq r'"
    and "\<And>t. trie_from_snapshots S (or_trie_members r') = Inr t \<Longrightarrow> root_hash t = Inr (os_root_hash st)"
    and "\<And>j. j \<noteq> ro_org_id out \<Longrightarrow> find_org j (svc_data s') = find_org j (svc_data s)"
    and "sv_chain s' = sv_chain s"
proof -
  obtain dk msg s1 st v rh where m: "receive_message S s = (Inr (dk, msg), s1)"
    "slots_of (sv_chain s) (env_org_id (wm_envelope msg)) = Some st"
    "verify_incoming S (svc_data s) dk msg st = Inr v" "root_hash (vu_trie v) = Inr rh"
    by (rule receive_ok [OF ops run]) (rule that)
  note sound = verify_incoming_sound [OF laws m(3)]
  obtain q s2 r' where c: "receive_and_verify S s = (q, s2)"
    "\<And>out. q = Inr out \<Longrightarrow> out = \<lparr>ro_org_id = env_org_id (wm_envelope msg), ro_epoch = vu_epoch v, ro_root = root_hash_word rh\<rparr>"
    "sv_chain s2 = sv_chain s" "find_org (env_org_id (wm_envelope msg)) (svc_data s2) = Inr r'"
    "or_root_hash r' = root_hash_word rh" "or_epoch r' = vu_epoch v" "or_last_seq r' = last_seen (vu_seq_guard v)"
    "or_trie_members r' = map snapshot_of_leaf (trie_members (vu_trie v))"
    "\<And>j. j \<noteq> env_org_id (wm_envelope msg) \<Longrightarrow> find_org j (svc_data s2) = find_org j (svc_data s)"
    by (rule receive_commits [OF ops m]) (rule that)
  have eq: "q = Inr out" "s2 = s'" using c(1) run by simp_all
  then have out: "out = \<lparr>ro_org_id = env_org_id (wm_envelope msg), ro_epoch = vu_epoch v, ro_root = root_hash_word rh\<rparr>"
    using c(2) by simp
  have rh: "rh = os_root_hash st" using sound(2) m(4) by simp
  have "root_hash t = Inr (os_root_hash st)" if "trie_from_snapshots S (or_trie_members r') = Inr t" for t
    using rebuilt_members(2) [OF laws sound(1)] that c(8) sound(2) trie_invD(1) [OF sound(1)]
    by (simp add: trees_ok_def root_hash_def ok_or_eq_Inr)
  then show ?thesis
    using that [OF m(1), of st r'] c(3-9) eq(2) out m(2) sound(3-6) rh by simp
qed

end

section \<open>The two messages at their receivers\<close>

context chain_ledger
begin

lemma joiner_commits:
  assumes laws: "nfc_laws (svc_U S)" "ed_correct (ne_ed (se_node S))" "codec_correct (ne_codec (se_node S))"
      "codec_correct (se_snapshot_codec S)" and ops: "se_chain S = ops"
    and plan: "plan_admission S i jr d = Inr (r, kp, mid, root, delta)"
    and msg: "admission_message S i sec (r, kp, mid, root, delta) = Inr msg"
    and snap: "to_allocvec (se_snapshot_codec S) (or_trie_members r) = Inr b"
    and key: "svc_vk S (or_org_pub_key r)" "or_admin_member_key r = or_org_pub_key r"
    and wrap: "or_last_seq r + 1 \<noteq> 0" "or_epoch r + 1 \<noteq> 0"
    and recv: "receive_message S s = (Inr (dk, msg), s1)"
    and st: "slots_of (sv_chain s) i =
        Some \<lparr>os_root_hash = RootHash root, os_org_pub_key = or_org_pub_key r, os_epoch = or_epoch r + 1\<rparr>"
    and joiner: "is_first_admission (svc_data s) i" "invited_by (svc_data s) i dk"
  shows "\<exists>t leaf t1. trie_from_snapshots S (or_trie_members r) = Inr t
    \<and> leaf_from_snapshot S (joiner_snapshot jr) = Inr leaf
    \<and> snapshot t1 = (snapshot t)(ml_id leaf \<mapsto> leaf)
    \<and> (change_collides (svc_H S) t t1
       \<or> (\<exists>q s' r' t'. receive_and_verify S s = (q, s') \<and> (\<forall>e. q = Inl e \<longrightarrow> (\<exists>s2. svc_save S s2 = (Inl e, s')))
            \<and> in_sync S slots_of i s' \<and> find_org i (svc_data s') = Inr r'
            \<and> trie_from_snapshots S (or_trie_members r') = Inr t' \<and> snapshot t' = snapshot t1))"
proof -
  let ?st = "\<lparr>os_root_hash = RootHash root, os_org_pub_key = or_org_pub_key r, os_epoch = or_epoch r + 1\<rparr>"
  have i: "env_org_id (wm_envelope msg) = i"
    using msg built_envelope_ids by (auto simp: admission_message_ok)
  obtain t leaf t1 where a: "trie_from_snapshots S (or_trie_members r) = Inr t"
    "leaf_from_snapshot S (joiner_snapshot jr) = Inr leaf" "snapshot t1 = (snapshot t)(ml_id leaf \<mapsto> leaf)"
    and acc: "change_collides (svc_H S) t t1
       \<or> (\<exists>v. verify_incoming S (svc_data s) dk msg ?st = Inr v \<and> snapshot (vu_trie v) = snapshot t1
            \<and> vu_epoch v = or_epoch r + 1 \<and> last_seen (vu_seq_guard v) = or_last_seq r + 1)"
    using joiner_accepts [OF laws plan msg snap key wrap refl joiner] by metis
  have "\<exists>q s' r' t'. receive_and_verify S s = (q, s') \<and> (\<forall>e. q = Inl e \<longrightarrow> (\<exists>s2. svc_save S s2 = (Inl e, s')))
      \<and> in_sync S slots_of i s' \<and> find_org i (svc_data s') = Inr r'
      \<and> trie_from_snapshots S (or_trie_members r') = Inr t' \<and> snapshot t' = snapshot t1"
    if nc: "\<not> change_collides (svc_H S) t t1"
  proof -
    obtain v where v: "verify_incoming S (svc_data s) dk msg ?st = Inr v" "snapshot (vu_trie v) = snapshot t1"
        "vu_epoch v = or_epoch r + 1"
      using acc nc by blast
    have root: "root_hash (vu_trie v) = Inr (RootHash root)"
      using verify_incoming_sound(2) [OF laws(1) v(1)] by simp
    have keep: "storable S m" if "snapshot (vu_trie v) j = Some m" for j m
      using that v(2) a(3) rebuilt_trie(3) [OF laws(1) a(1)] leaf_from_snapshot_storable [OF laws(1) a(2)]
      by (auto split: if_splits)
    obtain t' where t': "trie_from_snapshots S (map snapshot_of_leaf (trie_members (vu_trie v))) = Inr t'"
        "snapshot t' = snapshot (vu_trie v)" "root_hash t' = Inr (os_root_hash ?st)"
      by (rule verified_rebuilds [OF laws(1) v(1)]) (use keep in blast)+
    obtain q s' r' where c: "receive_and_verify S s = (q, s')"
      "\<And>e. q = Inl e \<Longrightarrow> \<exists>s2. svc_save S s2 = (Inl e, s')"
      "sv_chain s' = sv_chain s" "find_org i (svc_data s') = Inr r'"
      "or_root_hash r' = root" "or_epoch r' = vu_epoch v"
      "or_trie_members r' = map snapshot_of_leaf (trie_members (vu_trie v))"
      "or_org_pub_key r' = or_org_pub_key r"
      by (rule receive_commits [OF ops recv _ v(1) root]) (use st joiner(1) i in simp_all)
    have "in_sync S slots_of i s'"
      using c st t' v(3) by (simp add: in_sync_def)
    then show ?thesis using c t' v(2) by metis
  qed
  then show ?thesis using a by blast
qed

text \<open>
  The revoked device at the membership of the revocation: it drops the organisation, unless another
  member carries a device of its personas.
\<close>

lemma revoked_drops:
  assumes laws: "nfc_laws (svc_U S)" "ed_correct (ne_ed (se_node S))" "codec_correct (ne_codec (se_node S))"
    and ops: "se_chain S = ops"
    and plan: "plan_revocation S i m d = Inr (r, kp, t2, root, delta)"
    and env: "envelope_build (ne_ed (se_node S)) (ne_codec (se_node S)) i (or_last_seq r + 1) delta kp
        = Inr (wm_envelope msg)"
    and key: "svc_vk S (or_org_pub_key r)" "or_admin_member_key r = or_org_pub_key r"
    and recv: "receive_message S s = (Inr (dk, msg), s1)"
    and st: "slots_of (sv_chain s) i =
        Some \<lparr>os_root_hash = RootHash root, os_org_pub_key = or_org_pub_key r, os_epoch = or_epoch r + 1\<rparr>"
    and rec: "find_org i (svc_data s) = Inr rm" "trie_from_snapshots S (or_trie_members rm) = Inr q"
    and t: "trie_from_snapshots S (or_trie_members r) = Inr t"
    and same: "snapshot q = snapshot t" "or_last_seq rm < or_last_seq r + 1" "or_epoch rm < or_epoch r + 1"
      "member_count q + 1 < 2 ^ 64"
    and mine: "\<And>p n j. p \<in> set (sd_personas (svc_data s)) \<Longrightarrow> pr_org_id p = Some i \<Longrightarrow> snapshot t j = Some n \<Longrightarrow>
        has_device (ml_p2p_devices n) (persona_device (ne_ed (se_node S)) p) \<Longrightarrow> j = MemberId m"
  shows "\<exists>t1. snapshot t1 = (snapshot t)(MemberId m := None)
    \<and> (change_collides (svc_H S) t t1
       \<or> (\<exists>q s'. receive_and_self_delete_if_revoked S s = (q, s')
            \<and> (q = Inr (SelfDeleted i) \<or> (\<exists>e s2. q = Inl e \<and> svc_save S s2 = (Inl e, s')))
            \<and> find_org i (svc_data s') = Inl OrgNotOnChain
            \<and> (\<forall>p\<in>set (sd_personas (svc_data s')). pr_org_id p = Some i \<longrightarrow> pr_status p = Revoked)
            \<and> (\<forall>j. j \<noteq> i \<longrightarrow> find_org j (svc_data s') = find_org j (svc_data s))))"
proof -
  let ?st = "\<lparr>os_root_hash = RootHash root, os_org_pub_key = or_org_pub_key r, os_epoch = or_epoch r + 1\<rparr>"
  let ?E = "ne_ed (se_node S)"
  have i: "env_org_id (wm_envelope msg) = i" using built_envelope_ids [OF env] by simp
  obtain t1 where t1: "snapshot t1 = (snapshot t)(MemberId m := None)"
    and acc: "change_collides (svc_H S) t t1
       \<or> (\<exists>v. verify_known_org S (svc_data s) msg ?st = Inr v \<and> snapshot (vu_trie v) = (snapshot t)(MemberId m := None))"
    by (rule exE [OF revoked_accepts [OF laws plan env key refl rec t same]], elim conjE, rule that)
  have "\<exists>q s'. receive_and_self_delete_if_revoked S s = (q, s')
      \<and> (q = Inr (SelfDeleted i) \<or> (\<exists>e s2. q = Inl e \<and> svc_save S s2 = (Inl e, s')))
      \<and> find_org i (svc_data s') = Inl OrgNotOnChain
      \<and> (\<forall>p\<in>set (sd_personas (svc_data s')). pr_org_id p = Some i \<longrightarrow> pr_status p = Revoked)
      \<and> (\<forall>j. j \<noteq> i \<longrightarrow> find_org j (svc_data s') = find_org j (svc_data s))"
    if nc: "\<not> change_collides (svc_H S) t t1"
  proof -
    obtain v where v: "verify_known_org S (svc_data s) msg ?st = Inr v"
        "snapshot (vu_trie v) = (snapshot t)(MemberId m := None)"
      using acc nc by blast
    have ver: "verify_envelope_against_chain (se_node S) q (wm_envelope msg)
        \<lparr>vc_expected_org_id = i, vc_author_member_key = VerifyingKey (or_org_pub_key r),
         vc_seq_guard = seq_guard_from_last_seen (or_last_seq rm), vc_last_committed_epoch = or_epoch rm\<rparr>
        (chain_ops_reader ?st) = Inr v"
      using v(1) verify_known_unfold [OF rec i, of ?st] key(1) by simp
    have "trie_inv (svc_U S) (svc_H S) (vu_trie v)" and root: "root_hash (vu_trie v) = Inr (RootHash root)"
      by (rule verify_commit_state [OF laws(1) rebuilt_trie(1) [OF laws(1) rec(2)] ver];
          auto simp: chain_ops_reader_def)+
    from this(1) have wf: "smt_wf (svc_H S) (ot_root (vu_trie v))" by (rule trie_invD(6))
    have gone: "\<not> still_present ?E (svc_data s) i (vu_trie v)"
      using mine v(2) collect_members_get [OF wf]
      by (auto simp: still_present_def device_in_trie_def list_ex_iff trie_members_def split: if_splits)
    obtain q s3 where sv: "svc_save S (svc_update_data (removed_data i) s1) = (q, s3)" by fastforce
    have run: "receive_and_self_delete_if_revoked S s = (and_then q (\<lambda>_. Inr (SelfDeleted i)), s3)"
      by (rule self_delete_runs [OF ops recv i st v(1) root _ sv]) (simp add: gone)
    have "svc_data s3 = removed_data i (svc_data s)"
      using svc_save_same [OF sv] receive_message_frame [OF recv] by simp
    then show ?thesis
      using run sv removed_data_orgs removed_data_personas by (cases q) fastforce+
  qed
  then show ?thesis using t1 by blast
qed

text \<open>A device whose record missed a change keeps the organisation: every later message is rejected.\<close>

lemma missed_change_rejected:
  assumes laws: "nfc_laws (svc_U S)" "ed_correct (ne_ed (se_node S))" "codec_correct (ne_codec (se_node S))"
    and ops: "se_chain S = ops"
    and env: "envelope_build (ne_ed (se_node S)) (ne_codec (se_node S)) i n delta kp = Inr (wm_envelope msg)"
    and wire: "delta_wire_ok (svc_U S) (svc_vk S) delta"
    and key: "svc_vk S (os_org_pub_key st)" "keypair_verifying_key (ne_ed (se_node S)) kp = VerifyingKey (os_org_pub_key st)"
    and recv: "receive_message S s = (Inr (dk, msg), s1)" and st: "slots_of (sv_chain s) i = Some st"
    and rec: "find_org i (svc_data s) = Inr r" "trie_from_snapshots S (or_trie_members r) = Inr q"
    and stale: "root_hash q \<noteq> Inr (d_base_root delta)" and seq: "or_last_seq r < n"
  shows "receive_and_self_delete_if_revoked S s = (Inl NodeDeltaBaseMismatch, s1)
    \<and> receive_and_verify S s = (Inl NodeDeltaBaseMismatch, s1)
    \<and> svc_data s1 = svc_data s"
proof -
  have i: "env_org_id (wm_envelope msg) = i" using built_envelope_ids [OF env] by simp
  note rej = stale_rejects [OF laws env wire key rec stale seq]
  show ?thesis
    using self_delete_error [OF ops recv _ rej(1)] receive_and_verify_error [OF ops recv _ rej(2)]
      receive_message_frame [OF recv] st i by simp
qed

end

end
