(* ===== verification/Stories.thy ===== *)
theory Stories
  imports Joining
begin

text \<open>
  The theorems of the service of \<^verbatim>\<open>org-node\<close>: founding, admission, revocation, receiving,
  self-deletion, storage and transport, with a concrete service at which their hypotheses are met: the
  repository's mock chain, one mailbox as the network, and codecs that know a few values.
\<close>

section \<open>A concrete service\<close>

definition one_codec :: "'w \<Rightarrow> 'w Codec" where
  "one_codec w =
     \<lparr>to_allocvec = (\<lambda>v. if v = w then Inr [1] else Inl []),
      from_bytes = (\<lambda>b. if b = [1] then Inr w else Inl [])\<rparr>"

definition any_codec :: "'w \<Rightarrow> 'w Codec" where
  "any_codec w = \<lparr>to_allocvec = (\<lambda>_. Inr [1]), from_bytes = (\<lambda>_. Inr w)\<rparr>"

text \<open>A network that delivers to one mailbox; \<open>up\<close> tells whether a peer answers.\<close>

definition ex_iroh :: "bool \<Rightarrow> bytes list Iroh" where
  "ex_iroh up =
     \<lparr>ir_bind = (\<lambda>_ _ _ _. eff_return 0), ir_id = (\<lambda>_ _. 1), ir_bound_sockets = (\<lambda>_ _. []),
      ir_connect = (\<lambda>_ _ _. if up then eff_return 0 else eff_fail ''timed out''),
      ir_open_bi = (\<lambda>_. eff_return 0), ir_write_all = (\<lambda>_ b. eff_modify (\<lambda>n. n @ [b])),
      ir_finish = (\<lambda>_. eff_return ()), ir_stopped = (\<lambda>_. eff_return ()), ir_close = (\<lambda>_ n. n),
      ir_accept = (\<lambda>_ n. (Some 0, n)), ir_incoming = (\<lambda>_. eff_return 0), ir_remote_id = (\<lambda>_ _. 1),
      ir_accept_bi = (\<lambda>_. eff_return 0),
      ir_read_to_end = (\<lambda>_ _ n. case n of [] \<Rightarrow> (Inl ''closed'', []) | b # bs \<Rightarrow> (Inr b, bs))\<rparr>"

definition ex_crypto :: Crypto where
  "ex_crypto =
     \<lparr>hash_password_into = (\<lambda>_ _. Inr 7), aead_new_from_slice = Inr,
      aead_encrypt = (\<lambda>_ _ p. Inr p), aead_decrypt = (\<lambda>_ _ c. Inr c)\<rparr>"

definition ex_env_over ::
  "'c ChainOps \<Rightarrow> bool \<Rightarrow> DeltaWire Codec \<Rightarrow> MemberSnapshot list \<Rightarrow> MessageWire \<Rightarrow> ('c, bytes list) ServiceEnv" where
  "ex_env_over ops up P xs mw =
     \<lparr>se_node = \<lparr>ne_unicode = ex_unicode, ne_hasher = ex_hasher, ne_vk_ok = (\<lambda>_. True), ne_ed = ex_ed,
                 ne_codec = P\<rparr>,
      se_vk_error = (\<lambda>_. []), se_endpoint_id_ok = (\<lambda>_. True), se_crypto = ex_crypto,
      se_base64 = \<lparr>b64_encode = (\<lambda>_. []), b64_decode = (\<lambda>_. Inr [])\<rparr>,
      se_store_codec = any_codec store_data_default, se_message_codec = any_codec mw,
      se_snapshot_codec = one_codec xs,
      se_invite_codec = any_codec \<lparr>inv_org_id = OrgId 0, inv_org_pub_key = 0, inv_admin_member_key = 0,
        inv_admin_device_key = 0, inv_admin_node_addr = []\<rparr>,
      se_join_codec = any_codec \<lparr>jr_handle = [], jr_name = [], jr_surname = [], jr_member_key = 0,
        jr_device_key = 0, jr_node_addr = []\<rparr>,
      se_addr_codec = any_codec \<lparr>ea_id = 0, ea_addrs = []\<rparr>,
      se_iroh = ex_iroh up, se_chain = ops\<rparr>"

abbreviation ex_env ::
  "bool \<Rightarrow> DeltaWire Codec \<Rightarrow> MemberSnapshot list \<Rightarrow> MessageWire \<Rightarrow> (MockChainInner, bytes list) ServiceEnv" where
  "ex_env \<equiv> ex_env_over mock_chain_ops"

definition ex_persona :: "bytes32 \<Rightarrow> RString \<Rightarrow> PersonaRecord" where
  "ex_persona k h =
     \<lparr>pr_persona_id = hex_id k, pr_org_id = None, pr_handle = h, pr_name = rstr ''n'', pr_surname = rstr ''s'',
      pr_member_seed = k, pr_device_seed = k, pr_member_id = None, pr_status = Proposed\<rparr>"

definition ex_snapshot :: "bytes32 \<Rightarrow> RString \<Rightarrow> MemberSnapshot" where
  "ex_snapshot k h = \<lparr>ms_id = k, ms_handle = h, ms_name = rstr ''n'', ms_surname = rstr ''s'',
     ms_member_key = k, ms_device_keys = [k]\<rparr>"

definition ex_join :: JoinRequest where
  "ex_join = \<lparr>jr_handle = rstr ''b'', jr_name = rstr ''n'', jr_surname = rstr ''s'', jr_member_key = 2,
     jr_device_key = 2, jr_node_addr = []\<rparr>"

definition ex_record :: "MemberSnapshot list \<Rightarrow> bytes32 \<Rightarrow> OrgRecord" where
  "ex_record xs root =
     \<lparr>or_org_id = OrgId 5, or_root_hash = root, or_org_pub_key = 1, or_epoch = 1, or_org_secret = None,
      or_last_seq = 0, or_admin_member_key = 1, or_trie_members = xs, or_proxy_account = None\<rparr>"

definition ex_disk :: Disk where
  "ex_disk = \<lparr>dk_files = Map.empty, dk_read_error = (\<lambda>_. None), dk_write_error = (\<lambda>_. None)\<rparr>"

definition ex_service :: "StoreData \<Rightarrow> 'c \<Rightarrow> bytes list \<Rightarrow> ('c, bytes list) OrgService" where
  "ex_service d c n = service_new \<lparr>ps_path = ''store'', ps_key = [], ps_data = d\<rparr> ex_disk c n (\<lambda>_. 0)"

lemma ex_env_simps [simp]:
  "se_node (ex_env_over ops up P xs mw) = \<lparr>ne_unicode = ex_unicode, ne_hasher = ex_hasher, ne_vk_ok = (\<lambda>_. True),
     ne_ed = ex_ed, ne_codec = P\<rparr>"
  "se_chain (ex_env_over ops up P xs mw) = ops" "se_snapshot_codec (ex_env_over ops up P xs mw) = one_codec xs"
  "se_message_codec (ex_env_over ops up P xs mw) = any_codec mw" "se_iroh (ex_env_over ops up P xs mw) = ex_iroh up"
  by (simp_all add: ex_env_over_def)

lemma ex_keys [simp]:
  "ed_verifying_key ex_ed = VerifyingKey"
  "keypair_verifying_key ex_ed (keypair_from_seed k) = VerifyingKey k"
  "keypair_verifying_key ex_ed (SigningKeypair k) = VerifyingKey k"
  by (simp_all add: ex_ed_def keypair_verifying_key_def keypair_from_seed_def)

lemma ex_keys_valid: "keys_valid (ex_env_over ops up P xs mw)"
  by (simp add: keys_valid_def)

lemma ex_codec_laws: "codec_correct (one_codec w)"
  by (auto simp: codec_correct_def one_codec_def)

text \<open>A save in the concrete service succeeds, and so does an exchange with a peer that is up.\<close>

lemma ex_save:
  assumes "sv_disk s = ex_disk"
  shows "\<exists>s'. svc_save (ex_env_over ops up P xs mw) s = (Inr (), s') \<and> sv_chain s' = sv_chain s \<and> svc_data s' = svc_data s"
  using assms
  by (simp add: svc_save_def Let_def draw_bytes_def store_save_def ex_env_over_def any_codec_def ex_crypto_def
      eff_map_err_def fs_write_def ex_disk_def split: prod.splits)

lemma ex_leaf_from_snapshot:
  "leaf_from_snapshot (ex_env_over ops up P xs mw) (ex_snapshot k (rstr ''a'')) = Inr (ex_leaf k (rstr ''a''))"
  "leaf_from_snapshot (ex_env_over ops up P xs mw) (ex_snapshot k (rstr ''b'')) = Inr (ex_leaf k (rstr ''b''))"
proof -
  have "snapshot_of_leaf (ex_leaf k h) = ex_snapshot k h" for h
    by (simp add: snapshot_of_leaf_def ex_leaf_def ex_snapshot_def devices_def)
  moreover have "storable (ex_env_over ops up P xs mw) (ex_leaf k (rstr ''a''))"
    and "storable (ex_env_over ops up P xs mw) (ex_leaf k (rstr ''b''))"
    using ex_leaf_wf by (simp_all add: storable_def leaf_keys_ok_def list_all_iff) (simp_all add: ex_leaf_def)
  ultimately show
    "leaf_from_snapshot (ex_env_over ops up P xs mw) (ex_snapshot k (rstr ''a'')) = Inr (ex_leaf k (rstr ''a''))"
    "leaf_from_snapshot (ex_env_over ops up P xs mw) (ex_snapshot k (rstr ''b'')) = Inr (ex_leaf k (rstr ''b''))"
    using leaf_snapshot_roundtrip by metis+
qed

definition ex_alone :: OrgTrie where
  "ex_alone = (case genesis ex_unicode ex_hasher [ex_alice] of Inr t \<Rightarrow> t)"

lemma ex_alone_genesis:
  shows "genesis ex_unicode ex_hasher [ex_alice] = Inr ex_alone"
    and "trie_inv ex_unicode ex_hasher ex_alone" and "snapshot ex_alone = [MemberId 1 \<mapsto> ex_alice]"
    and "root_hash ex_alone = Inr (smt_root ex_hasher (ot_root ex_alone))"
proof -
  have wf: "\<forall>m\<in>set [ex_alice]. leaf_wf ex_unicode m" by (simp add: ex_alice_def ex_leaf_wf)
  have spec: "spec_genesis ex_unicode Map.empty [ex_alice] = Inr [MemberId 1 \<mapsto> ex_alice]"
    by (simp add: spec_add_def spec_put_def handle_conflict_def) (simp add: ex_alice_def ex_leaf_def)
  show "genesis ex_unicode ex_hasher [ex_alice] = Inr ex_alone"
    using genesis_ok(2) [OF wf spec, of ex_hasher] by (auto simp: ex_alone_def)
  from genesis_ok(1) [OF wf this] show "trie_inv ex_unicode ex_hasher ex_alone"
    and "snapshot ex_alone = [MemberId 1 \<mapsto> ex_alice]"
    and "root_hash ex_alone = Inr (smt_root ex_hasher (ot_root ex_alone))"
    using spec by simp_all
qed

abbreviation ex_solo :: "MemberSnapshot list" where "ex_solo \<equiv> [ex_snapshot 1 (rstr ''a'')]"
abbreviation ex_duo :: "MemberSnapshot list" where "ex_duo \<equiv> [ex_snapshot 1 (rstr ''a''), ex_snapshot 2 (rstr ''b'')]"

lemma ex_tries:
  "trie_from_snapshots (ex_env_over ops up P xs mw) ex_solo = Inr ex_alone"
  "trie_from_snapshots (ex_env_over ops up P xs mw) ex_duo = Inr ex_trie"
  using ex_alone_genesis(1) ex_genesis(1)
  by (simp_all add: trie_from_snapshots_def ex_leaf_from_snapshot ex_alice_def ex_bob_def)

text \<open>Adding Bob to the first trie and deleting him from the second.\<close>

lemma ex_addition:
  obtains t1 t2 d root where "add_member ex_unicode ex_hasher ex_alone ex_bob = Inr t1"
    and "recalculate ex_hasher t1 = Inr (t2, d)" and "root_hash t2 = Inr (RootHash root)"
proof -
  have wf: "leaf_wf ex_unicode ex_bob" by (simp add: ex_bob_def ex_leaf_wf)
  have id: "ml_id ex_bob = MemberId 2" by (simp add: ex_bob_def ex_leaf_def)
  have "member_count ex_alone = card (dom (snapshot ex_alone))"
    using trie_invD(3) [OF ex_alone_genesis(2)] by (simp add: member_count_def)
  then have "member_count ex_alone + 1 < 2 ^ 64" by (simp add: ex_alone_genesis(3))
  moreover have "spec_add ex_unicode (snapshot ex_alone) ex_bob = Inr ((snapshot ex_alone)(MemberId 2 \<mapsto> ex_bob))"
    unfolding ex_alone_genesis(3)
    by (auto simp: spec_add_def spec_put_def handle_conflict_def id)
      (auto simp: ex_alice_def ex_bob_def ex_leaf_def handle_skeleton_def ex_unicode_def rstr_def split: if_splits)
  ultimately obtain t1 where t1: "add_member ex_unicode ex_hasher ex_alone ex_bob = Inr t1"
    using add_member_implements [OF ex_alone_genesis(2) wf] by (cases "add_member ex_unicode ex_hasher ex_alone ex_bob") auto
  obtain t2 d where t2: "recalculate ex_hasher t1 = Inr (t2, d)"
      "root_hash t2 = Inr (smt_root ex_hasher (ot_root t1))"
    by (rule recalculate_ok [OF add_member_snapshot(1) [OF ex_alone_genesis(2) wf t1]])
  then show ?thesis using that [OF t1 t2(1)] by (metis RootHash.collapse)
qed

lemma ex_deletion:
  obtains t1 t2 d root where "delete_member ex_unicode ex_trie (MemberId 2) = Inr t1"
    and "recalculate ex_hasher t1 = Inr (t2, d)" and "root_hash t2 = Inr (RootHash root)"
proof -
  obtain t1 where t1: "delete_member ex_unicode ex_trie (MemberId 2) = Inr t1"
    using delete_member_implements [OF ex_genesis(2), of "MemberId 2"]
    by (cases "delete_member ex_unicode ex_trie (MemberId 2)") (auto simp: spec_delete_def ex_genesis(3))
  obtain t2 d where t2: "recalculate ex_hasher t1 = Inr (t2, d)"
      "root_hash t2 = Inr (smt_root ex_hasher (ot_root t1))"
    by (rule recalculate_ok [OF delete_member_snapshot(1) [OF ex_genesis(2) t1]])
  then show ?thesis using that [OF t1 t2(1)] by (metis RootHash.collapse)
qed

definition ex_data :: "MemberSnapshot list \<Rightarrow> bytes32 \<Rightarrow> StoreData" where
  "ex_data xs root = store_data_default\<lparr>sd_personas := [ex_persona 1 (rstr ''a'')], sd_orgs := [ex_record xs root]\<rparr>"

definition ex_ledger :: "bytes32 \<Rightarrow> MockChainInner" where
  "ex_ledger root = mock_chain_ops_set (OrgId 5) \<lparr>os_root_hash = RootHash root, os_org_pub_key = 1, os_epoch = 1\<rparr>
     mock_chain_ops_new"

text \<open>The plans and the runs of the two stories in the concrete service.\<close>

lemma ex_loaded:
  "load_admin_org (ex_env_over ops up P xs mw) (OrgId 5) (ex_data ex_solo r) = Inr (ex_record ex_solo r, ex_alone, SigningKeypair 1)"
  "load_admin_org (ex_env_over ops up P xs mw) (OrgId 5) (ex_data ex_duo r) = Inr (ex_record ex_duo r, ex_trie, SigningKeypair 1)"
  by (simp_all add: ex_tries load_admin_org_def find_org_def ex_data_def ex_record_def admin_persona_for_org_def
      ex_persona_def keypair_from_seed_def)

lemma ex_plans:
  obtains root d t2 sroot e where
    "\<And>ops up P xs mw r. plan_admission (ex_env_over ops up P xs mw) (OrgId 5) ex_join (ex_data ex_solo r) =
        Inr (ex_record ex_solo r, SigningKeypair 1, MemberId 2, root, d)"
    and "\<And>ops up P xs mw r. plan_revocation (ex_env_over ops up P xs mw) (OrgId 5) 2 (ex_data ex_duo r) =
        Inr (ex_record ex_duo r, SigningKeypair 1, t2, sroot, e)"
proof -
  obtain t1 t2 d root where t: "add_member ex_unicode ex_hasher ex_alone ex_bob = Inr t1"
      "recalculate ex_hasher t1 = Inr (t2, d)" "root_hash t2 = Inr (RootHash root)"
    by (rule ex_addition)
  obtain u1 u2 e sroot where u: "delete_member ex_unicode ex_trie (MemberId 2) = Inr u1"
      "recalculate ex_hasher u1 = Inr (u2, e)" "root_hash u2 = Inr (RootHash sroot)"
    by (rule ex_deletion)
  have leaf: "member_leaf_new ex_unicode (MemberId 2) (rstr ''b'') (P2pMemberKey (VerifyingKey 2)) (rstr ''n'')
      (rstr ''s'') [P2pDeviceKey (VerifyingKey 2)] = Inr ex_bob"
    using ex_leaf_from_snapshot(2) [of ops True undefined undefined undefined 2]
    by (simp add: leaf_from_snapshot_ok ex_snapshot_def ex_bob_def)
  have "plan_admission (ex_env_over ops up P xs mw) (OrgId 5) ex_join (ex_data ex_solo r) =
        Inr (ex_record ex_solo r, SigningKeypair 1, MemberId 2, root, d)" for ops up P xs mw r
    using t leaf
    by (simp add: ex_loaded plan_admission_def Let_def ex_join_def parse_vk_def member_id_from_key_def)
  moreover have "plan_revocation (ex_env_over ops up P xs mw) (OrgId 5) 2 (ex_data ex_duo r) =
        Inr (ex_record ex_duo r, SigningKeypair 1, u2, sroot, e)" for ops up P xs mw r
    using u by (simp add: ex_loaded plan_revocation_def Let_def)
  ultimately show ?thesis using that by blast
qed

lemma ex_admin [simp]:
  "admin_persona_for_org ex_ed (OrgId 5) (ex_data xs r) = Inr (ex_persona 1 (rstr ''a''))"
  "find_org (OrgId 5) (ex_data xs r) = Inr (ex_record xs r)"
  "find_persona (pr_persona_id (ex_persona 1 (rstr ''a''))) (ex_data xs r) = Inr (ex_persona 1 (rstr ''a''))"
  by (simp_all add: find_org_def ex_data_def ex_record_def admin_persona_for_org_def ex_persona_def find_persona_def)

text \<open>A story in the concrete service: the chain accepts, the peer answers, the disk takes the store.\<close>

definition ex_started :: "MemberSnapshot list \<Rightarrow> bytes32 \<Rightarrow> (MockChainInner, bytes list) OrgService" where
  "ex_started xs r = ex_service (ex_data xs r) (ex_ledger r) []"

lemma ex_started_simps [simp]:
  "svc_data (ex_started xs r) = ex_data xs r" "sv_endpoint (ex_started xs r) = None"
  "sv_transport_mode (ex_started xs r) = Loopback" "sv_chain (ex_started xs r) = ex_ledger r"
  "sv_net (ex_started xs r) = []"
  "sv_disk (ex_started xs r) = ex_disk"
  by (simp_all add: ex_started_def ex_service_def service_new_def)

lemma ex_submits:
  "mock_submit_update (OrgId 5) root k 1 p (ex_ledger r) =
     (Inr (), (ex_ledger r)\<lparr>mc_slots := (mc_slots (ex_ledger r))(OrgId 5 \<mapsto>
        \<lparr>os_root_hash = RootHash root, os_org_pub_key = k, os_epoch = 2\<rparr>)\<rparr>)"
  by (simp add: mock_submit_update_def ex_ledger_def mock_chain_ops_set_def)

lemma ex_sends:
  assumes "sv_endpoint s = None" and "svc_data s = ex_data xs r" and "sv_transport_mode s = Loopback"
  shows "\<exists>s'. deliver_admission (ex_env_over ops True (any_codec dw) ys mw) (OrgId 5) ex_join a sec
      (ex_record xs r, SigningKeypair 1, m, root, d) s = (Inr (), s') \<and> sv_chain s' = sv_chain s
      \<and> svc_data s' = svc_data s \<and> sv_disk s' = sv_disk s"
    and "\<exists>s'. deliver_revocation (ex_env_over ops True (any_codec dw) ys mw) (OrgId 5) i a
      (ex_record xs r, SigningKeypair 1, t, root, d) s = (Inr (), s') \<and> sv_chain s' = sv_chain s
      \<and> svc_data s' = svc_data s \<and> sv_disk s' = sv_disk s"
  using assms
  by (simp_all add: deliver_admission_def deliver_revocation_def admission_message_def envelope_build_def
      any_codec_def Let_def ensure_endpoint_def bind_with_mode_def on_net_def eff_zoom_def eff_bind_def
      eff_map_err_def ex_iroh_def send_message_def endpoint_send_def send_conn_def encode_frame_def MAX_FRAME_def)

lemma ex_records:
  assumes "svc_data s = ex_data xs r" and "sv_disk s = ex_disk"
  shows "\<exists>s'. record_and_save (ex_env_over ops up P zs mw) (OrgId 5) f x s = (Inr x, s')"
proof -
  let ?s = "svc_update_data (\<lambda>d. d\<lparr>sd_orgs := update_first (\<lambda>r. or_org_id r = OrgId 5) f (sd_orgs d)\<rparr>) s"
  obtain s' where "svc_save (ex_env_over ops up P zs mw) ?s = (Inr (), s')"
    using ex_save [of ?s ops up P zs mw] assms(2) by (auto simp: svc_update_data_def)
  then show ?thesis
    using assms(1) by (simp add: record_and_save_def update_org_record_def eff_bind_def)
qed

lemma ex_runs:
  "\<exists>s'. admit_member (ex_env True (any_codec dw) ys mw) (OrgId 5) ex_join a None (ex_started ex_solo r) = (Inr 2, s')"
  "\<exists>s'. revoke_member (ex_env True (any_codec dw) ys mw) (OrgId 5) 2 a (ex_started ex_duo r) = (Inr (), s')"
proof -
  obtain root d t2 sroot e where
    plan: "\<And>up P xs mw r. plan_admission (ex_env up P xs mw) (OrgId 5) ex_join (ex_data ex_solo r) =
        Inr (ex_record ex_solo r, SigningKeypair 1, MemberId 2, root, d)"
    and rplan: "\<And>up P xs mw r. plan_revocation (ex_env up P xs mw) (OrgId 5) 2 (ex_data ex_duo r) =
        Inr (ex_record ex_duo r, SigningKeypair 1, t2, sroot, e)"
    by (rule ex_plans) (rule that)
  let ?c = "\<lambda>root. (ex_ledger r)\<lparr>mc_slots := (mc_slots (ex_ledger r))(OrgId 5 \<mapsto>
        \<lparr>os_root_hash = RootHash root, os_org_pub_key = 1, os_epoch = 2\<rparr>)\<rparr>"
  obtain s2 where s2: "deliver_admission (ex_env True (any_codec dw) ys mw) (OrgId 5) ex_join a None
        (ex_record ex_solo r, SigningKeypair 1, MemberId 2, root, d) ((ex_started ex_solo r)\<lparr>sv_chain := ?c root\<rparr>)
        = (Inr (), s2)" "svc_data s2 = ex_data ex_solo r" "sv_disk s2 = ex_disk"
    using ex_sends(1) [of "(ex_started ex_solo r)\<lparr>sv_chain := ?c root\<rparr>" ex_solo r mock_chain_ops dw ys mw a None "MemberId 2" root d] by auto
  show "\<exists>s'. admit_member (ex_env True (any_codec dw) ys mw) (OrgId 5) ex_join a None (ex_started ex_solo r) = (Inr 2, s')"
    using ex_records [OF s2(2,3)] plan s2(1) ex_submits [of root 1 None r]
    by (simp add: admit_member_def on_chain_def eff_zoom_def eff_bind_def mock_chain_ops_def Let_def)
      (simp add: ex_record_def eff_bind_def)
  obtain s3 where s3: "deliver_revocation (ex_env True (any_codec dw) ys mw) (OrgId 5) 2 a
        (ex_record ex_duo r, SigningKeypair 1, t2, sroot, e) ((ex_started ex_duo r)\<lparr>sv_chain := ?c sroot\<rparr>)
        = (Inr (), s3)" "svc_data s3 = ex_data ex_duo r" "sv_disk s3 = ex_disk"
    using ex_sends(2) [of "(ex_started ex_duo r)\<lparr>sv_chain := ?c sroot\<rparr>" ex_duo r mock_chain_ops dw ys mw 2 a t2 sroot e] by auto
  show "\<exists>s'. revoke_member (ex_env True (any_codec dw) ys mw) (OrgId 5) 2 a (ex_started ex_duo r) = (Inr (), s')"
    using ex_records [OF s3(2,3)] rplan s3(1) ex_submits [of sroot 1 None r]
    by (simp add: revoke_member_def on_chain_def eff_zoom_def eff_bind_def mock_chain_ops_def Let_def)
      (simp add: ex_record_def eff_bind_def)
qed

definition dw0 :: DeltaWire where "dw0 = \<lparr>dw_base_root = 0, dw_removed = [], dw_upserted = []\<rparr>"

definition mw0 :: MessageWire where
  "mw0 = \<lparr>mw_envelope = \<lparr>ew_org_id = 0, ew_parent_seq = 0, ew_delta_bytes = [], ew_signature = []\<rparr>,
     mw_org_secret = None, mw_genesis_snapshot = None\<rparr>"

definition ex_addr :: EndpointAddr where "ex_addr = \<lparr>ea_id = 2, ea_addrs = []\<rparr>"

lemma mock_genesis: "co_submit_genesis mock_chain_ops = mock_submit_genesis"
  by (simp add: mock_chain_ops_def)

lemma ex_founding:
  "\<exists>i s'. create_organisation (ex_env up P xs mw) (hex_id 1)
     (ex_service (store_data_default\<lparr>sd_personas := [ex_persona 1 (rstr ''a'')]\<rparr>) mock_chain_ops_new []) = (Inr i, s')"
proof -
  let ?s = "ex_service (store_data_default\<lparr>sd_personas := [ex_persona 1 (rstr ''a'')]\<rparr>) mock_chain_ops_new []"
  let ?S = "ex_env up P xs mw"
  obtain t2 d where t2: "recalculate ex_hasher ex_alone = Inr (t2, d)"
      "root_hash t2 = Inr (smt_root ex_hasher (ot_root ex_alone))"
    by (rule recalculate_ok [OF ex_alone_genesis(2)])
  have leaf: "member_leaf_new ex_unicode (MemberId 1) (rstr ''a'') (P2pMemberKey (VerifyingKey 1)) (rstr ''n'')
      (rstr ''s'') [P2pDeviceKey (VerifyingKey 1)] = Inr ex_alice"
    using ex_leaf_from_snapshot(1) [of mock_chain_ops True undefined undefined undefined 1]
    by (simp add: leaf_from_snapshot_ok ex_snapshot_def ex_alice_def)
  have p: "persona_keys (hex_id 1) (svc_data ?s) =
      Inr (SigningKeypair 1, SigningKeypair 1, rstr ''a'', rstr ''n'', rstr ''s'')"
    by (simp add: persona_keys_def find_persona_def ex_service_def service_new_def ex_persona_def keypair_from_seed_def)
  have save: "\<exists>i s'. eff_bind (svc_save ?S) (\<lambda>_. eff_return j) s = (Inr i, s')"
    if "sv_disk s = ex_disk" for s :: "(MockChainInner, bytes list) OrgService" and j :: OrgId
    using ex_save [OF that, of mock_chain_ops up P xs mw] by (auto simp: eff_bind_def)
  then show ?thesis
    using p t2 leaf ex_alone_genesis(1)
    by (simp add: create_organisation_def Let_def member_id_from_key_def member_key_def device_key_def
        on_chain_def eff_zoom_def mock_genesis mock_submit_genesis_def eff_bind_def update_persona_status_def
        find_persona_def svc_update_data_def)
      (simp add: ex_service_def service_new_def ex_persona_def, rule save, simp add: svc_update_data_def)
qed

text \<open>
  Founding. Creating an organisation for a fresh identifier leaves a record in step with the
  chain at epoch 1: the stored member list rebuilds the trie whose root the chain holds. The trie has
  one member, the founder's persona with its device, under the key of the organisation; the persona is
  active.
\<close>

theorem founding_in_sync:
  assumes "nfc_laws (svc_U S)" and "keys_valid S" and "se_chain S = mock_chain_ops"
    and "create_organisation S pid s = (Inr i, s')" and "is_first_admission (svc_data s) i"
  shows "in_sync S mc_slots i s' \<and> (\<exists>st. mc_slots (sv_chain s') i = Some st \<and> os_epoch st = 1)
    \<and> (\<exists>p r t m. find_persona pid (svc_data s) = Inr p
        \<and> find_persona pid (svc_data s') = Inr (p\<lparr>pr_status := Active, pr_org_id := Some i\<rparr>)
        \<and> find_org i (svc_data s') = Inr r \<and> trie_from_snapshots S (or_trie_members r) = Inr t
        \<and> trie_members t = [m]
        \<and> vk_word (member_verifying_key (ml_p2p_key m)) = or_org_pub_key r
        \<and> slots (ml_p2p_devices m) = [persona_device (ne_ed (se_node S)) p])"
  using assms by (rule mock.create_organisation_sync)

theorem founding_in_sync_witness:
  "\<exists>i s'. create_organisation (ex_env True (any_codec dw0) [] mw0) (hex_id 1)
     (ex_service (store_data_default\<lparr>sd_personas := [ex_persona 1 (rstr ''a'')]\<rparr>) mock_chain_ops_new []) = (Inr i, s')
   \<and> in_sync (ex_env True (any_codec dw0) [] mw0) mc_slots i s'"
proof -
  obtain i s' where run: "create_organisation (ex_env True (any_codec dw0) [] mw0) (hex_id 1)
     (ex_service (store_data_default\<lparr>sd_personas := [ex_persona 1 (rstr ''a'')]\<rparr>) mock_chain_ops_new []) = (Inr i, s')"
    using ex_founding by blast
  show ?thesis
    using founding_in_sync [OF _ ex_keys_valid _ run] run ex_nfc_laws
    by (auto simp: is_first_admission_def ex_service_def service_new_def store_data_default_def)
qed

text \<open>
  C7 (admission). A successful admission leaves the administrator's record in step with the chain: its
  member list rebuilds a trie with the on-chain root, whose members are those from before and the
  joiner, under the joiner's key. Epoch and sequence number grow by one. Other organisations keep
  their records and their chain slots.
\<close>

theorem admission_keeps_sync:
  assumes "nfc_laws (svc_U S)" and "se_chain S = mock_chain_ops"
    and "admit_member S i jr a sec s = (Inr x, s')"
  shows "in_sync S mc_slots i s' \<and> x = jr_member_key jr
    \<and> (\<exists>r r' t t' leaf. find_org i (svc_data s) = Inr r \<and> find_org i (svc_data s') = Inr r'
        \<and> trie_from_snapshots S (or_trie_members r) = Inr t \<and> trie_from_snapshots S (or_trie_members r') = Inr t'
        \<and> leaf_from_snapshot S (joiner_snapshot jr) = Inr leaf
        \<and> snapshot t (MemberId x) = None \<and> snapshot t' = (snapshot t)(MemberId x \<mapsto> leaf)
        \<and> or_epoch r' = or_epoch r + 1 \<and> or_last_seq r' = or_last_seq r + 1)
    \<and> (\<forall>j. j \<noteq> i \<longrightarrow> find_org j (svc_data s') = find_org j (svc_data s)
        \<and> mc_slots (sv_chain s') j = mc_slots (sv_chain s) j)"
  using assms by (rule mock.admit_sync)

theorem admission_keeps_sync_witness:
  "\<exists>s'. admit_member (ex_env True (any_codec dw0) [] mw0) (OrgId 5) ex_join ex_addr None (ex_started ex_solo 0) = (Inr 2, s')
    \<and> in_sync (ex_env True (any_codec dw0) [] mw0) mc_slots (OrgId 5) s'"
proof -
  obtain s' where run: "admit_member (ex_env True (any_codec dw0) [] mw0) (OrgId 5) ex_join ex_addr None (ex_started ex_solo 0) = (Inr 2, s')"
    using ex_runs(1) by blast
  then show ?thesis using admission_keeps_sync [OF _ _ run] ex_nfc_laws by simp
qed

text \<open>
  C12 (revocation). A successful revocation leaves the administrator's record in step with the chain,
  at the membership from before without the revoked member, who was one. Epoch and sequence number
  grow by one. Other organisations keep their records and their chain slots.
\<close>

theorem revocation_keeps_sync:
  assumes "nfc_laws (svc_U S)" and "se_chain S = mock_chain_ops"
    and "revoke_member S i m a s = (Inr x, s')"
  shows "in_sync S mc_slots i s'
    \<and> (\<exists>r r' t t'. find_org i (svc_data s) = Inr r \<and> find_org i (svc_data s') = Inr r'
        \<and> trie_from_snapshots S (or_trie_members r) = Inr t \<and> trie_from_snapshots S (or_trie_members r') = Inr t'
        \<and> snapshot t (MemberId m) \<noteq> None \<and> snapshot t' = (snapshot t)(MemberId m := None)
        \<and> or_epoch r' = or_epoch r + 1 \<and> or_last_seq r' = or_last_seq r + 1)
    \<and> (\<forall>j. j \<noteq> i \<longrightarrow> find_org j (svc_data s') = find_org j (svc_data s)
        \<and> mc_slots (sv_chain s') j = mc_slots (sv_chain s) j)"
  using assms by (rule mock.revoke_sync)

theorem revocation_keeps_sync_witness:
  "\<exists>s'. revoke_member (ex_env True (any_codec dw0) [] mw0) (OrgId 5) 2 ex_addr (ex_started ex_duo 0) = (Inr (), s')
    \<and> in_sync (ex_env True (any_codec dw0) [] mw0) mc_slots (OrgId 5) s'"
proof -
  obtain s' where run: "revoke_member (ex_env True (any_codec dw0) [] mw0) (OrgId 5) 2 ex_addr (ex_started ex_duo 0) = (Inr (), s')"
    using ex_runs(2) by blast
  then show ?thesis using revocation_keeps_sync [OF _ _ run] ex_nfc_laws by simp
qed

text \<open>
  C14 (a failed delivery blocks the organisation, over the mock chain). When an admission fails although
  the chain took its update, either nothing was recorded, and then the record is behind the chain, or the
  error is that of saving the store after the record was changed in memory, and then the record in memory
  is in step. Over the mock chain, which refuses a stale epoch, a record that is behind the chain stays
  so: every admission and every revocation of that organisation fails and leaves it behind.
\<close>

theorem failed_delivery_blocks:
  assumes "nfc_laws (svc_U S)" and "se_chain S = mock_chain_ops"
    and "admit_member S i jr a sec s = (Inl e, s')" and "mc_slots (sv_chain s') \<noteq> mc_slots (sv_chain s)"
  shows "(svc_data s' = svc_data s \<and> left_behind mc_slots i s'
      \<or> (\<exists>s1. svc_save S s1 = (Inl e, s')) \<and> in_sync S mc_slots i s')
    \<and> (\<forall>jr a sec t q t'. left_behind mc_slots i t \<longrightarrow> admit_member S i jr a sec t = (q, t')
         \<longrightarrow> \<not> is_ok q \<and> left_behind mc_slots i t')
    \<and> (\<forall>m a t q t'. left_behind mc_slots i t \<longrightarrow> revoke_member S i m a t = (q, t')
         \<longrightarrow> \<not> is_ok q \<and> left_behind mc_slots i t')"
  using mock.failed_admission [OF assms] mock.left_behind_stuck [OF assms(2)] by blast

text \<open>The concrete service with a peer that does not answer.\<close>

lemma ex_fails:
  assumes "sv_endpoint s = None" and "svc_data s = ex_data xs r" and "sv_transport_mode s = Loopback"
  shows "\<exists>e s'. deliver_admission (ex_env False (any_codec dw) ys mw) (OrgId 5) ex_join a sec
      (ex_record xs r, SigningKeypair 1, m, root, d) s = (Inl e, s') \<and> sv_chain s' = sv_chain s
      \<and> svc_data s' = svc_data s"
  using assms
  by (simp add: deliver_admission_def admission_message_def envelope_build_def
      any_codec_def Let_def ensure_endpoint_def bind_with_mode_def on_net_def eff_zoom_def eff_bind_def
      eff_map_err_def ex_iroh_def send_message_def endpoint_send_def send_conn_def)

lemma ex_down:
  "\<exists>e s'. admit_member (ex_env False (any_codec dw) xs mw) (OrgId 5) ex_join a None (ex_started ex_solo r) = (Inl e, s')
     \<and> (\<exists>root. mc_slots (sv_chain s') (OrgId 5) = Some \<lparr>os_root_hash = RootHash root, os_org_pub_key = 1, os_epoch = 2\<rparr>)
     \<and> svc_data s' = ex_data ex_solo r"
proof -
  obtain root d where plan: "\<And>up P xs mw r. plan_admission (ex_env up P xs mw) (OrgId 5) ex_join (ex_data ex_solo r) =
        Inr (ex_record ex_solo r, SigningKeypair 1, MemberId 2, root, d)"
    using ex_plans by metis
  let ?c = "(ex_ledger r)\<lparr>mc_slots := (mc_slots (ex_ledger r))(OrgId 5 \<mapsto>
        \<lparr>os_root_hash = RootHash root, os_org_pub_key = 1, os_epoch = 2\<rparr>)\<rparr>"
  obtain e s2 where s2: "deliver_admission (ex_env False (any_codec dw) xs mw) (OrgId 5) ex_join a None
        (ex_record ex_solo r, SigningKeypair 1, MemberId 2, root, d) ((ex_started ex_solo r)\<lparr>sv_chain := ?c\<rparr>)
        = (Inl e, s2)" "svc_data s2 = ex_data ex_solo r" "sv_chain s2 = ?c"
    using ex_fails [of "(ex_started ex_solo r)\<lparr>sv_chain := ?c\<rparr>" ex_solo r dw xs mw a None "MemberId 2" root d] by auto
  have "admit_member (ex_env False (any_codec dw) xs mw) (OrgId 5) ex_join a None (ex_started ex_solo r) = (Inl e, s2)"
    using s2(1) plan ex_submits [of root 1 None r]
    by (simp add: admit_member_def on_chain_def eff_zoom_def eff_bind_def mock_chain_ops_def Let_def)
      (simp add: ex_record_def eff_bind_def)
  then show ?thesis using s2 by simp
qed

theorem failed_delivery_blocks_witness:
  "\<exists>e s'. admit_member (ex_env False (any_codec dw0) [] mw0) (OrgId 5) ex_join ex_addr None (ex_started ex_solo 0) = (Inl e, s')
    \<and> left_behind mc_slots (OrgId 5) s'"
proof -
  obtain e s' root where run: "admit_member (ex_env False (any_codec dw0) [] mw0) (OrgId 5) ex_join ex_addr None (ex_started ex_solo 0) = (Inl e, s')"
      "mc_slots (sv_chain s') (OrgId 5) = Some \<lparr>os_root_hash = RootHash root, os_org_pub_key = 1, os_epoch = 2\<rparr>"
      "svc_data s' = ex_data ex_solo 0"
    using ex_down by metis
  have "mc_slots (sv_chain s') \<noteq> mc_slots (sv_chain (ex_started ex_solo 0))"
  proof
    assume "mc_slots (sv_chain s') = mc_slots (sv_chain (ex_started ex_solo 0))"
    then have "mc_slots (sv_chain s') (OrgId 5) = mc_slots (sv_chain (ex_started ex_solo 0)) (OrgId 5)" by simp
    then show False using run(2) by (simp add: ex_ledger_def mock_chain_ops_set_def)
  qed
  then have "left_behind mc_slots (OrgId 5) s' \<or> in_sync (ex_env False (any_codec dw0) [] mw0) mc_slots (OrgId 5) s'"
    using failed_delivery_blocks [OF _ _ run(1), THEN conjunct1] ex_nfc_laws by auto
  moreover have "\<not> in_sync (ex_env False (any_codec dw0) [] mw0) mc_slots (OrgId 5) s'"
    using run(2,3) by (simp add: in_sync_def) (simp add: ex_record_def)
  ultimately show ?thesis using run(1) by blast
qed

end
