(* ===== verification/Deliveries.thy ===== *)
theory Deliveries
  imports Stories
begin

text \<open>
  The theorems of the receiving side of \<^verbatim>\<open>org-node\<close>: what a committed message proves, that a joiner
  commits its admission, that a revoked device drops the organisation, and that a device which missed
  a change can do neither. Then storage, transport and the out-of-band blobs.
\<close>

section \<open>A message in the mailbox\<close>

definition ex_member_data :: "OrgRecord list \<Rightarrow> StoreData" where
  "ex_member_data rs = store_data_default\<lparr>sd_personas := [(ex_persona 2 (rstr ''b''))
     \<lparr>pr_org_id := (if rs = [] then None else Some (OrgId 5))\<rparr>], sd_orgs := rs\<rparr>"

definition ex_device :: "OrgRecord list \<Rightarrow> bytes32 \<Rightarrow> (MockChainInner, bytes list) OrgService" where
  "ex_device rs root = ex_service (ex_member_data rs)
     (mock_chain_ops_set (OrgId 5) \<lparr>os_root_hash = RootHash root, os_org_pub_key = 1, os_epoch = 2\<rparr> mock_chain_ops_new)
     [[]]"

lemma ex_device_simps [simp]:
  "svc_data (ex_device rs root) = ex_member_data rs"
  "mc_slots (sv_chain (ex_device rs root)) (OrgId 5) = Some \<lparr>os_root_hash = RootHash root, os_org_pub_key = 1, os_epoch = 2\<rparr>"
  by (simp_all add: ex_device_def ex_service_def service_new_def mock_chain_ops_set_def)

lemma ex_receives:
  "\<exists>s1. receive_message (ex_env up P xs (message_serialize msg)) (ex_device rs root)
     = (Inr (P2pDeviceKey (VerifyingKey 1), msg), s1) \<and> sv_disk s1 = ex_disk"
  by (simp add: receive_message_def ex_device_def ex_service_def service_new_def ex_member_data_def eff_bind_def
      ensure_endpoint_def find_persona_def ex_persona_def bind_with_mode_def on_net_def eff_zoom_def eff_map_err_def
      ex_iroh_def recv_one_def decode_body_def frame_payload_def any_codec_def message_serde_roundtrip Let_def)

text \<open>The plans of the concrete service, with codecs that know their delta and their message.\<close>

lemma ex_admission:
  obtains root d msg t1 where "plan_admission (ex_env True (one_codec (delta_serialize d)) ex_solo (message_serialize msg))
      (OrgId 5) ex_join (ex_data ex_solo 0) = Inr (ex_record ex_solo 0, SigningKeypair 1, MemberId 2, root, d)"
    and "admission_message (ex_env True (one_codec (delta_serialize d)) ex_solo (message_serialize msg)) (OrgId 5) None
      (ex_record ex_solo 0, SigningKeypair 1, MemberId 2, root, d) = Inr msg"
proof -
  obtain root d where plan: "\<And>up P xs mw r. plan_admission (ex_env up P xs mw) (OrgId 5) ex_join (ex_data ex_solo r) =
        Inr (ex_record ex_solo r, SigningKeypair 1, MemberId 2, root, d)"
    using ex_plans by metis
  obtain msg where "\<And>mw. admission_message (ex_env True (one_codec (delta_serialize d)) ex_solo mw) (OrgId 5) None
      (ex_record ex_solo 0, SigningKeypair 1, MemberId 2, root, d) = Inr msg"
    by (simp add: admission_message_def envelope_build_def one_codec_def Let_def)
  then show ?thesis using that plan by blast
qed

lemma one_codec_encode [simp]: "to_allocvec (one_codec w) w = Inr [1]"
  by (simp add: one_codec_def)

section \<open>Receiving\<close>

text \<open>
  C2 (what a committed message proves). When receiving commits a message, the message is signed by
  the key the chain holds for the organisation, over the organisation, the sequence number and the
  delta it carries; the stored root, epoch and sequence number are those of the chain and of the
  message; for an organisation that was known, epoch and sequence number have grown; a stored member
  list that rebuilds at all rebuilds the on-chain root; and other organisations keep their records.
\<close>

theorem receive_and_verify_sound:
  assumes "nfc_laws (svc_U S)" and "se_chain S = mock_chain_ops" and "receive_and_verify S s = (Inr out, s')"
  shows "\<exists>dk msg s1 st r'. receive_message S s = (Inr (dk, msg), s1)
    \<and> ro_org_id out = env_org_id (wm_envelope msg) \<and> mc_slots (sv_chain s) (ro_org_id out) = Some st
    \<and> ed_verify (ne_ed (se_node S)) (VerifyingKey (os_org_pub_key st))
        (transcript (ro_org_id out) (env_parent_seq (wm_envelope msg)) (env_delta_bytes (wm_envelope msg)))
        (env_signature (wm_envelope msg))
    \<and> RootHash (ro_root out) = os_root_hash st \<and> ro_epoch out = os_epoch st
    \<and> find_org (ro_org_id out) (svc_data s') = Inr r'
    \<and> or_root_hash r' = ro_root out \<and> or_epoch r' = ro_epoch out
    \<and> or_last_seq r' = env_parent_seq (wm_envelope msg)
    \<and> (\<forall>r. find_org (ro_org_id out) (svc_data s) = Inr r \<longrightarrow> or_epoch r < or_epoch r' \<and> or_last_seq r < or_last_seq r')
    \<and> (\<forall>t. trie_from_snapshots S (or_trie_members r') = Inr t \<longrightarrow> root_hash t = Inr (os_root_hash st))
    \<and> (\<forall>j. j \<noteq> ro_org_id out \<longrightarrow> find_org j (svc_data s') = find_org j (svc_data s))
    \<and> sv_chain s' = sv_chain s"
  by (rule mock.receive_sound [OF assms]) blast

text \<open>
  C28 (a joiner commits its admission). The message that the administrator's service builds for an
  admission is committed by the joiner's service, once the chain shows the planned root at the next
  epoch and the calling device is the one of the invite, if the joiner has one: the joiner's record is
  in step with the chain, at the administrator's members and the joiner. Only the save to disk can
  still fail; the exception is a hash collision between the trees before and after.
\<close>

theorem joiner_commits_admission:
  assumes "nfc_laws (svc_U S)" and "ed_correct (ne_ed (se_node S))" and "codec_correct (ne_codec (se_node S))"
    and "codec_correct (se_snapshot_codec S)" and "se_chain S = mock_chain_ops"
    and "plan_admission S i jr d = Inr (r, kp, mid, root, delta)"
    and "admission_message S i sec (r, kp, mid, root, delta) = Inr msg"
    and "to_allocvec (se_snapshot_codec S) (or_trie_members r) = Inr b"
    and "ne_vk_ok (se_node S) (or_org_pub_key r)" and "or_admin_member_key r = or_org_pub_key r"
    and "or_last_seq r + 1 \<noteq> 0" and "or_epoch r + 1 \<noteq> 0"
    and "receive_message S s = (Inr (dk, msg), s1)"
    and "mc_slots (sv_chain s) i =
        Some \<lparr>os_root_hash = RootHash root, os_org_pub_key = or_org_pub_key r, os_epoch = or_epoch r + 1\<rparr>"
    and "is_first_admission (svc_data s) i" and "invited_by (svc_data s) i dk"
  shows "\<exists>t leaf t1. trie_from_snapshots S (or_trie_members r) = Inr t
    \<and> leaf_from_snapshot S (joiner_snapshot jr) = Inr leaf
    \<and> snapshot t1 = (snapshot t)(ml_id leaf \<mapsto> leaf)
    \<and> (change_collides (svc_H S) t t1
       \<or> (\<exists>q s' r' t'. receive_and_verify S s = (q, s') \<and> (\<forall>e. q = Inl e \<longrightarrow> (\<exists>s2. svc_save S s2 = (Inl e, s')))
            \<and> in_sync S mc_slots i s' \<and> find_org i (svc_data s') = Inr r'
            \<and> trie_from_snapshots S (or_trie_members r') = Inr t' \<and> snapshot t' = snapshot t1))"
  using assms by (rule mock.joiner_commits)

theorem joiner_commits_admission_witness:
  "\<exists>S root t leaf t1. trie_from_snapshots S ex_solo = Inr t
    \<and> leaf_from_snapshot S (joiner_snapshot ex_join) = Inr leaf \<and> snapshot t1 = (snapshot t)(ml_id leaf \<mapsto> leaf)
    \<and> (change_collides (svc_H S) t t1
       \<or> (\<exists>q s'. receive_and_verify S (ex_device [] root) = (q, s') \<and> in_sync S mc_slots (OrgId 5) s'))"
proof -
  obtain root d msg where a: "plan_admission (ex_env True (one_codec (delta_serialize d)) ex_solo (message_serialize msg))
      (OrgId 5) ex_join (ex_data ex_solo 0) = Inr (ex_record ex_solo 0, SigningKeypair 1, MemberId 2, root, d)"
      "admission_message (ex_env True (one_codec (delta_serialize d)) ex_solo (message_serialize msg)) (OrgId 5) None
      (ex_record ex_solo 0, SigningKeypair 1, MemberId 2, root, d) = Inr msg"
    by (rule ex_admission)
  let ?S = "ex_env True (one_codec (delta_serialize d)) ex_solo (message_serialize msg)"
  obtain s1 where r: "receive_message ?S (ex_device [] root) = (Inr (P2pDeviceKey (VerifyingKey 1), msg), s1)"
    using ex_receives by blast
  have "\<exists>t leaf t1. trie_from_snapshots ?S (or_trie_members (ex_record ex_solo 0)) = Inr t
    \<and> leaf_from_snapshot ?S (joiner_snapshot ex_join) = Inr leaf \<and> snapshot t1 = (snapshot t)(ml_id leaf \<mapsto> leaf)
    \<and> (change_collides (svc_H ?S) t t1
       \<or> (\<exists>q s' r' t'. receive_and_verify ?S (ex_device [] root) = (q, s')
            \<and> (\<forall>e. q = Inl e \<longrightarrow> (\<exists>s2. svc_save ?S s2 = (Inl e, s')))
            \<and> in_sync ?S mc_slots (OrgId 5) s' \<and> find_org (OrgId 5) (svc_data s') = Inr r'
            \<and> trie_from_snapshots ?S (or_trie_members r') = Inr t' \<and> snapshot t' = snapshot t1))"
    by (rule joiner_commits_admission [OF _ _ _ _ _ a _ _ _ _ _ r, where b = "[1]"])
      (simp_all add: ex_nfc_laws ex_laws ex_codec_laws ex_record_def is_first_admission_def ex_member_data_def
        invited_by_def store_data_default_def)
  then have "\<exists>t leaf t1. trie_from_snapshots ?S ex_solo = Inr t
    \<and> leaf_from_snapshot ?S (joiner_snapshot ex_join) = Inr leaf \<and> snapshot t1 = (snapshot t)(ml_id leaf \<mapsto> leaf)
    \<and> (change_collides (svc_H ?S) t t1
       \<or> (\<exists>q s'. receive_and_verify ?S (ex_device [] root) = (q, s') \<and> in_sync ?S mc_slots (OrgId 5) s'))"
    unfolding ex_record_def by simp blast
  then show ?thesis by blast
qed

definition ex_message :: WireMessage where
  "ex_message = \<lparr>wm_envelope = ex_envelope ex_delta, wm_org_secret = None, wm_genesis_snapshot = Some [1]\<rparr>"

abbreviation ex_receiver :: "(MockChainInner, bytes list) ServiceEnv" where
  "ex_receiver \<equiv> ex_env True (one_codec (delta_serialize ex_delta)) ex_duo (message_serialize ex_message)"

lemma ex_verifies:
  "verify_incoming ex_receiver (ex_member_data []) dk ex_message
     \<lparr>os_root_hash = ct_root_hash ex_candidate, os_org_pub_key = 1, os_epoch = 2\<rparr>
   = Inr \<lparr>vu_trie = ex_synced, vu_seq_guard = SeqGuard 1, vu_epoch = 2\<rparr>"
proof -
  let ?st = "\<lparr>os_root_hash = ct_root_hash ex_candidate, os_org_pub_key = 1, os_epoch = 2\<rparr>"
  have env: "envelope_build (ne_ed (se_node ex_receiver)) (ne_codec (se_node ex_receiver)) (OrgId 5) 1 ex_delta
      (SigningKeypair 1) = Inr (wm_envelope ex_message)"
    by (simp add: envelope_build_def ex_message_def ex_envelope_def keypair_sign_def) (simp add: ex_ed_def)
  have "local_view ex_receiver (ex_member_data []) ex_message ?st (VerifyingKey (os_org_pub_key ?st)) = Inr (ex_trie, 0, 0)"
    using ex_tries(2) [of mock_chain_ops] codec_correctD [OF ex_codec_laws one_codec_encode, of ex_duo]
    by (simp add: local_view_def ex_member_data_def ex_message_def)
  from verify_incoming_accepts [OF _ _ _ _ env this, of ex_candidate ex_synced dk]
  show ?thesis
    using ex_laws(1) ex_delta_wire_ok ex_delta_applied ex_genesis(4)
    by (simp add: ex_codec_laws is_first_admission_def invited_by_def ex_member_data_def store_data_default_def ex_delta_def)
qed

lemma ex_saves:
  assumes "svc_save (ex_env up P xs mw) (svc_update_data f s) = (q, s')" and "sv_disk s = ex_disk"
  shows "q = Inr ()"
  using ex_save [of "svc_update_data f s" mock_chain_ops up P xs mw] assms by (auto simp: svc_update_data_def)

lemma ex_received:
  "\<exists>out s'. receive_and_verify ex_receiver (ex_device [] (root_hash_word (ct_root_hash ex_candidate))) = (Inr out, s')"
proof -
  let ?s = "ex_device [] (root_hash_word (ct_root_hash ex_candidate))"
  obtain s1 where r: "receive_message ex_receiver ?s = (Inr (P2pDeviceKey (VerifyingKey 1), ex_message), s1)" "sv_disk s1 = ex_disk"
    using ex_receives by blast
  obtain rh where rh: "root_hash ex_synced = Inr rh"
    using verify_incoming_sound(2) [OF _ ex_verifies] ex_nfc_laws by simp
  have id: "env_org_id (wm_envelope ex_message) = OrgId 5" by (simp add: ex_message_def ex_envelope_def)
  have st: "mc_slots (sv_chain ?s) (env_org_id (wm_envelope ex_message)) =
      Some \<lparr>os_root_hash = ct_root_hash ex_candidate, os_org_pub_key = 1, os_epoch = 2\<rparr>"
    by (simp add: id)
  have ver: "verify_incoming ex_receiver (svc_data ?s) (P2pDeviceKey (VerifyingKey 1)) ex_message
      \<lparr>os_root_hash = ct_root_hash ex_candidate, os_org_pub_key = 1, os_epoch = 2\<rparr>
      = Inr \<lparr>vu_trie = ex_synced, vu_seq_guard = SeqGuard 1, vu_epoch = 2\<rparr>"
    by (simp add: ex_verifies)
  have root: "root_hash (vu_trie \<lparr>vu_trie = ex_synced, vu_seq_guard = SeqGuard 1, vu_epoch = 2\<rparr>) = Inr rh"
    by (simp add: rh)
  have ops: "se_chain ex_receiver = mock_chain_ops" by simp
  obtain pid mid q s3 where
    sv: "svc_save ex_receiver (svc_update_data (committed_data \<lparr>os_root_hash = ct_root_hash ex_candidate, os_org_pub_key = 1, os_epoch = 2\<rparr>
       ex_message \<lparr>vu_trie = ex_synced, vu_seq_guard = SeqGuard 1, vu_epoch = 2\<rparr> (root_hash_word rh) pid mid) s1) = (q, s3)"
    and run: "receive_and_verify ex_receiver ?s = (and_then q (\<lambda>_. Inr \<lparr>ro_org_id = env_org_id (wm_envelope ex_message),
           ro_epoch = vu_epoch \<lparr>vu_trie = ex_synced, vu_seq_guard = SeqGuard 1, vu_epoch = 2\<rparr>,
           ro_root = root_hash_word rh\<rparr>), s3)"
    by (rule mock.receive_runs [OF ops r(1) st ver root]) (rule that)
  from ex_saves [OF sv r(2)] show ?thesis using run by simp
qed

theorem receive_and_verify_sound_witness:
  "\<exists>out s'. receive_and_verify ex_receiver (ex_device [] (root_hash_word (ct_root_hash ex_candidate))) = (Inr out, s')
    \<and> (\<exists>r'. find_org (ro_org_id out) (svc_data s') = Inr r' \<and> or_epoch r' = ro_epoch out)"
proof -
  obtain out s' where run: "receive_and_verify ex_receiver (ex_device [] (root_hash_word (ct_root_hash ex_candidate))) = (Inr out, s')"
    using ex_received by blast
  then show ?thesis
    using receive_and_verify_sound [OF _ _ run] ex_nfc_laws by auto
qed

text \<open>
  C29 (a revoked device drops the organisation). A device at the administrator's membership that
  receives the envelope of its member's revocation deletes its record of the organisation, marks its
  personas of that organisation revoked and keeps every other record, once the chain shows the planned
  root at the next epoch and no other member carries a device of those personas. Only the save to disk
  can still fail; the exception is a hash collision.
\<close>

theorem revoked_device_drops_org:
  assumes "nfc_laws (svc_U S)" and "ed_correct (ne_ed (se_node S))" and "codec_correct (ne_codec (se_node S))"
    and "se_chain S = mock_chain_ops"
    and "plan_revocation S i m d = Inr (r, kp, t2, root, delta)"
    and "envelope_build (ne_ed (se_node S)) (ne_codec (se_node S)) i (or_last_seq r + 1) delta kp
        = Inr (wm_envelope msg)"
    and "ne_vk_ok (se_node S) (or_org_pub_key r)" and "or_admin_member_key r = or_org_pub_key r"
    and "receive_message S s = (Inr (dk, msg), s1)"
    and "mc_slots (sv_chain s) i =
        Some \<lparr>os_root_hash = RootHash root, os_org_pub_key = or_org_pub_key r, os_epoch = or_epoch r + 1\<rparr>"
    and "find_org i (svc_data s) = Inr rm" and "trie_from_snapshots S (or_trie_members rm) = Inr q"
    and "trie_from_snapshots S (or_trie_members r) = Inr t"
    and "snapshot q = snapshot t" and "or_last_seq rm < or_last_seq r + 1" and "or_epoch rm < or_epoch r + 1"
    and "member_count q + 1 < 2 ^ 64"
    and "\<And>p n j. p \<in> set (sd_personas (svc_data s)) \<Longrightarrow> pr_org_id p = Some i \<Longrightarrow> snapshot t j = Some n \<Longrightarrow>
        has_device (ml_p2p_devices n) (persona_device (ne_ed (se_node S)) p) \<Longrightarrow> j = MemberId m"
  shows "\<exists>t1. snapshot t1 = (snapshot t)(MemberId m := None)
    \<and> (change_collides (svc_H S) t t1
       \<or> (\<exists>q s'. receive_and_self_delete_if_revoked S s = (q, s')
            \<and> (q = Inr (SelfDeleted i) \<or> (\<exists>e s2. q = Inl e \<and> svc_save S s2 = (Inl e, s')))
            \<and> find_org i (svc_data s') = Inl OrgNotOnChain
            \<and> (\<forall>p\<in>set (sd_personas (svc_data s')). pr_org_id p = Some i \<longrightarrow> pr_status p = Revoked)
            \<and> (\<forall>j. j \<noteq> i \<longrightarrow> find_org j (svc_data s') = find_org j (svc_data s))))"
  using assms by (rule mock.revoked_drops)

text \<open>
  C30 (a missed change locks a device out). A device whose record rebuilds another root than the one
  an envelope starts from rejects that envelope with \<^verbatim>\<open>DeltaBaseMismatch\<close> in both receiving stories
  and changes nothing, whatever the message carries besides: it can neither follow the organisation
  nor delete itself when the envelope revokes it.
\<close>

theorem missed_change_locks_out:
  assumes "nfc_laws (svc_U S)" and "ed_correct (ne_ed (se_node S))" and "codec_correct (ne_codec (se_node S))"
    and "se_chain S = mock_chain_ops"
    and "envelope_build (ne_ed (se_node S)) (ne_codec (se_node S)) i n delta kp = Inr (wm_envelope msg)"
    and "delta_wire_ok (svc_U S) (ne_vk_ok (se_node S)) delta" and "ne_vk_ok (se_node S) (os_org_pub_key st)"
    and "keypair_verifying_key (ne_ed (se_node S)) kp = VerifyingKey (os_org_pub_key st)"
    and "receive_message S s = (Inr (dk, msg), s1)" and "mc_slots (sv_chain s) i = Some st"
    and "find_org i (svc_data s) = Inr r" and "trie_from_snapshots S (or_trie_members r) = Inr q"
    and "root_hash q \<noteq> Inr (d_base_root delta)" and "or_last_seq r < n"
  shows "receive_and_self_delete_if_revoked S s = (Inl NodeDeltaBaseMismatch, s1)
    \<and> receive_and_verify S s = (Inl NodeDeltaBaseMismatch, s1)
    \<and> svc_data s1 = svc_data s"
  using assms by (rule mock.missed_change_rejected)

theorem revoked_device_drops_org_witness:
  "\<exists>S root t1. snapshot t1 = (snapshot ex_trie)(MemberId 2 := None)
    \<and> (change_collides (svc_H S) ex_trie t1
       \<or> (\<exists>q s'. receive_and_self_delete_if_revoked S (ex_device [ex_record ex_duo 0] root) = (q, s')
            \<and> find_org (OrgId 5) (svc_data s') = Inl OrgNotOnChain))"
proof -
  obtain t2 root e where plan: "\<And>up P xs mw. plan_revocation (ex_env up P xs mw) (OrgId 5) 2 (ex_data ex_duo 0) =
        Inr (ex_record ex_duo 0, SigningKeypair 1, t2, root, e)"
    using ex_plans by metis
  obtain env where env: "envelope_build ex_ed (one_codec (delta_serialize e)) (OrgId 5) 1 e (SigningKeypair 1) = Inr env"
    by (simp add: envelope_build_def one_codec_def Let_def)
  let ?msg = "\<lparr>wm_envelope = env, wm_org_secret = None, wm_genesis_snapshot = None\<rparr>"
  let ?S = "ex_env True (one_codec (delta_serialize e)) ex_duo (message_serialize ?msg)"
  let ?s = "ex_device [ex_record ex_duo 0] root"
  obtain s1 where r: "receive_message ?S ?s = (Inr (P2pDeviceKey (VerifyingKey 1), ?msg), s1)"
    using ex_receives by blast
  have mine: "j = MemberId 2"
    if "p \<in> set (sd_personas (svc_data ?s))" "snapshot ex_trie j = Some n"
      "has_device (ml_p2p_devices n) (persona_device (ne_ed (se_node ?S)) p)" for p n j
    using that by (auto simp: ex_member_data_def ex_persona_def persona_device_def ex_genesis(3) ex_alice_def
        ex_leaf_def has_device_def binary_search_is_ok split: if_splits)
  have "\<exists>t1. snapshot t1 = (snapshot ex_trie)(MemberId 2 := None)
    \<and> (change_collides (svc_H ?S) ex_trie t1
       \<or> (\<exists>q s'. receive_and_self_delete_if_revoked ?S ?s = (q, s')
            \<and> (q = Inr (SelfDeleted (OrgId 5)) \<or> (\<exists>e s2. q = Inl e \<and> svc_save ?S s2 = (Inl e, s')))
            \<and> find_org (OrgId 5) (svc_data s') = Inl OrgNotOnChain
            \<and> (\<forall>p\<in>set (sd_personas (svc_data s')). pr_org_id p = Some (OrgId 5) \<longrightarrow> pr_status p = Revoked)
            \<and> (\<forall>j. j \<noteq> OrgId 5 \<longrightarrow> find_org j (svc_data s') = find_org j (svc_data ?s))))"
    by (rule revoked_device_drops_org [OF _ _ _ _ plan _ _ _ r, where rm = "ex_record ex_duo 0" and q = ex_trie])
      (use env ex_tries(2) [of mock_chain_ops] ex_count mine in \<open>simp_all add: ex_nfc_laws ex_laws ex_codec_laws ex_record_def
        ex_member_data_def find_org_def\<close>)
  then show ?thesis by blast
qed

definition ex_stale :: Delta where
  "ex_stale = ex_delta\<lparr>d_base_root := RootHash (root_hash_word (smt_root ex_hasher (ot_root ex_trie)) + 1)\<rparr>"

theorem missed_change_locks_out_witness:
  "\<exists>S s1. receive_and_self_delete_if_revoked S (ex_device [ex_record ex_duo 0] 0) = (Inl NodeDeltaBaseMismatch, s1)"
proof -
  obtain env where env: "envelope_build ex_ed (one_codec (delta_serialize ex_stale)) (OrgId 5) 1 ex_stale (SigningKeypair 1) = Inr env"
    by (simp add: envelope_build_def one_codec_def Let_def)
  let ?msg = "\<lparr>wm_envelope = env, wm_org_secret = None, wm_genesis_snapshot = None\<rparr>"
  let ?S = "ex_env True (one_codec (delta_serialize ex_stale)) ex_duo (message_serialize ?msg)"
  let ?s = "ex_device [ex_record ex_duo 0] 0"
  obtain s1 where r: "receive_message ?S ?s = (Inr (P2pDeviceKey (VerifyingKey 1), ?msg), s1)"
    using ex_receives by blast
  have "root_hash ex_trie \<noteq> Inr (d_base_root ex_stale)"
    using ex_genesis(4) by (metis RootHash.sel add_cancel_right_right ex_stale_def one_neq_zero
        Delta.select_convs(1) Delta.surjective Delta.update_convs(1) sum.inject(2))
  moreover have "delta_wire_ok ex_unicode (\<lambda>_. True) ex_stale"
    using ex_delta_wire_ok by (simp add: delta_wire_ok_def ex_stale_def)
  ultimately have "receive_and_self_delete_if_revoked ?S ?s = (Inl NodeDeltaBaseMismatch, s1)
    \<and> receive_and_verify ?S ?s = (Inl NodeDeltaBaseMismatch, s1) \<and> svc_data s1 = svc_data ?s"
    by (intro missed_change_locks_out [OF _ _ _ _ _ _ _ _ r, where r = "ex_record ex_duo 0" and q = ex_trie
        and st = "\<lparr>os_root_hash = RootHash 0, os_org_pub_key = 1, os_epoch = 2\<rparr>" and i = "OrgId 5" and n = 1
        and delta = ex_stale and kp = "SigningKeypair 1"])
      (use env ex_tries(2) [of mock_chain_ops] in \<open>simp_all add: ex_nfc_laws ex_laws ex_codec_laws ex_record_def
        ex_member_data_def find_org_def\<close>)
  then show ?thesis by blast
qed

section \<open>Storage and transport\<close>

text \<open>
  C40 (members survive storage). The stored member list of a trie with valid keys rebuilds exactly when
  every member has a device, and then it rebuilds the same members and the same root. A member without
  a device, which the trie allows, makes the whole list unreadable.
\<close>

theorem members_survive_storage:
  assumes "nfc_laws (svc_U S)" and "trie_inv (svc_U S) (svc_H S) t"
    and "\<forall>m\<in>set (trie_members t). leaf_keys_ok (ne_vk_ok (se_node S)) m"
  shows "((\<exists>t'. trie_from_snapshots S (map snapshot_of_leaf (trie_members t)) = Inr t')
      \<longleftrightarrow> (\<forall>m\<in>set (trie_members t). slots (ml_p2p_devices m) \<noteq> []))
    \<and> (\<forall>t'. trie_from_snapshots S (map snapshot_of_leaf (trie_members t)) = Inr t' \<longrightarrow>
      snapshot t' = snapshot t \<and> root_hash t' = Inr (smt_root (svc_H S) (ot_root t)))"
proof (intro conjI allI impI)
  have mem: "m \<in> set (trie_members t) \<longleftrightarrow> snapshot t (ml_id m) = Some m" for m
    using collect_members_get [OF trie_invD(6) [OF assms(2)]] by (simp add: trie_members_def)
  show "(\<exists>t'. trie_from_snapshots S (map snapshot_of_leaf (trie_members t)) = Inr t')
      \<longleftrightarrow> (\<forall>m\<in>set (trie_members t). slots (ml_p2p_devices m) \<noteq> [])"
  proof
    assume all: "\<forall>m\<in>set (trie_members t). slots (ml_p2p_devices m) \<noteq> []"
    have st: "storable S m" if "snapshot t i = Some m" for i m
      using that mem get_member_id [OF trie_invD(6) [OF assms(2)] that] all assms(3)
        trie_inv_snapshot_wf [OF assms(2)] by (auto simp: storable_def snapshot_wf_def)
    obtain t' where "trie_from_snapshots S (map snapshot_of_leaf (trie_members t)) = Inr t'"
      by (rule snapshots_rebuild [OF assms(2)]) (use st in blast)+
    then show "\<exists>t'. trie_from_snapshots S (map snapshot_of_leaf (trie_members t)) = Inr t'" ..
  next
    assume "\<exists>t'. trie_from_snapshots S (map snapshot_of_leaf (trie_members t)) = Inr t'"
    then show "\<forall>m\<in>set (trie_members t). slots (ml_p2p_devices m) \<noteq> []"
      using isolated_not_rebuilt [of _ "map snapshot_of_leaf (trie_members t)" S]
      by (fastforce simp: snapshot_of_leaf_def devices_def)
  qed
  show "snapshot t' = snapshot t" and "root_hash t' = Inr (smt_root (svc_H S) (ot_root t))"
    if "trie_from_snapshots S (map snapshot_of_leaf (trie_members t)) = Inr t'" for t'
    using rebuilt_members [OF assms(1,2) that] by simp_all
qed

theorem members_survive_storage_witness:
  "\<exists>t'. trie_from_snapshots (ex_env True (any_codec dw0) [] mw0) (map snapshot_of_leaf (trie_members ex_trie)) = Inr t'"
proof -
  have mem: "m = ex_alice \<or> m = ex_bob" if "m \<in> set (trie_members ex_trie)" for m
    using that collect_members_get [OF trie_invD(6) [OF ex_genesis(2)], of m]
    by (auto simp: trie_members_def ex_genesis(3) split: if_splits)
  have "\<forall>m\<in>set (trie_members ex_trie). slots (ml_p2p_devices m) \<noteq> []"
    and "\<forall>m\<in>set (trie_members ex_trie). leaf_keys_ok (\<lambda>_. True) m"
    by (auto dest!: mem simp: ex_alice_def ex_bob_def ex_leaf_def leaf_keys_ok_def list_all_iff)
  then show ?thesis
    using members_survive_storage [of "ex_env True (any_codec dw0) [] mw0" ex_trie] ex_nfc_laws ex_genesis(2)
    by simp
qed

text \<open>
  The store reopens. A store that was opened with a passphrase and saved is what opening its file
  with that passphrase gives back, in memory as it was at the save.
\<close>

theorem store_reopens:
  assumes "aead_correct K" and "codec_correct P" and "length nonce = 24"
    and "store_open K P disk0 path pw = Inr st0" and "ps_path st = path" and "ps_key st = ps_key st0"
    and "store_save K P st nonce disk = (Inr (), disk')" and "dk_read_error disk path = None"
  shows "store_open K P disk' path pw = Inr st"
  using assms by (rule store_reopen)

theorem store_reopens_witness:
  "\<exists>disk'. store_open ex_crypto (one_codec (ex_data ex_duo 3)) disk' ''store'' ''pw'' =
     Inr \<lparr>ps_path = ''store'', ps_key = be_bytes 32 (7 :: bytes32), ps_data = ex_data ex_duo 3\<rparr>"
proof -
  let ?P = "one_codec (ex_data ex_duo 3)" and ?nonce = "replicate 24 (0 :: u8)"
  let ?st = "\<lparr>ps_path = ''store'', ps_key = be_bytes 32 (7 :: bytes32), ps_data = ex_data ex_duo 3\<rparr>"
  have opened: "store_open ex_crypto ?P ex_disk ''store'' ''pw'' = Inr (?st\<lparr>ps_data := store_data_default\<rparr>)"
    by (simp add: store_open_def derive_key_def ex_crypto_def ex_disk_def)
  obtain disk' where saved: "store_save ex_crypto ?P ?st ?nonce ex_disk = (Inr (), disk')"
    by (simp add: store_save_def ex_crypto_def fs_write_def ex_disk_def eff_map_err_def)
  have "store_open ex_crypto ?P disk' ''store'' ''pw'' = Inr ?st"
    by (rule store_reopens [OF _ ex_codec_laws _ opened _ _ saved])
      (simp_all add: aead_correct_def ex_crypto_def ex_disk_def)
  then show ?thesis by blast
qed

text \<open>
  C36 (frames). An encoded frame is at most \<^verbatim>\<open>MAX_FRAME\<close> bytes and four for the prefix, which holds the
  length of the body without wrap-around; its payload decodes to the message. A body over the limit is
  refused on both sides, by the sender before anything is written. The receiver does not read the
  prefix: any four bytes in its place give the same message.
\<close>

theorem frames_bounded:
  assumes "codec_correct P"
  shows "(\<forall>framed. encode_frame P msg = Inr framed \<longrightarrow>
      decode_body P (frame_payload framed) = Inr msg \<and> length framed \<le> MAX_FRAME + 4
      \<and> unat (of_le (take 4 framed) :: u32) = length framed - 4
      \<and> (\<forall>prefix. length prefix = 4 \<longrightarrow> decode_body P (frame_payload (prefix @ drop 4 framed)) = Inr msg))
    \<and> (\<forall>body. to_allocvec P (message_serialize msg) = Inr body \<longrightarrow> MAX_FRAME < length body \<longrightarrow>
      encode_frame P msg = Inl (FrameTooLarge (length body)) \<and> decode_body P body = Inl (FrameTooLarge (length body)))"
proof -
  have "decode_body P (frame_payload framed) = Inr msg \<and> length framed \<le> MAX_FRAME + 4
      \<and> unat (of_le (take 4 framed) :: u32) = length framed - 4
      \<and> (\<forall>prefix. length prefix = 4 \<longrightarrow> decode_body P (frame_payload (prefix @ drop 4 framed)) = Inr msg)"
    if f: "encode_frame P msg = Inr framed" for framed
  proof -
    have "4 \<le> length framed" using f by (auto simp: encode_frame_ok)
    then have "frame_payload (prefix @ drop 4 framed) = frame_payload framed" if "length prefix = 4" for prefix
      using that by (simp add: frame_payload_def)
    then show ?thesis using frame_roundtrip [OF assms f] by simp
  qed
  moreover have "encode_frame P msg = Inl (FrameTooLarge (length body)) \<and> decode_body P body = Inl (FrameTooLarge (length body))"
    if "to_allocvec P (message_serialize msg) = Inr body" "MAX_FRAME < length body" for body
    using that by (simp add: encode_frame_def decode_body_def)
  ultimately show ?thesis by blast
qed

theorem frames_bounded_witness:
  "\<exists>framed. encode_frame (one_codec (message_serialize ex_message)) ex_message = Inr framed
    \<and> decode_body (one_codec (message_serialize ex_message)) (frame_payload framed) = Inr ex_message
    \<and> length framed \<le> MAX_FRAME + 4"
proof -
  obtain framed where f: "encode_frame (one_codec (message_serialize ex_message)) ex_message = Inr framed"
    by (simp add: encode_frame_def MAX_FRAME_def)
  then show ?thesis using frames_bounded [OF ex_codec_laws] by blast
qed

text \<open>
  Invites. Importing an exported invite leaves one pending invite for the organisation, with the
  administrator's device key and the keys of the record it was exported from, and nothing else changed;
  so the first admission is accepted exactly from the administrator's device.
\<close>

theorem invite_roundtrip:
  assumes "base64_correct (se_base64 S)" and "codec_correct (se_invite_codec S)"
    and "export_invite S i s = (Inr blob, s1)" and "import_invite S blob u = (Inr invite, u')"
  shows "\<exists>r p. find_org i (svc_data s) = Inr r \<and> admin_persona_for_org (ne_ed (se_node S)) i (svc_data s) = Inr p
    \<and> inv_org_id invite = i
    \<and> find (\<lambda>p. pi_org_id p = i) (sd_pending_invites (svc_data u')) =
        Some \<lparr>pi_org_id = i, pi_admin_device_key = vk_word (device_verifying_key (persona_device (ne_ed (se_node S)) p)),
              pi_admin_member_key = or_admin_member_key r, pi_org_pub_key = or_org_pub_key r\<rparr>
    \<and> (\<forall>j. j \<noteq> i \<longrightarrow> find (\<lambda>p. pi_org_id p = j) (sd_pending_invites (svc_data u'))
          = find (\<lambda>p. pi_org_id p = j) (sd_pending_invites (svc_data u)))
    \<and> sd_orgs (svc_data u') = sd_orgs (svc_data u) \<and> sd_personas (svc_data u') = sd_personas (svc_data u)
    \<and> (\<forall>dk. invited_by (svc_data u') i dk \<longleftrightarrow> dk = persona_device (ne_ed (se_node S)) p)"
proof -
  let ?E = "ne_ed (se_node S)"
  let ?dev = "\<lambda>p. vk_word (keypair_verifying_key ?E (keypair_from_seed (pr_device_seed p)))"
  obtain r p where r: "find_org i (svc_data s) = Inr r" "admin_persona_for_org ?E i (svc_data s) = Inr p"
    and inv: "inv_org_id invite = i" "inv_org_pub_key invite = or_org_pub_key r"
      "inv_admin_member_key invite = or_admin_member_key r" "inv_admin_device_key invite = ?dev p"
    using assms(3,4) blob_roundtrip [OF assms(1,2)]
    by (auto simp: export_invite_def import_invite_def effect_simps Let_def)
  let ?new = "\<lparr>pi_org_id = i, pi_admin_device_key = ?dev p, pi_admin_member_key = or_admin_member_key r,
    pi_org_pub_key = or_org_pub_key r\<rparr>"
  let ?old = "sd_pending_invites (svc_data u)"
  have u': "svc_data u' = (svc_data u)\<lparr>sd_pending_invites :=
      (if find (\<lambda>p. pi_org_id p = i) ?old \<noteq> None
       then update_first (\<lambda>p. pi_org_id p = i) (\<lambda>_. ?new) ?old else ?old @ [?new])\<rparr>"
    using assms(4) inv by (auto simp: import_invite_def effect_simps Let_def dest!: svc_save_same)
  have mine: "find (\<lambda>p. pi_org_id p = i) (sd_pending_invites (svc_data u')) = Some ?new"
    by (auto simp: u' find_update_first find_append_none)
  moreover have "find (\<lambda>p. pi_org_id p = j) (sd_pending_invites (svc_data u')) = find (\<lambda>p. pi_org_id p = j) ?old"
    if "j \<noteq> i" for j
    using that find_update_first_other [of "\<lambda>p. pi_org_id p = i" "\<lambda>p. pi_org_id p = j" "\<lambda>_. ?new" ?old]
      find_append_other [of "[?new]" "\<lambda>p. pi_org_id p = j" ?old]
    by (simp add: u')
  moreover have "invited_by (svc_data u') i dk \<longleftrightarrow> dk = persona_device ?E p" for dk
    by (cases dk) (auto simp: invited_by_def mine device_key_as_bytes_def be_bytes_inject persona_device_def
        intro: VerifyingKey.expand)
  ultimately show ?thesis
    using r inv u' by (auto simp: persona_device_def)
qed

text \<open>An environment whose invite codec knows the invite of the concrete service.\<close>

definition ex_invite :: Invite where
  "ex_invite = \<lparr>inv_org_id = OrgId 5, inv_org_pub_key = 1, inv_admin_member_key = 1,
     inv_admin_device_key = 1, inv_admin_node_addr = []\<rparr>"

definition ex_inviter :: "(MockChainInner, bytes list) ServiceEnv" where
  "ex_inviter = (ex_env True (any_codec dw0) [] mw0)\<lparr>se_invite_codec := one_codec ex_invite,
     se_base64 := \<lparr>b64_encode = map (\<lambda>w. char_of (unat w)),
       b64_decode = (\<lambda>s. Inr (map (\<lambda>c. word_of_nat (of_char c)) s))\<rparr>\<rparr>"

theorem invite_roundtrip_witness:
  "\<exists>blob u'. export_invite ex_inviter (OrgId 5) (ex_started ex_solo 0) = (Inr blob, ex_started ex_solo 0)
    \<and> import_invite ex_inviter blob (ex_device [] 0) = (Inr ex_invite, u')
    \<and> invited_by (svc_data u') (OrgId 5) (P2pDeviceKey (VerifyingKey 1))"
proof -
  have char: "word_of_nat (unat w mod 256) = w" for w :: u8
  proof -
    have "unat w < 256" using unsigned_less [of w, where 'a = nat] by simp
    then show ?thesis by simp
  qed
  have base64: "base64_correct (se_base64 ex_inviter)" and codec: "codec_correct (se_invite_codec ex_inviter)"
    by (simp_all add: ex_inviter_def base64_correct_def ex_codec_laws comp_def char)
  let ?blob = "[char_of (1 :: nat)]"
  have enc: "blob_encode (se_base64 ex_inviter) (se_invite_codec ex_inviter) ex_invite = Inr ?blob"
    by (simp add: blob_encode_def ex_inviter_def)
  have exp: "export_invite ex_inviter (OrgId 5) (ex_started ex_solo 0) = (Inr ?blob, ex_started ex_solo 0)"
    using enc
    by (simp add: export_invite_def encoded_node_addr_def eff_bind_def ex_inviter_def Let_def)
      (simp add: ex_persona_def ex_record_def ex_invite_def)
  have dec: "blob_decode (se_base64 ex_inviter) (se_invite_codec ex_inviter) ?blob = Inr ex_invite"
    by (rule blob_roundtrip [OF base64 codec enc])
  have save: "\<exists>u'. eff_bind (svc_save ex_inviter) (\<lambda>_. eff_return x) (svc_update_data f (ex_device [] 0)) = (Inr x, u')"
    for x :: Invite and f
  proof -
    have same: "svc_save ex_inviter = svc_save (ex_env True (any_codec dw0) [] mw0)"
      by (rule ext) (simp add: svc_save_def ex_inviter_def)
    have "sv_disk (svc_update_data f (ex_device [] 0)) = ex_disk"
      by (simp add: ex_device_def ex_service_def service_new_def)
    from ex_save [OF this, of mock_chain_ops True "any_codec dw0" "[]" mw0] show ?thesis
      unfolding same by (auto simp: eff_bind_def)
  qed
  have imp: "\<exists>u'. import_invite ex_inviter ?blob (ex_device [] 0) = (Inr ex_invite, u')"
    using dec save by (simp add: import_invite_def Let_def)
  then obtain u' where u': "import_invite ex_inviter ?blob (ex_device [] 0) = (Inr ex_invite, u')" ..
  have "invited_by (svc_data u') (OrgId 5) (P2pDeviceKey (VerifyingKey 1))"
    using invite_roundtrip [OF base64 codec exp u'] by (auto simp: ex_inviter_def persona_device_def ex_persona_def)
  then show ?thesis using exp u' by blast
qed

end
