(* ===== verification/Moves.thy ===== *)
theory Moves
  imports Deliveries
begin

text \<open>
  What one story does to the chain and to the records of its node, whatever its result: the stories as
  data, the moves they make, and a proof per story that it makes one. A story that fails keeps what it
  did before it failed, so a failed admission may have moved the chain.
\<close>

section \<open>Stories\<close>

datatype Story =
    TellPersona RString RString RString
  | is_TellFound: TellFound string
  | TellExportInvite OrgId
  | TellImportInvite string
  | TellExportJoin string
  | TellAdmit OrgId JoinRequest EndpointAddr "bytes32 option"
  | TellRevoke OrgId bytes32 EndpointAddr
  | TellReceive
  | TellReceiveOrDelete
  | TellMode TransportMode

text \<open>The state a story leaves its service in, with whatever result.\<close>

fun tell :: "('c, 'n) ServiceEnv \<Rightarrow> Story \<Rightarrow> ('c, 'n) OrgService \<Rightarrow> ('c, 'n) OrgService" where
  "tell S (TellPersona h n u) s = snd (create_persona S h n u s)"
| "tell S (TellFound pid) s = snd (create_organisation S pid s)"
| "tell S (TellExportInvite i) s = snd (export_invite S i s)"
| "tell S (TellImportInvite b) s = snd (import_invite S b s)"
| "tell S (TellExportJoin pid) s = snd (export_join_request S pid s)"
| "tell S (TellAdmit i jr a sec) s = snd (admit_member S i jr a sec s)"
| "tell S (TellRevoke i m a) s = snd (revoke_member S i m a s)"
| "tell S TellReceive s = snd (receive_and_verify S s)"
| "tell S TellReceiveOrDelete s = snd (receive_and_self_delete_if_revoked S s)"
| "tell S (TellMode mode) s = set_transport_mode mode s"

text \<open>
  The key and the trie a founding starts an organisation with, and the trie an admission or a revocation makes of
  the one it starts from.
\<close>

fun new_org :: "('c, 'n) ServiceEnv \<Rightarrow> Story \<Rightarrow> StoreData \<Rightarrow> bytes32 \<Rightarrow> OrgTrie \<Rightarrow> bool" where
  "new_org S (TellFound pid) d key u \<longleftrightarrow>
     (\<exists>p leaf. find_persona pid d = Inr p \<and> key = persona_member_vk (ne_ed (se_node S)) p
        \<and> leaf_from_snapshot S (founder_snapshot (ne_ed (se_node S)) p) = Inr leaf
        \<and> genesis (svc_U S) (svc_H S) [leaf] = Inr u)"
| "new_org S _ d key u \<longleftrightarrow> False"

fun change :: "('c, 'n) ServiceEnv \<Rightarrow> Story \<Rightarrow> OrgId \<Rightarrow> OrgTrie \<Rightarrow> OrgTrie \<Rightarrow> bool" where
  "change S (TellAdmit j jr a sec) i t u \<longleftrightarrow>
     j = i \<and> (\<exists>leaf. leaf_from_snapshot S (joiner_snapshot jr) = Inr leaf \<and> add_member (svc_U S) (svc_H S) t leaf = Inr u)"
| "change S (TellRevoke j m a) i t u \<longleftrightarrow> j = i \<and> delete_member (svc_U S) t (MemberId m) = Inr u"
| "change S _ i t u \<longleftrightarrow> False"

section \<open>Moves\<close>

text \<open>
  A record that holds a state of its organisation: root, epoch and, when the stored members rebuild, their
  root.
\<close>

definition anchored :: "('c, 'n) ServiceEnv \<Rightarrow> OrgRecord \<Rightarrow> OrgState \<Rightarrow> bool" where
  "anchored S r st \<longleftrightarrow>
     RootHash (or_root_hash r) = os_root_hash st \<and> or_epoch r = os_epoch st
     \<and> (\<forall>t. trie_from_snapshots S (or_trie_members r) = Inr t \<longrightarrow> root_hash t = Inr (os_root_hash st))"

text \<open>The state a story takes the organisation of a record to.\<close>

definition next_state :: "OrgRecord \<Rightarrow> bytes32 \<Rightarrow> OrgState" where
  "next_state r h = \<lparr>os_root_hash = RootHash h, os_org_pub_key = or_org_pub_key r, os_epoch = or_epoch r + 1\<rparr>"

text \<open>Both keys of a record are one key; two records have the same keys.\<close>

definition keyed :: "OrgRecord \<Rightarrow> bytes32 \<Rightarrow> bool" where
  "keyed r k \<longleftrightarrow> or_org_pub_key r = k \<and> or_admin_member_key r = k"

definition same_keys :: "OrgRecord \<Rightarrow> OrgRecord \<Rightarrow> bool" where
  "same_keys r q \<longleftrightarrow> or_org_pub_key r = or_org_pub_key q \<and> or_admin_member_key r = or_admin_member_key q"

lemma same_keys_keyed: "same_keys r q \<Longrightarrow> keyed q k \<Longrightarrow> keyed r k"
  by (simp add: same_keys_def keyed_def)

abbreviation holds_next :: "('c, 'n) ServiceEnv \<Rightarrow> OrgRecord \<Rightarrow> bytes32 \<Rightarrow> OrgRecord \<Rightarrow> bool" where
  "holds_next S r h x \<equiv> anchored S x (next_state r h) \<and> same_keys x r"

abbreviation adopts_state :: "('c, 'n) ServiceEnv \<Rightarrow> StoreData \<Rightarrow> OrgId \<Rightarrow> OrgState \<Rightarrow> OrgRecord \<Rightarrow> bool" where
  "adopts_state S d i st r \<equiv> anchored S r st
     \<and> (keyed r (os_org_pub_key st) \<or> (\<exists>q. find_org i d = Inr q \<and> same_keys r q))"

text \<open>Every record of \<open>d'\<close> is one of \<open>d\<close>, or it is of the organisation \<open>i\<close> and satisfies \<open>Q\<close>.\<close>

definition records_from :: "StoreData \<Rightarrow> StoreData \<Rightarrow> OrgId \<Rightarrow> (OrgRecord \<Rightarrow> bool) \<Rightarrow> bool" where
  "records_from d d' i Q \<longleftrightarrow>
     (\<forall>j r. find_org j d' = Inr r \<longrightarrow> find_org j d = Inr r \<or> (j = i \<and> Q r))"

text \<open>
  A move of a node: it stays or drops records, it founds an organisation, it takes an organisation from
  the epoch of its record to the next, or it adopts the state the chain holds.
\<close>

inductive ledger_move ::
  "('c, 'n) ServiceEnv \<Rightarrow> ('c \<Rightarrow> OrgId \<rightharpoonup> OrgState) \<Rightarrow> Story \<Rightarrow> ('c, 'n) OrgService \<Rightarrow> ('c, 'n) OrgService \<Rightarrow> bool"
  for S slots_of a where
  stays: "ledger_move S slots_of a s s'"
    if "slots_of (sv_chain s') = slots_of (sv_chain s)"
      and "records_from (svc_data s) (svc_data s') i (\<lambda>_. False)"
| founds: "ledger_move S slots_of a s s'"
    if "slots_of (sv_chain s) i = None" and "slots_of (sv_chain s') = (slots_of (sv_chain s))(i \<mapsto> st)"
      and "os_epoch st = 1" and "new_org S a (svc_data s) (os_org_pub_key st) u" and "root_hash u = Inr (os_root_hash st)"
      and "records_from (svc_data s) (svc_data s') i (\<lambda>r. anchored S r st \<and> keyed r (os_org_pub_key st))"
| advances: "ledger_move S slots_of a s s'"
    if "load_admin_org S i (svc_data s) = Inr (q, t, kp)" and "slots_of (sv_chain s) i = Some old" and "os_epoch old = or_epoch q"
      and "slots_of (sv_chain s') = (slots_of (sv_chain s))(i \<mapsto> next_state q h)"
      and "change S a i t u"
      and "smt_root (svc_H S) (ot_root u) = RootHash h"
      and "records_from (svc_data s) (svc_data s') i (holds_next S q h)"
| adopts: "ledger_move S slots_of a s s'"
    if "slots_of (sv_chain s') = slots_of (sv_chain s)" and "slots_of (sv_chain s) i = Some st"
      and "records_from (svc_data s) (svc_data s') i (adopts_state S (svc_data s) i st)"

lemma records_from_same [simp]: "sd_orgs d' = sd_orgs d \<Longrightarrow> records_from d d' i Q"
  by (simp add: records_from_def find_org_def)

lemma records_fromI:
  assumes "\<And>j. j \<noteq> i \<Longrightarrow> find_org j d' = find_org j d" and "find_org i d' = Inr r" and "Q r"
  shows "records_from d d' i Q"
  using assms unfolding records_from_def by (metis sum.inject(2))

text \<open>The stories that touch neither the chain nor the records.\<close>

definition same_ledger :: "('c, 'n) OrgService \<Rightarrow> ('c, 'n) OrgService \<Rightarrow> bool" where
  "same_ledger s s' \<longleftrightarrow> sv_chain s' = sv_chain s \<and> sd_orgs (svc_data s') = sd_orgs (svc_data s)"

lemma same_ledger_order: "transp same_ledger" "reflp same_ledger"
  by (auto simp: same_ledger_def transp_def reflp_def)

lemma same_ledger_steps:
  "eff_keeps same_ledger (svc_save S)"
  "(\<And>d. sd_orgs (f d) = sd_orgs d) \<Longrightarrow> eff_keeps same_ledger (eff_modify (svc_update_data f))"
  "eff_keeps same_ledger (\<lambda>s. let (kp, rng) = keypair_generate (sv_rng s) in (Inr kp, s\<lparr>sv_rng := rng\<rparr>))"
  "eff_keeps same_ledger (encoded_node_addr S)"
  by (auto simp: eff_keeps_def same_ledger_def svc_save_def encoded_node_addr_def Let_def case_prod_beta
      split: option.split)

lemmas same_ledger_rules =
  eff_keeps_bind [OF same_ledger_order(1)] eff_keeps_pure [OF same_ledger_order(2)] same_ledger_steps(1,3,4)

lemma quiet_stories:
  "eff_keeps same_ledger (create_persona S h n u)"
  "eff_keeps same_ledger (export_invite S i)"
  "eff_keeps same_ledger (import_invite S b)"
  "eff_keeps same_ledger (export_join_request S pid)"
  by (auto simp: create_persona_def export_invite_def import_invite_def export_join_request_def Let_def
      case_prod_beta simp del: eff_bind_pure
      intro!: same_ledger_rules same_ledger_rules(8) [unfolded case_prod_beta Let_def] same_ledger_steps(2))

lemma quiet_moves: "eff_keeps same_ledger m \<Longrightarrow> m s = (q, s') \<Longrightarrow> ledger_move S slots_of a s s'"
  by (drule (1) keeps_run) (auto simp: same_ledger_def intro: ledger_move.stays)

section \<open>Admission and revocation\<close>

text \<open>Delivery and record, whatever comes out of either: the record of the organisation is old or updated.\<close>

lemma record_and_save_records:
  assumes r: "find_org i (svc_data s) = Inr r" and f: "\<And>r. or_org_id (f r) = or_org_id r" "Q (f r)"
    and run: "record_and_save S i f x s = (q, s')"
  shows "records_from (svc_data s) (svc_data s') i Q"
proof -
  let ?s1 = "svc_update_data (\<lambda>d. d\<lparr>sd_orgs := update_first (\<lambda>r. or_org_id r = i) f (sd_orgs d)\<rparr>) s"
  obtain q1 s2 where sv: "svc_save S ?s1 = (q1, s2)" by fastforce
  have "update_org_record i f s = (Inr (), ?s1)" using r by (simp add: update_org_record_ok)
  then have "s' = s2" using run sv by (cases q1) (simp_all add: record_and_save_def eff_bind_def)
  then have "svc_data s' = (svc_data s)\<lparr>sd_orgs := update_first (\<lambda>r. or_org_id r = i) f (sd_orgs (svc_data s))\<rparr>"
    using svc_save_frame(1) [OF sv] by simp
  then show ?thesis using find_org_updated [of f, OF f(1) r] f(2) by (auto intro: records_fromI)
qed

lemma deliver_and_record:
  assumes del: "eff_keeps same_node m" and r: "find_org i (svc_data s) = Inr r"
    and f: "\<And>r. or_org_id (f r) = or_org_id r" "Q (f r)"
    and run: "eff_bind m (\<lambda>_. record_and_save S i f x) s = (q, s')"
  shows "sv_chain s' = sv_chain s \<and> records_from (svc_data s) (svc_data s') i Q"
proof -
  obtain o1 s1 where m: "m s = (o1, s1)" by fastforce
  have fr: "svc_data s1 = svc_data s" "sv_chain s1 = sv_chain s"
    using same_node_data [OF keeps_run [OF del m]] by simp_all
  show ?thesis
  proof (cases o1)
    case (Inl e)
    then show ?thesis using run m fr by (simp add: eff_bind_def)
  next
    case (Inr u)
    then have rec: "record_and_save S i f x s1 = (q, s')" using run m by (simp add: eff_bind_def)
    show ?thesis
      using record_and_save_records [where f = f and Q = Q, OF _ f rec] record_and_save_chain [OF rec] r fr by simp
  qed
qed

context chain_ledger
begin

text \<open>A submission at the record's epoch, followed by steps of this kind, is a move.\<close>

lemma submit_moves:
  assumes r: "load_admin_org S i (svc_data s) = Inr (r, t, kp)"
    and u: "change S a i t u" "smt_root (svc_H S) (ot_root u) = RootHash h"
    and run: "eff_bind (on_chain (co_submit_update ops i h (or_org_pub_key r) (or_epoch r) pa)) (\<lambda>_. m) s = (q, s')"
    and m: "\<And>c. m (s\<lparr>sv_chain := c\<rparr>) = (q, s') \<Longrightarrow> sv_chain s' = c \<and> records_from (svc_data s) (svc_data s') i (holds_next S r h)"
  shows "ledger_move S slots_of a s s'"
proof -
  obtain o1 c where sub: "co_submit_update ops i h (or_org_pub_key r) (or_epoch r) pa (sv_chain s) = (o1, c)" by fastforce
  show ?thesis
  proof (cases o1)
    case (Inl e)
    then have "s' = s\<lparr>sv_chain := c\<rparr>" using run sub by (simp add: eff_bind_def on_chain_def eff_zoom_def)
    then show ?thesis
      using update_error [OF sub [unfolded Inl]] by (intro ledger_move.stays) simp_all
  next
    case (Inr u)
    then have "m (s\<lparr>sv_chain := c\<rparr>) = (q, s')" using run sub by (simp add: eff_bind_def on_chain_def eff_zoom_def)
    note m = m [OF this]
    obtain old where old: "slots_of (sv_chain s) i = Some old" "os_epoch old = or_epoch r"
      "slots_of c = (slots_of (sv_chain s))(i \<mapsto> next_state r h)"
      unfolding next_state_def using update_ok [of i h "or_org_pub_key r" "or_epoch r" pa "sv_chain s" c] sub Inr by auto
    show ?thesis
      by (rule ledger_move.advances [where slots_of = slots_of and s = s and i = i and q = r and old = old and h = h, OF r old(1,2) _ u])
        (use m old(3) in simp_all)
  qed
qed

lemma admit_moves:
  assumes laws: "nfc_laws (svc_U S)" and ops: "se_chain S = ops"
    and run: "admit_member S i jr a sec s = (q, s')"
  shows "ledger_move S slots_of (TellAdmit i jr a sec) s s'"
proof (cases "plan_admission S i jr (svc_data s)")
  case (Inl e)
  then have "s' = s" using run by (simp add: admit_member_def)
  then show ?thesis by (intro ledger_move.stays) simp_all
next
  case (Inr plan)
  obtain r kp mid h delta where plan: "plan_admission S i jr (svc_data s) = Inr (r, kp, mid, h, delta)"
    using Inr by (cases plan) simp
  obtain t leaf t1 t2 where t: "find_org i (svc_data s) = Inr r" "trie_from_snapshots S (or_trie_members r) = Inr t"
    "leaf_from_snapshot S (joiner_snapshot jr) = Inr leaf"
    "add_member (svc_U S) (svc_H S) t leaf = Inr t1" "recalculate (svc_H S) t1 = Inr (t2, delta)"
    "root_hash t2 = Inr (RootHash h)" "mid = MemberId (jr_member_key jr)"
    and load: "load_admin_org S i (svc_data s) = Inr (r, t, kp)"
    using plan_admission_ok [OF plan] by metis
  have rebuilt: "root_hash u = Inr (RootHash h)"
    if "trie_from_snapshots S (or_trie_members r @ [joiner_snapshot jr]) = Inr u" for u
    using rebuilt_push [OF laws t(2-5)] that t(6) by (metis sum.inject(2))
  have wf: "leaf_wf (svc_U S) leaf" using leaf_from_snapshot_storable [OF laws t(3)] by (simp add: storable_def)
  have u: "change S (TellAdmit i jr a sec) i t t1" "smt_root (svc_H S) (ot_root t1) = RootHash h"
    using recalculated(3) [OF add_member_snapshot(1) [OF rebuilt_trie(1) [OF laws t(2)] wf t(4)] t(5)] t(3,4,6) by auto
  let ?m = "eff_bind (deliver_admission S i jr a sec (r, kp, mid, h, delta)) (\<lambda>_. record_and_save S i
        (\<lambda>x. x\<lparr>or_root_hash := h, or_epoch := or_epoch r + 1, or_last_seq := or_last_seq r + 1,
           or_trie_members := or_trie_members x @ [joiner_snapshot jr]\<rparr>) (jr_member_key jr))"
  have run': "eff_bind (on_chain (co_submit_update ops i h (or_org_pub_key r) (or_epoch r) (or_proxy_account r)))
      (\<lambda>_. ?m) s = (q, s')"
    using run plan t(7) ops by (simp add: admit_member_def Let_def joiner_snapshot_def)
  show ?thesis
  proof (rule submit_moves [OF load u run'])
    fix c
    assume "?m (s\<lparr>sv_chain := c\<rparr>) = (q, s')"
    from deliver_and_record [where Q = "holds_next S r h", OF deliver_keeps(1) _ _ _ this]
    show "sv_chain s' = c \<and> records_from (svc_data s) (svc_data s') i (holds_next S r h)"
      using t(1) rebuilt by (simp add: anchored_def next_state_def same_keys_def)
  qed
qed

lemma revoke_moves:
  assumes laws: "nfc_laws (svc_U S)" and ops: "se_chain S = ops"
    and run: "revoke_member S i m a s = (q, s')"
  shows "ledger_move S slots_of (TellRevoke i m a) s s'"
proof (cases "plan_revocation S i m (svc_data s)")
  case (Inl e)
  then have "s' = s" using run by (simp add: revoke_member_def)
  then show ?thesis by (intro ledger_move.stays) simp_all
next
  case (Inr plan)
  obtain r kp t2 h delta where plan: "plan_revocation S i m (svc_data s) = Inr (r, kp, t2, h, delta)"
    using Inr by (cases plan) simp
  obtain t t1 where t: "find_org i (svc_data s) = Inr r" "trie_from_snapshots S (or_trie_members r) = Inr t"
    "delete_member (svc_U S) t (MemberId m) = Inr t1" "recalculate (svc_H S) t1 = Inr (t2, delta)"
    "root_hash t2 = Inr (RootHash h)"
    and load: "load_admin_org S i (svc_data s) = Inr (r, t, kp)"
    using plan_revocation_ok [OF plan] by metis
  have rebuilt: "root_hash u = Inr (RootHash h)"
    if "trie_from_snapshots S (map snapshot_of_leaf (trie_members t2)) = Inr u" for u
    using rebuilt_delete [OF laws t(2-4)] that t(5) by (metis sum.inject(2))
  have u: "change S (TellRevoke i m a) i t t1" "smt_root (svc_H S) (ot_root t1) = RootHash h"
    using recalculated(3) [OF delete_member_snapshot(1) [OF rebuilt_trie(1) [OF laws t(2)] t(3)] t(4)] t(3,5) by auto
  let ?m = "eff_bind (deliver_revocation S i m a (r, kp, t2, h, delta)) (\<lambda>_. record_and_save S i
        (\<lambda>x. x\<lparr>or_root_hash := h, or_epoch := or_epoch r + 1, or_last_seq := or_last_seq r + 1,
           or_trie_members := map snapshot_of_leaf (trie_members t2)\<rparr>) ())"
  have run': "eff_bind (on_chain (co_submit_update ops i h (or_org_pub_key r) (or_epoch r) (or_proxy_account r)))
      (\<lambda>_. ?m) s = (q, s')"
    using run plan ops by (simp add: revoke_member_def Let_def)
  show ?thesis
  proof (rule submit_moves [OF load u run'])
    fix c
    assume "?m (s\<lparr>sv_chain := c\<rparr>) = (q, s')"
    from deliver_and_record [where Q = "holds_next S r h", OF deliver_keeps(2) _ _ _ this]
    show "sv_chain s' = c \<and> records_from (svc_data s) (svc_data s') i (holds_next S r h)"
      using t(1) rebuilt by (simp add: anchored_def next_state_def same_keys_def)
  qed
qed

end

section \<open>Founding\<close>

text \<open>
  A run of \<^verbatim>\<open>create_organisation\<close>, whatever its result: it does nothing, the chain refuses the genesis, or
  the chain has the organisation and the store its record.
\<close>

lemma update_persona_status_error:
  "update_persona_status pid i st s = (Inl e, s') \<Longrightarrow> s' = s"
  by (auto simp: update_persona_status_def effect_simps)

lemma create_organisation_any:
  assumes valid: "keys_valid S" and run: "create_organisation S pid s = (q, s')"
  obtains (idle) "sv_chain s' = sv_chain s" and "sd_orgs (svc_data s') = sd_orgs (svc_data s)"
  | (refused) h k e where "co_submit_genesis (se_chain S) h k (sv_chain s) = (Inl e, sv_chain s')"
      and "sd_orgs (svc_data s') = sd_orgs (svc_data s)"
  | (founded) p leaf t0 t d rh i pa where
      "find_persona pid (svc_data s) = Inr p"
      and "leaf_from_snapshot S (founder_snapshot (ne_ed (se_node S)) p) = Inr leaf"
      and "genesis (svc_U S) (svc_H S) [leaf] = Inr t0" and "recalculate (svc_H S) t0 = Inr (t, d)"
      and "root_hash t = Inr rh"
      and "co_submit_genesis (se_chain S) (root_hash_word rh) (persona_member_vk (ne_ed (se_node S)) p) (sv_chain s)
          = (Inr (i, pa), sv_chain s')"
      and "sd_orgs (svc_data s') = sd_orgs (svc_data s) @ [founder_record (ne_ed (se_node S)) p i (root_hash_word rh) pa]"
proof (cases q)
  case (Inr i)
  show ?thesis
    by (rule create_organisation_runs [OF valid run [unfolded Inr]]) (rule founded, simp_all)
next
  case (Inl e)
  let ?E = "ne_ed (se_node S)"
  have "(sv_chain s' = sv_chain s \<and> sd_orgs (svc_data s') = sd_orgs (svc_data s))
    \<or> (\<exists>h k e. co_submit_genesis (se_chain S) h k (sv_chain s) = (Inl e, sv_chain s')
        \<and> sd_orgs (svc_data s') = sd_orgs (svc_data s))
    \<or> (\<exists>p leaf t0 t d rh i pa. find_persona pid (svc_data s) = Inr p \<and> leaf_from_snapshot S (founder_snapshot ?E p) = Inr leaf
        \<and> genesis (svc_U S) (svc_H S) [leaf] = Inr t0 \<and> recalculate (svc_H S) t0 = Inr (t, d)
        \<and> root_hash t = Inr rh
        \<and> co_submit_genesis (se_chain S) (root_hash_word rh) (persona_member_vk ?E p) (sv_chain s) = (Inr (i, pa), sv_chain s')
        \<and> sd_orgs (svc_data s') = sd_orgs (svc_data s) @ [founder_record ?E p i (root_hash_word rh) pa])"
    using run Inl
    by (fastforce simp: create_organisation_def persona_keys_def Let_def effect_simps on_chain_run
      and_then_eq_Inr map_err_eq_Inr update_persona_status_ok leaf_from_snapshot_ok keys_validD [OF valid]
      founder_record_def founder_snapshot_def persona_member_vk_def persona_device_def
      member_key_def device_key_def dest!: svc_save_same update_persona_status_error)
  then show ?thesis using idle refused founded by blast
qed

lemma founds_records:
  assumes "sd_orgs d' = sd_orgs d @ [r]" and "or_org_id r = i" and "Q r"
  shows "records_from d d' i Q"
  unfolding records_from_def
proof (intro allI impI)
  fix j x
  assume x: "find_org j d' = Inr x"
  show "find_org j d = Inr x \<or> (j = i \<and> Q x)"
  proof (cases "find (\<lambda>r. or_org_id r = j) (sd_orgs d)")
    case None
    then show ?thesis using x assms by (auto simp: find_org_ok find_append_none split: if_splits)
  next
    case (Some y)
    then show ?thesis using x assms(1) by (simp add: find_org_ok find_append_some)
  qed
qed

text \<open>
  A chain on which a refused genesis leaves the slots alone. An identifier that comes back from a genesis
  is assumed to be unused by whoever runs the chain: \<open>keeps_slots\<close>.
\<close>

definition keeps_slots :: "('c \<Rightarrow> OrgId \<rightharpoonup> OrgState) \<Rightarrow> 'c \<Rightarrow> 'c \<Rightarrow> bool" where
  "keeps_slots slots_of c c' \<longleftrightarrow> (\<forall>i st. slots_of c i = Some st \<longrightarrow> slots_of c' i = Some st)"

locale founding_ledger = chain_ledger +
  assumes genesis_error: "co_submit_genesis ops r k c = (Inl err, c') \<Longrightarrow> slots_of c' = slots_of c"

interpretation mock_founding: founding_ledger mock_chain_ops mc_slots
  by unfold_locales (simp add: mock_chain_ops_def mock_submit_genesis_def Let_def)

context founding_ledger
begin

lemma create_moves:
  assumes laws: "nfc_laws (svc_U S)" "keys_valid S" and ops: "se_chain S = ops"
    and run: "create_organisation S pid s = (q, s')"
    and unused: "keeps_slots slots_of (sv_chain s) (sv_chain s')"
  shows "ledger_move S slots_of (TellFound pid) s s'"
  using laws(2) run
proof (cases rule: create_organisation_any)
  case idle
  then show ?thesis by (intro ledger_move.stays) simp_all
next
  case refused
  then show ?thesis using genesis_error ops by (intro ledger_move.stays) simp_all
next
  case (founded p leaf t0 t d rh i pa)
  let ?E = "ne_ed (se_node S)"
  let ?r = "founder_record ?E p i (root_hash_word rh) pa"
  let ?st = "\<lparr>os_root_hash = rh, os_org_pub_key = persona_member_vk ?E p, os_epoch = 1\<rparr>"
  have slots: "slots_of (sv_chain s') = (slots_of (sv_chain s))(i \<mapsto> ?st)"
    using genesis_ok [OF founded(6) [unfolded ops]] by simp
  note tr = founder_trie [OF laws(1) founded(2-4)]
  have u: "new_org S (TellFound pid) (svc_data s) (os_org_pub_key ?st) t0" "root_hash t0 = Inr (os_root_hash ?st)"
    using founded(1-3,5) tr by auto
  have "anchored S ?r ?st"
    using tr founded(5) by (simp add: anchored_def founder_record_def)
  then have rec: "records_from (svc_data s) (svc_data s') i
      (\<lambda>r. anchored S r ?st \<and> keyed r (os_org_pub_key ?st))"
    using founds_records [OF founded(7)] by (simp add: founder_record_def keyed_def)
  show ?thesis
  proof (cases "slots_of (sv_chain s) i")
    case None
    then show ?thesis using ledger_move.founds [OF _ slots _ u rec] by simp
  next
    case (Some old)
    then have "slots_of (sv_chain s') i = Some old" using unused by (simp add: keeps_slots_def)
    then have "old = ?st" using slots by simp
    then have "slots_of (sv_chain s') = slots_of (sv_chain s)" using slots Some by auto
    then show ?thesis
      using ledger_move.adopts [where slots_of = slots_of and s = s and i = i and st = ?st and S = S and s' = s'] Some rec
        \<open>old = ?st\<close> by (auto simp: records_from_def)
  qed
qed

end

section \<open>Receiving\<close>

text \<open>A verified update is at the state it was verified against, and so is a record that stores it.\<close>

definition verified_at :: "('c, 'n) ServiceEnv \<Rightarrow> VerifiedUpdate \<Rightarrow> OrgState \<Rightarrow> bool" where
  "verified_at S v st \<longleftrightarrow>
     trie_inv (svc_U S) (svc_H S) (vu_trie v) \<and> root_hash (vu_trie v) = Inr (os_root_hash st) \<and> vu_epoch v = os_epoch st"

lemma verified_anchored:
  assumes laws: "nfc_laws (svc_U S)" and v: "verified_at S v st"
    and r: "RootHash (or_root_hash r) = os_root_hash st" "or_epoch r = vu_epoch v"
      "or_trie_members r = map snapshot_of_leaf (trie_members (vu_trie v))"
  shows "anchored S r st"
proof -
  have inv: "trie_inv (svc_U S) (svc_H S) (vu_trie v)" and root: "root_hash (vu_trie v) = Inr (os_root_hash st)"
    using v by (simp_all add: verified_at_def)
  have "os_root_hash st = smt_root (svc_H S) (ot_root (vu_trie v))"
    using root trie_invD(1) [OF inv] by (simp add: trees_ok_def root_hash_def ok_or_eq_Inr)
  then show ?thesis
    using v r rebuilt_members(2) [OF laws inv] by (auto simp: anchored_def verified_at_def)
qed

lemma verify_known_sound:
  assumes laws: "nfc_laws (svc_U S)" and ok: "verify_known_org S d msg st = Inr v"
  obtains r where "find_org (env_org_id (wm_envelope msg)) d = Inr r" and "verified_at S v st"
proof -
  obtain r t ctx where r: "find_org (env_org_id (wm_envelope msg)) d = Inr r"
    and t: "trie_from_snapshots S (or_trie_members r) = Inr t"
    and ver: "verify_envelope_against_chain (se_node S) t (wm_envelope msg) ctx (chain_ops_reader st) = Inr v"
    using ok by (auto simp: verify_known_org_def Let_def and_then_eq_Inr)
  have "verified_at S v st"
    using verify_commit_state [OF laws rebuilt_trie(1) [OF laws t] ver]
    by (auto simp: verified_at_def chain_ops_reader_def)
  then show ?thesis using that r by blast
qed

lemma committed_records:
  assumes laws: "nfc_laws (svc_U S)" and v: "verified_at S v st" and i: "env_org_id (wm_envelope msg) = i"
  shows "records_from d (committed_data st msg v (root_hash_word (os_root_hash st)) pid mid d) i (adopts_state S d i st)"
proof (cases "is_first_admission d (env_org_id (wm_envelope msg))")
  case True
  note fresh = commit_org_record_fresh [OF True, unfolded i]
  show ?thesis
    by (rule records_fromI [OF _ committed_data_find [THEN trans, OF fresh(1)]])
      (simp_all add: committed_data_find fresh(2) verified_anchored [OF laws v] keyed_def)
next
  case False
  then obtain r where r: "find_org (env_org_id (wm_envelope msg)) d = Inr r"
    by (auto simp: is_first_admission_def find_org_ok)
  note known = commit_org_record_known [OF r, unfolded i]
  show ?thesis
    by (rule records_fromI [OF _ committed_data_find [THEN trans, OF known(1)]])
      (use r i in \<open>simp_all add: committed_data_find known(2) verified_anchored [OF laws v] same_keys_def\<close>)
qed

lemma self_delete_records:
  assumes laws: "nfc_laws (svc_U S)" and v: "verified_at S v st" and r: "find_org i d = Inr r"
  shows "records_from d (updated_data i v (root_hash_word (os_root_hash st)) d) i (adopts_state S d i st)"
    and "records_from d (removed_data i d) i Q"
proof -
  note upd = updated_data_orgs [OF r, where v = v and root = "root_hash_word (os_root_hash st)"]
  show "records_from d (updated_data i v (root_hash_word (os_root_hash st)) d) i (adopts_state S d i st)"
    by (rule records_fromI [OF upd(2) upd(1)])
      (simp_all add: verified_anchored [OF laws v] r same_keys_def)
  show "records_from d (removed_data i d) i Q"
    unfolding records_from_def using removed_data_orgs by (metis Inl_Inr_False)
qed

context chain_ledger
begin

text \<open>A story that receives: no message, a message of an unknown organisation, or one to be verified.\<close>

lemma received_story:
  assumes run: "story s = (q, s')"
    and story: "story = eff_bind (receive_message S) (\<lambda>(dk, msg).
        eff_bind (on_chain (co_read_state ops (env_org_id (wm_envelope msg)))) (\<lambda>state.
        eff_bind (eff_lift (ok_or state OrgNotOnChain)) (\<lambda>st. f dk msg st)))"
    and verified: "\<And>dk msg s1 st. receive_message S s = (Inr (dk, msg), s1) \<Longrightarrow>
        ledger_move S slots_of a s s1 \<Longrightarrow> slots_of (sv_chain s) (env_org_id (wm_envelope msg)) = Some st \<Longrightarrow>
        ledger_move S slots_of a s s'"
  shows "ledger_move S slots_of a s s'"
proof -
  obtain p s1 where p: "receive_message S s = (p, s1)" by fastforce
  have fr: "svc_data s1 = svc_data s" "sv_chain s1 = sv_chain s" using receive_message_frame [OF p] by simp_all
  then have still: "ledger_move S slots_of a s s1" by (intro ledger_move.stays) simp_all
  show ?thesis
  proof (cases p)
    case (Inl e)
    then have "s' = s1" using run story by (simp add: eff_bind_stop [where m = "receive_message S", OF p [unfolded Inl]])
    then show ?thesis using still by simp
  next
    case (Inr x)
    obtain dk msg where m: "receive_message S s = (Inr (dk, msg), s1)" using p Inr by (cases x) simp
    show ?thesis
    proof (cases "slots_of (sv_chain s) (env_org_id (wm_envelope msg))")
      case None
      then have "s' = s1" using run story fr
        by (simp add: eff_bind_step [where m = "receive_message S", OF m] read_bind ok_or_def)
      then show ?thesis using still by simp
    next
      case (Some st)
      then show ?thesis using verified [OF m still] by simp
    qed
  qed
qed

lemma receive_moves:
  assumes laws: "nfc_laws (svc_U S)" and ops: "se_chain S = ops"
    and run: "receive_and_verify S s = (q, s')"
  shows "ledger_move S slots_of TellReceive s s'"
proof (rule received_story [where story = "receive_and_verify S", OF run], unfold receive_and_verify_def Let_def ops, rule refl)
  fix dk and msg :: WireMessage and s1 and st :: OrgState
  let ?i = "env_org_id (wm_envelope msg)" and ?h = "root_hash_word (os_root_hash st)"
  assume m: "receive_message S s = (Inr (dk, msg), s1)" and still: "ledger_move S slots_of TellReceive s s1"
    and st: "slots_of (sv_chain s) ?i = Some st"
  show "ledger_move S slots_of TellReceive s s'"
  proof (cases "verify_incoming S (svc_data s) dk msg st")
    case (Inl e)
    then show ?thesis using receive_and_verify_error [OF ops m st Inl] run still by simp
  next
    case (Inr v)
    have v: "verified_at S v st"
      using verify_incoming_sound(1-3) [OF laws Inr] by (simp add: verified_at_def)
    obtain pid mid r s3 where
      sv: "svc_save S (svc_update_data (committed_data st msg v ?h pid mid) s1) = (r, s3)"
      and r: "receive_and_verify S s = (and_then r (\<lambda>_. Inr \<lparr>ro_org_id = ?i, ro_epoch = vu_epoch v, ro_root = ?h\<rparr>), s3)"
      using receive_runs [OF ops m st Inr, of "os_root_hash st"] v unfolding verified_at_def by metis
    have "svc_data s' = committed_data st msg v ?h pid mid (svc_data s)" "sv_chain s' = sv_chain s"
      using svc_save_same [OF sv] receive_message_frame [OF m] r run by simp_all
    then show ?thesis
      using committed_records [OF laws v refl] st by (intro ledger_move.adopts [where i = ?i and st = st]) simp_all
  qed
qed

lemma self_delete_moves:
  assumes laws: "nfc_laws (svc_U S)" and ops: "se_chain S = ops"
    and run: "receive_and_self_delete_if_revoked S s = (q, s')"
  shows "ledger_move S slots_of TellReceiveOrDelete s s'"
proof (rule received_story [where story = "receive_and_self_delete_if_revoked S", OF run], unfold receive_and_self_delete_if_revoked_def Let_def ops, rule refl)
  fix dk and msg :: WireMessage and s1 and st :: OrgState
  let ?i = "env_org_id (wm_envelope msg)" and ?h = "root_hash_word (os_root_hash st)"
  assume m: "receive_message S s = (Inr (dk, msg), s1)" and still: "ledger_move S slots_of TellReceiveOrDelete s s1"
    and st: "slots_of (sv_chain s) ?i = Some st"
  show "ledger_move S slots_of TellReceiveOrDelete s s'"
  proof (cases "verify_known_org S (svc_data s) msg st")
    case (Inl e)
    then show ?thesis using self_delete_error [OF ops m st Inl] run still by simp
  next
    case (Inr v)
    obtain r where r: "find_org ?i (svc_data s) = Inr r" and v: "verified_at S v st"
      by (rule verify_known_sound [OF laws Inr])
    define upd where "upd = (if still_present (ne_ed (se_node S)) (svc_data s) ?i (vu_trie v)
        then updated_data ?i v ?h else removed_data ?i)"
    define out where "out = (if still_present (ne_ed (se_node S)) (svc_data s) ?i (vu_trie v)
        then UpdatedNotRevoked ?i else SelfDeleted ?i)"
    obtain p s3 where sv: "svc_save S (svc_update_data upd s1) = (p, s3)" by fastforce
    have "receive_and_self_delete_if_revoked S s = (and_then p (\<lambda>_. Inr out), s3)"
      by (rule self_delete_runs [where rh = "os_root_hash st", OF ops m refl st Inr _ _ sv])
        (use v in \<open>simp_all add: verified_at_def upd_def out_def\<close>)
    then have "svc_data s' = upd (svc_data s)" "sv_chain s' = sv_chain s"
      using svc_save_same [OF sv] receive_message_frame [OF m] run by simp_all
    then show ?thesis
      using self_delete_records [OF laws v r] st
      by (intro ledger_move.adopts [where i = ?i and st = st]) (simp_all add: upd_def)
  qed
qed

end

context founding_ledger
begin

lemma tell_moves:
  assumes laws: "nfc_laws (svc_U S)" "keys_valid S" and ops: "se_chain S = ops"
    and unused: "is_TellFound a \<Longrightarrow> keeps_slots slots_of (sv_chain s) (sv_chain (tell S a s))"
  shows "ledger_move S slots_of a s (tell S a s)"
proof (cases a)
  case (TellFound pid)
  then show ?thesis using create_moves [OF laws ops prod.collapse [symmetric]] unused by simp
next
  case (TellMode mode)
  then show ?thesis by (intro ledger_move.stays) (simp_all add: set_transport_mode_def)
qed (auto intro: quiet_moves [OF quiet_stories(1) prod.collapse [symmetric]]
      quiet_moves [OF quiet_stories(2) prod.collapse [symmetric]]
      quiet_moves [OF quiet_stories(3) prod.collapse [symmetric]]
      quiet_moves [OF quiet_stories(4) prod.collapse [symmetric]]
      admit_moves [OF laws(1) ops prod.collapse [symmetric]] revoke_moves [OF laws(1) ops prod.collapse [symmetric]]
      receive_moves [OF laws(1) ops prod.collapse [symmetric]]
      self_delete_moves [OF laws(1) ops prod.collapse [symmetric]])

end

end
