(* ===== verification/Worlds.thy ===== *)
theory Worlds
  imports Moves
begin

text \<open>
  Many nodes over one chain. Each node tells the stories of its service one at a time, in any order and
  with any outcome, over a network that may hand it anything. The specification is a log of memberships
  per organisation; the implementation log holds the states the chain had with the tries they were made
  of, and every story is simulated by a step of it.

  A story is one step of the world. Of its stages only the submission touches the chain, the ones before it
  read nothing but the node's own store and the ones after it write nothing else, and a node tells one story
  at a time; so the stages of different nodes can interleave without reaching anything new. A receiving
  story is a step at the moment its message has arrived. A node may start anew, from a store without
  organisations or from any store that a story of the run left: after a crash, from a backup or on another
  device. A crash within a story is the story failing there, followed by a restart.
\<close>

section \<open>Worlds\<close>

record ('c, 'n) World =
  wo_chain :: 'c
  wo_node :: "nat \<Rightarrow> ('c, 'n) OrgService"

text \<open>
  A node begins a story over the chain as it is and a network that may have done anything since its last
  one. A founding does not get the identifier of an existing organisation.
\<close>

definition begins :: "nat \<Rightarrow> 'n \<Rightarrow> ('c, 'n) World \<Rightarrow> ('c, 'n) OrgService" where
  "begins k net w = (wo_node w k)\<lparr>sv_chain := wo_chain w, sv_net := net\<rparr>"

definition world_step ::
  "('c, 'n) ServiceEnv \<Rightarrow> nat \<Rightarrow> 'n \<Rightarrow> Story \<Rightarrow> ('c, 'n) World \<Rightarrow> ('c, 'n) World" where
  "world_step S k net a w =
     (let s = tell S a (begins k net w)
      in w\<lparr>wo_chain := sv_chain s, wo_node := (wo_node w)(k := s)\<rparr>)"

text \<open>
  A run, with its trace: each story with the state of the service that told it. A restart is
  \<^verbatim>\<open>OrgService::new\<close> on a store of the run, with any disk, network and random numbers.
\<close>

type_synonym ('c, 'n) Trace = "(Story \<times> ('c, 'n) OrgService) list"

definition left_stores :: "('c, 'n) ServiceEnv \<Rightarrow> ('c, 'n) Trace \<Rightarrow> StoreData set" where
  "left_stores S tr = {svc_data (tell S a s) |a s. (a, s) \<in> set tr}"

inductive world_run ::
  "('c, 'n) ServiceEnv \<Rightarrow> ('c \<Rightarrow> OrgId \<rightharpoonup> OrgState) \<Rightarrow> ('c, 'n) Trace \<Rightarrow> ('c, 'n) World \<Rightarrow> bool"
  for S slots_of where
  start: "world_run S slots_of [] w"
    if "slots_of (wo_chain w) = Map.empty" and "\<forall>k. sd_orgs (svc_data (wo_node w k)) = []"
| told: "world_run S slots_of (tr @ [(a, begins k net w)]) (world_step S k net a w)"
    if "world_run S slots_of tr w"
      and "is_TellFound a \<longrightarrow> keeps_slots slots_of (wo_chain w) (wo_chain (world_step S k net a w))"
| reopened: "world_run S slots_of tr (w\<lparr>wo_node := (wo_node w)(k := service_new st disk (wo_chain w) net rng)\<rparr>)"
    if "world_run S slots_of tr w" and "sd_orgs (ps_data st) = [] \<or> ps_data st \<in> left_stores S tr"

lemma begins_simps [simp]: "svc_data (begins k net w) = svc_data (wo_node w k)" "sv_chain (begins k net w) = wo_chain w"
  by (simp_all add: begins_def)

lemma world_step_simps:
  "wo_chain (world_step S k net a w) = sv_chain (tell S a (begins k net w))"
  "wo_node (world_step S k net a w) = (wo_node w)(k := tell S a (begins k net w))"
  by (simp_all add: world_step_def Let_def)

section \<open>The specification: a log of memberships\<close>

text \<open>The membership a founding starts with, and the one a change makes.\<close>

fun founds_with :: "('c, 'n) ServiceEnv \<Rightarrow> Story \<Rightarrow> StoreData \<Rightarrow> bytes32 \<Rightarrow> Snapshot \<Rightarrow> bool" where
  "founds_with S (TellFound pid) d key M \<longleftrightarrow>
     (\<exists>p leaf. find_persona pid d = Inr p \<and> key = persona_member_vk (ne_ed (se_node S)) p
        \<and> leaf_from_snapshot S (founder_snapshot (ne_ed (se_node S)) p) = Inr leaf \<and> M = [ml_id leaf \<mapsto> leaf])"
| "founds_with S _ d key M \<longleftrightarrow> False"

fun changes_to :: "('c, 'n) ServiceEnv \<Rightarrow> Story \<Rightarrow> OrgId \<Rightarrow> Snapshot \<Rightarrow> Snapshot \<Rightarrow> bool" where
  "changes_to S (TellAdmit j jr a sec) i M N \<longleftrightarrow>
     j = i \<and> (\<exists>leaf. leaf_from_snapshot S (joiner_snapshot jr) = Inr leaf \<and> M (ml_id leaf) = None
        \<and> N = M(ml_id leaf \<mapsto> leaf))"
| "changes_to S (TellRevoke j m a) i M N \<longleftrightarrow> j = i \<and> M (MemberId m) \<noteq> None \<and> N = M(MemberId m := None)"
| "changes_to S _ i M N \<longleftrightarrow> False"

definition holds_key :: "('c, 'n) ServiceEnv \<Rightarrow> StoreData \<Rightarrow> bytes32 \<Rightarrow> bool" where
  "holds_key S d key \<longleftrightarrow> (\<exists>p\<in>set (sd_personas d). persona_member_vk (ne_ed (se_node S)) p = key)"

text \<open>
  The logs a trace allows, under one key per organisation: a story leaves them alone, starts one, or
  extends one; only a node that holds the key of the organisation extends its log.
\<close>

inductive member_log ::
  "('c, 'n) ServiceEnv \<Rightarrow> (OrgId \<Rightarrow> bytes32) \<Rightarrow> ('c, 'n) Trace \<Rightarrow> (OrgId \<Rightarrow> Snapshot list) \<Rightarrow> bool"
  for S key where
  empty: "member_log S key [] (\<lambda>_. [])"
| skip: "member_log S key tr log \<Longrightarrow> member_log S key (tr @ [e]) log"
| found: "member_log S key (tr @ [(a, s)]) (log(i := [M]))"
    if "member_log S key tr log" and "log i = []" and "founds_with S a (svc_data s) (key i) M"
| change: "member_log S key (tr @ [(a, s)]) (log(i := log i @ [M]))"
    if "member_log S key tr log" and "log i \<noteq> []" and "changes_to S a i (last (log i)) M"
      and "holds_key S (svc_data s) (key i)"

lemma new_org_founds:
  assumes laws: "nfc_laws (svc_U S)" and u: "new_org S a d key u"
  shows "trie_inv (svc_U S) (svc_H S) u" and "root_hash u = Inr (smt_root (svc_H S) (ot_root u))"
    and "founds_with S a d key (snapshot u)"
proof -
  obtain pid p leaf where a: "a = TellFound pid" "find_persona pid d = Inr p"
      "key = persona_member_vk (ne_ed (se_node S)) p" "leaf_from_snapshot S (founder_snapshot (ne_ed (se_node S)) p) = Inr leaf"
      "genesis (svc_U S) (svc_H S) [leaf] = Inr u"
    using u by (cases a) auto
  have "\<forall>m\<in>set [leaf]. leaf_wf (svc_U S) m"
    using leaf_from_snapshot_storable [OF laws a(4)] by (simp add: storable_def)
  note g = genesis_ok(1) [OF this a(5)]
  show "trie_inv (svc_U S) (svc_H S) u" and "root_hash u = Inr (smt_root (svc_H S) (ot_root u))"
    using g by simp_all
  have "snapshot u = [ml_id leaf \<mapsto> leaf]"
    using g by (auto simp: spec_add_def spec_put_def handle_conflict_def)
  then show "founds_with S a d key (snapshot u)" using a by simp
qed

lemma change_changes:
  assumes laws: "nfc_laws (svc_U S)" and t: "trie_inv (svc_U S) (svc_H S) t" and u: "change S a i t u"
  shows "trie_inv (svc_U S) (svc_H S) u" and "changes_to S a i (snapshot t) (snapshot u)"
proof -
  have "trie_inv (svc_U S) (svc_H S) u \<and> changes_to S a i (snapshot t) (snapshot u)"
  proof (cases a)
    case (TellAdmit j jr addr sec)
    then obtain leaf where leaf: "leaf_from_snapshot S (joiner_snapshot jr) = Inr leaf" "j = i"
        "add_member (svc_U S) (svc_H S) t leaf = Inr u"
      using u by auto
    have "leaf_wf (svc_U S) leaf" using leaf_from_snapshot_storable [OF laws leaf(1)] by (simp add: storable_def)
    then show ?thesis using add_member_snapshot [OF t _ leaf(3)] leaf TellAdmit by simp
  next
    case (TellRevoke j m addr)
    then show ?thesis using delete_member_snapshot [OF t] u by auto
  qed (use u in simp_all)
  then show "trie_inv (svc_U S) (svc_H S) u" and "changes_to S a i (snapshot t) (snapshot u)" by simp_all
qed

section \<open>The implementation: a log of states and tries\<close>

text \<open>
  A state of an organisation with the trie it was made of. The log of an organisation has one entry per
  epoch, under one key; the slot of the chain holds the last.
\<close>

type_synonym Entry = "OrgState \<times> OrgTrie"

definition entry_ok :: "('c, 'n) ServiceEnv \<Rightarrow> Entry \<Rightarrow> bool" where
  "entry_ok S e \<longleftrightarrow>
     trie_inv (svc_U S) (svc_H S) (snd e) \<and> smt_root (svc_H S) (ot_root (snd e)) = os_root_hash (fst e)"

definition org_log :: "('c, 'n) ServiceEnv \<Rightarrow> bytes32 \<Rightarrow> OrgState option \<Rightarrow> Entry list \<Rightarrow> bool" where
  "org_log S key slot L \<longleftrightarrow>
     slot = (if L = [] then None else Some (fst (last L)))
     \<and> (\<forall>j<length L. unat (os_epoch (fst (L ! j))) = Suc j)
     \<and> (\<forall>e\<in>set L. entry_ok S e \<and> os_org_pub_key (fst e) = key)"

definition logged ::
  "('c, 'n) ServiceEnv \<Rightarrow> (OrgId \<Rightarrow> bytes32) \<Rightarrow> nat \<Rightarrow> (OrgId \<rightharpoonup> OrgState) \<Rightarrow> (OrgId \<Rightarrow> Entry list) \<Rightarrow> bool" where
  "logged S key n m L \<longleftrightarrow> (\<forall>i. length (L i) \<le> n \<and> org_log S (key i) (m i) (L i))"

text \<open>A store is recorded in a log when each of its records holds an entry of it, under its key.\<close>

definition recorded :: "('c, 'n) ServiceEnv \<Rightarrow> (OrgId \<Rightarrow> bytes32) \<Rightarrow> (OrgId \<Rightarrow> Entry list) \<Rightarrow> StoreData \<Rightarrow> bool" where
  "recorded S key L d \<longleftrightarrow>
     (\<forall>i r. find_org i d = Inr r \<longrightarrow> keyed r (key i) \<and> (\<exists>e\<in>set (L i). anchored S r (fst e)))"

lemma org_log_founds:
  assumes "entry_ok S (st, u)" and "os_epoch st = 1" and "os_org_pub_key st = key"
  shows "org_log S key (Some st) [(st, u)]"
  using assms by (simp add: org_log_def)

lemma org_log_extends:
  assumes L: "org_log S key (Some old) L" and n: "Suc (length L) < 2 ^ 64"
    and st: "entry_ok S (st, u)" "os_epoch st = os_epoch old + 1" "os_org_pub_key st = key"
  shows "org_log S key (Some st) (L @ [(st, u)])"
proof -
  have ne: "L \<noteq> []" and old: "old = fst (last L)" and ep: "\<And>j. j < length L \<Longrightarrow> unat (os_epoch (fst (L ! j))) = Suc j"
    using L by (auto simp: org_log_def split: if_splits)
  have "unat (os_epoch old) = length L"
    using ep [of "length L - 1"] ne old by (simp add: last_conv_nth)
  then have "unat (os_epoch st) = Suc (length L)" using n st(2) by (simp add: unat_word_ariths)
  then show ?thesis using L st ne by (auto simp: org_log_def nth_append less_Suc_eq)
qed

lemma org_log_entry:
  assumes L: "org_log S key slot L" and e: "e \<in> set L"
  obtains j st where "slot = Some st" and "j < length L" and "L ! j = e" and "unat (os_epoch (fst e)) = Suc j"
    and "os_epoch (fst e) \<le> os_epoch st" and "unat (os_epoch st) = length L"
    and "os_epoch (fst e) = os_epoch st \<Longrightarrow> st = fst e" and "os_org_pub_key st = key" and "entry_ok S e"
proof -
  have ne: "L \<noteq> []" using e by auto
  obtain j where j: "j < length L" "L ! j = e" using e by (metis in_set_conv_nth)
  have ep: "\<And>j. j < length L \<Longrightarrow> unat (os_epoch (fst (L ! j))) = Suc j"
    and slot: "slot = Some (fst (last L))"
    and ok: "\<And>e. e \<in> set L \<Longrightarrow> entry_ok S e \<and> os_org_pub_key (fst e) = key"
    using L ne by (auto simp: org_log_def)
  have len: "unat (os_epoch (fst (last L))) = length L"
    using ep [of "length L - 1"] ne by (simp add: last_conv_nth)
  have same: "fst (last L) = fst e" if "os_epoch (fst e) = os_epoch (fst (last L))"
  proof -
    have "Suc j = length L" using that ep [OF j(1)] j(2) len by simp
    then have "last L = e" using j(2) ne by (metis diff_Suc_1 last_conv_nth)
    then show ?thesis by simp
  qed
  show ?thesis
    by (rule that [OF slot j])
      (use ep [OF j(1)] j len same ok [OF last_in_set [OF ne]] ok [OF e] in \<open>simp_all add: word_le_nat_alt\<close>)
qed

section \<open>The simulation\<close>

text \<open>What one story does to the logs.\<close>

inductive log_step ::
  "('c, 'n) ServiceEnv \<Rightarrow> (OrgId \<Rightarrow> bytes32) \<Rightarrow> Story \<Rightarrow> StoreData \<Rightarrow> (OrgId \<Rightarrow> Entry list) \<Rightarrow> (OrgId \<Rightarrow> Entry list) \<Rightarrow> bool"
  for S key a d L where
  stutters: "log_step S key a d L L"
| starts: "log_step S key a d L (L(i := [(st, u)]))"
    if "L i = []" and "new_org S a d (key i) u"
| extends: "log_step S key a d L (L(i := L i @ [(st, u)]))"
    if "L i \<noteq> []" and "load_admin_org S i d = Inr (q, t, kp)" and "or_admin_member_key q = key i"
      and "root_hash t = Inr (os_root_hash (fst (last (L i))))" and "change S a i t u"

lemma log_step_grows: "log_step S key a d L L' \<Longrightarrow> set (L i) \<subseteq> set (L' i)"
  by (induction rule: log_step.induct) auto

lemma loggedD:
  assumes "logged S key n m L"
  shows "org_log S (key i) (m i) (L i)" and "length (L i) \<le> n"
  using assms by (simp_all add: logged_def)

lemma logged_later: "logged S key n m L \<Longrightarrow> logged S key (Suc n) m L"
  by (auto simp: logged_def le_SucI)

lemma logged_update:
  assumes "logged S key n m L" and "org_log S (key i) (Some st) L'" and "length L' \<le> Suc n"
  shows "logged S key (Suc n) (m(i \<mapsto> st)) (L(i := L'))"
  using logged_later [OF assms(1)] assms(2,3) by (simp add: logged_def)

lemma recordedD:
  assumes "recorded S key L d" and "find_org i d = Inr r"
  obtains e where "e \<in> set (L i)" and "anchored S r (fst e)" and "keyed r (key i)"
  using assms unfolding recorded_def by blast

lemma recorded_mono: "recorded S key L d \<Longrightarrow> (\<And>i. set (L i) \<subseteq> set (L' i)) \<Longrightarrow> recorded S key L' d"
  unfolding recorded_def by blast

lemma recorded_from:
  assumes "recorded S key L d" and "records_from d d' i Q"
    and "\<And>r. Q r \<Longrightarrow> keyed r (key i) \<and> (\<exists>e\<in>set (L i). anchored S r (fst e))"
  shows "recorded S key L d'"
  using assms unfolding recorded_def records_from_def by blast

text \<open>A move is simulated by a step of the logs, which keeps them and what is recorded in them.\<close>

lemma founding_step:
  assumes laws: "nfc_laws (svc_U S)" and log: "logged S key n m L" and rec: "recorded S key L d"
    and unused: "m i = None" and st: "os_epoch st = 1" "os_org_pub_key st = key i"
    and u: "new_org S a d (key i) u" "root_hash u = Inr (os_root_hash st)"
    and d': "records_from d d' i (\<lambda>r. anchored S r st \<and> keyed r (key i))"
  obtains L' where "log_step S key a d L L'" and "logged S key (Suc n) (m(i \<mapsto> st)) L'" and "recorded S key L' d'"
proof -
  let ?L = "L(i := [(st, u)])"
  have "L i = []" using loggedD(1) [OF log, of i] unused by (simp add: org_log_def split: if_splits)
  then have step: "log_step S key a d L ?L" using u(1) by (rule log_step.starts)
  have "entry_ok S (st, u)" using new_org_founds(1,2) [OF laws u(1)] u(2) by (simp add: entry_ok_def)
  then have "logged S key (Suc n) (m(i \<mapsto> st)) ?L"
    using logged_update [OF log org_log_founds] st by simp
  moreover have "recorded S key ?L d'"
    by (rule recorded_from [OF recorded_mono [OF rec log_step_grows [OF step]] d']) simp
  ultimately show ?thesis using that step by blast
qed

lemma advancing_step:
  assumes laws: "nfc_laws (svc_U S)" and log: "logged S key n m L" and rec: "recorded S key L d" and n: "Suc n < 2 ^ 64"
    and q: "load_admin_org S i d = Inr (q, t, kp)" and old: "m i = Some old" "os_epoch old = or_epoch q"
    and u: "change S a i t u" "smt_root (svc_H S) (ot_root u) = RootHash h"
    and d': "records_from d d' i (holds_next S q h)"
  obtains L' where "log_step S key a d L L'" and "logged S key (Suc n) (m(i \<mapsto> next_state q h)) L'" and "recorded S key L' d'"
proof -
  let ?st = "next_state q h"
  let ?L = "L(i := L i @ [(?st, u)])"
  have find: "find_org i d = Inr q" and t: "trie_from_snapshots S (or_trie_members q) = Inr t"
    using q by (auto simp: load_admin_org_ok)
  obtain e where e: "e \<in> set (L i)" "anchored S q (fst e)" "keyed q (key i)" by (rule recordedD [OF rec find])
  have il: "org_log S (key i) (Some old) (L i)" using loggedD(1) [OF log, of i] old(1) by simp
  have "old = fst e"
    by (rule org_log_entry [OF il e(1)]) (use e(2) old(2) in \<open>simp add: anchored_def\<close>)
  then have root: "root_hash t = Inr (os_root_hash (fst (last (L i))))" and ne: "L i \<noteq> []"
    using il e(2) t by (auto simp: org_log_def anchored_def split: if_splits)
  have step: "log_step S key a d L ?L"
    using log_step.extends [where L = L and key = key and i = i, OF ne q _ root u(1)] e(3) by (simp add: keyed_def)
  have "entry_ok S (?st, u)"
    using change_changes(1) [OF laws rebuilt_trie(1) [OF laws t] u(1)] u(2) by (simp add: entry_ok_def next_state_def)
  then have "org_log S (key i) (Some ?st) (L i @ [(?st, u)])"
    using org_log_extends [OF il _ _ _ _] loggedD(2) [OF log, of i] n old(2) e(3)
    by (simp add: next_state_def keyed_def)
  then have "logged S key (Suc n) (m(i \<mapsto> ?st)) ?L"
    using logged_update [OF log] loggedD(2) [OF log, of i] by simp
  moreover have "recorded S key ?L d'"
    by (rule recorded_from [OF recorded_mono [OF rec log_step_grows [OF step]] d'])
      (use same_keys_keyed e(3) in auto)
  ultimately show ?thesis using that step by blast
qed

text \<open>Along a trace. The key of an organisation is free until it is founded.\<close>

inductive log_trace ::
  "('c, 'n) ServiceEnv \<Rightarrow> (OrgId \<Rightarrow> bytes32) \<Rightarrow> ('c, 'n) Trace \<Rightarrow> (OrgId \<Rightarrow> Entry list) \<Rightarrow> bool"
  for S key where
  begins: "log_trace S key [] (\<lambda>_. [])"
| goes_on: "log_trace S key (tr @ [(a, s)]) L'"
    if "log_trace S key tr L" and "log_step S key a (svc_data s) L L'"

definition rekeys :: "(OrgId \<Rightarrow> Entry list) \<Rightarrow> (OrgId \<Rightarrow> bytes32) \<Rightarrow> (OrgId \<Rightarrow> bytes32) \<Rightarrow> bool" where
  "rekeys L key key' \<longleftrightarrow> (\<forall>i. L i \<noteq> [] \<longrightarrow> key' i = key i)"

lemma log_step_rekeyed:
  assumes "log_step S key a d L L'" and "rekeys L' key key'"
  shows "log_step S key' a d L L'" and "rekeys L key key'"
proof -
  have "log_step S key' a d L L' \<and> rekeys L key key'"
    using assms
  proof cases
    case (starts i u st)
    then have "key' i = key i" using assms(2) by (simp add: rekeys_def)
    then show ?thesis using starts assms(2) log_step.starts [of L i S a d key' u st] by (auto simp: rekeys_def split: if_splits)
  next
    case (extends i q t kp u st)
    then have "key' i = key i" using assms(2) by (simp add: rekeys_def)
    then show ?thesis
      using extends assms(2) log_step.extends [of L i S d q t kp key' a u st] by (auto simp: rekeys_def split: if_splits)
  qed (auto intro: log_step.stutters)
  then show "log_step S key' a d L L'" and "rekeys L key key'" by simp_all
qed

lemma log_trace_rekeyed: "log_trace S key tr L \<Longrightarrow> rekeys L key key' \<Longrightarrow> log_trace S key' tr L"
proof (induction rule: log_trace.induct)
  case (goes_on tr L a s L')
  then show ?case using log_step_rekeyed [OF goes_on.hyps(2) goes_on.prems] by (blast intro: log_trace.goes_on)
qed (rule log_trace.begins)

lemma logged_rekeyed:
  assumes "logged S key n m L" and "rekeys L key key'"
  shows "logged S key' n m L"
proof -
  have "org_log S (key' i) (m i) (L i)" for i
    using loggedD(1) [OF assms(1), of i] assms(2) by (cases "L i = []") (simp_all add: org_log_def rekeys_def)
  then show ?thesis using assms(1) by (simp add: logged_def)
qed

lemma recorded_rekeyed: "recorded S key L d \<Longrightarrow> rekeys L key key' \<Longrightarrow> recorded S key' L d"
  unfolding recorded_def rekeys_def by (metis empty_iff empty_set)

text \<open>The simulation relation of a world after a trace.\<close>

definition simulates ::
  "('c, 'n) ServiceEnv \<Rightarrow> ('c \<Rightarrow> OrgId \<rightharpoonup> OrgState) \<Rightarrow> (OrgId \<Rightarrow> bytes32) \<Rightarrow> (OrgId \<Rightarrow> Entry list) \<Rightarrow> ('c, 'n) Trace
     \<Rightarrow> ('c, 'n) World \<Rightarrow> bool" where
  "simulates S slots_of key L tr w \<longleftrightarrow>
     log_trace S key tr L \<and> logged S key (length tr) (slots_of (wo_chain w)) L
     \<and> (\<forall>k. recorded S key L (svc_data (wo_node w k))) \<and> (\<forall>d\<in>left_stores S tr. recorded S key L d)"

lemma recorded_no_orgs: "sd_orgs d = [] \<Longrightarrow> recorded S key L d"
  by (simp add: recorded_def find_org_def ok_or_def)

lemma left_stores_snoc: "left_stores S (tr @ [(a, s)]) = insert (svc_data (tell S a s)) (left_stores S tr)"
  by (auto simp: left_stores_def)

lemma move_step:
  assumes laws: "nfc_laws (svc_U S)" and log: "logged S key n (slots_of (sv_chain s)) L"
    and rec: "recorded S key L (svc_data s)" and move: "ledger_move S slots_of a s s'" and n: "Suc n < 2 ^ 64"
  obtains key' L' where "rekeys L key key'" and "log_step S key' a (svc_data s) L L'"
    and "logged S key' (Suc n) (slots_of (sv_chain s')) L'" and "recorded S key' L' (svc_data s')"
  using move
proof cases
  case (stays i)
  have "recorded S key L (svc_data s')" using recorded_from [OF rec stays(2)] by simp
  then show ?thesis
    using that [of key L] logged_later [OF log] stays(1) by (simp add: rekeys_def log_step.stutters)
next
  case (founds i st u)
  let ?key = "key(i := os_org_pub_key st)"
  have "L i = []" using loggedD(1) [OF log, of i] founds(1) by (simp add: org_log_def split: if_splits)
  then have re: "rekeys L key ?key" by (simp add: rekeys_def)
  show ?thesis
    by (rule founding_step [OF laws logged_rekeyed [OF log re] recorded_rekeyed [OF rec re] founds(1,3), where d' = "svc_data s'"])
      (use founds that [OF re] in simp_all)
next
  case (advances q t kp i old h u)
  show ?thesis
    by (rule advancing_step [OF laws log rec n advances(1,2,3,5,6,7)])
      (use that [of key] advances(4) in \<open>simp add: rekeys_def\<close>)
next
  case (adopts i st)
  have slot: "org_log S (key i) (Some st) (L i)" using loggedD(1) [OF log, of i] adopts(2) by simp
  then have st: "os_org_pub_key st = key i" "\<exists>e\<in>set (L i). fst e = st"
    using last_in_set [of "L i"] by (auto simp: org_log_def split: if_splits)
  have key: "keyed q (key i)" if "find_org i (svc_data s) = Inr q" for q
    using recordedD [OF rec that] by blast
  have "recorded S key L (svc_data s')"
    by (rule recorded_from [OF rec adopts(3)]) (use st key same_keys_keyed in auto)
  then show ?thesis
    using that [of key L] logged_later [OF log] adopts(1) by (simp add: rekeys_def log_step.stutters)
qed

context founding_ledger
begin

lemma world_simulated:
  assumes laws: "nfc_laws (svc_U S)" "keys_valid S" and ops: "se_chain S = ops"
    and run: "world_run S slots_of tr w" and n: "length tr < 2 ^ 64"
  shows "\<exists>key L. simulates S slots_of key L tr w"
  using run n
proof induction
  case (start w)
  then have "simulates S slots_of (\<lambda>_. 0) (\<lambda>_. []) [] w"
    by (simp add: simulates_def log_trace.begins logged_def org_log_def recorded_no_orgs left_stores_def)
  then show ?case by blast
next
  case (told tr w a k net)
  obtain key L where sim: "log_trace S key tr L" "logged S key (length tr) (slots_of (wo_chain w)) L"
      "\<And>k. recorded S key L (svc_data (wo_node w k))" "\<And>d. d \<in> left_stores S tr \<Longrightarrow> recorded S key L d"
    using told by (fastforce simp: simulates_def)
  let ?s = "begins k net w" and ?w = "world_step S k net a w"
  have "ledger_move S slots_of a ?s (tell S a ?s)"
    by (rule tell_moves [OF laws ops]) (use told(2) in \<open>simp add: world_step_simps\<close>)
  moreover have "Suc (length tr) < 2 ^ 64" using told.prems by simp
  moreover have "logged S key (length tr) (slots_of (sv_chain ?s)) L" "recorded S key L (svc_data ?s)" using sim by simp_all
  ultimately obtain key' L' where step: "rekeys L key key'" "log_step S key' a (svc_data ?s) L L'"
      "logged S key' (Suc (length tr)) (slots_of (sv_chain (tell S a ?s))) L'"
      "recorded S key' L' (svc_data (tell S a ?s))"
    using move_step [OF laws(1)] by metis
  have "recorded S key' L' d" if "recorded S key L d" for d
    using recorded_mono [OF recorded_rekeyed [OF that step(1)] log_step_grows [OF step(2)]] .
  then have "simulates S slots_of key' L' (tr @ [(a, ?s)]) ?w"
    using log_trace.goes_on [OF log_trace_rekeyed [OF sim(1) step(1)] step(2)] step(3,4) sim(3,4)
    by (simp add: simulates_def world_step_simps left_stores_snoc)
  then show ?case by blast
next
  case (reopened tr w st k disk net rng)
  then obtain key L where sim: "simulates S slots_of key L tr w" by blast
  have "recorded S key L (ps_data st)"
    using reopened.hyps(2) sim recorded_no_orgs by (auto simp: simulates_def)
  then have "simulates S slots_of key L tr (w\<lparr>wo_node := (wo_node w)(k := service_new st disk (wo_chain w) net rng)\<rparr>)"
    using sim by (simp add: simulates_def service_new_def)
  then show ?case by blast
qed

end

end
