(* ===== verification/Agreement.thy ===== *)
theory Agreement
  imports Worlds
begin

text \<open>
  What the simulation gives: nodes agree on the organisations they share, the world refines a log of
  memberships, and every member was admitted.
\<close>

section \<open>Agreement\<close>

lemma rebuilt_same_members:
  assumes laws: "nfc_laws (svc_U S)" and t: "trie_from_snapshots S xs = Inr t" and u: "trie_inv (svc_U S) (svc_H S) u"
    and eq: "root_hash t = Inr (smt_root (svc_H S) (ot_root u))"
  shows "snapshot t = snapshot u \<or> change_collides (svc_H S) t u"
  using root_hash_binds [OF trie_invD(5) [OF rebuilt_trie(1) [OF laws t]] trie_invD(5) [OF u]]
    rebuilt_trie(2) [OF laws t] eq by simp

lemma simulated_records:
  assumes laws: "nfc_laws (svc_U S)" and sim: "simulates S slots_of key L tr w"
    and r: "find_org i (svc_data (wo_node w j)) = Inr r" and q: "find_org i (svc_data (wo_node w k)) = Inr q"
  shows "or_org_pub_key r = or_org_pub_key q
    \<and> (or_epoch r = or_epoch q \<longrightarrow> or_root_hash r = or_root_hash q
        \<and> (\<forall>t u. trie_from_snapshots S (or_trie_members r) = Inr t \<longrightarrow> trie_from_snapshots S (or_trie_members q) = Inr u
            \<longrightarrow> snapshot t = snapshot u \<or> change_collides (svc_H S) t u))
    \<and> (\<exists>st. slots_of (wo_chain w) i = Some st \<and> or_org_pub_key r = os_org_pub_key st \<and> or_epoch r \<le> os_epoch st
        \<and> (or_epoch r = os_epoch st \<longrightarrow> RootHash (or_root_hash r) = os_root_hash st))"
proof -
  have log: "org_log S (key i) (slots_of (wo_chain w) i) (L i)" and rec: "\<And>k. recorded S key L (svc_data (wo_node w k))"
    using sim by (auto simp: simulates_def logged_def)
  obtain e where e: "e \<in> set (L i)" "anchored S r (fst e)" "keyed r (key i)" by (rule recordedD [OF rec r])
  obtain f where f: "f \<in> set (L i)" "anchored S q (fst f)" "keyed q (key i)" by (rule recordedD [OF rec q])
  obtain x st where x: "slots_of (wo_chain w) i = Some st" "L i ! x = e" "unat (os_epoch (fst e)) = Suc x"
      "os_epoch (fst e) \<le> os_epoch st" "os_epoch (fst e) = os_epoch st \<Longrightarrow> st = fst e" "os_org_pub_key st = key i"
    by (rule org_log_entry [OF log e(1)]) (rule that)
  obtain y where y: "L i ! y = f" "unat (os_epoch (fst f)) = Suc y" by (rule org_log_entry [OF log f(1)]) (rule that)
  have same: "e = f" if "or_epoch r = or_epoch q"
    using that e(2) f(2) x(2,3) y by (auto simp: anchored_def)
  have mem: "snapshot t = snapshot u \<or> change_collides (svc_H S) t u"
    if "trie_from_snapshots S (or_trie_members r) = Inr t" "trie_from_snapshots S (or_trie_members q) = Inr u" "e = f" for t u
    using rebuilt_same_members [OF laws that(1) rebuilt_trie(1) [OF laws that(2)]] rebuilt_trie(2) [OF laws that(2)]
      e(2) f(2) that by (simp add: anchored_def)
  show ?thesis
  proof (intro conjI impI allI exI [of _ st])
    show "or_root_hash r = or_root_hash q" if "or_epoch r = or_epoch q"
      using same [OF that] e(2) f(2) by (metis RootHash.inject anchored_def)
    show "RootHash (or_root_hash r) = os_root_hash st" if "or_epoch r = os_epoch st"
      using x(5) that e(2) by (simp add: anchored_def)
  qed (use x e(2,3) f(3) mem same in \<open>simp_all add: keyed_def anchored_def\<close>)
qed

section \<open>Refinement of the logs\<close>

text \<open>The tries that occur in a run: rebuilt from a record before or after a story, or made by it.\<close>

definition rebuilt_tries :: "('c, 'n) ServiceEnv \<Rightarrow> StoreData \<Rightarrow> OrgTrie set" where
  "rebuilt_tries S d = {t. \<exists>i r. find_org i d = Inr r \<and> trie_from_snapshots S (or_trie_members r) = Inr t}"

definition made_tries :: "('c, 'n) ServiceEnv \<Rightarrow> Story \<Rightarrow> StoreData \<Rightarrow> OrgTrie set" where
  "made_tries S a d = {u. (\<exists>key. new_org S a d key u) \<or> (\<exists>i. \<exists>t\<in>rebuilt_tries S d. change S a i t u)}"

definition run_tries :: "('c, 'n) ServiceEnv \<Rightarrow> ('c, 'n) Trace \<Rightarrow> OrgTrie set" where
  "run_tries S tr = (\<Union>(a, s)\<in>set tr. rebuilt_tries S (svc_data s) \<union> made_tries S a (svc_data s)
     \<union> rebuilt_tries S (svc_data (tell S a s)))"

definition run_collides :: "('c, 'n) ServiceEnv \<Rightarrow> ('c, 'n) Trace \<Rightarrow> bool" where
  "run_collides S tr \<longleftrightarrow> collides (svc_H S) (\<Union>t\<in>run_tries S tr. trie_queries (svc_H S) (ot_root t))"

lemma run_collidesI: "t \<in> run_tries S tr \<Longrightarrow> u \<in> run_tries S tr \<Longrightarrow> change_collides (svc_H S) t u \<Longrightarrow> run_collides S tr"
  unfolding run_collides_def by (rule collides_mono) auto

lemma run_tries_snoc:
  "run_tries S (tr @ [(a, s)]) = run_tries S tr \<union> rebuilt_tries S (svc_data s) \<union> made_tries S a (svc_data s)
     \<union> rebuilt_tries S (svc_data (tell S a s))"
  by (auto simp: run_tries_def)

lemma run_collides_later: "run_collides S tr \<Longrightarrow> run_collides S (tr @ [e])"
  unfolding run_collides_def by (erule collides_mono) (auto simp: run_tries_def)

lemma log_trace_entries:
  assumes laws: "nfc_laws (svc_U S)" and "log_trace S key tr L" and "e \<in> set (L i)"
  shows "trie_inv (svc_U S) (svc_H S) (snd e) \<and> snd e \<in> run_tries S tr"
  using assms(2,3)
proof (induction arbitrary: e i rule: log_trace.induct)
  case (goes_on tr L a s L')
  have old: "trie_inv (svc_U S) (svc_H S) (snd e) \<and> snd e \<in> run_tries S (tr @ [(a, s)])" if "e \<in> set (L j)" for e j
    using goes_on.IH [OF that] by (simp add: run_tries_snoc)
  from goes_on.hyps(2) show ?case
  proof cases
    case stutters
    then show ?thesis using old goes_on.prems by blast
  next
    case (starts j u st)
    have "trie_inv (svc_U S) (svc_H S) u \<and> u \<in> run_tries S (tr @ [(a, s)])"
      using new_org_founds(1) [OF laws starts(3)] starts(3) by (auto simp: run_tries_snoc made_tries_def)
    then show ?thesis using old [of e i] goes_on.prems starts(1) by (cases "i = j") auto
  next
    case (extends j q t kp u st)
    have t: "find_org j (svc_data s) = Inr q" "trie_from_snapshots S (or_trie_members q) = Inr t"
      using extends(3) by (auto simp: load_admin_org_ok)
    then have "t \<in> rebuilt_tries S (svc_data s)" by (auto simp: rebuilt_tries_def)
    then have "trie_inv (svc_U S) (svc_H S) u \<and> u \<in> run_tries S (tr @ [(a, s)])"
      using change_changes(1) [OF laws rebuilt_trie(1) [OF laws t(2)] extends(6)] extends(6)
      by (auto simp: run_tries_snoc made_tries_def)
    then show ?thesis using old [of e i] goes_on.prems extends(1) by (cases "i = j") auto
  qed
qed simp

text \<open>A log of tries is a log of memberships, unless the run exhibits a collision.\<close>

abbreviation memberships :: "Entry list \<Rightarrow> Snapshot list" where
  "memberships \<equiv> List.map (\<lambda>e. snapshot (snd e))"

lemma load_admin_holds_key:
  assumes "load_admin_org S i d = Inr (q, t, kp)"
  shows "holds_key S d (or_admin_member_key q)"
proof -
  obtain p where "find (\<lambda>p. persona_member_vk (ne_ed (se_node S)) p = or_admin_member_key q) (sd_personas d) = Some p"
    using assms by (auto simp: load_admin_org_ok admin_persona_for_org_def and_then_eq_Inr ok_or_eq_Inr persona_member_vk_def)
  then show ?thesis by (auto simp: holds_key_def find_Some_iff)
qed

lemma logs_are_memberships:
  assumes laws: "nfc_laws (svc_U S)" and "log_trace S key tr L" and nc: "\<not> run_collides S tr"
    and ok: "\<And>i e. e \<in> set (L i) \<Longrightarrow> entry_ok S e"
  shows "member_log S key tr (\<lambda>i. memberships (L i))"
  using assms(2,3,4)
proof (induction rule: log_trace.induct)
  case begins
  then show ?case by (simp add: member_log.empty)
next
  case (goes_on tr L a s L')
  have grow: "set (L i) \<subseteq> set (L' i)" for i using log_step_grows [OF goes_on.hyps(2)] .
  have IH: "member_log S key tr (\<lambda>i. memberships (L i))"
    by (rule goes_on.IH) (use goes_on.prems run_collides_later grow in blast)+
  from goes_on.hyps(2) show ?case
  proof cases
    case stutters
    then show ?thesis using member_log.skip [OF IH] by simp
  next
    case (starts i u st)
    have "founds_with S a (svc_data s) (key i) (snapshot u)" using new_org_founds(3) [OF laws starts(3)] .
    then have "member_log S key (tr @ [(a, s)]) ((\<lambda>i. memberships (L i))(i := [snapshot u]))"
      using member_log.found [OF IH, where i = i and a = a and s = s] starts(2) by simp
    moreover have "(\<lambda>i. memberships (L i))(i := [snapshot u]) = (\<lambda>i. memberships (L' i))"
      by (simp add: fun_eq_iff starts(1))
    ultimately show ?thesis by simp
  next
    case (extends i q t kp u st)
    have t: "find_org i (svc_data s) = Inr q" "trie_from_snapshots S (or_trie_members q) = Inr t"
      using extends(3) by (auto simp: load_admin_org_ok)
    let ?e = "last (L i)"
    have e: "?e \<in> set (L i)" using extends(2) by simp
    note inv = log_trace_entries [OF laws goes_on.hyps(1) e]
    have "root_hash t = Inr (smt_root (svc_H S) (ot_root (snd ?e)))"
      using extends(5) goes_on.prems(2) [of ?e i] grow [of i] e by (auto simp: entry_ok_def)
    then have "snapshot t = snapshot (snd ?e) \<or> change_collides (svc_H S) t (snd ?e)"
      using rebuilt_same_members [OF laws t(2)] inv by blast
    moreover have "t \<in> run_tries S (tr @ [(a, s)])" "snd ?e \<in> run_tries S (tr @ [(a, s)])"
      using t inv by (auto simp: run_tries_snoc rebuilt_tries_def)
    ultimately have same: "snapshot t = snapshot (snd ?e)" using goes_on.prems(1) run_collidesI by blast
    have "changes_to S a i (last (memberships (L i))) (snapshot u)"
      using change_changes(2) [OF laws rebuilt_trie(1) [OF laws t(2)] extends(6)] same extends(2) by (simp add: last_map)
    then have "member_log S key (tr @ [(a, s)]) ((\<lambda>i. memberships (L i))(i := memberships (L i) @ [snapshot u]))"
      using member_log.change [OF IH, where i = i and a = a and s = s] load_admin_holds_key [OF extends(3)] extends(2,4)
      by simp
    moreover have "(\<lambda>i. memberships (L i))(i := memberships (L i) @ [snapshot u]) = (\<lambda>i. memberships (L' i))"
      by (simp add: fun_eq_iff extends(1))
    ultimately show ?thesis by simp
  qed
qed

text \<open>What the records of a world hold is a trie of the run.\<close>

lemma node_tries:
  assumes "world_run S slots_of tr w"
  shows "rebuilt_tries S (svc_data (wo_node w k)) \<subseteq> run_tries S tr"
  using assms
proof (induction arbitrary: k)
  case (start w)
  then show ?case by (simp add: rebuilt_tries_def find_org_def ok_or_def)
next
  case (told tr w a j net)
  then show ?case by (auto simp: world_step_simps run_tries_snoc)
next
  case (reopened tr w st j disk net rng)
  have "rebuilt_tries S (ps_data st) \<subseteq> run_tries S tr"
    using reopened.hyps(2)
  proof
    assume "sd_orgs (ps_data st) = []"
    then show ?thesis by (simp add: rebuilt_tries_def find_org_def ok_or_def)
  qed (auto simp: left_stores_def run_tries_def)
  then show ?case using reopened.IH by (simp add: service_new_def)
qed

lemma simulated_memberships:
  assumes laws: "nfc_laws (svc_U S)" and run: "world_run S slots_of tr w" and sim: "simulates S slots_of key L tr w"
    and nc: "\<not> run_collides S tr"
  shows "member_log S key tr (\<lambda>i. memberships (L i))"
    and "slots_of (wo_chain w) i = None \<longleftrightarrow> L i = []"
    and "slots_of (wo_chain w) i = Some st \<Longrightarrow> os_org_pub_key st = key i \<and> unat (os_epoch st) = length (L i)"
    and "find_org i (svc_data (wo_node w k)) = Inr r \<Longrightarrow> trie_from_snapshots S (or_trie_members r) = Inr t \<Longrightarrow>
      keyed r (key i) \<and> (\<exists>j<length (L i). unat (or_epoch r) = Suc j \<and> snapshot t = memberships (L i) ! j)"
proof -
  have trace: "log_trace S key tr L" and log: "\<And>i. org_log S (key i) (slots_of (wo_chain w) i) (L i)"
    and rec: "\<And>k. recorded S key L (svc_data (wo_node w k))"
    using sim by (auto simp: simulates_def logged_def)
  have ok: "entry_ok S e" if "e \<in> set (L i)" for i e using log [of i] that by (simp add: org_log_def)
  show "member_log S key tr (\<lambda>i. memberships (L i))" by (rule logs_are_memberships [OF laws trace nc ok])
  show "slots_of (wo_chain w) i = None \<longleftrightarrow> L i = []" using log [of i] by (simp add: org_log_def)
  show "os_org_pub_key st = key i \<and> unat (os_epoch st) = length (L i)" if st: "slots_of (wo_chain w) i = Some st"
  proof -
    have "L i \<noteq> []" using log [of i] st by (auto simp: org_log_def)
    from org_log_entry [OF log last_in_set [OF this]] show ?thesis using st by (metis option.inject)
  qed
  show "keyed r (key i) \<and> (\<exists>j<length (L i). unat (or_epoch r) = Suc j \<and> snapshot t = memberships (L i) ! j)"
    if r: "find_org i (svc_data (wo_node w k)) = Inr r" and t: "trie_from_snapshots S (or_trie_members r) = Inr t"
  proof -
    obtain e where e: "e \<in> set (L i)" "anchored S r (fst e)" "keyed r (key i)" by (rule recordedD [OF rec r])
    obtain j where j: "j < length (L i)" "L i ! j = e" "unat (os_epoch (fst e)) = Suc j"
      by (rule org_log_entry [OF log e(1)]) (rule that)
    have "root_hash t = Inr (smt_root (svc_H S) (ot_root (snd e)))"
      using e(2) t ok [OF e(1)] by (simp add: anchored_def entry_ok_def)
    moreover note inv = log_trace_entries [OF laws trace e(1)]
    ultimately have "snapshot t = snapshot (snd e) \<or> change_collides (svc_H S) t (snd e)"
      using rebuilt_same_members [OF laws t] by blast
    moreover have "t \<in> run_tries S tr" using node_tries [OF run, of k] r t by (auto simp: rebuilt_tries_def)
    ultimately have "snapshot t = snapshot (snd e)" using nc inv run_collidesI by blast
    then show ?thesis using e(2,3) j by (auto simp: anchored_def)
  qed
qed

text \<open>Where the members of a log come from.\<close>

definition admitted_by :: "('c, 'n) ServiceEnv \<Rightarrow> bytes32 \<Rightarrow> OrgId \<Rightarrow> MemberLeaf \<Rightarrow> Story \<times> ('c, 'n) OrgService \<Rightarrow> bool" where
  "admitted_by S key i m e \<longleftrightarrow>
     (\<exists>pid p. fst e = TellFound pid \<and> find_persona pid (svc_data (snd e)) = Inr p
        \<and> persona_member_vk (ne_ed (se_node S)) p = key
        \<and> leaf_from_snapshot S (founder_snapshot (ne_ed (se_node S)) p) = Inr m)
     \<or> (\<exists>jr addr sec. fst e = TellAdmit i jr addr sec \<and> holds_key S (svc_data (snd e)) key
        \<and> leaf_from_snapshot S (joiner_snapshot jr) = Inr m)"

lemma founds_with_admitted:
  assumes "founds_with S a (svc_data s) key M" and "M x = Some m"
  shows "admitted_by S key i m (a, s)"
  using assms by (cases a) (auto simp: admitted_by_def split: if_splits)

lemma changes_to_admitted:
  assumes "changes_to S a i M N" and "holds_key S (svc_data s) key" and "N x = Some m"
  shows "M x = Some m \<or> admitted_by S key i m (a, s)"
  using assms by (cases a) (auto simp: admitted_by_def split: if_splits)

lemma logged_members_admitted:
  assumes "member_log S key tr log" and "M \<in> set (log i)" and "M x = Some m"
  shows "\<exists>e\<in>set tr. admitted_by S (key i) i m e"
  using assms
proof (induction arbitrary: i M x m rule: member_log.induct)
  case (found tr log j a s N)
  show ?case
  proof (cases "i = j")
    case True
    then show ?thesis using founds_with_admitted [OF found.hyps(3)] found.prems by auto
  qed (use found.IH [of M i x m] found.prems in auto)
next
  case (change tr log j a N s)
  show ?case
  proof (cases "i = j \<and> M = N")
    case True
    then have "last (log j) x = Some m \<or> admitted_by S (key j) j m (a, s)"
      using changes_to_admitted [OF change.hyps(3,4)] change.prems by blast
    then show ?thesis using change.IH [of "last (log j)" j x m] change.hyps(2) True by auto
  next
    case False
    then have "M \<in> set (log i)" using change.prems(1) by (auto split: if_splits)
    then show ?thesis using change.IH [of M i x m] change.prems(2) by auto
  qed
qed fastforce+

context founding_ledger
begin

lemma reachable_agreement:
  assumes laws: "nfc_laws (svc_U S)" "keys_valid S" and ops: "se_chain S = ops"
    and run: "world_run S slots_of tr w" and n: "length tr < 2 ^ 64"
    and r: "find_org i (svc_data (wo_node w j)) = Inr r" and q: "find_org i (svc_data (wo_node w k)) = Inr q"
  shows "or_org_pub_key r = or_org_pub_key q
    \<and> (or_epoch r = or_epoch q \<longrightarrow> or_root_hash r = or_root_hash q
        \<and> (\<forall>t u. trie_from_snapshots S (or_trie_members r) = Inr t \<longrightarrow> trie_from_snapshots S (or_trie_members q) = Inr u
            \<longrightarrow> snapshot t = snapshot u \<or> change_collides (svc_H S) t u))
    \<and> (\<exists>st. slots_of (wo_chain w) i = Some st \<and> or_org_pub_key r = os_org_pub_key st \<and> or_epoch r \<le> os_epoch st
        \<and> (or_epoch r = os_epoch st \<longrightarrow> RootHash (or_root_hash r) = os_root_hash st))"
  using world_simulated [OF laws ops run n] simulated_records [OF laws(1) _ r q] by blast

lemma reachable_log:
  assumes laws: "nfc_laws (svc_U S)" "keys_valid S" and ops: "se_chain S = ops"
    and run: "world_run S slots_of tr w" and n: "length tr < 2 ^ 64" and nc: "\<not> run_collides S tr"
  obtains key log where "member_log S key tr log" and "\<And>i. slots_of (wo_chain w) i = None \<longleftrightarrow> log i = []"
    and "\<And>i st. slots_of (wo_chain w) i = Some st \<Longrightarrow> os_org_pub_key st = key i \<and> unat (os_epoch st) = length (log i)"
    and "\<And>k i r t. find_org i (svc_data (wo_node w k)) = Inr r \<Longrightarrow> trie_from_snapshots S (or_trie_members r) = Inr t \<Longrightarrow>
      keyed r (key i) \<and> (\<exists>j<length (log i). unat (or_epoch r) = Suc j \<and> snapshot t = log i ! j)"
proof -
  obtain key L where "simulates S slots_of key L tr w" using world_simulated [OF laws ops run n] by blast
  note sim = simulated_memberships [OF laws(1) run this nc]
  show ?thesis by (rule that [OF sim(1)]) (use sim(2-4) in auto)
qed

end

section \<open>Theorems\<close>

text \<open>
  C6 (the nodes agree). In every world that nodes reach from an empty chain and stores without
  organisations in fewer than 2^64 stories, told in any order, with any outcome and over a network that
  may deliver anything, with restarts from any store left behind, the records of an organisation have one
  key; two records at the same epoch have the same root and, when their stored members rebuild, the same
  members, unless hashing the two exhibits a collision; and a record is never ahead of the chain, and is
  at the chain's root if at its epoch.
\<close>

theorem nodes_agree:
  assumes "nfc_laws (svc_U S)" and "keys_valid S" and "se_chain S = mock_chain_ops"
    and "world_run S mc_slots tr w" and "length tr < 2 ^ 64"
    and "find_org i (svc_data (wo_node w j)) = Inr r" and "find_org i (svc_data (wo_node w k)) = Inr q"
  shows "or_org_pub_key r = or_org_pub_key q
    \<and> (or_epoch r = or_epoch q \<longrightarrow> or_root_hash r = or_root_hash q
        \<and> (\<forall>t u. trie_from_snapshots S (or_trie_members r) = Inr t \<longrightarrow> trie_from_snapshots S (or_trie_members q) = Inr u
            \<longrightarrow> snapshot t = snapshot u \<or> change_collides (svc_H S) t u))
    \<and> (\<exists>st. mc_slots (wo_chain w) i = Some st \<and> or_org_pub_key r = os_org_pub_key st \<and> or_epoch r \<le> os_epoch st
        \<and> (or_epoch r = os_epoch st \<longrightarrow> RootHash (or_root_hash r) = os_root_hash st))"
  using assms by (rule mock_founding.reachable_agreement)

text \<open>
  C3 (the world refines a log of memberships). Every world that nodes run from an empty chain and stores
  without organisations, in fewer than 2^64 stories of any order and outcome over an arbitrary network,
  with restarts from any store left behind, has, unless its tries exhibit a collision, a log per
  organisation. Only a founding starts a log; only an admission or a revocation told by a holder of the
  organisation's key extends it, by exactly the member it admits or revokes. The chain is at the end of
  the log, and a record at an epoch holds the membership of that epoch.
\<close>

theorem world_refines_log:
  assumes "nfc_laws (svc_U S)" and "keys_valid S" and "se_chain S = mock_chain_ops"
    and "world_run S mc_slots tr w" and "length tr < 2 ^ 64"
  shows "run_collides S tr \<or> (\<exists>key log. member_log S key tr log
    \<and> (\<forall>i. mc_slots (wo_chain w) i = None \<longleftrightarrow> log i = [])
    \<and> (\<forall>i st. mc_slots (wo_chain w) i = Some st \<longrightarrow> os_org_pub_key st = key i \<and> unat (os_epoch st) = length (log i))
    \<and> (\<forall>k i r t. find_org i (svc_data (wo_node w k)) = Inr r \<longrightarrow> trie_from_snapshots S (or_trie_members r) = Inr t \<longrightarrow>
        (\<exists>j<length (log i). unat (or_epoch r) = Suc j \<and> snapshot t = log i ! j)))"
proof (cases "run_collides S tr")
  case False
  show ?thesis
    by (rule mock_founding.reachable_log [OF assms False]) blast
qed simp

text \<open>
  C5 (every member was admitted). In every world that nodes run from an empty chain and stores without
  organisations, in fewer than 2^64 stories, a member that a record of an organisation holds is the
  founder, as its persona was when it founded an organisation under that key, or was admitted to the
  organisation, with exactly the data of its join request, by a node that held the key; unless the tries
  of the run exhibit a collision.
\<close>

theorem members_were_admitted:
  assumes "nfc_laws (svc_U S)" and "keys_valid S" and "se_chain S = mock_chain_ops"
    and "world_run S mc_slots tr w" and "length tr < 2 ^ 64"
    and "find_org i (svc_data (wo_node w k)) = Inr r" and "trie_from_snapshots S (or_trie_members r) = Inr t"
    and "m \<in> set (trie_members t)"
  shows "run_collides S tr \<or> (\<exists>e\<in>set tr. admitted_by S (or_org_pub_key r) i m e)"
proof (cases "run_collides S tr")
  case False
  obtain key log where log: "member_log S key tr log"
    and rec: "keyed r (key i) \<and> (\<exists>j<length (log i). unat (or_epoch r) = Suc j \<and> snapshot t = log i ! j)"
    by (rule mock_founding.reachable_log [OF assms(1-5) False]) (use that assms(6,7) in blast)
  have "smt_wf (svc_H S) (ot_root t)" using trie_invD(6) [OF rebuilt_trie(1) [OF assms(1,7)]] .
  then have "snapshot t (ml_id m) = Some m"
    using collect_members_get assms(8) by (simp add: trie_members_def)
  moreover have "snapshot t \<in> set (log i)" and key: "or_org_pub_key r = key i" using rec by (auto simp: keyed_def)
  ultimately show ?thesis using logged_members_admitted [OF log, of "snapshot t" i "ml_id m" m] by simp
qed simp

section \<open>A concrete world\<close>

text \<open>Every node has one persona and no organisation; the first one founds an organisation.\<close>

definition ex_world :: "(MockChainInner, bytes list) World" where
  "ex_world = \<lparr>wo_chain = mock_chain_ops_new, wo_node = (\<lambda>_. ex_service
     (store_data_default\<lparr>sd_personas := [ex_persona 1 (rstr ''a'')]\<rparr>) mock_chain_ops_new [])\<rparr>"

abbreviation ex_world_env :: "(MockChainInner, bytes list) ServiceEnv" where
  "ex_world_env \<equiv> ex_env True (any_codec dw0) [] mw0"

definition ex_founded :: "(MockChainInner, bytes list) World" where
  "ex_founded = world_step ex_world_env 0 [] (TellFound (hex_id 1)) ex_world"

abbreviation ex_trace :: "(MockChainInner, bytes list) Trace" where
  "ex_trace \<equiv> [(TellFound (hex_id 1), begins 0 [] ex_world)]"

lemma ex_world_laws: "nfc_laws (svc_U ex_world_env)" "keys_valid ex_world_env" "se_chain ex_world_env = mock_chain_ops"
  by (simp_all add: ex_nfc_laws ex_keys_valid)

lemma ex_world_run: "world_run ex_world_env mc_slots ex_trace ex_founded"
proof -
  have "world_run ex_world_env mc_slots ([] @ ex_trace) ex_founded"
    unfolding ex_founded_def
    by (rule world_run.told [OF world_run.start])
      (simp_all add: ex_world_def keeps_slots_def mock_chain_ops_new_def ex_service_def service_new_def store_data_default_def)
  then show ?thesis by simp
qed

lemma ex_founded_record:
  obtains i r t m where "find_org i (svc_data (wo_node ex_founded 0)) = Inr r" and "or_epoch r = 1"
    and "trie_from_snapshots ex_world_env (or_trie_members r) = Inr t" and "trie_members t = [m]"
proof -
  let ?s = "ex_service (store_data_default\<lparr>sd_personas := [ex_persona 1 (rstr ''a'')]\<rparr>) mock_chain_ops_new []"
  obtain i s' where run: "create_organisation ex_world_env (hex_id 1) ?s = (Inr i, s')"
    using ex_founding by blast
  have "begins 0 [] ex_world = ?s"
    by (simp add: begins_def ex_world_def ex_service_def service_new_def)
  then have w: "wo_node ex_founded 0 = s'" by (simp add: ex_founded_def world_step_simps run)
  have sync: "in_sync ex_world_env mc_slots i s' \<and> (\<exists>st. mc_slots (sv_chain s') i = Some st \<and> os_epoch st = 1)
    \<and> (\<exists>p r t m. find_persona (hex_id 1) (svc_data ?s) = Inr p
        \<and> find_persona (hex_id 1) (svc_data s') = Inr (p\<lparr>pr_status := Active, pr_org_id := Some i\<rparr>)
        \<and> find_org i (svc_data s') = Inr r \<and> trie_from_snapshots ex_world_env (or_trie_members r) = Inr t
        \<and> trie_members t = [m] \<and> vk_word (member_verifying_key (ml_p2p_key m)) = or_org_pub_key r
        \<and> slots (ml_p2p_devices m) = [persona_device (ne_ed (se_node ex_world_env)) p])"
    by (rule mock.create_organisation_sync [OF ex_world_laws run])
      (simp add: is_first_admission_def ex_service_def service_new_def store_data_default_def)
  then obtain r t m where r: "find_org i (svc_data s') = Inr r" "trie_from_snapshots ex_world_env (or_trie_members r) = Inr t"
    "trie_members t = [m]" by blast
  moreover have "or_epoch r = 1" using sync r(1) by (auto simp: in_sync_def)
  ultimately show ?thesis using that w by simp
qed

text \<open>A second node starts from a copy of the store of the first.\<close>

definition ex_two :: "(MockChainInner, bytes list) World" where
  "ex_two = ex_founded\<lparr>wo_node := (wo_node ex_founded)(1 := service_new (sv_store (wo_node ex_founded 0)) ex_disk
     (wo_chain ex_founded) [] (\<lambda>_. 0))\<rparr>"

lemma ex_two_run: "world_run ex_world_env mc_slots ex_trace ex_two"
proof -
  have "svc_data (wo_node ex_founded 0) \<in> left_stores ex_world_env ex_trace"
    by (auto simp: left_stores_def ex_founded_def world_step_simps)
  then show ?thesis unfolding ex_two_def by (intro world_run.reopened [OF ex_world_run]) simp
qed

lemma ex_two_nodes:
  "svc_data (wo_node ex_two 0) = svc_data (wo_node ex_founded 0)" "svc_data (wo_node ex_two (Suc 0)) = svc_data (wo_node ex_founded 0)"
  "wo_chain ex_two = wo_chain ex_founded"
  by (simp_all add: ex_two_def service_new_def)

theorem nodes_agree_witness:
  "\<exists>i r q st. find_org i (svc_data (wo_node ex_two 0)) = Inr r \<and> find_org i (svc_data (wo_node ex_two 1)) = Inr q
    \<and> or_org_pub_key r = or_org_pub_key q
    \<and> mc_slots (wo_chain ex_two) i = Some st \<and> or_org_pub_key r = os_org_pub_key st \<and> or_epoch r \<le> os_epoch st"
proof -
  obtain i r t m where "find_org i (svc_data (wo_node ex_founded 0)) = Inr r" by (rule ex_founded_record)
  then have r: "find_org i (svc_data (wo_node ex_two 0)) = Inr r" "find_org i (svc_data (wo_node ex_two 1)) = Inr r"
    by (simp_all add: ex_two_nodes)
  have "length ex_trace < 2 ^ 64" by simp
  from nodes_agree [OF ex_world_laws ex_two_run this r] r show ?thesis by blast
qed

theorem world_refines_log_witness:
  "run_collides ex_world_env ex_trace \<or> (\<exists>key log. member_log ex_world_env key ex_trace log
    \<and> (\<forall>i. mc_slots (wo_chain ex_founded) i = None \<longleftrightarrow> log i = []))"
proof -
  have "length ex_trace < 2 ^ 64" by simp
  from world_refines_log [OF ex_world_laws ex_world_run this] show ?thesis by blast
qed

theorem members_were_admitted_witness:
  "\<exists>i r t m. find_org i (svc_data (wo_node ex_founded 0)) = Inr r
    \<and> trie_from_snapshots ex_world_env (or_trie_members r) = Inr t \<and> m \<in> set (trie_members t)
    \<and> (run_collides ex_world_env ex_trace \<or> (\<exists>e\<in>set ex_trace. admitted_by ex_world_env (or_org_pub_key r) i m e))"
proof -
  obtain i r t m where r: "find_org i (svc_data (wo_node ex_founded 0)) = Inr r"
    "trie_from_snapshots ex_world_env (or_trie_members r) = Inr t" "trie_members t = [m]"
    by (rule ex_founded_record)
  have "length ex_trace < 2 ^ 64" and m: "m \<in> set (trie_members t)" using r(3) by simp_all
  from members_were_admitted [OF ex_world_laws ex_world_run this(1) r(1,2) m] r(1,2) m show ?thesis by blast
qed

end
