(* ===== verification/Decode.thy ===== *)
theory Decode
  imports Prelude
begin

text \<open>
  The types and the decoders of \<^verbatim>\<open>on-chain-client\<close> (\<^verbatim>\<open>types.rs\<close>, \<^verbatim>\<open>state.rs\<close>, \<^verbatim>\<open>h160.rs\<close>,
  \<^verbatim>\<open>decode/\<close>): the 96-byte blob of an organisation's three storage slots, and the payload of a
  \<^verbatim>\<open>ContractEmitted\<close> event.

  SCALE and Keccak-256 are third-party: \<open>ScaleDecode\<close> holds the three decodings the source asks for,
  each returning the rest of the input, and \<open>h160_of\<close> takes the hash as an argument.
  \<open>scale_event_correct\<close> states what is documented of the codec for one event payload. An error
  carries the text of the source's message.
\<close>

section \<open>Types\<close>

datatype OrgAdmin = OrgAdmin (org_admin_word: bytes20)
datatype OnChainRootHash = OnChainRootHash (on_chain_root_word: bytes32)
datatype OrgPubKey = OrgPubKey (org_pub_key_word: bytes32)
datatype Epoch = Epoch (epoch_word: u64)
datatype BlockHash = BlockHash (block_hash_word: bytes32)

record BlockRef =
  br_hash :: BlockHash
  br_number :: u64

record ChainOrgState =
  cs_root_hash :: OnChainRootHash
  cs_org_pub_key :: OrgPubKey
  cs_epoch :: Epoch

datatype Event =
    Genesis OrgAdmin OnChainRootHash OrgPubKey
  | Update OrgAdmin Epoch OnChainRootHash OrgPubKey OnChainRootHash

datatype SubscribedEvent =
    BestBlockEvent Event BlockRef
  | Reorged BlockRef
  | FinalisedEvent Event BlockRef

text \<open>The account of an organisation's proxy as the address the contract sees.\<close>

definition EVM_FALLBACK_MARK :: u8 where
  "EVM_FALLBACK_MARK = 0xEE"

definition h160_of :: "(bytes \<Rightarrow> bytes32) \<Rightarrow> bytes32 \<Rightarrow> bytes20" where
  "h160_of keccak account_id_32 =
     (let account = be_bytes 32 account_id_32 in
      if list_all (\<lambda>b. b = EVM_FALLBACK_MARK) (drop 20 account) then of_be (take 20 account)
      else of_be (drop 12 (be_bytes 32 (keccak account))))"

section \<open>Errors\<close>

datatype DecodeError =
    DecUnsupportedRuntime u32
  | StorageLengthMismatch nat nat
  | EpochOverflow
  | ScaleError string
  | InvalidTopicCount string nat nat
  | InvalidDataLength string nat nat
  | InvalidAddressTopic

fun decode_error_display :: "DecodeError \<Rightarrow> string" where
  "decode_error_display (DecUnsupportedRuntime v) = ''no decoder for runtime spec_version '' @ show_nat (unat v)"
| "decode_error_display (StorageLengthMismatch expected actual) =
     ''storage blob length '' @ show_nat actual @ '' != expected '' @ show_nat expected"
| "decode_error_display EpochOverflow = ''epoch slot exceeds u64::MAX''"
| "decode_error_display (ScaleError msg) = ''scale decode error: '' @ msg"
| "decode_error_display (InvalidTopicCount event expected actual) =
     event @ '' event had '' @ show_nat actual @ '' topics, expected '' @ show_nat expected"
| "decode_error_display (InvalidDataLength event expected actual) =
     event @ '' event data was '' @ show_nat actual @ '' bytes, expected '' @ show_nat expected"
| "decode_error_display InvalidAddressTopic = ''address topic had non-zero padding bytes''"

section \<open>Storage\<close>

definition decode_uint256_to_u64 :: "bytes \<Rightarrow> DecodeError + u64" where
  "decode_uint256_to_u64 bs =
     (if list_ex (\<lambda>b. b \<noteq> 0) (take 24 bs) then Inl EpochOverflow
      else Inr (of_be (take 8 (drop 24 bs))))"

definition decode_org_state :: "bytes \<Rightarrow> DecodeError + ChainOrgState" where
  "decode_org_state bs =
     (if length bs \<noteq> 96 then Inl (StorageLengthMismatch 96 (length bs))
      else
        let root_hash = of_be (take 32 bs); org_pub_key = of_be (take 32 (drop 32 bs)) in
        and_then (decode_uint256_to_u64 (take 32 (drop 64 bs))) (\<lambda>epoch.
        Inr \<lparr>cs_root_hash = OnChainRootHash root_hash, cs_org_pub_key = OrgPubKey org_pub_key,
             cs_epoch = Epoch epoch\<rparr>))"

section \<open>Events\<close>

record ScaleDecode =
  sc_h160 :: "bytes \<Rightarrow> string + bytes20 \<times> bytes"
  sc_bytes :: "bytes \<Rightarrow> string + bytes \<times> bytes"
  sc_topics :: "bytes \<Rightarrow> string + bytes32 list \<times> bytes"

definition SIG_GENESIS_INITIALIZED :: bytes32 where
  "SIG_GENESIS_INITIALIZED = 0x8e65bf095440397e54613932b754917e4522ddb08a8e638bcb8dee69fe685b6d"

definition SIG_ROOT_UPDATED :: bytes32 where
  "SIG_ROOT_UPDATED = 0x247988cb0665746bde9be0b7068f5d0496e8e75d1a4b2692b198f67789ee5b6e"

definition unpack_address_topic :: "bytes32 \<Rightarrow> DecodeError + bytes20" where
  "unpack_address_topic topic =
     (if list_ex (\<lambda>b. b \<noteq> 0) (take 12 (be_bytes 32 topic)) then Inl InvalidAddressTopic
      else Inr (of_be (drop 12 (be_bytes 32 topic))))"

definition parse_genesis :: "bytes \<Rightarrow> bytes32 list \<Rightarrow> DecodeError + Event" where
  "parse_genesis data topics =
     (if length topics \<noteq> 2 then Inl (InvalidTopicCount ''GenesisInitialized'' 2 (length topics))
      else if length data \<noteq> 64 then Inl (InvalidDataLength ''GenesisInitialized'' 64 (length data))
      else
        and_then (unpack_address_topic (topics ! 1)) (\<lambda>admin.
        let root_hash = of_be (take 32 data); org_pub_key = of_be (take 32 (drop 32 data)) in
        Inr (Genesis (OrgAdmin admin) (OnChainRootHash root_hash) (OrgPubKey org_pub_key))))"

definition parse_root_updated :: "bytes \<Rightarrow> bytes32 list \<Rightarrow> DecodeError + Event" where
  "parse_root_updated data topics =
     (if length topics \<noteq> 3 then Inl (InvalidTopicCount ''RootUpdated'' 3 (length topics))
      else if length data \<noteq> 96 then Inl (InvalidDataLength ''RootUpdated'' 96 (length data))
      else
        and_then (unpack_address_topic (topics ! 1)) (\<lambda>admin.
        and_then (decode_uint256_to_u64 (be_bytes 32 (topics ! 2))) (\<lambda>epoch.
        let root_hash = of_be (take 32 data); org_pub_key = of_be (take 32 (drop 32 data));
            prev_root_hash = of_be (take 32 (drop 64 data)) in
        Inr (Update (OrgAdmin admin) (Epoch epoch) (OnChainRootHash root_hash)
               (OrgPubKey org_pub_key) (OnChainRootHash prev_root_hash)))))"

definition parse_revive_event :: "ScaleDecode \<Rightarrow> bytes \<Rightarrow> DecodeError + Event option" where
  "parse_revive_event C bs =
     and_then (map_err (\<lambda>e. ScaleError (''contract: '' @ e)) (sc_h160 C bs)) (\<lambda>(contract, bs).
     and_then (map_err (\<lambda>e. ScaleError (''data: '' @ e)) (sc_bytes C bs)) (\<lambda>(data, bs).
     and_then (map_err (\<lambda>e. ScaleError (''topics: '' @ e)) (sc_topics C bs)) (\<lambda>(topics, bs).
     if bs \<noteq> [] then
       Inl (ScaleError (''trailing '' @ show_nat (length bs) @ '' bytes after ContractEmitted payload''))
     else
       (case topics of
          [] \<Rightarrow> Inr None
        | sig # _ \<Rightarrow>
            if sig = SIG_GENESIS_INITIALIZED then and_then (parse_genesis data topics) (\<lambda>e. Inr (Some e))
            else if sig = SIG_ROOT_UPDATED then and_then (parse_root_updated data topics) (\<lambda>e. Inr (Some e))
            else Inr None))))"

section \<open>Dispatch\<close>

record Decoder =
  dec_org_state :: "bytes \<Rightarrow> DecodeError + ChainOrgState"
  dec_revive_event :: "bytes \<Rightarrow> DecodeError + Event option"

definition SPEC_VERSION :: u32 where
  "SPEC_VERSION = 2002002"

definition paseo_decoder :: "ScaleDecode \<Rightarrow> Decoder" where
  "paseo_decoder C = \<lparr>dec_org_state = decode_org_state, dec_revive_event = parse_revive_event C\<rparr>"

definition for_runtime :: "ScaleDecode \<Rightarrow> u32 \<Rightarrow> DecodeError + Decoder" where
  "for_runtime C spec_version =
     (if spec_version = SPEC_VERSION then Inr (paseo_decoder C)
      else Inl (DecUnsupportedRuntime spec_version))"

section \<open>Words and their bytes\<close>

text \<open>Zero-extension of an array on the left, and the check the decoders make for it.\<close>

lemma be_bytes_ucast:
  assumes "LENGTH('a::len) = 8 * k" and "LENGTH('b::len) = 8 * (n + k)"
  shows "be_bytes (n + k) (ucast (w :: 'a word) :: 'b word) = replicate n 0 @ be_bytes k w"
proof (rule nth_equalityI)
  fix i
  assume "i < length (be_bytes (n + k) (ucast w :: 'b word))"
  then have i: "i < n + k" by simp
  have "\<not> bit w j" if "8 * k \<le> j" for j using that assms(1) bit_imp_le_length [of w j] by auto
  moreover have "j < 8 \<Longrightarrow> 8 * (n + k - 1 - i) + j < 8 * (n + k)" for j using i by auto
  ultimately show "be_bytes (n + k) (ucast w :: 'b word) ! i = (replicate n 0 @ be_bytes k w) ! i"
    using i assms
    by (auto simp: be_bytes_def nth_append bit_simps algebra_simps intro!: bit_word_eqI)
qed (use assms in simp)

lemma of_be_append_zeros: "of_be (replicate n 0 @ bs) = (of_be bs :: 'a::len word)"
proof -
  have "of_le (cs @ replicate n 0) = (of_le cs :: 'a word)" for cs
    by (rule bit_word_eqI) (auto simp: bit_of_le nth_append)
  then show ?thesis by (simp add: of_be_def)
qed

lemma zeros_iff: "\<not> list_ex (\<lambda>b. b \<noteq> 0) (xs :: bytes) \<longleftrightarrow> xs = replicate (length xs) 0"
  by (induction xs) auto

lemma split_zeros:
  assumes "length bs = n + k"
  shows "\<not> list_ex (\<lambda>b. b \<noteq> 0) (take n bs) \<longleftrightarrow> bs = replicate n 0 @ drop n (bs :: bytes)"
proof -
  have "length (take n bs) = n" using assms by simp
  then show ?thesis unfolding zeros_iff
    by (metis append_eq_append_conv append_take_drop_id length_replicate)
qed

lemma padded_word:
  fixes w :: "'b::len word"
  assumes "LENGTH('a::len) = 8 * k" and "LENGTH('b) = 8 * (n + k)"
  shows "\<not> list_ex (\<lambda>b. b \<noteq> 0) (take n (be_bytes (n + k) w))
     \<longleftrightarrow> w = ucast (of_be (drop n (be_bytes (n + k) w)) :: 'a word)"
proof -
  let ?v = "of_be (drop n (be_bytes (n + k) w)) :: 'a word"
  have "be_bytes k ?v = drop n (be_bytes (n + k) w)"
    using be_bytes_of_be [of "drop n (be_bytes (n + k) w)", where 'a = 'a] assms(1) by simp
  then have "be_bytes (n + k) (ucast ?v :: 'b word) = replicate n 0 @ drop n (be_bytes (n + k) w)"
    using be_bytes_ucast [OF assms] by simp
  then show ?thesis
    using split_zeros [of "be_bytes (n + k) w" n k] be_bytes_inject [of "n + k" w "ucast ?v"] assms(2)
    by auto
qed

lemma of_be_drop_be_bytes:
  fixes w :: "'b::len word"
  assumes "LENGTH('a::len) = 8 * k" and "LENGTH('b) = 8 * (n + k)"
  shows "(of_be (drop n (be_bytes (n + k) w)) :: 'a word) = ucast w"
proof -
  have "rev (drop n (be_bytes (n + k) w)) = take k (le_bytes (n + k) w)"
    by (simp add: rev_drop rev_be_bytes)
  also have "\<dots> = le_bytes k w"
    by (rule nth_equalityI) (auto simp: le_bytes_def)
  finally have "of_be (drop n (be_bytes (n + k) w)) = (of_le (le_bytes k w) :: 'a word)"
    by (simp add: of_be_def)
  also have "\<dots> = ucast w"
  proof (rule bit_word_eqI)
    fix j
    assume j: "j < LENGTH('a)"
    then have "j div 8 < k" using assms(1) by auto
    then show "bit (of_le (le_bytes k w) :: 'a word) j = bit (ucast w :: 'a word) j"
      using j by (simp add: bit_of_le le_bytes_def bit_simps)
  qed
  finally show ?thesis .
qed

lemma take_all_be_bytes [simp]: "n \<le> m \<Longrightarrow> take m (be_bytes n w) = be_bytes n w"
  by simp

text \<open>The decoders on the words they decode.\<close>

lemma ucast_fixed_iff: "w = ucast (ucast w :: u64) \<longleftrightarrow> w < 2 ^ 64" for w :: "256 word"
proof -
  have "w = ucast (ucast w :: u64) \<longleftrightarrow> unat w = unat (ucast (ucast w :: u64) :: 256 word)"
    by (rule word_unat_eq_iff)
  also have "unat (ucast (ucast w :: u64) :: 256 word) = take_bit 64 (unat w)"
    by (simp add: unsigned_ucast_eq unsigned_take_bit_eq)
  also have "unat w = take_bit 64 (unat w) \<longleftrightarrow> unat w < 2 ^ 64"
    by (metis take_bit_nat_eq_self_iff)
  also have "\<dots> \<longleftrightarrow> w < 2 ^ 64" by (simp add: word_less_nat_alt)
  finally show ?thesis .
qed

lemma decode_uint256_word:
  "decode_uint256_to_u64 (be_bytes 32 (w :: 256 word)) = (if w < 2 ^ 64 then Inr (ucast w) else Inl EpochOverflow)"
proof -
  have "(of_be (drop 24 (be_bytes 32 w)) :: u64) = ucast w"
    using of_be_drop_be_bytes [of 8 24 w, where 'a = 64] by simp
  moreover have "\<not> list_ex (\<lambda>b. b \<noteq> 0) (take 24 (be_bytes 32 w)) \<longleftrightarrow> w = ucast (ucast w :: u64)"
    using padded_word [of 8 24 w, where 'a = 64] calculation by simp
  ultimately show ?thesis unfolding decode_uint256_to_u64_def ucast_fixed_iff by auto
qed

lemma unpack_address_topic_ok: "unpack_address_topic t = Inr a \<longleftrightarrow> t = ucast a"
proof -
  have a: "(of_be (drop 12 (be_bytes 32 t)) :: bytes20) = ucast t"
    using of_be_drop_be_bytes [of 20 12 t, where 'a = 160] by simp
  have "\<not> list_ex (\<lambda>b. b \<noteq> 0) (take 12 (be_bytes 32 t)) \<longleftrightarrow> t = ucast (ucast t :: bytes20)"
    using padded_word [of 20 12 t, where 'a = 160] a by simp
  moreover have "ucast (ucast a :: bytes32) = a"
    by (rule ucast_up_ucast_id) (simp add: is_up.rep_eq)
  ultimately show ?thesis
    by (auto simp: unpack_address_topic_def a)
qed

lemma decode_org_state_words:
  "decode_org_state (be_bytes 32 (r :: bytes32) @ be_bytes 32 (k :: bytes32) @ be_bytes 32 (w :: 256 word)) =
     (if w < 2 ^ 64
      then Inr \<lparr>cs_root_hash = OnChainRootHash r, cs_org_pub_key = OrgPubKey k, cs_epoch = Epoch (ucast w)\<rparr>
      else Inl EpochOverflow)"
  by (simp add: decode_org_state_def decode_uint256_word)

lemma h160_of_derived: "h160_of kc (of_be (be_bytes 20 a @ replicate 12 0xEE)) = a"
proof -
  have "be_bytes 32 (of_be (be_bytes 20 a @ replicate 12 0xEE) :: bytes32) = be_bytes 20 a @ replicate 12 0xEE"
    using be_bytes_of_be [of "be_bytes 20 a @ replicate 12 0xEE", where 'a = 256] by simp
  then show ?thesis
    by (simp add: h160_of_def EVM_FALLBACK_MARK_def Let_def list_all_iff)
qed

end
