(* ===== verification/Registry.thy ===== *)
theory Registry
  imports Decode
begin

text \<open>
  The contract \<^verbatim>\<open>OrgRegistry.sol\<close>: its state, its one transaction, the events it emits with their ABI
  encoding, and its storage. A \<^verbatim>\<open>uint256\<close> is a \<open>256 word\<close>; Solidity 0.8 arithmetic is checked, so an
  addition that overflows reverts. A transaction that reverts leaves the state as it was.

  The lemmas: the invariant of the reachable states, that an accepted update advances exactly one
  slot, and that the decoder of the client reads back exactly the events the contract emits.
\<close>

section \<open>The contract\<close>

record OrgSlot =
  rs_root_hash :: bytes32
  rs_org_pub_key :: bytes32
  rs_epoch :: "256 word"

type_synonym Orgs = "bytes20 \<Rightarrow> OrgSlot"

datatype RegistryError =
    ZeroValue
  | EpochMismatch "256 word" "256 word"
  | NoOpUpdate
  | RegistryPanic

datatype RegistryEvent =
    GenesisInitialized bytes20 bytes32 bytes32
  | RootUpdated bytes20 "256 word" bytes32 bytes32 bytes32

definition orgs_init :: Orgs where
  "orgs_init = (\<lambda>_. \<lparr>rs_root_hash = 0, rs_org_pub_key = 0, rs_epoch = 0\<rparr>)"

definition registry_update ::
  "bytes20 \<Rightarrow> bytes32 \<Rightarrow> bytes32 \<Rightarrow> 256 word \<Rightarrow> Orgs \<Rightarrow> RegistryError + Orgs \<times> RegistryEvent" where
  "registry_update sender new_root new_key expected_epoch orgs =
     (if new_root = 0 \<or> new_key = 0 then Inl ZeroValue
      else
        let s = orgs sender in
        if expected_epoch \<noteq> rs_epoch s then Inl (EpochMismatch expected_epoch (rs_epoch s))
        else if rs_epoch s = 0 then
          Inr (orgs(sender := \<lparr>rs_root_hash = new_root, rs_org_pub_key = new_key, rs_epoch = 1\<rparr>),
               GenesisInitialized sender new_root new_key)
        else if new_root = rs_root_hash s \<and> new_key = rs_org_pub_key s then Inl NoOpUpdate
        else if rs_epoch s = - 1 then Inl RegistryPanic
        else
          Inr (orgs(sender := \<lparr>rs_root_hash = new_root, rs_org_pub_key = new_key, rs_epoch = rs_epoch s + 1\<rparr>),
               RootUpdated sender (rs_epoch s + 1) new_root new_key (rs_root_hash s)))"

text \<open>The states of a deployed contract.\<close>

inductive registry_reachable :: "Orgs \<Rightarrow> bool" where
  deployed: "registry_reachable orgs_init"
| updated: "registry_reachable orgs \<Longrightarrow> registry_update sender r k e orgs = Inr (orgs', ev)
    \<Longrightarrow> registry_reachable orgs'"

text \<open>
  The value of the \<open>i\<close>-th field of the struct, and what a reader of the storage finds there: a slot
  that holds zero is absent.
\<close>

definition org_field :: "OrgSlot \<Rightarrow> nat \<Rightarrow> bytes32" where
  "org_field s i = (if i = 0 then rs_root_hash s else if i = 1 then rs_org_pub_key s else rs_epoch s)"

definition stored_field :: "OrgSlot \<Rightarrow> nat \<Rightarrow> bytes option" where
  "stored_field s i = (if org_field s i = 0 then None else Some (be_bytes 32 (org_field s i)))"

text \<open>The ABI encoding of the events: the indexed fields are topics, the others data.\<close>

fun abi_topics :: "RegistryEvent \<Rightarrow> bytes32 list" where
  "abi_topics (GenesisInitialized a r k) = [SIG_GENESIS_INITIALIZED, ucast a]"
| "abi_topics (RootUpdated a e r k p) = [SIG_ROOT_UPDATED, ucast a, e]"

fun abi_data :: "RegistryEvent \<Rightarrow> bytes" where
  "abi_data (GenesisInitialized a r k) = be_bytes 32 r @ be_bytes 32 k"
| "abi_data (RootUpdated a e r k p) = be_bytes 32 r @ be_bytes 32 k @ be_bytes 32 p"

text \<open>The client's event for it, if the epoch fits the client's counter.\<close>

fun event_of :: "RegistryEvent \<Rightarrow> Event option" where
  "event_of (GenesisInitialized a r k) = Some (Genesis (OrgAdmin a) (OnChainRootHash r) (OrgPubKey k))"
| "event_of (RootUpdated a e r k p) =
     (if e < 2 ^ 64
      then Some (Update (OrgAdmin a) (Epoch (ucast e)) (OnChainRootHash r) (OrgPubKey k) (OnChainRootHash p))
      else None)"

section \<open>Its behaviour\<close>

inductive_cases registry_reachableE: "registry_reachable orgs"

lemma registry_update_ok:
  "registry_update a r k e orgs = Inr (orgs', ev) \<longleftrightarrow>
     r \<noteq> 0 \<and> k \<noteq> 0 \<and> e = rs_epoch (orgs a) \<and> e \<noteq> - 1
     \<and> (e \<noteq> 0 \<longrightarrow> r \<noteq> rs_root_hash (orgs a) \<or> k \<noteq> rs_org_pub_key (orgs a))
     \<and> orgs' = orgs(a := \<lparr>rs_root_hash = r, rs_org_pub_key = k, rs_epoch = e + 1\<rparr>)
     \<and> ev = (if e = 0 then GenesisInitialized a r k else RootUpdated a (e + 1) r k (rs_root_hash (orgs a)))"
  by (auto simp: registry_update_def Let_def)

text \<open>Either a slot was never written, or none of its fields is zero.\<close>

lemma registry_reachable_slots:
  "registry_reachable orgs \<Longrightarrow>
     orgs a = \<lparr>rs_root_hash = 0, rs_org_pub_key = 0, rs_epoch = 0\<rparr>
     \<or> rs_root_hash (orgs a) \<noteq> 0 \<and> rs_org_pub_key (orgs a) \<noteq> 0 \<and> rs_epoch (orgs a) \<noteq> 0"
proof (induction rule: registry_reachable.induct)
  case deployed
  then show ?case by (simp add: orgs_init_def)
next
  case (updated orgs sender r k e orgs' ev)
  have "e + 1 \<noteq> 0" if "e \<noteq> - 1"
    using that by (simp add: eq_neg_iff_add_eq_0)
  then show ?case using updated by (auto simp: registry_update_ok)
qed

lemma stored_fields:
  assumes "registry_reachable orgs"
  shows "rs_epoch (orgs a) = 0 \<Longrightarrow> stored_field (orgs a) i = None"
    and "rs_epoch (orgs a) \<noteq> 0 \<Longrightarrow> stored_field (orgs a) i = Some (be_bytes 32 (org_field (orgs a) i))"
  using registry_reachable_slots [OF assms, of a] by (auto simp: stored_field_def org_field_def)

section \<open>The client's decoder on its events\<close>

text \<open>What is documented of SCALE, for one payload: what is encoded is decoded, with nothing left.\<close>

definition scale_event_correct :: "ScaleDecode \<Rightarrow> bytes \<Rightarrow> bytes20 \<Rightarrow> bytes \<Rightarrow> bytes32 list \<Rightarrow> bool" where
  "scale_event_correct C payload contract data topics \<longleftrightarrow>
     (\<exists>rest1 rest2. sc_h160 C payload = Inr (contract, rest1) \<and> sc_bytes C rest1 = Inr (data, rest2)
        \<and> sc_topics C rest2 = Inr (topics, []))"

lemma parse_revive_event_payload:
  assumes "scale_event_correct C payload contract data topics"
  shows "parse_revive_event C payload =
     (case topics of
        [] \<Rightarrow> Inr None
      | sig # _ \<Rightarrow>
          if sig = SIG_GENESIS_INITIALIZED then and_then (parse_genesis data topics) (\<lambda>e. Inr (Some e))
          else if sig = SIG_ROOT_UPDATED then and_then (parse_root_updated data topics) (\<lambda>e. Inr (Some e))
          else Inr None)"
  using assms by (auto simp: parse_revive_event_def scale_event_correct_def split: list.splits)

lemma first_word: "32 \<le> length bs \<Longrightarrow> be_bytes 32 (of_be (take 32 bs) :: bytes32) @ drop 32 bs = bs"
  using be_bytes_of_be [of "take 32 bs", where 'a = 256] by simp

lemma data_words:
  "length bs = 64 \<Longrightarrow> be_bytes 32 (of_be (take 32 bs) :: bytes32)
     @ be_bytes 32 (of_be (take 32 (drop 32 bs)) :: bytes32) = bs"
  "length bs = 96 \<Longrightarrow> be_bytes 32 (of_be (take 32 bs) :: bytes32)
     @ be_bytes 32 (of_be (take 32 (drop 32 bs)) :: bytes32)
     @ be_bytes 32 (of_be (take 32 (drop 64 bs)) :: bytes32) = bs"
  using first_word [of bs] first_word [of "drop 32 bs"] first_word [of "drop 64 bs"] by simp_all

lemma parse_genesis_ok:
  "parse_genesis data topics = Inr e \<longleftrightarrow>
     (\<exists>s a r k. topics = [s, ucast (a :: bytes20)] \<and> data = be_bytes 32 (r :: bytes32) @ be_bytes 32 (k :: bytes32)
        \<and> e = Genesis (OrgAdmin a) (OnChainRootHash r) (OrgPubKey k))"
    (is "?L \<longleftrightarrow> ?R")
proof
  assume ?L
  then have len: "length topics = 2" "length data = 64"
    by (auto simp: parse_genesis_def split: if_splits)
  then obtain s t where ts: "topics = [s, t]" by (auto simp: length_Suc_conv numeral_2_eq_2)
  let ?r = "of_be (take 32 data)" and ?k = "of_be (take 32 (drop 32 data))"
  obtain a where "t = ucast (a :: bytes20)" and "e = Genesis (OrgAdmin a) (OnChainRootHash ?r) (OrgPubKey ?k)"
    using \<open>?L\<close> len by (auto simp: parse_genesis_def ts and_then_eq_Inr unpack_address_topic_ok Let_def)
  then show ?R using ts data_words(1) [OF len(2), symmetric]
    by (intro exI [of _ s] exI [of _ a] exI [of _ ?r] exI [of _ ?k] conjI) simp_all
qed (auto simp: parse_genesis_def unpack_address_topic_ok and_then_eq_Inr Let_def)

lemma parse_root_updated_ok:
  "parse_root_updated data topics = Inr e \<longleftrightarrow>
     (\<exists>s a n r k p. topics = [s, ucast (a :: bytes20), n] \<and> n < 2 ^ 64
        \<and> data = be_bytes 32 (r :: bytes32) @ be_bytes 32 (k :: bytes32) @ be_bytes 32 (p :: bytes32)
        \<and> e = Update (OrgAdmin a) (Epoch (ucast n)) (OnChainRootHash r) (OrgPubKey k) (OnChainRootHash p))"
    (is "?L \<longleftrightarrow> ?R")
proof
  assume ?L
  then have len: "length topics = 3" "length data = 96"
    by (auto simp: parse_root_updated_def split: if_splits)
  then obtain s t n where ts: "topics = [s, t, n]" by (auto simp: length_Suc_conv numeral_3_eq_3)
  let ?r = "of_be (take 32 data)" and ?k = "of_be (take 32 (drop 32 data))"
    and ?p = "of_be (take 32 (drop 64 data))"
  obtain a where "t = ucast (a :: bytes20)" and "n < 2 ^ 64"
      and "e = Update (OrgAdmin a) (Epoch (ucast n)) (OnChainRootHash ?r) (OrgPubKey ?k) (OnChainRootHash ?p)"
    using \<open>?L\<close> len
    by (auto simp: parse_root_updated_def ts and_then_eq_Inr unpack_address_topic_ok decode_uint256_word
        Let_def split: if_splits)
  then show ?R using ts data_words(2) [OF len(2), symmetric]
    by (intro exI [of _ s] exI [of _ a] exI [of _ n] exI [of _ ?r] exI [of _ ?k] exI [of _ ?p] conjI) simp_all
qed (auto simp: parse_root_updated_def unpack_address_topic_ok decode_uint256_word and_then_eq_Inr Let_def)

lemma signatures_differ: "SIG_GENESIS_INITIALIZED \<noteq> SIG_ROOT_UPDATED"
  by (simp add: SIG_GENESIS_INITIALIZED_def SIG_ROOT_UPDATED_def)

text \<open>The payloads that decode to an event are the encodings of that event of the contract.\<close>

lemma parse_revive_event_iff:
  assumes "scale_event_correct C payload contract data topics"
  shows "parse_revive_event C payload = Inr (Some e) \<longleftrightarrow>
     (\<exists>ev. topics = abi_topics ev \<and> data = abi_data ev \<and> event_of ev = Some e)"
    (is "_ \<longleftrightarrow> ?R")
proof
  assume "parse_revive_event C payload = Inr (Some e)"
  then obtain sig ts where ts: "topics = sig # ts"
      and p: "sig = SIG_GENESIS_INITIALIZED \<and> parse_genesis data topics = Inr e
        \<or> sig = SIG_ROOT_UPDATED \<and> parse_root_updated data topics = Inr e"
    using parse_revive_event_payload [OF assms]
    by (auto simp: and_then_eq_Inr split: list.splits if_splits)
  from p show ?R
  proof (elim disjE conjE)
    assume sig: "sig = SIG_GENESIS_INITIALIZED" and "parse_genesis data topics = Inr e"
    then obtain a r k where "topics = [sig, ucast (a :: bytes20)]"
        and "data = be_bytes 32 (r :: bytes32) @ be_bytes 32 (k :: bytes32)"
        and "e = Genesis (OrgAdmin a) (OnChainRootHash r) (OrgPubKey k)"
      using ts unfolding parse_genesis_ok by auto
    then show ?R using sig by (intro exI [of _ "GenesisInitialized a r k"]) simp
  next
    assume sig: "sig = SIG_ROOT_UPDATED" and "parse_root_updated data topics = Inr e"
    then obtain a n r k p where "topics = [sig, ucast (a :: bytes20), n]" and "n < 2 ^ 64"
        and "data = be_bytes 32 (r :: bytes32) @ be_bytes 32 (k :: bytes32) @ be_bytes 32 (p :: bytes32)"
        and "e = Update (OrgAdmin a) (Epoch (ucast n)) (OnChainRootHash r) (OrgPubKey k) (OnChainRootHash p)"
      using ts unfolding parse_root_updated_ok by auto
    then show ?R using sig by (intro exI [of _ "RootUpdated a n r k p"]) simp
  qed
next
  assume ?R
  then obtain ev where ev: "topics = abi_topics ev" "data = abi_data ev" "event_of ev = Some e" by blast
  show "parse_revive_event C payload = Inr (Some e)"
  proof (cases ev)
    case (GenesisInitialized a r k)
    then have "parse_genesis data topics = Inr e" using ev unfolding parse_genesis_ok by auto
    then show ?thesis using ev GenesisInitialized by (simp add: parse_revive_event_payload [OF assms])
  next
    case (RootUpdated a n r k p)
    then have "parse_root_updated data topics = Inr e"
      using ev unfolding parse_root_updated_ok by (auto split: if_splits)
    then show ?thesis using ev RootUpdated signatures_differ
      by (simp add: parse_revive_event_payload [OF assms])
  qed
qed

end
