(* ===== verification/ChainClient.thy ===== *)
theory ChainClient
  imports Registry Effects
begin

text \<open>
  \<^verbatim>\<open>OrgRegistryClient\<close> of \<^verbatim>\<open>on-chain-client\<close> (\<^verbatim>\<open>client.rs\<close>): reading an organisation's slot, and the
  subscription to its events.

  subxt is third-party: \<open>Subxt\<close> is the record of the calls the source makes of an \<^verbatim>\<open>OnlineClient\<close>, each
  an effect on the state \<open>'c\<close> of the connection and the chain behind it. \<open>Value\<close> has the constructors
  of the dynamic values that the source builds and matches, and one for all others. Keccak-256 is an
  argument.

  A stream is what it does with its next input: \<open>best_scan\<close> and \<open>best_items\<close> are the closures of the
  best lane, \<open>final_items\<close> the one of the finalised lane. \<open>watch_step\<close> is the merged stream, which
  takes the notifications as they come and yields from either lane's buffer, while the chain moves on.
\<close>

section \<open>subxt\<close>

datatype Value =
    CompositeValue Composite
  | VariantValue string Composite
  | U128 u128
  | OtherValue string
and Composite =
    Named "(string \<times> Value) list"
  | Unnamed "Value list"

record AtBlock =
  ab_hash :: bytes32
  ab_number :: u64
  ab_spec_version :: u32

record Head =
  hd_hash :: bytes32
  hd_number :: u64
  hd_parent_hash :: bytes32

record SubxtEvent =
  ev_pallet_name :: string
  ev_event_name :: string
  ev_field_bytes :: bytes
  ev_fields :: "string + Composite"

record 'c Subxt =
  sx_from_bytes :: "bytes \<Rightarrow> Value"
  sx_at_current_block :: "('c, string, AtBlock) effect"
  sx_at_hash :: "bytes32 \<Rightarrow> ('c, string, AtBlock) effect"
  sx_at_number :: "u64 \<Rightarrow> ('c, string, AtBlock) effect"
  sx_at_head :: "Head \<Rightarrow> ('c, string, AtBlock) effect"
  sx_runtime_call :: "AtBlock \<Rightarrow> string \<Rightarrow> string \<Rightarrow> Value list \<Rightarrow> ('c, string, string + bytes option) effect"
  sx_events :: "AtBlock \<Rightarrow> ('c, string, (string + SubxtEvent) list) effect"
  sx_stream_best_blocks :: "('c, string, unit) effect"
  sx_stream_blocks :: "('c, string, unit) effect"

datatype ClientError =
    ClientSubxt string
  | ClientUnsupportedRuntime u32
  | ClientDecode DecodeError

fun client_error_display :: "ClientError \<Rightarrow> string" where
  "client_error_display (ClientSubxt m) = ''subxt: '' @ m"
| "client_error_display (ClientUnsupportedRuntime v) = ''no decoder for runtime spec_version '' @ show_nat (unat v)"
| "client_error_display (ClientDecode e) = ''decode: '' @ decode_error_display e"

definition client_subxt :: "string \<Rightarrow> string \<Rightarrow> ClientError" where
  "client_subxt ctx e = ClientSubxt (ctx @ '': '' @ e)"

section \<open>The client\<close>

record OrgRegistryClient =
  rc_contract :: bytes20
  rc_decoder :: Decoder
  rc_spec_version :: u32

definition from_client ::
  "'c Subxt \<Rightarrow> ScaleDecode \<Rightarrow> bytes20 \<Rightarrow> ('c, ClientError, OrgRegistryClient) effect" where
  "from_client X C contract =
     eff_bind (eff_map_err (client_subxt ''at_current_block'') (sx_at_current_block X)) (\<lambda>at.
     let spec_version = ab_spec_version at in
     eff_bind (eff_lift (map_err (\<lambda>_. ClientUnsupportedRuntime spec_version) (for_runtime C spec_version))) (\<lambda>decoder.
     eff_return \<lparr>rc_contract = contract, rc_decoder = decoder, rc_spec_version = spec_version\<rparr>))"

definition spec_version :: "OrgRegistryClient \<Rightarrow> u32" where
  "spec_version R = rc_spec_version R"

definition solidity_mapping_slot :: "(bytes \<Rightarrow> bytes32) \<Rightarrow> OrgAdmin \<Rightarrow> u64 \<Rightarrow> bytes32" where
  "solidity_mapping_slot keccak admin map_slot =
     keccak (replicate 12 0 @ be_bytes 20 (org_admin_word admin) @ replicate 24 0 @ be_bytes 8 map_slot)"

text \<open>The bytes from the last to the first, with the carry; the loop stops when there is none.\<close>

fun increment_loop :: "bytes \<Rightarrow> u16 \<Rightarrow> bytes" where
  "increment_loop [] carry = []"
| "increment_loop (b # bs) carry =
     (let sum = ucast b + carry; b' = ucast sum; carry' = drop_bit 8 sum in
      if carry' = 0 then b' # bs else b' # increment_loop bs carry')"

definition increment_slot :: "bytes32 \<Rightarrow> u8 \<Rightarrow> bytes32" where
  "increment_slot slot offset = of_be (rev (increment_loop (rev (be_bytes 32 slot)) (ucast offset)))"

definition read_contract_slot ::
  "'c Subxt \<Rightarrow> OrgRegistryClient \<Rightarrow> bytes32 \<Rightarrow> AtBlock \<Rightarrow> ('c, ClientError, bytes option) effect" where
  "read_contract_slot X R slot at_block =
     eff_bind (eff_map_err (client_subxt ''ReviveApi::get_storage'')
       (sx_runtime_call X at_block ''ReviveApi'' ''get_storage''
          [sx_from_bytes X (be_bytes 20 (rc_contract R)), sx_from_bytes X (be_bytes 32 slot)])) (\<lambda>result.
     case result of
       Inr maybe_bytes \<Rightarrow> eff_return maybe_bytes
     | Inl access_error \<Rightarrow>
         eff_fail (client_subxt ''ContractAccessError from ReviveApi::get_storage'' access_error))"

text \<open>The three slots in order: the blob, or nothing once a slot is absent.\<close>

fun read_slots ::
  "'c Subxt \<Rightarrow> OrgRegistryClient \<Rightarrow> bytes32 \<Rightarrow> AtBlock \<Rightarrow> u8 list \<Rightarrow> bytes
     \<Rightarrow> ('c, ClientError, bytes option) effect" where
  "read_slots X R base_slot at_block [] blob = eff_return (Some blob)"
| "read_slots X R base_slot at_block (offset # offsets) blob =
     eff_bind (read_contract_slot X R (increment_slot base_slot offset) at_block) (\<lambda>r.
     case r of
       Some bs \<Rightarrow>
         if length bs = 32 then read_slots X R base_slot at_block offsets (blob @ bs)
         else eff_fail (ClientDecode (StorageLengthMismatch 32 (length bs)))
     | None \<Rightarrow> eff_return None)"

definition get_org_state ::
  "'c Subxt \<Rightarrow> (bytes \<Rightarrow> bytes32) \<Rightarrow> OrgRegistryClient \<Rightarrow> OrgAdmin \<Rightarrow> BlockHash option
     \<Rightarrow> ('c, ClientError, ChainOrgState option) effect" where
  "get_org_state X keccak R admin at =
     eff_bind
       (case at of
          Some h \<Rightarrow> eff_map_err (client_subxt ''at_block'') (sx_at_hash X (block_hash_word h))
        | None \<Rightarrow> eff_map_err (client_subxt ''at_current_block'') (sx_at_current_block X)) (\<lambda>at_block.
     eff_bind (read_slots X R (solidity_mapping_slot keccak admin 0) at_block [0, 1, 2] []) (\<lambda>r.
     case r of
       None \<Rightarrow> eff_return None
     | Some blob \<Rightarrow>
         eff_bind (eff_lift (map_err ClientDecode (dec_org_state (rc_decoder R) blob))) (\<lambda>state.
         eff_return (Some state))))"

section \<open>The lanes\<close>

type_synonym Items = "(ClientError + SubscribedEvent) list"

definition event_matches_contract :: "Event \<Rightarrow> bytes20 \<Rightarrow> bool" where
  "event_matches_contract ev contract = True"

fun event_admin :: "Event \<Rightarrow> OrgAdmin" where
  "event_admin (Genesis admin _ _) = admin"
| "event_admin (Update admin _ _ _ _) = admin"

definition event_matches_admin :: "Event \<Rightarrow> OrgAdmin \<Rightarrow> bool" where
  "event_matches_admin ev admin \<longleftrightarrow> event_admin ev = admin"

text \<open>One event of a block: nothing, the item, or the error item.\<close>

definition decode_contract_event ::
  "OrgRegistryClient \<Rightarrow> OrgAdmin option \<Rightarrow> (Event \<Rightarrow> SubscribedEvent) \<Rightarrow> string + SubxtEvent \<Rightarrow> Items" where
  "decode_contract_event R admin_filter wrap ev =
     (case ev of
        Inl e \<Rightarrow> [Inl (client_subxt ''event iter'' e)]
      | Inr ev \<Rightarrow>
          if ev_pallet_name ev \<noteq> ''Revive'' then []
          else if ev_event_name ev \<noteq> ''ContractEmitted'' then []
          else
            (case dec_revive_event (rc_decoder R) (ev_field_bytes ev) of
               Inl e \<Rightarrow> [Inl (ClientDecode e)]
             | Inr None \<Rightarrow> []
             | Inr (Some parsed) \<Rightarrow>
                 if \<not> event_matches_contract parsed (rc_contract R) then []
                 else if (case admin_filter of Some f \<Rightarrow> \<not> event_matches_admin parsed f | None \<Rightarrow> False) then []
                 else [Inr (wrap parsed)]))"

definition decode_contract_events ::
  "'c Subxt \<Rightarrow> OrgRegistryClient \<Rightarrow> OrgAdmin option \<Rightarrow> (Event \<Rightarrow> BlockRef \<Rightarrow> SubscribedEvent) \<Rightarrow> AtBlock
     \<Rightarrow> ('c, ClientError, Items) effect" where
  "decode_contract_events X R admin_filter wrap at_block =
     (let block_ref = \<lparr>br_hash = BlockHash (ab_hash at_block), br_number = ab_number at_block\<rparr> in
      eff_bind (eff_map_err (client_subxt ''events.fetch'') (sx_events X at_block)) (\<lambda>evs.
      eff_return (concat (map (decode_contract_event R admin_filter (\<lambda>e. wrap e block_ref)) evs))))"

definition events_in_best_block ::
  "'c Subxt \<Rightarrow> OrgRegistryClient \<Rightarrow> OrgAdmin option \<Rightarrow> u64 \<Rightarrow> ('c, ClientError, Items) effect" where
  "events_in_best_block X R admin_filter number =
     eff_bind (eff_map_err (client_subxt (''at_block('' @ show_nat (unat number) @ '')'')) (sx_at_number X number))
       (decode_contract_events X R admin_filter BestBlockEvent)"

datatype ScanStep =
    ScanSkip
  | ScanError string
  | ScanBlock "BlockRef option" u64 u64

definition best_scan :: "BlockRef option \<Rightarrow> string + Head \<Rightarrow> ScanStep \<times> BlockRef option" where
  "best_scan latest block_res =
     (case block_res of
        Inl e \<Rightarrow> (ScanError (''block: '' @ e), latest)
      | Inr block \<Rightarrow>
          let n = hd_number block; h = BlockHash (hd_hash block); p = BlockHash (hd_parent_hash block) in
          if (case latest of Some prev \<Rightarrow> br_hash prev = h | None \<Rightarrow> False) then (ScanSkip, latest)
          else
            let reorged =
                  (case latest of
                     Some prev \<Rightarrow>
                       if n \<le> br_number prev \<or> n = br_number prev + 1 \<and> p \<noteq> br_hash prev
                       then Some prev else None
                   | None \<Rightarrow> None);
                from =
                  (case latest of
                     Some prev \<Rightarrow> if n > br_number prev then br_number prev + 1 else n
                   | None \<Rightarrow> n)
            in (ScanBlock reorged from n, Some \<lparr>br_hash = h, br_number = n\<rparr>))"

text \<open>The inclusive range of heights, and the items of each of them in turn.\<close>

definition heights :: "u64 \<Rightarrow> u64 \<Rightarrow> u64 list" where
  "heights from to = map of_nat [unat from..<Suc (unat to)]"

fun backfill ::
  "'c Subxt \<Rightarrow> OrgRegistryClient \<Rightarrow> OrgAdmin option \<Rightarrow> u64 list \<Rightarrow> 'c \<Rightarrow> Items \<times> 'c" where
  "backfill X R admin_filter [] c = ([], c)"
| "backfill X R admin_filter (number # numbers) c =
     (let (r, c1) = events_in_best_block X R admin_filter number c;
          items = (case r of Inr items \<Rightarrow> items | Inl e \<Rightarrow> [Inl e]);
          (rest, c2) = backfill X R admin_filter numbers c1
      in (items @ rest, c2))"

fun best_items ::
  "'c Subxt \<Rightarrow> OrgRegistryClient \<Rightarrow> OrgAdmin option \<Rightarrow> ScanStep \<Rightarrow> 'c \<Rightarrow> Items \<times> 'c" where
  "best_items X R admin_filter ScanSkip c = ([], c)"
| "best_items X R admin_filter (ScanError msg) c = ([Inl (ClientSubxt msg)], c)"
| "best_items X R admin_filter (ScanBlock reorged from to) c =
     (let (items, c') = backfill X R admin_filter (heights from to) c
      in ((case reorged of Some discarded \<Rightarrow> [Inr (Reorged discarded)] | None \<Rightarrow> []) @ items, c'))"

definition final_items ::
  "'c Subxt \<Rightarrow> OrgRegistryClient \<Rightarrow> OrgAdmin option \<Rightarrow> string + Head \<Rightarrow> 'c \<Rightarrow> Items \<times> 'c" where
  "final_items X R admin_filter block_res c =
     (let (r, c') =
            eff_bind (eff_lift (map_err (client_subxt ''finalised block'') block_res)) (\<lambda>block.
            eff_bind (eff_map_err (client_subxt ''block.at()'') (sx_at_head X block))
              (decode_contract_events X R admin_filter FinalisedEvent)) c
      in (case r of Inr items \<Rightarrow> items | Inl e \<Rightarrow> [Inl e], c'))"

section \<open>The subscription\<close>

record 'c Watcher =
  wa_last :: "BlockRef option"
  wa_best :: Items
  wa_final :: Items
  wa_yielded :: Items
  wa_chain :: 'c

definition best_lane :: "'c Subxt \<Rightarrow> ('c, ClientError, BlockRef option) effect" where
  "best_lane X =
     eff_bind (eff_map_err (client_subxt ''at_current_block'') (sx_at_current_block X)) (\<lambda>seed_block.
     let seed = \<lparr>br_hash = BlockHash (ab_hash seed_block), br_number = ab_number seed_block\<rparr> in
     eff_bind (eff_map_err (client_subxt ''stream_best_blocks'') (sx_stream_best_blocks X)) (\<lambda>_.
     eff_return (Some seed)))"

definition finalised_lane :: "'c Subxt \<Rightarrow> ('c, ClientError, unit) effect" where
  "finalised_lane X = eff_map_err (client_subxt ''stream_blocks'') (sx_stream_blocks X)"

definition subscribe :: "'c Subxt \<Rightarrow> 'c \<Rightarrow> (ClientError + 'c Watcher) \<times> 'c" where
  "subscribe X c =
     (let (r, c') = eff_bind (best_lane X) (\<lambda>seed. eff_bind (finalised_lane X) (\<lambda>_. eff_return seed)) c
      in (and_then r (\<lambda>seed. Inr
            \<lparr>wa_last = seed, wa_best = [], wa_final = [], wa_yielded = [], wa_chain = c'\<rparr>), c'))"

inductive watch_step ::
  "'c Subxt \<Rightarrow> OrgRegistryClient \<Rightarrow> OrgAdmin option \<Rightarrow> 'c Watcher \<Rightarrow> 'c Watcher \<Rightarrow> bool"
  for X R admin_filter where
  best_head:
    "wa_best w = [] \<Longrightarrow> best_scan (wa_last w) block_res = (step, last')
      \<Longrightarrow> best_items X R admin_filter step (wa_chain w) = (items, c')
      \<Longrightarrow> watch_step X R admin_filter w (w\<lparr>wa_last := last', wa_best := items, wa_chain := c'\<rparr>)"
| final_block:
    "wa_final w = [] \<Longrightarrow> final_items X R admin_filter block_res (wa_chain w) = (items, c')
      \<Longrightarrow> watch_step X R admin_filter w (w\<lparr>wa_final := items, wa_chain := c'\<rparr>)"
| yield_best:
    "wa_best w = x # xs
      \<Longrightarrow> watch_step X R admin_filter w (w\<lparr>wa_best := xs, wa_yielded := wa_yielded w @ [x]\<rparr>)"
| yield_final:
    "wa_final w = x # xs
      \<Longrightarrow> watch_step X R admin_filter w (w\<lparr>wa_final := xs, wa_yielded := wa_yielded w @ [x]\<rparr>)"
| chain_moves:
    "watch_step X R admin_filter w (w\<lparr>wa_chain := c'\<rparr>)"

inductive_cases watch_stepE: "watch_step X R admin_filter w w'"

section \<open>Reading a slot\<close>

lemma unat_ucast_byte: "unat (ucast (b :: u8) :: u16) = unat b"
proof -
  have "unat b < 256" using unsigned_less [of b] by simp
  then show ?thesis by (simp add: unsigned_ucast_eq take_bit_nat_eq_self)
qed

lemma length_increment_loop [simp]: "length (increment_loop bs c) = length bs"
  by (induction bs c rule: increment_loop.induct) (simp_all add: Let_def)

lemma le_value_increment_loop:
  "unat c < 256 \<Longrightarrow>
     le_value (increment_loop bs c) mod 256 ^ length bs = (le_value bs + unat c) mod 256 ^ length bs"
proof (induction bs c rule: increment_loop.induct)
  case (2 b bs c)
  let ?s = "ucast b + c"
  have "unat b < 256" using unsigned_less [of b] by simp
  moreover have "unat (ucast b :: u16) = unat b" by (rule unat_ucast_byte)
  ultimately have s: "unat ?s = unat b + unat c"
    using 2(2) by (subst unat_add_lem [THEN iffD1]) auto
  have lo: "unat (ucast ?s :: u8) = (unat b + unat c) mod 256"
    by (simp add: unsigned_ucast_eq s take_bit_eq_mod flip: s)
  have hi: "unat (drop_bit 8 ?s) = (unat b + unat c) div 256"
    by (simp only: unat_drop_bit_eq s) (simp add: drop_bit_eq_div)
  then have small: "unat (drop_bit 8 ?s) < 256" using \<open>unat b < 256\<close> 2(2) by simp
  show ?case
  proof (cases "drop_bit 8 ?s = 0")
    case True
    then have "(unat b + unat c) mod 256 = unat b + unat c" using hi by (metis div_eq_0_iff mod_less unat_0 zero_neq_numeral)
    then show ?thesis using True lo by (simp add: Let_def algebra_simps)
  next
    case False
    let ?n = "256 ^ length bs :: nat"
    have IH: "le_value (increment_loop bs (drop_bit 8 ?s)) mod ?n = (le_value bs + (unat b + unat c) div 256) mod ?n"
      using 2(1) [OF refl refl refl False small] hi by simp
    have "256 * (le_value (increment_loop bs (drop_bit 8 ?s))) mod (256 * ?n)
        = 256 * (le_value bs + (unat b + unat c) div 256) mod (256 * ?n)"
      by (simp only: mult_mod_right [symmetric] IH)
    then have "((unat b + unat c) mod 256 + 256 * (le_value (increment_loop bs (drop_bit 8 ?s)))) mod (256 * ?n)
        = ((unat b + unat c) mod 256 + 256 * (le_value bs + (unat b + unat c) div 256)) mod (256 * ?n)"
      by (rule mod_add_cong [OF refl])
    also have "(unat b + unat c) mod 256 + 256 * (le_value bs + (unat b + unat c) div 256)
        = unat b + 256 * le_value bs + unat c"
      using mod_mult_div_eq [of "unat b + unat c" 256] by (simp add: algebra_simps)
    finally show ?thesis using False lo by (simp add: Let_def)
  qed
qed simp

text \<open>The offset of a field is added to the slot.\<close>

lemma increment_slot_add: "increment_slot slot offset = slot + ucast offset"
proof -
  let ?l = "increment_loop (le_bytes 32 slot) (ucast offset)"
  have c: "unat (ucast offset :: u16) = unat offset" by (rule unat_ucast_byte)
  have m: "(2 :: nat) ^ LENGTH(256) = 256 ^ length (le_bytes 32 slot)" by simp
  have "increment_slot slot offset = of_nat (le_value ?l)"
    by (simp add: increment_slot_def rev_be_bytes of_be_def of_le_eq_le_value)
  also have "\<dots> = of_nat (le_value (le_bytes 32 slot) + unat offset)"
    using le_value_increment_loop [of "ucast offset" "le_bytes 32 slot"] unsigned_less [of offset] c m
    by (simp only: word_of_nat_eq_iff take_bit_eq_mod) simp
  also have "\<dots> = of_le (le_bytes 32 slot) + of_nat (unat offset)"
    by (simp only: of_nat_add of_le_eq_le_value)
  finally show ?thesis by simp
qed

text \<open>
  The layout of Solidity: the mapping is at slot 0, the entry of an address at the hash of its padded
  key and that slot, the fields one after the other. A node in the states \<open>S\<close> serves the storage of a
  contract at a block when every read of a field of an entry returns what is stored there.
\<close>

definition layout_slot :: "(bytes \<Rightarrow> bytes32) \<Rightarrow> bytes20 \<Rightarrow> nat \<Rightarrow> bytes32" where
  "layout_slot keccak a i = keccak (be_bytes 32 (ucast a :: bytes32) @ be_bytes 32 (0 :: bytes32)) + of_nat i"

definition serves_storage :: "'c Subxt \<Rightarrow> (bytes \<Rightarrow> bytes32) \<Rightarrow> bytes20 \<Rightarrow> AtBlock \<Rightarrow> Orgs \<Rightarrow> 'c set \<Rightarrow> bool" where
  "serves_storage X keccak contract b orgs S \<longleftrightarrow>
     (\<forall>c \<in> S. \<forall>a i. i < 3 \<longrightarrow> (\<exists>c' \<in> S. sx_runtime_call X b ''ReviveApi'' ''get_storage''
        [sx_from_bytes X (be_bytes 20 contract), sx_from_bytes X (be_bytes 32 (layout_slot keccak a i))] c
        = (Inr (Inr (stored_field (orgs a) i)), c')))"

lemma be_bytes_zero: "be_bytes n (0 :: 'a::len word) = replicate n 0"
  by (rule nth_equalityI) (simp_all add: be_bytes_def)

lemma solidity_mapping_slot_layout: "solidity_mapping_slot keccak (OrgAdmin a) 0 = layout_slot keccak a 0"
proof -
  have "be_bytes 32 (ucast a :: bytes32) = replicate 12 0 @ be_bytes 20 a"
    using be_bytes_ucast [of 20 12 a, where 'b = 256] by simp
  moreover have "replicate 24 0 @ replicate 8 0 = (replicate 32 0 :: bytes)"
    by (simp flip: replicate_add)
  ultimately show ?thesis by (simp add: solidity_mapping_slot_def layout_slot_def be_bytes_zero)
qed

lemma read_slots_serve:
  assumes "serves_storage X keccak (rc_contract R) b orgs S" and "list_all (\<lambda>k. k < 3) ks" and "c \<in> S"
  shows "\<exists>c' \<in> S. read_slots X R (layout_slot keccak a 0) b ks blob c =
     (Inr (if \<exists>k \<in> set ks. stored_field (orgs a) (unat k) = None then None
           else Some (blob @ concat (map (\<lambda>k. the (stored_field (orgs a) (unat k))) ks))), c')"
  using assms(2,3)
proof (induction ks arbitrary: blob c)
  case (Cons k ks)
  have k: "unat k < 3" using Cons.prems by (simp add: word_less_nat_alt)
  have slot: "increment_slot (layout_slot keccak a 0) k = layout_slot keccak a (unat k)"
    by (simp add: increment_slot_add layout_slot_def)
  obtain c1 where c1: "sx_runtime_call X b ''ReviveApi'' ''get_storage''
      [sx_from_bytes X (be_bytes 20 (rc_contract R)), sx_from_bytes X (be_bytes 32 (layout_slot keccak a (unat k)))] c
      = (Inr (Inr (stored_field (orgs a) (unat k))), c1)" and S: "c1 \<in> S"
    using assms(1) k Cons.prems(2) unfolding serves_storage_def by blast
  have read: "read_contract_slot X R (increment_slot (layout_slot keccak a 0) k) b c = (Inr (stored_field (orgs a) (unat k)), c1)"
    by (simp add: read_contract_slot_def slot eff_bind_def eff_map_err_def c1)
  show ?case
  proof (cases "stored_field (orgs a) (unat k)")
    case None
    then show ?thesis using read S by (simp add: eff_bind_def)
  next
    case (Some bs)
    then have "length bs = 32" by (auto simp: stored_field_def split: if_splits)
    then show ?thesis using read Some Cons.IH [of c1 "blob @ bs"] Cons.prems S
      by (auto simp: eff_bind_def)
  qed
qed simp

lemma get_org_state_reads:
  assumes at: "(case at of Some h \<Rightarrow> sx_at_hash X (block_hash_word h) | None \<Rightarrow> sx_at_current_block X) c = (Inr b, c1)"
    and serve: "serves_storage X keccak (rc_contract R) b orgs S" and S: "c1 \<in> S" and orgs: "registry_reachable orgs"
    and dec: "rc_decoder R = paseo_decoder C"
  obtains c' where "get_org_state X keccak R (OrgAdmin a) at c =
     (if rs_epoch (orgs a) = 0 then Inr None
      else if rs_epoch (orgs a) < 2 ^ 64 then
        Inr (Some \<lparr>cs_root_hash = OnChainRootHash (rs_root_hash (orgs a)),
                   cs_org_pub_key = OrgPubKey (rs_org_pub_key (orgs a)),
                   cs_epoch = Epoch (ucast (rs_epoch (orgs a)))\<rparr>)
      else Inl (ClientDecode EpochOverflow), c')"
proof -
  let ?s = "orgs a"
  have at': "(case at of
          Some h \<Rightarrow> eff_map_err (client_subxt ''at_block'') (sx_at_hash X (block_hash_word h))
        | None \<Rightarrow> eff_map_err (client_subxt ''at_current_block'') (sx_at_current_block X)) c = (Inr b, c1)"
    using at by (auto simp: eff_map_err_def split: option.splits)
  have run: "get_org_state X keccak R (OrgAdmin a) at c =
      eff_bind (read_slots X R (layout_slot keccak a 0) b [0, 1, 2] []) (\<lambda>r.
        case r of
          None \<Rightarrow> eff_return None
        | Some blob \<Rightarrow>
            eff_bind (eff_lift (map_err ClientDecode (decode_org_state blob))) (\<lambda>state. eff_return (Some state))) c1"
    unfolding get_org_state_def
    by (subst eff_bind_step, rule at') (simp add: solidity_mapping_slot_layout dec paseo_decoder_def)
  obtain c2 where c2: "read_slots X R (layout_slot keccak a 0) b [0, 1, 2] [] c1 =
      (Inr (if stored_field ?s 0 = None \<or> stored_field ?s 1 = None \<or> stored_field ?s 2 = None then None
            else Some (concat (map (\<lambda>i. the (stored_field ?s i)) [0, 1, 2]))), c2)"
    using read_slots_serve [OF serve, of "[0, 1, 2 :: u8]" c1 a "[]"] S by auto
  show ?thesis
  proof (cases "rs_epoch ?s = 0")
    case True
    then show ?thesis using that run c2 stored_fields(1) [OF orgs, of a]
      by (simp add: eff_bind_def del: read_slots.simps)
  next
    case False
    then have "stored_field ?s i = Some (be_bytes 32 (org_field ?s i))" for i
      using stored_fields(2) [OF orgs, of a] by simp
    then have "read_slots X R (layout_slot keccak a 0) b [0, 1, 2] [] c1 =
        (Inr (Some (be_bytes 32 (rs_root_hash ?s) @ be_bytes 32 (rs_org_pub_key ?s) @ be_bytes 32 (rs_epoch ?s))), c2)"
      using c2 by (simp add: org_field_def del: read_slots.simps)
    then show ?thesis using that run False
      by (simp add: eff_bind_def decode_org_state_words del: read_slots.simps)
  qed
qed

section \<open>The best lane on a sequence of notifications\<close>

fun best_run ::
  "'c Subxt \<Rightarrow> OrgRegistryClient \<Rightarrow> OrgAdmin option \<Rightarrow> BlockRef option \<Rightarrow> (string + Head) list \<Rightarrow> 'c
     \<Rightarrow> Items \<times> 'c" where
  "best_run X R admin_filter latest [] c = ([], c)"
| "best_run X R admin_filter latest (block_res # rs) c =
     (let (step, latest') = best_scan latest block_res;
          (items, c1) = best_items X R admin_filter step c;
          (rest, c2) = best_run X R admin_filter latest' rs c1
      in (items @ rest, c2))"

fun best_scans :: "BlockRef option \<Rightarrow> (string + Head) list \<Rightarrow> ScanStep list" where
  "best_scans latest [] = []"
| "best_scans latest (block_res # rs) =
     (let (step, latest') = best_scan latest block_res in step # best_scans latest' rs)"

text \<open>The heights whose events a step fetches.\<close>

fun step_heights :: "ScanStep \<Rightarrow> u64 set" where
  "step_heights (ScanBlock reorged from to) = set (heights from to)"
| "step_heights _ = {}"

lemma set_heights: "set (heights from to) = {m. from \<le> m \<and> m \<le> to}"
proof -
  have "m \<in> of_nat ` {unat from..<Suc (unat to)}" if "from \<le> m" "m \<le> to" for m :: u64
    using that by (intro image_eqI [of _ _ "unat m"]) (auto simp: word_le_nat_alt)
  moreover have "from \<le> (of_nat n :: u64) \<and> of_nat n \<le> to" if "unat from \<le> n" "n \<le> unat to" for n
  proof -
    have "n < 2 ^ LENGTH(64)" using that(2) unsigned_less [of to] by (metis le_less_trans)
    then have "unat (of_nat n :: u64) = n" by (rule of_nat_inverse [OF refl])
    then show ?thesis using that by (simp add: word_le_nat_alt)
  qed
  ultimately show ?thesis
    by (force simp: heights_def less_Suc_eq_le simp del: upt_Suc)
qed

lemma unat_plus_one: "a < c \<Longrightarrow> unat (a + 1) = Suc (unat a)" for a c :: u64
proof -
  assume "a < c"
  then have "unat a + unat (1 :: u64) < 2 ^ LENGTH(64)"
    using unsigned_less [of c, where 'a = nat] by (simp add: word_less_nat_alt)
  then show ?thesis using unat_add_lem [of a 1] by simp
qed

lemma heights_append:
  assumes "a \<le> b" and "b < c"
  shows "heights (a + 1) b @ heights (b + 1) c = heights (a + 1) (c :: u64)"
proof -
  have "unat (a + 1) = Suc (unat a)" and "unat (b + 1) = Suc (unat b)"
    using assms unat_plus_one [of b c] unat_plus_one [of a c] by auto
  moreover have "unat a \<le> unat b" and "unat b \<le> unat c"
    using assms by (simp_all add: word_le_nat_alt word_less_nat_alt)
  moreover from this have "[Suc (unat a)..<Suc (unat b)] @ [Suc (unat b)..<Suc (unat c)] = [Suc (unat a)..<Suc (unat c)]"
    by (metis Suc_le_mono le_add_diff_inverse upt_add_eq_append)
  ultimately show ?thesis by (simp add: heights_def flip: map_append del: upt_Suc)
qed

text \<open>Same hash, same height: of the notified heads and the seed.\<close>

definition head_ref :: "Head \<Rightarrow> BlockRef" where
  "head_ref b = \<lparr>br_hash = BlockHash (hd_hash b), br_number = hd_number b\<rparr>"

definition refs_agree :: "BlockRef set \<Rightarrow> bool" where
  "refs_agree S \<longleftrightarrow> (\<forall>x \<in> S. \<forall>y \<in> S. br_hash x = br_hash y \<longrightarrow> br_number x = br_number y)"

definition notified :: "(string + Head) list \<Rightarrow> BlockRef set" where
  "notified rs = head_ref ` {b. Inr b \<in> set rs}"

lemma notified_simps [simp]:
  "notified [] = {}" "notified (Inl e # rs) = notified rs"
  "notified (Inr b # rs) = insert (head_ref b) (notified rs)"
  by (auto simp: notified_def)

lemma refs_agree_mono: "refs_agree T \<Longrightarrow> S \<subseteq> T \<Longrightarrow> refs_agree S"
  unfolding refs_agree_def by blast

lemma refs_agreeD: "refs_agree S \<Longrightarrow> x \<in> S \<Longrightarrow> y \<in> S \<Longrightarrow> br_hash x = br_hash y \<Longrightarrow> br_number x = br_number y"
  unfolding refs_agree_def by blast

lemma head_ref_simps [simp]: "br_hash (head_ref b) = BlockHash (hd_hash b)" "br_number (head_ref b) = hd_number b"
  by (simp_all add: head_ref_def)

lemma best_scan_head:
  "best_scan (Some prev) (Inr h) =
     (if br_hash prev = BlockHash (hd_hash h) then (ScanSkip, Some prev)
      else (ScanBlock
              (if hd_number h \<le> br_number prev
                  \<or> hd_number h = br_number prev + 1 \<and> BlockHash (hd_parent_hash h) \<noteq> br_hash prev
               then Some prev else None)
              (if hd_number h > br_number prev then br_number prev + 1 else hd_number h) (hd_number h),
            Some (head_ref h)))"
  by (simp add: best_scan_def head_ref_def Let_def)

text \<open>No height between the seed and a notified head is left out, whatever the notifications are.\<close>

lemma best_scans_gap_free:
  assumes "refs_agree (insert prev (notified rs))" and "x \<in> notified rs"
    and "br_number prev < m" and "m \<le> br_number x"
  shows "\<exists>step \<in> set (best_scans (Some prev) rs). m \<in> step_heights step"
  using assms
proof (induction rs arbitrary: prev)
  case (Cons r rs)
  show ?case
  proof (cases r)
    case (Inl e)
    then show ?thesis using Cons.IH [of prev] Cons.prems by (simp add: best_scan_def)
  next
    case (Inr h)
    have agree: "refs_agree (insert prev (notified rs))" "refs_agree (insert (head_ref h) (notified rs))"
      by (rule refs_agree_mono [OF Cons.prems(1)], use Inr in auto)+
    consider "br_hash prev = BlockHash (hd_hash h)" | "br_hash prev \<noteq> BlockHash (hd_hash h)" "m \<le> hd_number h"
      | "br_hash prev \<noteq> BlockHash (hd_hash h)" "hd_number h < m" by fastforce
    then show ?thesis
    proof cases
      case 1
      then have "br_number prev = hd_number h"
        using refs_agreeD [OF Cons.prems(1), of prev "head_ref h"] Inr by simp
      then have "x \<in> notified rs" using Cons.prems(2-) Inr by auto
      then show ?thesis using Cons.IH [OF agree(1)] Cons.prems(3,4) 1 Inr by (simp add: best_scan_head)
    next
      case 2
      then have "br_number prev < hd_number h" using Cons.prems(3) by simp
      then show ?thesis using 2 Cons.prems(3) Inr by (simp add: best_scan_head set_heights inc_le)
    next
      case 3
      then have "x \<in> notified rs" using Cons.prems(2,4) Inr by auto
      then show ?thesis using Cons.IH [OF agree(2)] Cons.prems(4) Inr 3 by (simp add: best_scan_head)
    qed
  qed
qed simp

text \<open>
  A chain without reorganisations: the reads of a height always return the same block and events,
  and each notified head is above the one before, which is its parent when it is the next height.
\<close>

definition steady :: "'c Subxt \<Rightarrow> (u64 \<Rightarrow> AtBlock) \<Rightarrow> (u64 \<Rightarrow> (string + SubxtEvent) list) \<Rightarrow> bool" where
  "steady X blk evs \<longleftrightarrow>
     (\<forall>m c. \<exists>c'. sx_at_number X m c = (Inr (blk m), c')) \<and> (\<forall>m c. \<exists>c'. sx_events X (blk m) c = (Inr (evs m), c'))"

definition at_ref :: "AtBlock \<Rightarrow> BlockRef" where
  "at_ref b = \<lparr>br_hash = BlockHash (ab_hash b), br_number = ab_number b\<rparr>"

definition block_items ::
  "OrgRegistryClient \<Rightarrow> OrgAdmin option \<Rightarrow> (u64 \<Rightarrow> AtBlock) \<Rightarrow> (u64 \<Rightarrow> (string + SubxtEvent) list) \<Rightarrow> u64 \<Rightarrow> Items" where
  "block_items R f blk evs m =
     concat (map (decode_contract_event R f (\<lambda>e. BestBlockEvent e (at_ref (blk m)))) (evs m))"

fun grows :: "BlockRef \<Rightarrow> (string + Head) list \<Rightarrow> bool" where
  "grows prev [] = True"
| "grows prev (Inl e # rs) = False"
| "grows prev (Inr h # rs) \<longleftrightarrow>
     br_number prev < hd_number h \<and> br_hash prev \<noteq> BlockHash (hd_hash h)
     \<and> (hd_number h = br_number prev + 1 \<longrightarrow> BlockHash (hd_parent_hash h) = br_hash prev)
     \<and> grows (head_ref h) rs"

fun tip :: "BlockRef \<Rightarrow> (string + Head) list \<Rightarrow> u64" where
  "tip prev [] = br_number prev"
| "tip prev (Inl e # rs) = tip prev rs"
| "tip prev (Inr h # rs) = tip (head_ref h) rs"

lemma grows_tip: "grows prev rs \<Longrightarrow> br_number prev \<le> tip prev rs"
  by (induction prev rs rule: grows.induct) fastforce+

lemma grows_tip_above: "grows prev rs \<Longrightarrow> rs \<noteq> [] \<Longrightarrow> br_number prev < tip prev rs"
  using grows_tip by (cases "(prev, rs)" rule: grows.cases) fastforce+

lemma steady_events:
  assumes "steady X blk evs"
  shows "\<exists>c'. events_in_best_block X R f m c = (Inr (block_items R f blk evs m), c')"
proof -
  obtain c1 c2 where "sx_at_number X m c = (Inr (blk m), c1)" and "sx_events X (blk m) c1 = (Inr (evs m), c2)"
    using assms unfolding steady_def by blast
  then show ?thesis
    by (simp add: events_in_best_block_def decode_contract_events_def block_items_def at_ref_def eff_bind_def
        eff_map_err_def)
qed

lemma steady_backfill:
  assumes "steady X blk evs"
  shows "fst (backfill X R f ms c) = concat (map (block_items R f blk evs) ms)"
proof (induction ms arbitrary: c)
  case (Cons m ms)
  obtain c' where "events_in_best_block X R f m c = (Inr (block_items R f blk evs m), c')"
    using steady_events [OF assms] by blast
  then show ?case using Cons.IH [of c'] by (simp add: case_prod_beta Let_def)
qed simp

lemma best_run_exact:
  assumes "steady X blk evs" and "grows prev rs" and "rs \<noteq> []"
  shows "fst (best_run X R f (Some prev) rs c)
     = concat (map (block_items R f blk evs) (heights (br_number prev + 1) (tip prev rs)))"
  using assms(2,3)
proof (induction prev rs arbitrary: c rule: grows.induct)
  case (3 prev h rs)
  let ?i = "block_items R f blk evs"
  have n: "br_number prev < hd_number h" and rs: "grows (head_ref h) rs" using 3(2) by simp_all
  have "best_scan (Some prev) (Inr h) =
      (ScanBlock None (br_number prev + 1) (hd_number h), Some (head_ref h))"
    using 3(2) by (auto simp: best_scan_head not_le)
  then have run: "fst (best_run X R f (Some prev) (Inr h # rs) c) =
      concat (map ?i (heights (br_number prev + 1) (hd_number h))) @ fst (best_run X R f (Some (head_ref h)) rs c')"
    if "snd (backfill X R f (heights (br_number prev + 1) (hd_number h)) c) = c'" for c'
    using that steady_backfill [OF assms(1), of R f "heights (br_number prev + 1) (hd_number h)" c]
    by (auto simp: case_prod_beta Let_def)
  show ?case
  proof (cases "rs = []")
    case True
    then show ?thesis using run [OF refl] by simp
  next
    case False
    have "hd_number h < tip (head_ref h) rs"
      using grows_tip_above [OF rs False] by simp
    then show ?thesis
      using run [OF refl] 3(1) [OF rs False] heights_append [of "br_number prev" "hd_number h" "tip (head_ref h) rs"] n
      by (simp flip: map_append concat_append)
  qed
qed simp_all

section \<open>Reorganisations\<close>

text \<open>A block tree: the parent and the height of a hash.\<close>

inductive ancestor :: "(bytes32 \<Rightarrow> bytes32 option) \<Rightarrow> bytes32 \<Rightarrow> bytes32 \<Rightarrow> bool" for parent where
  parent: "parent b = Some a \<Longrightarrow> ancestor parent a b"
| above: "parent b = Some b' \<Longrightarrow> ancestor parent a b' \<Longrightarrow> ancestor parent a b"

definition block_tree :: "(bytes32 \<Rightarrow> bytes32 option) \<Rightarrow> (bytes32 \<Rightarrow> nat) \<Rightarrow> bool" where
  "block_tree parent height \<longleftrightarrow> (\<forall>b a. parent b = Some a \<longrightarrow> height b = Suc (height a)) \<and> (\<forall>b. height b < 2 ^ 64)"

lemma ancestor_height: "ancestor parent a b \<Longrightarrow> block_tree parent height \<Longrightarrow> height a < height b"
  by (induction rule: ancestor.induct) (auto simp: block_tree_def less_Suc_eq)

lemma best_scan_reorg:
  assumes tree: "block_tree parent height" and p: "parent (hd_hash h) = Some (hd_parent_hash h)"
    and n: "hd_number h = of_nat (height (hd_hash h))"
    and prev: "br_hash prev = BlockHash a" "br_number prev = of_nat (height a)" and ne: "hd_hash h \<noteq> a"
  obtains r lo where "best_scan (Some prev) (Inr h) = (ScanBlock r lo (hd_number h), Some (head_ref h))"
    and "ancestor parent a (hd_hash h) \<Longrightarrow> r = None"
    and "\<not> ancestor parent a (hd_hash h) \<Longrightarrow> height (hd_hash h) \<le> height a + 1 \<Longrightarrow> r = Some prev"
proof -
  let ?b = "hd_hash h"
  have small: "height x < 2 ^ LENGTH(64)" for x using tree by (simp add: block_tree_def)
  have u: "unat (of_nat (height x) :: u64) = height x" for x using small by (rule of_nat_inverse [OF refl])
  have le: "hd_number h \<le> br_number prev \<longleftrightarrow> height ?b \<le> height a"
    by (simp add: n prev word_le_nat_alt u)
  have hp: "height ?b = Suc (height (hd_parent_hash h))" using tree p by (simp add: block_tree_def)
  have next_iff: "hd_number h = br_number prev + 1 \<longleftrightarrow> height ?b = height a + 1" if "\<not> hd_number h \<le> br_number prev"
  proof -
    have "unat (br_number prev + 1) = Suc (height a)" using that unat_plus_one [of "br_number prev" "hd_number h"] u prev by simp
    then show ?thesis by (metis n u Suc_eq_plus1 word_unat_eq_iff)
  qed
  have desc: "ancestor parent a ?b \<Longrightarrow> \<not> height ?b \<le> height a" using ancestor_height [OF _ tree] by fastforce
  have par: "hd_parent_hash h = a" if anc: "ancestor parent a ?b" and top: "height ?b = height a + 1"
    using anc
  proof cases
    case parent
    then show ?thesis using p by simp
  next
    case (above b')
    then show ?thesis using ancestor_height [OF above(2) tree] hp p top by simp
  qed
  have conv: "hd_parent_hash h = a \<Longrightarrow> ancestor parent a ?b" using p by (blast intro: ancestor.parent)
  show ?thesis
  proof (rule that)
    show "best_scan (Some prev) (Inr h) =
      (ScanBlock (if height ?b \<le> height a \<or> height ?b = height a + 1 \<and> hd_parent_hash h \<noteq> a then Some prev else None)
         (if hd_number h > br_number prev then br_number prev + 1 else hd_number h) (hd_number h), Some (head_ref h))"
      using ne le next_iff by (auto simp: best_scan_head prev(1))
  qed (use desc par conv in auto)
qed

section \<open>What a watcher yields\<close>

text \<open>
  Events that pass the filter, from a best block on the best lane and a finalised block on the
  finalised lane, reorganisations on the best lane only, and errors.
\<close>

fun passes :: "OrgAdmin option \<Rightarrow> Event \<Rightarrow> bool" where
  "passes None e = True"
| "passes (Some a) e \<longleftrightarrow> event_admin e = a"

fun best_item :: "OrgAdmin option \<Rightarrow> ClientError + SubscribedEvent \<Rightarrow> bool" where
  "best_item f (Inr (BestBlockEvent e at)) = passes f e"
| "best_item f (Inr (FinalisedEvent e at)) = False"
| "best_item f _ = True"

fun final_item :: "OrgAdmin option \<Rightarrow> ClientError + SubscribedEvent \<Rightarrow> bool" where
  "final_item f (Inr (FinalisedEvent e at)) = passes f e"
| "final_item f (Inr _) = False"
| "final_item f (Inl e) = True"

lemma decode_contract_event_items:
  "x \<in> set (decode_contract_event R f wrap ev) \<Longrightarrow> (\<exists>e. x = Inl e) \<or> (\<exists>e. x = Inr (wrap e) \<and> passes f e)"
  by (cases f)
    (auto simp: decode_contract_event_def event_matches_admin_def split: sum.splits option.splits if_splits)

lemma decode_contract_events_items:
  assumes "decode_contract_events X R f wrap b c = (Inr items, c')" and "x \<in> set items"
  shows "(\<exists>e. x = Inl e) \<or> (\<exists>e at. x = Inr (wrap e at) \<and> passes f e)"
proof -
  let ?ref = "\<lparr>br_hash = BlockHash (ab_hash b), br_number = ab_number b\<rparr>"
  obtain evs where "items = concat (map (decode_contract_event R f (\<lambda>e. wrap e ?ref)) evs)"
    using assms(1) by (auto simp: decode_contract_events_def Let_def eff_bind_ok)
  then obtain ev where "x \<in> set (decode_contract_event R f (\<lambda>e. wrap e ?ref) ev)" using assms(2) by auto
  from decode_contract_event_items [OF this] show ?thesis by blast
qed

lemma backfill_items: "x \<in> set (fst (backfill X R f ms c)) \<Longrightarrow> best_item f x"
proof (induction ms arbitrary: c)
  case (Cons m ms)
  obtain r c1 where ev: "events_in_best_block X R f m c = (r, c1)" by fastforce
  then have "best_item f y" if rr: "r = Inr items" and yy: "y \<in> set items" for items y
  proof -
    obtain b c2 where "decode_contract_events X R f BestBlockEvent b c2 = (Inr items, c1)"
      using ev rr by (auto simp: events_in_best_block_def eff_bind_ok)
    from decode_contract_events_items [OF this yy] show ?thesis by auto
  qed
  then show ?case using Cons ev by (auto simp: case_prod_beta Let_def split: sum.splits)
qed simp

lemma best_items_ok: "x \<in> set (fst (best_items X R f step c)) \<Longrightarrow> best_item f x"
  by (cases step) (auto simp: case_prod_beta Let_def backfill_items split: option.splits)

lemma final_items_ok: "x \<in> set (fst (final_items X R f r c)) \<Longrightarrow> final_item f x"
proof -
  assume x: "x \<in> set (fst (final_items X R f r c))"
  let ?m = "eff_bind (eff_lift (map_err (client_subxt ''finalised block'') r)) (\<lambda>block.
      eff_bind (eff_map_err (client_subxt ''block.at()'') (sx_at_head X block))
        (decode_contract_events X R f FinalisedEvent)) c"
  obtain q c' where q: "?m = (q, c')" by fastforce
  then have "final_item f y" if rr: "q = Inr items" and yy: "y \<in> set items" for items y
  proof -
    obtain b c2 where "decode_contract_events X R f FinalisedEvent b c2 = (Inr items, c')"
      using q rr by (auto simp: eff_bind_ok)
    from decode_contract_events_items [OF this yy] show ?thesis by auto
  qed
  then show ?thesis using x q by (auto simp: final_items_def split: sum.splits)
qed

definition watcher_ok :: "OrgAdmin option \<Rightarrow> 'c Watcher \<Rightarrow> bool" where
  "watcher_ok f w \<longleftrightarrow>
     (\<forall>x \<in> set (wa_best w). best_item f x) \<and> (\<forall>x \<in> set (wa_final w). final_item f x)
     \<and> (\<forall>x \<in> set (wa_yielded w). best_item f x \<or> final_item f x)"

lemma watch_step_ok:
  assumes "watch_step X R f w w'" and "watcher_ok f w"
  shows "watcher_ok f w'"
  using assms
proof cases
  case (best_head block_res step last' items c')
  then show ?thesis using assms(2) best_items_ok [of _ X R f step "wa_chain w"] by (simp add: watcher_ok_def)
next
  case (final_block block_res items c')
  then show ?thesis using assms(2) final_items_ok [of _ X R f block_res "wa_chain w"] by (simp add: watcher_ok_def)
qed (auto simp: watcher_ok_def)

lemma subscribe_ok: "subscribe X c = (Inr w, c') \<Longrightarrow> watcher_ok f w"
  by (auto simp: subscribe_def watcher_ok_def and_then_eq_Inr split: prod.splits)

lemma watch_ok:
  assumes "subscribe X c = (Inr w0, c')" and "(watch_step X R f)\<^sup>*\<^sup>* w0 w"
  shows "watcher_ok f w"
  using assms(2) by (induction rule: rtranclp_induct) (use subscribe_ok [OF assms(1)] watch_step_ok in blast)+

end
