(* ===== verification/ChainWrite.thy ===== *)
theory ChainWrite
  imports ChainClient Service
begin

text \<open>
  The write path of \<^verbatim>\<open>org-node\<close> (\<^verbatim>\<open>chain_write/\<close>, \<^verbatim>\<open>ceremony.rs\<close>, \<^verbatim>\<open>chain_read.rs\<close>, and
  \<^verbatim>\<open>SubxtChainOps\<close> of \<^verbatim>\<open>service.rs\<close>): the calls as dynamic values, their submission through the
  threshold-1 multisig, the genesis ceremony, waiting for finality, and the production instance of
  the service's \<^verbatim>\<open>ChainOps\<close>.

  The signing key is a type \<open>'k\<close>; signing and submitting is the record \<open>TxApi\<close>. Time is part of the
  world: \<open>wd_now\<close> in milliseconds grows by the latency of a call, and by at least the duration of a
  sleep. The chain moves during both as \<open>TxApi\<close>, \<open>Subxt\<close> and \<open>Timing\<close> say.
\<close>

section \<open>Calls\<close>

datatype WriteError =
    WriteSubxt string
  | EventNotFound string
  | MalformedEvent string

fun write_error_display :: "WriteError \<Rightarrow> string" where
  "write_error_display (WriteSubxt m) = ''subxt error: '' @ m"
| "write_error_display (EventNotFound m) = ''expected on-chain event not found: '' @ m"
| "write_error_display (MalformedEvent m) = ''malformed event field: '' @ m"

definition write_subxt :: "string \<Rightarrow> string \<Rightarrow> WriteError" where
  "write_subxt ctx e = WriteSubxt (ctx @ '': '' @ e)"

definition UPDATE_SELECTOR :: bytes where
  "UPDATE_SELECTOR = [0xf1, 0xbc, 0x53, 0x7b]"

definition WEIGHT_REF_TIME :: u64 where
  "WEIGHT_REF_TIME = 1000000000000"

definition WEIGHT_PROOF_SIZE :: u64 where
  "WEIGHT_PROOF_SIZE = 4000000"

definition STORAGE_DEPOSIT_LIMIT :: u128 where
  "STORAGE_DEPOSIT_LIMIT = 10000000000000"

definition FUND_AMOUNT :: u128 where
  "FUND_AMOUNT = 1000000000000"

definition build_update_calldata :: "bytes32 \<Rightarrow> bytes32 \<Rightarrow> u128 \<Rightarrow> bytes" where
  "build_update_calldata new_root_hash new_org_pub_key expected_epoch =
     UPDATE_SELECTOR @ be_bytes 32 new_root_hash @ be_bytes 32 new_org_pub_key
     @ replicate 16 0 @ be_bytes 16 expected_epoch"

definition h160_value :: "bytes20 \<Rightarrow> Value" where
  "h160_value contract_h160 = CompositeValue (Unnamed (map (\<lambda>b. U128 (ucast b)) (be_bytes 20 contract_h160)))"

definition weight_value :: Value where
  "weight_value = CompositeValue (Named
     [(''ref_time'', U128 (ucast WEIGHT_REF_TIME)), (''proof_size'', U128 (ucast WEIGHT_PROOF_SIZE))])"

definition revive_update_runtime_call ::
  "'c Subxt \<Rightarrow> bytes20 \<Rightarrow> bytes32 \<Rightarrow> bytes32 \<Rightarrow> u128 \<Rightarrow> Value" where
  "revive_update_runtime_call X contract_h160 new_root_hash new_org_pub_key expected_epoch =
     VariantValue ''Revive'' (Unnamed [VariantValue ''call'' (Named
       [(''dest'', h160_value contract_h160),
        (''value'', U128 0),
        (''weight_limit'', weight_value),
        (''storage_deposit_limit'', U128 STORAGE_DEPOSIT_LIMIT),
        (''data'', sx_from_bytes X (build_update_calldata new_root_hash new_org_pub_key expected_epoch))])])"

text \<open>An account as the lookup \<^verbatim>\<open>Id\<close>, and the variants without fields.\<close>

definition id_value :: "'c Subxt \<Rightarrow> bytes32 \<Rightarrow> Value" where
  "id_value X account = VariantValue ''Id'' (Unnamed [sx_from_bytes X (be_bytes 32 account)])"

definition create_pure_call :: Value where
  "create_pure_call = VariantValue ''Proxy'' (Unnamed [VariantValue ''create_pure'' (Named
     [(''proxy_type'', VariantValue ''Any'' (Unnamed [])), (''delay'', U128 0), (''index'', U128 0)])])"

definition proxied :: "'c Subxt \<Rightarrow> bytes32 \<Rightarrow> Value \<Rightarrow> Value" where
  "proxied X pure_proxy call = VariantValue ''Proxy'' (Unnamed [VariantValue ''proxy'' (Named
     [(''real'', id_value X pure_proxy),
      (''force_proxy_type'', VariantValue ''None'' (Unnamed [])),
      (''call'', call)])])"

definition map_account_call :: Value where
  "map_account_call = VariantValue ''Revive'' (Unnamed [VariantValue ''map_account'' (Unnamed [])])"

definition add_proxy_call :: "'c Subxt \<Rightarrow> bytes32 \<Rightarrow> Value" where
  "add_proxy_call X delegate = VariantValue ''Proxy'' (Unnamed [VariantValue ''add_proxy'' (Named
     [(''delegate'', id_value X delegate), (''proxy_type'', VariantValue ''Any'' (Unnamed [])),
      (''delay'', U128 0)])])"

definition remove_proxy_call :: "'c Subxt \<Rightarrow> bytes32 \<Rightarrow> Value" where
  "remove_proxy_call X delegate = VariantValue ''Proxy'' (Unnamed [VariantValue ''remove_proxy'' (Named
     [(''delegate'', id_value X delegate), (''proxy_type'', VariantValue ''Any'' (Unnamed [])),
      (''delay'', U128 0)])])"

section \<open>Submission\<close>

record Tx =
  tx_pallet :: string
  tx_call :: string
  tx_args :: "Value list"

record ('c, 'k) TxApi =
  ta_tx :: "('c, string, unit) effect"
  ta_sign_and_submit :: "Tx \<Rightarrow> 'k \<Rightarrow> ('c, string, bytes32) effect"

definition submit_tx ::
  "('c, 'k) TxApi \<Rightarrow> string \<Rightarrow> Tx \<Rightarrow> 'k \<Rightarrow> ('c, WriteError, bytes32) effect" where
  "submit_tx T ctx tx signer =
     eff_bind (eff_map_err (write_subxt ''tx_client'') (ta_tx T)) (\<lambda>_.
     eff_map_err (write_subxt ctx) (ta_sign_and_submit T tx signer))"

definition multi_account_id ::
  "(bytes \<Rightarrow> bytes32 list \<Rightarrow> u16 \<Rightarrow> bytes) \<Rightarrow> (bytes \<Rightarrow> bytes32) \<Rightarrow> bytes32 list \<Rightarrow> u16 \<Rightarrow> bytes32" where
  "multi_account_id scale_encode blake2_256 signers threshold =
     (let sorted_signers = sort signers; entropy = scale_encode (rstr ''modlpy/utilisuba'') sorted_signers threshold
      in blake2_256 entropy)"

definition dispatch_threshold_1 ::
  "'c Subxt \<Rightarrow> ('c, 'k) TxApi \<Rightarrow> 'k \<Rightarrow> bytes32 list \<Rightarrow> Value \<Rightarrow> ('c, WriteError, unit) effect" where
  "dispatch_threshold_1 X T signer other_signatories call =
     (let others = map (\<lambda>i. sx_from_bytes X (be_bytes 32 i)) (sort other_signatories);
          tx = \<lparr>tx_pallet = ''Multisig'', tx_call = ''as_multi_threshold_1'',
                tx_args = [CompositeValue (Unnamed others), call]\<rparr>
      in eff_bind (submit_tx T ''as_multi_threshold_1 submit'' tx signer) (\<lambda>_. eff_return ()))"

definition fund ::
  "'c Subxt \<Rightarrow> ('c, 'k) TxApi \<Rightarrow> 'k \<Rightarrow> bytes32 \<Rightarrow> u128 \<Rightarrow> ('c, WriteError, unit) effect" where
  "fund X T sender dest amount =
     (let tx = \<lparr>tx_pallet = ''Balances'', tx_call = ''transfer_keep_alive'',
                tx_args = [id_value X dest, U128 amount]\<rparr>
      in eff_bind (submit_tx T ''transfer submit'' tx sender) (\<lambda>_. eff_return ()))"

definition submit_update ::
  "'c Subxt \<Rightarrow> ('c, 'k) TxApi \<Rightarrow> 'k \<Rightarrow> bytes20 \<Rightarrow> bytes32 \<Rightarrow> bytes32 \<Rightarrow> u128 \<Rightarrow> ('c, WriteError, string) effect" where
  "submit_update X T signer contract_h160 new_root_hash new_org_pub_key expected_epoch =
     (let calldata = build_update_calldata new_root_hash new_org_pub_key expected_epoch;
          tx = \<lparr>tx_pallet = ''Revive'', tx_call = ''call'',
                tx_args = [h160_value contract_h160, U128 0, weight_value, U128 STORAGE_DEPOSIT_LIMIT,
                           sx_from_bytes X calldata]\<rparr>
      in eff_bind (submit_tx T ''submit'' tx signer) (\<lambda>ext_hash.
         eff_return (''0x'' @ concat (map hex_byte (be_bytes 32 ext_hash)))))"

section \<open>The created proxy\<close>

fun composite_values :: "Composite \<Rightarrow> Value list" where
  "composite_values (Named n) = map snd n"
| "composite_values (Unnamed u) = u"

text \<open>The bytes of 32 numbers, each of at most 255.\<close>

fun account_bytes :: "Value list \<Rightarrow> bytes option" where
  "account_bytes [] = Some []"
| "account_bytes (U128 b # vs) =
     (if b \<le> 255 then map_option (Cons (ucast b)) (account_bytes vs) else None)"
| "account_bytes (_ # vs) = None"

lemma composite_values_size: "v \<in> set (composite_values c) \<Longrightarrow> size v < size (CompositeValue c)"
proof (cases c)
  case (Unnamed u)
  assume "v \<in> set (composite_values c)"
  then have "size v \<le> size_list size u" using Unnamed by (simp add: size_list_estimation')
  then show ?thesis using Unnamed by simp
next
  case (Named n)
  assume "v \<in> set (composite_values c)"
  then obtain p where p: "p \<in> set n" "snd p = v" using Named by auto
  then have "size v \<le> size_list (size_prod (\<lambda>x. 0) size) n"
    by (intro size_list_estimation' [OF p(1)]) (cases p, simp)
  then show ?thesis using Named by simp
qed

function collect_account32 :: "Value \<Rightarrow> bytes32 option" where
  "collect_account32 (CompositeValue c) =
     (if length (composite_values c) = 1 then collect_account32 (hd (composite_values c))
      else if length (composite_values c) = 32 then map_option of_be (account_bytes (composite_values c))
      else None)"
| "collect_account32 (VariantValue name c) = None"
| "collect_account32 (U128 n) = None"
| "collect_account32 (OtherValue s) = None"
  by pat_completeness auto
termination
proof (relation "measure size")
  fix c
  assume "length (composite_values c) = 1"
  then have "hd (composite_values c) \<in> set (composite_values c)" by (intro hd_in_set) auto
  then show "(hd (composite_values c), CompositeValue c) \<in> measure size"
    using composite_values_size by simp
qed simp

fun account32_from_named_field :: "Composite \<Rightarrow> string \<Rightarrow> WriteError + bytes32" where
  "account32_from_named_field (Unnamed u) name = Inl (MalformedEvent ''event fields not named'')"
| "account32_from_named_field (Named named) name =
     and_then (ok_or (find (\<lambda>(n, _). n = name) named) (EventNotFound ''named field not found'')) (\<lambda>(_, value).
     ok_or (collect_account32 value) (MalformedEvent ''field is not a 32-byte account''))"

fun find_pure_created :: "(string + SubxtEvent) list \<Rightarrow> WriteError + bytes32" where
  "find_pure_created [] = Inl (EventNotFound ''Proxy.PureCreated'')"
| "find_pure_created (Inl e # evs) = Inl (write_subxt ''event iter'' e)"
| "find_pure_created (Inr ev # evs) =
     (if ev_pallet_name ev = ''Proxy'' \<and> ev_event_name ev = ''PureCreated'' then
        and_then (map_err (write_subxt ''decode fields'') (ev_fields ev)) (\<lambda>fields.
        account32_from_named_field fields ''pure'')
      else find_pure_created evs)"

section \<open>Time and finality\<close>

record 'c World =
  wd_chain :: 'c
  wd_now :: nat
  wd_proxy_map :: "OrgId \<rightharpoonup> bytes32"

record 'c Timing =
  tm_latency :: "'c \<Rightarrow> nat"
  tm_sleep :: "nat \<Rightarrow> 'c \<Rightarrow> 'c \<times> nat"

definition on_api :: "'c Timing \<Rightarrow> ('c, 'e, 'a) effect \<Rightarrow> ('c World, 'e, 'a) effect" where
  "on_api W m w =
     (let (r, c) = m (wd_chain w)
      in (r, w\<lparr>wd_chain := c, wd_now := wd_now w + tm_latency W c\<rparr>))"

definition sleep :: "'c Timing \<Rightarrow> nat \<Rightarrow> 'c World \<Rightarrow> 'c World" where
  "sleep W duration w =
     (let (c, late) = tm_sleep W duration (wd_chain w)
      in w\<lparr>wd_chain := c, wd_now := wd_now w + duration + late\<rparr>)"

definition poll_interval :: nat where
  "poll_interval = 2000"

lemma sleep_now: "wd_now w + duration \<le> wd_now (sleep W duration w)"
  by (simp add: sleep_def split: prod.splits)

lemma on_api_now: "on_api W m w = (r, w') \<Longrightarrow> wd_now w \<le> wd_now w'"
  by (auto simp: on_api_def split: prod.splits)

text \<open>One poll: a sleep, and the head the node reports after it.\<close>

definition settle_poll :: "'c Subxt \<Rightarrow> 'c Timing \<Rightarrow> ('c World, WriteError, bytes32) effect" where
  "settle_poll X W w =
     on_api W (eff_bind (eff_map_err (write_subxt ''settle/poll at_current_block'') (sx_at_current_block X))
       (\<lambda>current. eff_return (ab_hash current))) (sleep W poll_interval w)"

lemma settle_poll_now: "settle_poll X W w = (r, w') \<Longrightarrow> wd_now w + poll_interval \<le> wd_now w'"
  using sleep_now [of w poll_interval W] on_api_now by (fastforce simp: settle_poll_def)

function settle_loop :: "'c Subxt \<Rightarrow> 'c Timing \<Rightarrow> bytes32 \<Rightarrow> nat \<Rightarrow> ('c World, WriteError, bytes32) effect" where
  "settle_loop X W pre_hash deadline w =
     (case settle_poll X W w of
        (Inl e, w') \<Rightarrow> (Inl e, w')
      | (Inr current_hash, w') \<Rightarrow>
          if current_hash \<noteq> pre_hash then (Inr current_hash, w')
          else if deadline \<le> wd_now w' then (Inr pre_hash, w')
          else settle_loop X W pre_hash deadline w')"
  by pat_completeness auto
termination
proof (relation "measure (\<lambda>(X, W, pre_hash, deadline, w). deadline - wd_now w)")
  fix X :: "'c Subxt" and W pre_hash deadline w r w' current_hash
  assume "(r, w') = settle_poll X W w" and "\<not> deadline \<le> wd_now w'"
  then show "((X, W, pre_hash, deadline, w'), X, W, pre_hash, deadline, w)
      \<in> measure (\<lambda>(X, W, pre_hash, deadline, w). deadline - wd_now w)"
    using settle_poll_now [of X W w r w'] by (simp add: poll_interval_def)
qed simp

declare settle_loop.simps [simp del]

definition settle :: "'c Subxt \<Rightarrow> 'c Timing \<Rightarrow> nat \<Rightarrow> ('c World, WriteError, bytes32) effect" where
  "settle X W timeout =
     eff_bind (on_api W (eff_map_err (write_subxt ''settle/pre_hash at_current_block'') (sx_at_current_block X))) (\<lambda>b.
     eff_bind (eff_gets (\<lambda>w. wd_now w + timeout)) (\<lambda>deadline.
     settle_loop X W (ab_hash b) deadline))"

section \<open>Proxies and the genesis ceremony\<close>

text \<open>
  The third-party parts together. A \<^verbatim>\<open>BlockSink\<close> is the effect of its \<^verbatim>\<open>settle\<close>.
\<close>

record ('c, 'k) ChainEnv =
  ce_subxt :: "'c Subxt"
  ce_tx :: "('c, 'k) TxApi"
  ce_timing :: "'c Timing"
  ce_keccak :: "bytes \<Rightarrow> bytes32"

type_synonym 'c BlockSink = "('c World, WriteError, bytes32) effect"

definition dispatch ::
  "('c, 'k) ChainEnv \<Rightarrow> 'k \<Rightarrow> bytes32 list \<Rightarrow> Value \<Rightarrow> ('c World, WriteError, unit) effect" where
  "dispatch N signer others call =
     on_api (ce_timing N) (dispatch_threshold_1 (ce_subxt N) (ce_tx N) signer others call)"

definition create_pure_via_multisig ::
  "('c, 'k) ChainEnv \<Rightarrow> 'c BlockSink \<Rightarrow> 'k \<Rightarrow> bytes32 list \<Rightarrow> ('c World, WriteError, bytes32) effect" where
  "create_pure_via_multisig N sink signer others =
     (let X = ce_subxt N; W = ce_timing N in
      eff_bind (dispatch N signer others create_pure_call) (\<lambda>_.
      eff_bind sink (\<lambda>block_hash.
      eff_bind (on_api W (eff_map_err (write_subxt ''at_block'') (sx_at_hash X block_hash))) (\<lambda>at.
      eff_bind (on_api W (eff_map_err (write_subxt ''events.fetch'') (sx_events X at))) (\<lambda>events.
      eff_lift (find_pure_created events))))))"

definition rotate_multisig ::
  "('c, 'k) ChainEnv \<Rightarrow> 'c BlockSink \<Rightarrow> bytes32 \<Rightarrow> 'k \<Rightarrow> bytes32 list \<Rightarrow> bytes32 \<Rightarrow> bytes32
     \<Rightarrow> ('c World, WriteError, unit) effect" where
  "rotate_multisig N sink pure_proxy signer_old others_old old_multi new_multi =
     (let X = ce_subxt N in
      eff_bind (dispatch N signer_old others_old (proxied X pure_proxy (add_proxy_call X new_multi))) (\<lambda>_.
      eff_bind sink (\<lambda>_.
      eff_bind (dispatch N signer_old others_old (proxied X pure_proxy (remove_proxy_call X old_multi))) (\<lambda>_.
      eff_bind sink (\<lambda>_. eff_return ())))))"

record GenesisOutcome =
  go_p :: bytes32
  go_org_id :: OrgId

definition genesis_ceremony ::
  "('c, 'k) ChainEnv \<Rightarrow> 'c BlockSink \<Rightarrow> bytes20 \<Rightarrow> 'k \<Rightarrow> 'k \<Rightarrow> bytes32 list \<Rightarrow> bytes32 \<Rightarrow> bytes32
     \<Rightarrow> ('c World, WriteError, GenesisOutcome) effect" where
  "genesis_ceremony N sink contract_h160 funder admin others genesis_root org_pub_key =
     (let X = ce_subxt N in
      eff_bind (create_pure_via_multisig N sink admin others) (\<lambda>p.
      eff_bind (on_api (ce_timing N) (fund X (ce_tx N) funder p FUND_AMOUNT)) (\<lambda>_.
      eff_bind sink (\<lambda>_.
      eff_bind (dispatch N admin others (proxied X p map_account_call)) (\<lambda>_.
      eff_bind sink (\<lambda>_.
      let call = revive_update_runtime_call X contract_h160 genesis_root org_pub_key 0 in
      eff_bind (dispatch N admin others (proxied X p call)) (\<lambda>_.
      eff_bind sink (\<lambda>_.
      eff_return \<lparr>go_p = p, go_org_id = OrgId (h160_of (ce_keccak N) p)\<rparr>))))))))"

section \<open>The production chain operations\<close>

record 'k SubxtChainOps =
  so_registry_client :: OrgRegistryClient
  so_contract_h160 :: bytes20
  so_admin :: 'k
  so_others :: "bytes32 list"
  so_settle_timeout :: nat

definition subxt_chain_ops_new ::
  "OrgRegistryClient \<Rightarrow> bytes20 \<Rightarrow> 'k \<Rightarrow> bytes32 list \<Rightarrow> 'k SubxtChainOps" where
  "subxt_chain_ops_new registry_client contract_h160 admin others =
     \<lparr>so_registry_client = registry_client, so_contract_h160 = contract_h160, so_admin = admin,
      so_others = others, so_settle_timeout = 90000\<rparr>"

definition write_err :: "WriteError \<Rightarrow> OrgNodeError" where
  "write_err e = Chain (''chain write: '' @ write_error_display e)"

definition map_state :: "ChainOrgState \<Rightarrow> OrgState" where
  "map_state s =
     \<lparr>os_root_hash = RootHash (on_chain_root_word (cs_root_hash s)),
      os_org_pub_key = org_pub_key_word (cs_org_pub_key s), os_epoch = epoch_word (cs_epoch s)\<rparr>"

definition ops_sink :: "('c, 'k) ChainEnv \<Rightarrow> 'k SubxtChainOps \<Rightarrow> 'c BlockSink" where
  "ops_sink N Q = settle (ce_subxt N) (ce_timing N) (so_settle_timeout Q)"

definition subxt_submit_genesis ::
  "('c, 'k) ChainEnv \<Rightarrow> 'k SubxtChainOps \<Rightarrow> bytes32 \<Rightarrow> bytes32
     \<Rightarrow> ('c World, OrgNodeError, OrgId \<times> bytes32 option) effect" where
  "subxt_submit_genesis N Q genesis_root org_pub_key =
     eff_bind (eff_map_err write_err (genesis_ceremony N (ops_sink N Q) (so_contract_h160 Q) (so_admin Q)
       (so_admin Q) (so_others Q) genesis_root org_pub_key)) (\<lambda>outcome.
     eff_bind (eff_modify (\<lambda>w. w\<lparr>wd_proxy_map := (wd_proxy_map w)(go_org_id outcome \<mapsto> go_p outcome)\<rparr>)) (\<lambda>_.
     eff_return (go_org_id outcome, Some (go_p outcome))))"

definition org_id_debug :: "OrgId \<Rightarrow> string" where
  "org_id_debug i = ''OrgId(0x'' @ concat (map hex_byte (org_id_as_bytes i)) @ '')''"

definition resolve_proxy :: "OrgId \<Rightarrow> bytes32 option \<Rightarrow> ('c World, OrgNodeError, bytes32) effect" where
  "resolve_proxy org_id proxy_account =
     (case proxy_account of
        Some pa \<Rightarrow> eff_return pa
      | None \<Rightarrow>
          eff_bind (eff_gets wd_proxy_map) (\<lambda>proxies.
          eff_lift (ok_or (proxies org_id) (Chain (''no proxy registered for org_id '' @ org_id_debug org_id
            @ ''; pass proxy_account or call submit_genesis first'')))))"

definition subxt_submit_update ::
  "('c, 'k) ChainEnv \<Rightarrow> 'k SubxtChainOps \<Rightarrow> OrgId \<Rightarrow> bytes32 \<Rightarrow> bytes32 \<Rightarrow> u64 \<Rightarrow> bytes32 option
     \<Rightarrow> ('c World, OrgNodeError, unit) effect" where
  "subxt_submit_update N Q org_id new_root org_pub_key expected_epoch proxy_account =
     eff_bind (resolve_proxy org_id proxy_account) (\<lambda>p.
     let call = revive_update_runtime_call (ce_subxt N) (so_contract_h160 Q) new_root org_pub_key (ucast expected_epoch) in
     eff_bind (eff_map_err write_err (dispatch N (so_admin Q) (so_others Q) (proxied (ce_subxt N) p call))) (\<lambda>_.
     eff_bind (eff_map_err write_err (ops_sink N Q)) (\<lambda>_. eff_return ())))"

definition subxt_read_state ::
  "('c, 'k) ChainEnv \<Rightarrow> 'k SubxtChainOps \<Rightarrow> OrgId \<Rightarrow> ('c World, OrgNodeError, OrgState option) effect" where
  "subxt_read_state N Q org_id =
     (let admin = OrgAdmin (org_id_word org_id) in
      eff_bind (eff_map_err (\<lambda>e. Chain (''get_org_state: '' @ client_error_display e))
        (on_api (ce_timing N) (get_org_state (ce_subxt N) (ce_keccak N) (so_registry_client Q) admin None))) (\<lambda>state.
      eff_return (map_option map_state state)))"

definition subxt_chain_ops :: "('c, 'k) ChainEnv \<Rightarrow> 'k SubxtChainOps \<Rightarrow> 'c World ChainOps" where
  "subxt_chain_ops N Q =
     \<lparr>co_submit_genesis = subxt_submit_genesis N Q, co_submit_update = subxt_submit_update N Q,
      co_read_state = subxt_read_state N Q\<rparr>"

section \<open>The cached reader\<close>

text \<open>
  \<^verbatim>\<open>OnChainReader\<close>: a snapshot of one organisation's slot that verification reads. Its error is the
  derived \<^verbatim>\<open>Debug\<close> text of the client's, in which a string is quoted and escaped.
\<close>

definition escape_char :: "char \<Rightarrow> string" where
  "escape_char c =
     (let n = of_char c :: nat in
      if n = 34 then [CHR 0x5C, CHR 0x22] else if n = 92 then [CHR 0x5C, CHR 0x5C]
      else if n = 10 then CHR 0x5C # ''n'' else if n = 13 then CHR 0x5C # ''r''
      else if n = 9 then CHR 0x5C # ''t'' else if n = 0 then CHR 0x5C # ''0''
      else if n < 16 then CHR 0x5C # ''u{'' @ [digit_char n] @ ''}''
      else if n < 32 \<or> n = 127 then CHR 0x5C # ''u{'' @ [digit_char (n div 16), digit_char (n mod 16)] @ ''}''
      else [c])"

definition debug_str :: "string \<Rightarrow> string" where
  "debug_str s = [CHR 0x22] @ concat (map escape_char s) @ [CHR 0x22]"

fun decode_error_debug :: "DecodeError \<Rightarrow> string" where
  "decode_error_debug (DecUnsupportedRuntime v) =
     ''UnsupportedRuntime { spec_version: '' @ show_nat (unat v) @ '' }''"
| "decode_error_debug (StorageLengthMismatch expected actual) =
     ''StorageLengthMismatch { expected: '' @ show_nat expected @ '', actual: '' @ show_nat actual @ '' }''"
| "decode_error_debug EpochOverflow = ''EpochOverflow''"
| "decode_error_debug (ScaleError msg) = ''Scale('' @ debug_str msg @ '')''"
| "decode_error_debug (InvalidTopicCount event expected actual) =
     ''InvalidTopicCount { event: '' @ debug_str event @ '', expected: '' @ show_nat expected
     @ '', actual: '' @ show_nat actual @ '' }''"
| "decode_error_debug (InvalidDataLength event expected actual) =
     ''InvalidDataLength { event: '' @ debug_str event @ '', expected: '' @ show_nat expected
     @ '', actual: '' @ show_nat actual @ '' }''"
| "decode_error_debug InvalidAddressTopic = ''InvalidAddressTopic''"

fun client_error_debug :: "ClientError \<Rightarrow> string" where
  "client_error_debug (ClientSubxt m) = ''Subxt('' @ debug_str m @ '')''"
| "client_error_debug (ClientUnsupportedRuntime v) =
     ''UnsupportedRuntime { spec_version: '' @ show_nat (unat v) @ '' }''"
| "client_error_debug (ClientDecode e) = ''Decode('' @ decode_error_debug e @ '')''"

record OnChainReader =
  ocr_client :: OrgRegistryClient
  ocr_org_id :: OrgId
  ocr_cached :: "OrgState option"

definition on_chain_reader_new :: "OrgRegistryClient \<Rightarrow> OrgId \<Rightarrow> OnChainReader" where
  "on_chain_reader_new client org_id = \<lparr>ocr_client = client, ocr_org_id = org_id, ocr_cached = None\<rparr>"

definition on_chain_refresh ::
  "'c Subxt \<Rightarrow> (bytes \<Rightarrow> bytes32) \<Rightarrow> (OnChainReader \<times> 'c, string, unit) effect" where
  "on_chain_refresh X keccak s =
     eff_bind (eff_map_err client_error_debug (eff_zoom snd (\<lambda>c s. (fst s, c))
       (get_org_state X keccak (ocr_client (fst s)) (OrgAdmin (org_id_word (ocr_org_id (fst s)))) None))) (\<lambda>state.
     eff_modify (\<lambda>s. ((fst s)\<lparr>ocr_cached := map_option map_state state\<rparr>, snd s))) s"

definition on_chain_get_org_state :: "OnChainReader \<Rightarrow> ChainReader" where
  "on_chain_get_org_state R requested =
     (if requested \<noteq> ocr_org_id R then Inr None else Inr (ocr_cached R))"

section \<open>How long settling takes\<close>

text \<open>
  The latencies of the node and the oversleeping are bounded by \<open>L\<close>: settling returns within the
  timeout, one more poll, and the latency of the calls around it.
\<close>

definition slack_at_most :: "'c Timing \<Rightarrow> nat \<Rightarrow> bool" where
  "slack_at_most W L \<longleftrightarrow> (\<forall>c. tm_latency W c \<le> L) \<and> (\<forall>d c. snd (tm_sleep W d c) \<le> L)"

lemma on_api_late:
  "slack_at_most W L \<Longrightarrow> on_api W m w = (r, w') \<Longrightarrow> wd_now w' \<le> wd_now w + L"
  by (auto simp: on_api_def slack_at_most_def split: prod.splits)

lemma settle_poll_late:
  assumes "slack_at_most W L" and "settle_poll X W w = (r, w')"
  shows "wd_now w' \<le> wd_now w + poll_interval + 2 * L"
proof -
  have "snd (tm_sleep W poll_interval (wd_chain w)) \<le> L" using assms(1) by (simp add: slack_at_most_def)
  then have "wd_now (sleep W poll_interval w) \<le> wd_now w + poll_interval + L"
    by (simp add: sleep_def case_prod_beta Let_def)
  then show ?thesis using on_api_late [OF assms(1)] assms(2) by (fastforce simp: settle_poll_def)
qed

text \<open>A number of polls that all reported the hash, before the deadline.\<close>

inductive stalled :: "'c Subxt \<Rightarrow> 'c Timing \<Rightarrow> bytes32 \<Rightarrow> nat \<Rightarrow> nat \<Rightarrow> 'c World \<Rightarrow> 'c World \<Rightarrow> bool"
  for X W pre_hash deadline where
  none: "stalled X W pre_hash deadline 0 w w"
| poll: "settle_poll X W w = (Inr pre_hash, w1) \<Longrightarrow> wd_now w1 < deadline
    \<Longrightarrow> stalled X W pre_hash deadline n w1 w' \<Longrightarrow> stalled X W pre_hash deadline (Suc n) w w'"

lemma stalled_now:
  "stalled X W pre_hash deadline n w w' \<Longrightarrow>
     wd_now w + n * poll_interval \<le> wd_now w' \<and> (n \<noteq> 0 \<longrightarrow> wd_now w' < deadline)"
proof (induction rule: stalled.induct)
  case (poll w w1 n w')
  then show ?case using settle_poll_now [OF poll(1)] by (cases n) (auto elim: stalled.cases)
qed simp

lemma settle_loop_outcome:
  "settle_loop X W pre_hash deadline w = (r, w') \<Longrightarrow>
     \<exists>n w1. stalled X W pre_hash deadline n w w1 \<and> settle_poll X W w1 = (r, w')
       \<and> (r = Inr pre_hash \<longrightarrow> deadline \<le> wd_now w')"
proof (induction X W pre_hash deadline w rule: settle_loop.induct)
  case (1 X W pre_hash deadline w)
  obtain q w1 where q: "settle_poll X W w = (q, w1)" by fastforce
  show ?case
  proof (cases "q = Inr pre_hash \<and> wd_now w1 < deadline")
    case True
    then have "settle_loop X W pre_hash deadline w1 = (r, w')"
      using "1.prems" q by (simp add: settle_loop.simps [of X W pre_hash deadline w])
    then have "\<exists>n w2. stalled X W pre_hash deadline n w1 w2 \<and> settle_poll X W w2 = (r, w')
        \<and> (r = Inr pre_hash \<longrightarrow> deadline \<le> wd_now w')"
      using "1.IH" [of q w1 pre_hash] True q by auto
    then show ?thesis using True q stalled.poll [of X W w pre_hash w1 deadline] by blast
  next
    case False
    then have "q = r \<and> w1 = w' \<and> (r = Inr pre_hash \<longrightarrow> deadline \<le> wd_now w')"
      using "1.prems" q by (auto simp: settle_loop.simps [of X W pre_hash deadline w] split: sum.splits if_splits)
    then show ?thesis using q stalled.none by blast
  qed
qed

lemma settle_outcome:
  assumes "settle X W timeout w = (Inr h, w')"
  obtains pre w0 n w1 where
    "on_api W (eff_map_err (write_subxt ''settle/pre_hash at_current_block'') (sx_at_current_block X)) w = (Inr pre, w0)"
    and "stalled X W (ab_hash pre) (wd_now w0 + timeout) n w0 w1" and "settle_poll X W w1 = (Inr h, w')"
    and "h = ab_hash pre \<longrightarrow> wd_now w0 + timeout \<le> wd_now w'" and "n * poll_interval \<le> timeout"
proof -
  obtain pre w0 where pre: "on_api W (eff_map_err (write_subxt ''settle/pre_hash at_current_block'')
        (sx_at_current_block X)) w = (Inr pre, w0)"
      and loop: "settle_loop X W (ab_hash pre) (wd_now w0 + timeout) w0 = (Inr h, w')"
    using assms by (auto simp: settle_def eff_bind_ok)
  obtain n w1 where n: "stalled X W (ab_hash pre) (wd_now w0 + timeout) n w0 w1"
      and last: "settle_poll X W w1 = (Inr h, w')" "h = ab_hash pre \<longrightarrow> wd_now w0 + timeout \<le> wd_now w'"
    using settle_loop_outcome [OF loop] by auto
  have "n * poll_interval \<le> timeout" using stalled_now [OF n] by (cases "n = 0") auto
  then show ?thesis using that pre n last by blast
qed

lemma settle_late:
  assumes slack: "slack_at_most W L" and run: "settle X W timeout w = (r, w')"
  shows "wd_now w' \<le> wd_now w + timeout + poll_interval + 3 * L"
proof -
  let ?pre = "on_api W (eff_map_err (write_subxt ''settle/pre_hash at_current_block'') (sx_at_current_block X)) w"
  obtain q w0 where q: "?pre = (q, w0)" by fastforce
  note w0 = on_api_late [OF slack q]
  show ?thesis
  proof (cases q)
    case (Inl e)
    then have "w' = w0" using run q by (simp add: settle_def eff_bind_stop)
    then show ?thesis using w0 by simp
  next
    case (Inr b)
    then have "settle_loop X W (ab_hash b) (wd_now w0 + timeout) w0 = (r, w')"
      using run q by (simp add: settle_def eff_bind_step)
    then obtain n w1 where "stalled X W (ab_hash b) (wd_now w0 + timeout) n w0 w1"
        and last: "settle_poll X W w1 = (r, w')"
      using settle_loop_outcome by blast
    then have "wd_now w1 \<le> wd_now w0 + timeout"
      using stalled_now by (cases "n = 0") (fastforce elim: stalled.cases)+
    then show ?thesis using settle_poll_late [OF slack last] w0 by simp
  qed
qed

end
