(* ===== verification/Chain.thy ===== *)
theory Chain
  imports ChainWrite
begin

text \<open>
  The chain path as a whole: the contract behind a node, the client that reads it, the events, and the
  production \<^verbatim>\<open>ChainOps\<close>, with the properties of them. A node that runs the contract
  (\<open>runs_contract\<close>) includes what it is given at once, alone and finally, and dispatches a proxied call only
  as far as the state of the proxy permits; the example node is one.
\<close>

section \<open>A node that runs the contract\<close>

text \<open>The contract's entry: it decodes the arguments of \<^verbatim>\<open>update\<close>; a call that reverts changes nothing.\<close>

definition registry_call :: "bytes20 \<Rightarrow> bytes \<Rightarrow> Orgs \<Rightarrow> Orgs" where
  "registry_call sender data orgs =
     (if take 4 data = UPDATE_SELECTOR \<and> 100 \<le> length data then
        (case registry_update sender (of_be (take 32 (drop 4 data))) (of_be (take 32 (drop 36 data)))
                (of_be (take 32 (drop 68 data))) orgs of
           Inr (orgs', ev) \<Rightarrow> orgs'
         | Inl e \<Rightarrow> orgs)
      else orgs)"

lemma registry_call_update:
  "registry_call sender (build_update_calldata r k (ucast (e :: u64))) orgs =
     (case registry_update sender r k (ucast e) orgs of Inr (orgs', ev) \<Rightarrow> orgs' | Inl e \<Rightarrow> orgs)"
proof -
  let ?e = "ucast e :: u128"
  have "be_bytes 32 (ucast ?e :: bytes32) = replicate 16 0 @ be_bytes 16 ?e"
    using be_bytes_ucast [of 16 16 ?e, where 'b = 256] by simp
  moreover have "of_be (be_bytes 32 (ucast ?e :: bytes32)) = (ucast ?e :: bytes32)" by simp
  ultimately have "of_be (replicate 16 0 @ be_bytes 16 ?e) = (ucast ?e :: bytes32)" by (simp only:)
  moreover have "(ucast ?e :: bytes32) = ucast e"
    by (rule ucast_up_ucast) (simp add: is_up.rep_eq)
  ultimately show ?thesis
    by (simp add: registry_call_def build_update_calldata_def UPDATE_SELECTOR_def of_be_append_zeros)
qed

definition proxy_tx :: "'c Subxt \<Rightarrow> bytes32 list \<Rightarrow> Value \<Rightarrow> Tx" where
  "proxy_tx X others call =
     \<lparr>tx_pallet = ''Multisig'', tx_call = ''as_multi_threshold_1'',
      tx_args = [CompositeValue (Unnamed (map (\<lambda>i. sx_from_bytes X (be_bytes 32 i)) (sort others))), call]\<rparr>"

definition transfer_tx :: "'c Subxt \<Rightarrow> bytes32 \<Rightarrow> Tx" where
  "transfer_tx X dest =
     \<lparr>tx_pallet = ''Balances'', tx_call = ''transfer_keep_alive'', tx_args = [id_value X dest, U128 FUND_AMOUNT]\<rparr>"

text \<open>
  What a chain state holds for this program: the slots of the contract, and the accounts as far as the
  multisig is concerned: the pure proxies it controls, the accounts with a balance, those with an entry in
  the \<^verbatim>\<open>AddressMapper\<close> of pallet-revive, and the proxy that the last extrinsic created, if it created one.
\<close>

record ChainView =
  cv_orgs :: Orgs
  cv_proxies :: "bytes32 set"
  cv_funded :: "bytes32 set"
  cv_mapped :: "bytes32 set"
  cv_created :: "bytes32 option"

text \<open>
  A proxied call is dispatched for a proxy that the multisig controls; \<^verbatim>\<open>map_account\<close> needs a balance, and
  the contract can be called only from a mapped account (\<^verbatim>\<open>chain_write/proxy.rs\<close>, \<^verbatim>\<open>map_account_call\<close>). A
  dispatch that fails changes nothing. A created proxy is a new account.
\<close>

definition proxy_ready :: "ChainView \<Rightarrow> bytes32 \<Rightarrow> bool" where
  "proxy_ready v p \<longleftrightarrow> p \<in> cv_proxies v \<and> p \<in> cv_funded v \<and> p \<in> cv_mapped v"

definition view_create :: "bytes32 \<Rightarrow> ChainView \<Rightarrow> ChainView" where
  "view_create p v = v\<lparr>cv_proxies := insert p (cv_proxies v), cv_funded := cv_funded v - {p},
     cv_mapped := cv_mapped v - {p}, cv_created := Some p\<rparr>"

definition view_fund :: "bytes32 \<Rightarrow> ChainView \<Rightarrow> ChainView" where
  "view_fund p v = v\<lparr>cv_funded := insert p (cv_funded v), cv_created := None\<rparr>"

definition view_map :: "bytes32 \<Rightarrow> ChainView \<Rightarrow> ChainView" where
  "view_map p v =
     (if p \<in> cv_proxies v \<and> p \<in> cv_funded v then v\<lparr>cv_mapped := insert p (cv_mapped v)\<rparr> else v)\<lparr>cv_created := None\<rparr>"

definition view_update :: "bytes20 \<Rightarrow> bytes32 \<Rightarrow> bytes \<Rightarrow> ChainView \<Rightarrow> ChainView" where
  "view_update sender p data v =
     (if proxy_ready v p then v\<lparr>cv_orgs := registry_call sender data (cv_orgs v)\<rparr> else v)\<lparr>cv_created := None\<rparr>"

text \<open>Signing and submitting a transaction succeeds and has this effect.\<close>

definition submits ::
  "('c, 'k) ChainEnv \<Rightarrow> 'k SubxtChainOps \<Rightarrow> ('c \<Rightarrow> ChainView) \<Rightarrow> Tx \<Rightarrow> (ChainView \<Rightarrow> ChainView) \<Rightarrow> 'c \<Rightarrow> bool" where
  "submits N Q view tx f c \<longleftrightarrow>
     (\<exists>h c'. ta_sign_and_submit (ce_tx N) tx (so_admin Q) c = (Inr h, c') \<and> view c' = f (view c))"

text \<open>
  The events of a block in which \<^verbatim>\<open>Proxy.PureCreated\<close> comes first of its kind, with the account as the
  newtype of its 32 bytes.
\<close>

definition account_value :: "bytes32 \<Rightarrow> Value" where
  "account_value p =
     CompositeValue (Unnamed [CompositeValue (Unnamed (map (\<lambda>b. U128 (ucast b)) (be_bytes 32 p)))])"

definition announces :: "(string + SubxtEvent) list \<Rightarrow> bytes32 \<Rightarrow> bool" where
  "announces evs p \<longleftrightarrow>
     (\<exists>pre ev post fields. evs = map Inr pre @ Inr ev # post
        \<and> (\<forall>x\<in>set pre. \<not> (ev_pallet_name x = ''Proxy'' \<and> ev_event_name x = ''PureCreated''))
        \<and> ev_pallet_name ev = ''Proxy'' \<and> ev_event_name ev = ''PureCreated''
        \<and> ev_fields ev = Inr (Named ((''pure'', account_value p) # fields)))"

text \<open>
  What is documented of a node that seals a block for every extrinsic it is given, and no other block. The
  current block serves the contract's storage and, right after the creation of a proxy, its event; time
  and reading change nothing. Submission succeeds when the extrinsic is well-formed, whatever the
  dispatch does; the administrator's account can pay for the transfer. It is an idealisation of a live
  chain, where an extrinsic is in some later block, which settling need not wait for.
\<close>

definition runs_contract :: "('c, 'k) ChainEnv \<Rightarrow> 'k SubxtChainOps \<Rightarrow> ('c \<Rightarrow> ChainView) \<Rightarrow> bool" where
  "runs_contract N Q view \<longleftrightarrow>
     (\<forall>c. \<exists>b c' S. sx_at_current_block (ce_subxt N) c = (Inr b, c') \<and> view c' = view c \<and> c' \<in> S
        \<and> serves_storage (ce_subxt N) (ce_keccak N) (so_contract_h160 Q) b (cv_orgs (view c)) S
        \<and> (\<forall>p c1. cv_created (view c) = Some p \<and> view c1 = view c \<longrightarrow>
             (\<exists>at c2 evs c3. sx_at_hash (ce_subxt N) (ab_hash b) c1 = (Inr at, c2) \<and> view c2 = view c1
                \<and> sx_events (ce_subxt N) at c2 = (Inr evs, c3) \<and> view c3 = view c2 \<and> announces evs p)))
     \<and> (\<forall>d c. view (fst (tm_sleep (ce_timing N) d c)) = view c)
     \<and> (\<forall>c. \<exists>c'. ta_tx (ce_tx N) c = (Inr (), c') \<and> view c' = view c)
     \<and> (\<forall>c. \<exists>p. submits N Q view (proxy_tx (ce_subxt N) (so_others Q) create_pure_call) (view_create p) c)
     \<and> (\<forall>p c. submits N Q view (transfer_tx (ce_subxt N) p) (view_fund p) c)
     \<and> (\<forall>p c. submits N Q view (proxy_tx (ce_subxt N) (so_others Q) (proxied (ce_subxt N) p map_account_call))
          (view_map p) c)
     \<and> (\<forall>p r k e c. submits N Q view
          (proxy_tx (ce_subxt N) (so_others Q)
            (proxied (ce_subxt N) p (revive_update_runtime_call (ce_subxt N) (so_contract_h160 Q) r k e)))
          (view_update (h160_of (ce_keccak N) p) p (build_update_calldata r k e)) c)"

abbreviation world_orgs :: "('c \<Rightarrow> ChainView) \<Rightarrow> 'c World \<Rightarrow> Orgs" where
  "world_orgs view w \<equiv> cv_orgs (view (wd_chain w))"

text \<open>The slots of the contract as the service sees them.\<close>

definition slot_state :: "OrgSlot \<Rightarrow> OrgState option" where
  "slot_state s =
     (if rs_epoch s = 0 then None
      else Some \<lparr>os_root_hash = RootHash (rs_root_hash s), os_org_pub_key = rs_org_pub_key s,
                 os_epoch = ucast (rs_epoch s)\<rparr>)"

text \<open>The clauses of \<open>runs_contract\<close>, one by one.\<close>

lemma runs_contractD:
  assumes "runs_contract N Q view"
  shows node_sleep: "view (fst (tm_sleep (ce_timing N) d c)) = view c"
    and node_tx: "\<exists>c'. ta_tx (ce_tx N) c = (Inr (), c') \<and> view c' = view c"
    and node_create: "\<exists>p. submits N Q view (proxy_tx (ce_subxt N) (so_others Q) create_pure_call) (view_create p) c"
    and node_fund: "submits N Q view (transfer_tx (ce_subxt N) p) (view_fund p) c"
    and node_map: "submits N Q view (proxy_tx (ce_subxt N) (so_others Q) (proxied (ce_subxt N) p map_account_call))
          (view_map p) c"
    and node_update: "submits N Q view
          (proxy_tx (ce_subxt N) (so_others Q)
            (proxied (ce_subxt N) p (revive_update_runtime_call (ce_subxt N) (so_contract_h160 Q) r k e)))
          (view_update (h160_of (ce_keccak N) p) p (build_update_calldata r k e)) c"
  using assms unfolding runs_contract_def by blast+

lemma node_block:
  assumes "runs_contract N Q view"
  obtains b c' S where "sx_at_current_block (ce_subxt N) c = (Inr b, c')" and "view c' = view c" and "c' \<in> S"
    and "serves_storage (ce_subxt N) (ce_keccak N) (so_contract_h160 Q) b (cv_orgs (view c)) S"
  using assms unfolding runs_contract_def by meson


text \<open>Settling changes nothing and returns the hash of the block that is current then.\<close>

lemma settle_poll_view:
  assumes node: "runs_contract N Q view"
  obtains b c w' where "settle_poll (ce_subxt N) (ce_timing N) w = (Inr (ab_hash b), w')"
    and "sx_at_current_block (ce_subxt N) c = (Inr b, wd_chain w')"
    and "view c = view (wd_chain w)" and "view (wd_chain w') = view (wd_chain w)"
proof -
  let ?X = "ce_subxt N" and ?W = "ce_timing N"
  let ?c = "wd_chain (sleep ?W poll_interval w)"
  have s: "view ?c = view (wd_chain w)"
    using node_sleep [OF node] by (simp add: sleep_def case_prod_beta Let_def)
  obtain b c' where "sx_at_current_block ?X ?c = (Inr b, c')" and "view c' = view ?c"
    by (rule node_block [OF node])
  then show ?thesis
    using that s by (simp add: settle_poll_def on_api_def eff_bind_def eff_map_err_def)
qed

lemma stalled_view:
  "stalled X W pre d n w w' \<Longrightarrow> X = ce_subxt N \<Longrightarrow> W = ce_timing N \<Longrightarrow> runs_contract N Q view
     \<Longrightarrow> view (wd_chain w') = view (wd_chain w)"
proof (induction rule: stalled.induct)
  case (poll w w1 n w')
  then show ?case by (metis settle_poll_view Pair_inject)
qed simp

lemma settle_runs:
  assumes node: "runs_contract N Q view"
  obtains b c w' where "ops_sink N Q w = (Inr (ab_hash b), w')"
    and "sx_at_current_block (ce_subxt N) c = (Inr b, wd_chain w')"
    and "view c = view (wd_chain w)" and "view (wd_chain w') = view (wd_chain w)"
proof -
  let ?X = "ce_subxt N" and ?W = "ce_timing N"
  obtain b c where "sx_at_current_block ?X (wd_chain w) = (Inr b, c)" and c: "view c = view (wd_chain w)"
    by (rule node_block [OF node])
  define w0 where "w0 = w\<lparr>wd_chain := c, wd_now := wd_now w + tm_latency ?W c\<rparr>"
  have w0: "wd_chain w0 = c" by (simp add: w0_def)
  have "settle ?X ?W (so_settle_timeout Q) w = settle_loop ?X ?W (ab_hash b) (wd_now w0 + so_settle_timeout Q) w0"
    using \<open>sx_at_current_block ?X (wd_chain w) = (Inr b, c)\<close>
    by (simp add: settle_def on_api_def eff_bind_def eff_map_err_def w0_def)
  then obtain r w' where run: "ops_sink N Q w = (r, w')"
      and loop: "settle_loop ?X ?W (ab_hash b) (wd_now w0 + so_settle_timeout Q) w0 = (r, w')"
    by (metis ops_sink_def surj_pair)
  obtain n w1 where n: "stalled ?X ?W (ab_hash b) (wd_now w0 + so_settle_timeout Q) n w0 w1"
      and last: "settle_poll ?X ?W w1 = (r, w')"
    using settle_loop_outcome [OF loop] by blast
  have same: "view (wd_chain w1) = view (wd_chain w)" using stalled_view [OF n refl refl node] w0 c by simp
  obtain b2 c2 w2 where "settle_poll ?X ?W w1 = (Inr (ab_hash b2), w2)"
      "sx_at_current_block ?X c2 = (Inr b2, wd_chain w2)"
      "view c2 = view (wd_chain w1)" "view (wd_chain w2) = view (wd_chain w1)"
    by (rule settle_poll_view [OF node])
  then show ?thesis using that run last same by simp
qed

lemma settle_keeps:
  assumes "runs_contract N Q view"
  obtains h w' where "ops_sink N Q w = (Inr h, w')" and "view (wd_chain w') = view (wd_chain w)"
  using settle_runs [OF assms] by metis

text \<open>A submission through the client, and one through the multisig.\<close>

lemma submit_runs:
  assumes node: "runs_contract N Q view" and sub: "\<And>c. submits N Q view tx f c"
  obtains h w' where "on_api (ce_timing N) (submit_tx (ce_tx N) ctx tx (so_admin Q)) w = (Inr h, w')"
    and "view (wd_chain w') = f (view (wd_chain w))"
proof -
  obtain c1 where c1: "ta_tx (ce_tx N) (wd_chain w) = (Inr (), c1)" "view c1 = view (wd_chain w)"
    using node_tx [OF node] by blast
  obtain h c2 where "ta_sign_and_submit (ce_tx N) tx (so_admin Q) c1 = (Inr h, c2)" "view c2 = f (view c1)"
    using sub [of c1] by (auto simp: submits_def)
  then show ?thesis using that c1 by (simp add: on_api_def submit_tx_def eff_bind_def eff_map_err_def)
qed

lemma dispatch_is_submit:
  "dispatch N signer others call w =
     (let (r, w') = on_api (ce_timing N) (submit_tx (ce_tx N) ''as_multi_threshold_1 submit''
            (proxy_tx (ce_subxt N) others call) signer) w
      in (map_sum id (\<lambda>_. ()) r, w'))"
  by (auto simp: dispatch_def dispatch_threshold_1_def proxy_tx_def on_api_def eff_bind_def Let_def
      split: prod.splits sum.splits)

lemma dispatch_runs:
  assumes node: "runs_contract N Q view"
    and sub: "\<And>c. submits N Q view (proxy_tx (ce_subxt N) (so_others Q) call) f c"
  obtains w' where "dispatch N (so_admin Q) (so_others Q) call w = (Inr (), w')"
    and "view (wd_chain w') = f (view (wd_chain w))"
proof -
  obtain h w' where "on_api (ce_timing N) (submit_tx (ce_tx N) ''as_multi_threshold_1 submit''
      (proxy_tx (ce_subxt N) (so_others Q) call) (so_admin Q)) w = (Inr h, w')"
      "view (wd_chain w') = f (view (wd_chain w))"
    by (rule submit_runs [OF node sub])
  then show ?thesis using that by (simp add: dispatch_is_submit)
qed

lemma submit_update_runs:
  assumes node: "runs_contract N Q view"
  obtains w' where "subxt_submit_update N Q i r k e (Some p) w = (Inr (), w')"
    and "view (wd_chain w') = view_update (h160_of (ce_keccak N) p) p (build_update_calldata r k (ucast e)) (view (wd_chain w))"
proof -
  obtain w2 where w2: "dispatch N (so_admin Q) (so_others Q)
      (proxied (ce_subxt N) p (revive_update_runtime_call (ce_subxt N) (so_contract_h160 Q) r k (ucast e))) w = (Inr (), w2)"
      "view (wd_chain w2) = view_update (h160_of (ce_keccak N) p) p (build_update_calldata r k (ucast e)) (view (wd_chain w))"
    by (rule dispatch_runs [OF node node_update [OF node]])
  obtain h w' where settle: "ops_sink N Q w2 = (Inr h, w')" "view (wd_chain w') = view (wd_chain w2)"
    by (rule settle_keeps [OF node])
  have "subxt_submit_update N Q i r k e (Some p) w = (Inr (), w')"
    using w2(1) settle(1) by (simp add: subxt_submit_update_def resolve_proxy_def eff_bind_def eff_map_err_def Let_def)
  then show ?thesis using that settle(2) w2(2) by simp
qed

text \<open>What it does to the contract: nothing, unless the proxy is ready and the contract accepts.\<close>

lemma view_update_orgs:
  "cv_orgs (view_update a p (build_update_calldata r k (ucast (e :: u64))) v) =
     (case registry_update a r k (ucast e) (cv_orgs v) of
        Inr (orgs', ev) \<Rightarrow> if proxy_ready v p then orgs' else cv_orgs v | Inl err \<Rightarrow> cv_orgs v)"
  by (auto simp: view_update_def registry_call_update split: sum.split)

lemma read_state_runs:
  assumes node: "runs_contract N Q view" and orgs: "registry_reachable (world_orgs view w)"
    and client: "rc_decoder (so_registry_client Q) = paseo_decoder C"
      "rc_contract (so_registry_client Q) = so_contract_h160 Q"
    and small: "rs_epoch (world_orgs view w a) < 2 ^ 64"
  obtains w' where "subxt_read_state N Q (OrgId a) w = (Inr (slot_state (world_orgs view w a)), w')"
proof -
  let ?X = "ce_subxt N" and ?s = "world_orgs view w a" and ?R = "so_registry_client Q"
  obtain b c' S where at: "sx_at_current_block ?X (wd_chain w) = (Inr b, c')" and S: "c' \<in> S"
      and serve: "serves_storage ?X (ce_keccak N) (rc_contract ?R) b (world_orgs view w) S"
    unfolding client(2) by (rule node_block [OF node])
  obtain c2 where "get_org_state ?X (ce_keccak N) ?R (OrgAdmin a) None (wd_chain w) =
     (if rs_epoch ?s = 0 then Inr None
      else if rs_epoch ?s < 2 ^ 64 then
        Inr (Some \<lparr>cs_root_hash = OnChainRootHash (rs_root_hash ?s), cs_org_pub_key = OrgPubKey (rs_org_pub_key ?s),
                   cs_epoch = Epoch (ucast (rs_epoch ?s))\<rparr>)
      else Inl (ClientDecode EpochOverflow), c2)"
    by (rule get_org_state_reads [OF _ serve S orgs client(1), of None "wd_chain w"]) (use at in auto)
  then show ?thesis
    using that small
    by (simp add: subxt_read_state_def on_api_def eff_bind_def eff_map_err_def slot_state_def map_state_def)
qed

section \<open>The mock against the contract\<close>

text \<open>The contract's slots as the mock keeps them.\<close>

definition contract_slots :: "Orgs \<Rightarrow> OrgId \<rightharpoonup> OrgState" where
  "contract_slots orgs i = slot_state (orgs (org_id_word i))"

lemma unat_ucast_epoch: "unat (ucast (e :: u64) :: 256 word) = unat e"
proof -
  have "unat e < 2 ^ 64" using unsigned_less [of e] by simp
  then show ?thesis by (simp add: unsigned_ucast_eq take_bit_nat_eq_self)
qed

lemma ucast_epoch_inj: "(ucast (e :: u64) :: 256 word) = ucast e' \<longleftrightarrow> e = e'"
  by (metis unat_ucast_epoch word_unat_eq_iff)

lemma ucast_epoch_less: "(ucast (e :: u64) :: 256 word) < 2 ^ 64"
proof -
  have "unat e < 2 ^ 64" using unsigned_less [of e] by simp
  then show ?thesis by (simp add: word_less_nat_alt unat_ucast_epoch)
qed

lemma small_epoch: "w < 2 ^ 64 \<Longrightarrow> ucast (ucast w :: u64) = w" for w :: "256 word"
  using ucast_fixed_iff [of w] by simp

lemma ucast_next_epoch:
  assumes "(e :: u64) \<noteq> - 1"
  shows "(ucast e :: 256 word) + 1 = ucast (e + 1)"
proof -
  have "e < - 1" using assms by (simp add: word_order.not_eq_extremum)
  then have "unat (e + 1) = Suc (unat e)" by (rule unat_plus_one)
  moreover have "unat e < 2 ^ 64" using unsigned_less [of e] by simp
  then have "unat ((ucast e :: 256 word) + 1) = Suc (unat e)"
    using unat_add_lem [of "ucast e :: 256 word" 1] by (simp add: unat_ucast_epoch)
  ultimately show ?thesis by (simp add: word_unat_eq_iff unat_ucast_epoch)
qed

lemma contract_slots_updated:
  assumes "e \<noteq> - 1"
  shows "contract_slots (orgs(a := \<lparr>rs_root_hash = r, rs_org_pub_key = k, rs_epoch = ucast e + 1\<rparr>)) =
     (contract_slots orgs)(OrgId a \<mapsto> \<lparr>os_root_hash = RootHash r, os_org_pub_key = k, os_epoch = e + 1\<rparr>)"
proof -
  have "e < - 1" using assms by (simp add: word_order.not_eq_extremum)
  then have "unat (e + 1) \<noteq> 0" by (simp add: unat_plus_one)
  then have ne: "(ucast (e + 1) :: 256 word) \<noteq> 0" by (metis unat_0 unat_ucast_epoch)
  have "(ucast (ucast (e + 1) :: 256 word) :: u64) = e + 1"
    using small_epoch [OF ucast_epoch_less] ucast_epoch_inj by blast
  then show ?thesis
    using ne by (auto simp: contract_slots_def slot_state_def fun_eq_iff ucast_next_epoch [OF assms] org_id_word_def
        split: OrgId.split)
qed

lemma mock_and_contract:
  assumes slots: "mc_slots g = contract_slots orgs" and small: "rs_epoch (orgs a) < 2 ^ 64"
    and e: "e \<noteq> 0" "e \<noteq> - 1"
  shows "registry_update a r k (ucast e) orgs = Inr (orgs', ev) \<Longrightarrow>
      \<exists>g'. mock_submit_update (OrgId a) r k e p g = (Inr (), g') \<and> mc_slots g' = contract_slots orgs'"
    and "mock_submit_update (OrgId a) r k e p g = (Inr (), g') \<Longrightarrow>
      (\<exists>orgs' ev. registry_update a r k (ucast e) orgs = Inr (orgs', ev))
      \<or> r = 0 \<or> k = 0 \<or> r = rs_root_hash (orgs a) \<and> k = rs_org_pub_key (orgs a)"
proof -
  have ne: "(ucast e :: 256 word) \<noteq> 0" "(ucast e :: 256 word) \<noteq> - 1"
    using e(1) ucast_epoch_inj [of e 0] ucast_epoch_less [of e] by auto
  have slot: "mc_slots g (OrgId a) = slot_state (orgs a)" by (simp add: slots contract_slots_def)
  have ep: "rs_epoch (orgs a) = ucast e \<longleftrightarrow> ucast (rs_epoch (orgs a)) = e"
    using small_epoch [OF small] small_epoch [OF ucast_epoch_less [of e]] ucast_epoch_inj by metis
  show "\<exists>g'. mock_submit_update (OrgId a) r k e p g = (Inr (), g') \<and> mc_slots g' = contract_slots orgs'"
    if "registry_update a r k (ucast e) orgs = Inr (orgs', ev)"
  proof -
    have o': "ucast e = rs_epoch (orgs a)" "orgs' = orgs(a := \<lparr>rs_root_hash = r, rs_org_pub_key = k, rs_epoch = ucast e + 1\<rparr>)"
      using that unfolding registry_update_ok by auto
    then show ?thesis
      using slot ep ne contract_slots_updated [OF e(2), of orgs a r k] slots
      by (simp add: mock_submit_update_def slot_state_def)
  qed
  show "(\<exists>orgs' ev. registry_update a r k (ucast e) orgs = Inr (orgs', ev))
      \<or> r = 0 \<or> k = 0 \<or> r = rs_root_hash (orgs a) \<and> k = rs_org_pub_key (orgs a)"
    if "mock_submit_update (OrgId a) r k e p g = (Inr (), g')"
  proof -
    have "ucast (rs_epoch (orgs a)) = e"
      using that slot by (auto simp: mock_submit_update_def slot_state_def split: if_splits)
    then show ?thesis using ep ne unfolding registry_update_ok by auto
  qed
qed

section \<open>An example node\<close>

text \<open>
  The view of the chain and the height. A block is known by its height, and every extrinsic makes one; it is
  decoded from its dynamic value and takes effect or not. A created proxy is always the same account.
\<close>

type_synonym ExNode = "ChainView \<times> nat"

definition ex_node :: "Orgs \<Rightarrow> bytes32 set \<Rightarrow> ExNode" where
  "ex_node orgs ps = (\<lparr>cv_orgs = orgs, cv_proxies = ps, cv_funded = ps, cv_mapped = ps, cv_created = None\<rparr>, 4)"

definition ex_proxy :: bytes32 where
  "ex_proxy = of_be (be_bytes 20 (6 :: bytes20) @ replicate 12 0xEE)"

definition ex_bytes :: "bytes \<Rightarrow> Value" where
  "ex_bytes bs = CompositeValue (Unnamed (map (\<lambda>b. U128 (ucast b)) bs))"

fun value_bytes :: "Value \<Rightarrow> bytes" where
  "value_bytes (CompositeValue (Unnamed vs)) = (case account_bytes vs of Some bs \<Rightarrow> bs | None \<Rightarrow> [])"
| "value_bytes _ = []"

definition ex_keccak :: "bytes \<Rightarrow> bytes32" where
  "ex_keccak bs = push_bit 8 (of_be (take 32 bs))"

definition ex_block :: "nat \<Rightarrow> AtBlock" where
  "ex_block n = \<lparr>ab_hash = of_nat n, ab_number = of_nat n, ab_spec_version = SPEC_VERSION\<rparr>"

definition ex_storage :: "Orgs \<Rightarrow> bytes32 \<Rightarrow> bytes option" where
  "ex_storage orgs key = stored_field (orgs (ucast (drop_bit 8 key))) (unat (take_bit 8 key))"

definition ex_subxt :: "(u64 \<Rightarrow> ChainView \<Rightarrow> (string + SubxtEvent) list) \<Rightarrow> ExNode Subxt" where
  "ex_subxt evs =
     \<lparr>sx_from_bytes = ex_bytes,
      sx_at_current_block = (\<lambda>s. (Inr (ex_block (snd s)), s)),
      sx_at_hash = (\<lambda>h s. (Inr (ex_block (unat h)), s)),
      sx_at_number = (\<lambda>m s. (Inr (ex_block (unat m)), s)),
      sx_at_head = (\<lambda>h s. (Inr (ex_block (unat (hd_number h))), s)),
      sx_runtime_call = (\<lambda>b api name args s.
        (Inr (Inr (ex_storage (cv_orgs (fst s)) (of_be (value_bytes (args ! 1))))), s)),
      sx_events = (\<lambda>b s. (Inr (evs (ab_number b) (fst s)), s)),
      sx_stream_best_blocks = eff_return (), sx_stream_blocks = eff_return ()\<rparr>"

text \<open>The dispatch of a call from a proxy, of a call from the multisig, and of an extrinsic.\<close>

definition ex_proxied :: "bytes32 \<Rightarrow> Value \<Rightarrow> ChainView \<Rightarrow> ChainView" where
  "ex_proxied p call v =
     (case call of
        VariantValue _ (Unnamed [VariantValue _ (Unnamed [])]) \<Rightarrow> view_map p v
      | VariantValue _ (Unnamed [VariantValue _ (Named [_, _, _, _, (_, d)])]) \<Rightarrow>
          view_update (h160_of ex_keccak p) p (value_bytes d) v
      | _ \<Rightarrow> v\<lparr>cv_created := None\<rparr>)"

definition ex_multisig :: "Value \<Rightarrow> ChainView \<Rightarrow> ChainView" where
  "ex_multisig call v =
     (case call of
        VariantValue _ (Unnamed [VariantValue _ (Named [(_, VariantValue _ (Unnamed [])), _, _])]) \<Rightarrow>
          view_create ex_proxy v
      | VariantValue _ (Unnamed [VariantValue _ (Named [(_, VariantValue _ (Unnamed [p])), _, (_, inner)])]) \<Rightarrow>
          ex_proxied (of_be (value_bytes p)) inner v
      | _ \<Rightarrow> v\<lparr>cv_created := None\<rparr>)"

definition ex_execute :: "Tx \<Rightarrow> ChainView \<Rightarrow> ChainView" where
  "ex_execute tx v =
     (case tx_args tx of
        [VariantValue _ (Unnamed [dest]), _] \<Rightarrow> view_fund (of_be (value_bytes dest)) v
      | [_, call] \<Rightarrow> ex_multisig call v
      | _ \<Rightarrow> v\<lparr>cv_created := None\<rparr>)"

definition ex_tx :: "(ExNode, unit) TxApi" where
  "ex_tx = \<lparr>ta_tx = eff_return (), ta_sign_and_submit = (\<lambda>tx k s. (Inr 0, (ex_execute tx (fst s), snd s + 1)))\<rparr>"

definition ex_timing :: "ExNode Timing" where
  "ex_timing = \<lparr>tm_latency = (\<lambda>s. 50), tm_sleep = (\<lambda>d s. (s, 3))\<rparr>"

text \<open>The events of the extrinsic that made the last block.\<close>

definition ex_events_of :: "u64 \<Rightarrow> ChainView \<Rightarrow> (string + SubxtEvent) list" where
  "ex_events_of m v =
     Inr \<lparr>ev_pallet_name = ''System'', ev_event_name = ''NewAccount'', ev_field_bytes = [], ev_fields = Inl []\<rparr>
     # (case cv_created v of
          None \<Rightarrow> []
        | Some p \<Rightarrow>
            [Inr \<lparr>ev_pallet_name = ''Proxy'', ev_event_name = ''PureCreated'', ev_field_bytes = [],
                  ev_fields = Inr (Named [(''pure'', account_value p), (''who'', OtherValue ''account'')])\<rparr>])"

definition ex_chain_env :: "(ExNode, unit) ChainEnv" where
  "ex_chain_env = \<lparr>ce_subxt = ex_subxt ex_events_of, ce_tx = ex_tx, ce_timing = ex_timing, ce_keccak = ex_keccak\<rparr>"

text \<open>A codec with one byte for a length, as SCALE's compact form has up to 63.\<close>

definition ex_scale :: ScaleDecode where
  "ex_scale =
     \<lparr>sc_h160 = (\<lambda>bs. Inr (of_be (take 20 bs), drop 20 bs)),
      sc_bytes = (\<lambda>bs. Inr (take (unat (hd bs)) (tl bs), drop (unat (hd bs)) (tl bs))),
      sc_topics = (\<lambda>bs. Inr (map (\<lambda>i. of_be (take 32 (drop (32 * i) (tl bs)))) [0..<unat (hd bs)],
                             drop (32 * unat (hd bs)) (tl bs)))\<rparr>"

definition ex_client :: OrgRegistryClient where
  "ex_client = \<lparr>rc_contract = 7, rc_decoder = paseo_decoder ex_scale, rc_spec_version = SPEC_VERSION\<rparr>"

definition ex_ops :: "unit SubxtChainOps" where
  "ex_ops = subxt_chain_ops_new ex_client 7 () []"

definition ex_orgs :: Orgs where
  "ex_orgs = orgs_init(5 := \<lparr>rs_root_hash = 1, rs_org_pub_key = 2, rs_epoch = 1\<rparr>)"

lemma ex_orgs_genesis: "registry_update 5 1 2 (ucast (0 :: u64)) orgs_init = Inr (ex_orgs, GenesisInitialized 5 1 2)"
  by (simp add: registry_update_ok orgs_init_def ex_orgs_def)

lemma ex_orgs_reachable: "registry_reachable ex_orgs"
  by (rule registry_reachable.updated [OF registry_reachable.deployed ex_orgs_genesis])

lemma account_bytes_map: "account_bytes (map (\<lambda>b. U128 (ucast b)) bs) = Some bs"
proof (induction bs)
  case (Cons b bs)
  have "(ucast b :: u128) \<le> 255"
  proof -
    have "unat b < 256" using unsigned_less [of b] by simp
    then show ?thesis by (simp add: word_le_nat_alt unsigned_ucast_eq take_bit_nat_eq_self)
  qed
  moreover have "ucast (ucast b :: u128) = b" by (rule ucast_up_ucast_id) (simp add: is_up.rep_eq)
  ultimately show ?case using Cons by simp
qed simp

lemma value_bytes_ex [simp]: "value_bytes (ex_bytes bs) = bs"
  by (simp add: ex_bytes_def account_bytes_map)

lemma ex_storage_layout: "i < 3 \<Longrightarrow> ex_storage orgs (layout_slot ex_keccak a i) = stored_field (orgs a) i"
proof -
  assume "i < 3"
  have key: "layout_slot ex_keccak a i = push_bit 8 (ucast a) + of_nat i"
    by (simp add: layout_slot_def ex_keccak_def)
  have small: "take_bit 8 (of_nat i :: bytes32) = of_nat i" using \<open>i < 3\<close> by (auto simp: less_Suc_eq numeral_3_eq_3)
  have low: "bit (of_nat i :: bytes32) n \<Longrightarrow> n < 8" for n
    using small by (metis bit_take_bit_iff)
  have top: "bit (ucast a :: bytes32) n \<Longrightarrow> n < 160" for n
    by (auto simp: bit_simps dest: bit_imp_le_length)
  have "push_bit 8 (ucast a) + (of_nat i :: bytes32) = push_bit 8 (ucast a) OR of_nat i"
    by (rule disjunctive_add_eq_or) (rule bit_word_eqI, use low in \<open>force simp: bit_simps\<close>)
  note key = key [unfolded this]
  have "drop_bit 8 (layout_slot ex_keccak a i) = ucast a"
    unfolding key by (rule bit_word_eqI) (use low top in \<open>force simp: bit_simps\<close>)
  moreover have "take_bit 8 (layout_slot ex_keccak a i) = of_nat i"
    unfolding key by (rule bit_word_eqI) (use low in \<open>force simp: bit_simps\<close>)
  moreover have "ucast (ucast a :: bytes32) = a" by (rule ucast_up_ucast_id) (simp add: is_up.rep_eq)
  moreover have "unat (of_nat i :: bytes32) = i"
    using \<open>i < 3\<close> by (auto simp: less_Suc_eq numeral_3_eq_3)
  ultimately show ?thesis by (simp add: ex_storage_def)
qed

lemma ex_serves: "serves_storage (ex_subxt evs) ex_keccak contract b (cv_orgs v) {(v, n)}"
  by (simp add: serves_storage_def ex_subxt_def ex_storage_layout)

lemma ex_executes:
  "ex_execute (proxy_tx (ex_subxt evs) others create_pure_call) = view_create ex_proxy"
  "ex_execute (transfer_tx (ex_subxt evs) p) = view_fund p"
  "ex_execute (proxy_tx (ex_subxt evs) others (proxied (ex_subxt evs) p map_account_call)) = view_map p"
  "ex_execute (proxy_tx (ex_subxt evs) others
      (proxied (ex_subxt evs) p (revive_update_runtime_call (ex_subxt evs) contract r k e)))
   = view_update (h160_of ex_keccak p) p (build_update_calldata r k e)"
  by (simp_all add: fun_eq_iff ex_execute_def ex_multisig_def ex_proxied_def proxy_tx_def transfer_tx_def proxied_def
      create_pure_call_def map_account_call_def revive_update_runtime_call_def id_value_def ex_subxt_def)

lemma ex_node_submits: "ex_execute tx = f \<Longrightarrow> submits ex_chain_env ex_ops fst tx f c"
  by (simp add: submits_def ex_chain_env_def ex_tx_def)

lemma ex_announces: "cv_created v = Some p \<Longrightarrow> announces (ex_events_of m v) p"
  unfolding announces_def ex_events_of_def
  by (intro exI [of _ "[\<lparr>ev_pallet_name = ''System'', ev_event_name = ''NewAccount'', ev_field_bytes = [], ev_fields = Inl []\<rparr>]"]
        exI [of _ "\<lparr>ev_pallet_name = ''Proxy'', ev_event_name = ''PureCreated'', ev_field_bytes = [],
                  ev_fields = Inr (Named [(''pure'', account_value p), (''who'', OtherValue ''account'')])\<rparr>"]
        exI [of _ "[]"] exI [of _ "[(''who'', OtherValue ''account'')]"]) simp

lemma ex_runs_contract: "runs_contract ex_chain_env ex_ops fst"
proof -
  let ?X = "ex_subxt ex_events_of"
  have "\<exists>b c' S. sx_at_current_block ?X c = (Inr b, c') \<and> fst c' = fst c \<and> c' \<in> S
      \<and> serves_storage ?X ex_keccak contract b (cv_orgs (fst c)) S
      \<and> (\<forall>p c1. cv_created (fst c) = Some p \<and> fst c1 = fst c \<longrightarrow>
          (\<exists>at c2 evs c3. sx_at_hash ?X (ab_hash b) c1 = (Inr at, c2) \<and> fst c2 = fst c1
             \<and> sx_events ?X at c2 = (Inr evs, c3) \<and> fst c3 = fst c2 \<and> announces evs p))" for c contract
    using ex_serves [of ex_events_of contract _ "fst c" "snd c"]
    by (intro exI [of _ "ex_block (snd c)"] exI [of _ c] exI [of _ "{(fst c, snd c)}"])
      (auto simp: ex_subxt_def ex_announces)
  moreover have "\<exists>p. submits ex_chain_env ex_ops fst (proxy_tx ?X others create_pure_call) (view_create p) c" for others c
    using ex_node_submits ex_executes(1) by blast
  moreover have "submits ex_chain_env ex_ops fst (transfer_tx ?X p) (view_fund p) c" for p c
    by (rule ex_node_submits) (rule ex_executes)
  moreover have "submits ex_chain_env ex_ops fst (proxy_tx ?X others (proxied ?X p map_account_call)) (view_map p) c" for others p c
    by (rule ex_node_submits) (rule ex_executes)
  moreover have "submits ex_chain_env ex_ops fst (proxy_tx ?X others (proxied ?X p (revive_update_runtime_call ?X contract r k e)))
      (view_update (h160_of ex_keccak p) p (build_update_calldata r k e)) c" for others p contract r k e c
    by (rule ex_node_submits) (rule ex_executes)
  moreover have "\<exists>c'. ta_tx ex_tx c = (Inr (), c') \<and> fst c' = fst c" for c by (simp add: ex_tx_def)
  moreover have "fst (fst (tm_sleep ex_timing d c)) = fst c" for d c by (simp add: ex_timing_def)
  moreover have "ce_subxt ex_chain_env = ?X" "ce_keccak ex_chain_env = ex_keccak"
      "ce_timing ex_chain_env = ex_timing" "ce_tx ex_chain_env = ex_tx"
    by (simp_all add: ex_chain_env_def)
  ultimately show ?thesis unfolding runs_contract_def by (simp only:) blast
qed

section \<open>Properties\<close>

text \<open>
  C9 (the client reads the contract). Reading an organisation at a block that serves the contract's
  storage returns nothing for an address that was never initialised, the root, key and epoch of the
  contract otherwise, and an error for an epoch beyond 64 bits; right after an accepted update it is
  the update's root and key at the next epoch.
\<close>

theorem get_org_state_reads_registry:
  assumes "registry_reachable orgs" and "serves_storage X keccak (rc_contract R) b orgs S" and "c1 \<in> S"
    and "(case at of Some h \<Rightarrow> sx_at_hash X (block_hash_word h) | None \<Rightarrow> sx_at_current_block X) c = (Inr b, c1)"
    and "rc_decoder R = paseo_decoder C"
  shows "(rs_epoch (orgs a) = 0 \<longrightarrow> fst (get_org_state X keccak R (OrgAdmin a) at c) = Inr None)
    \<and> (rs_epoch (orgs a) \<noteq> 0 \<and> rs_epoch (orgs a) < 2 ^ 64 \<longrightarrow>
        fst (get_org_state X keccak R (OrgAdmin a) at c) =
          Inr (Some \<lparr>cs_root_hash = OnChainRootHash (rs_root_hash (orgs a)),
                     cs_org_pub_key = OrgPubKey (rs_org_pub_key (orgs a)),
                     cs_epoch = Epoch (ucast (rs_epoch (orgs a)))\<rparr>))
    \<and> (2 ^ 64 \<le> rs_epoch (orgs a) \<longrightarrow>
        fst (get_org_state X keccak R (OrgAdmin a) at c) = Inl (ClientDecode EpochOverflow))
    \<and> (\<forall>orgs0 r k e ev. registry_update a r k (ucast (e :: u64)) orgs0 = Inr (orgs, ev) \<and> e \<noteq> - 1 \<longrightarrow>
        fst (get_org_state X keccak R (OrgAdmin a) at c) =
          Inr (Some \<lparr>cs_root_hash = OnChainRootHash r, cs_org_pub_key = OrgPubKey k, cs_epoch = Epoch (e + 1)\<rparr>))"
proof -
  let ?s = "orgs a"
  obtain c' where run: "get_org_state X keccak R (OrgAdmin a) at c =
     (if rs_epoch ?s = 0 then Inr None
      else if rs_epoch ?s < 2 ^ 64 then
        Inr (Some \<lparr>cs_root_hash = OnChainRootHash (rs_root_hash ?s), cs_org_pub_key = OrgPubKey (rs_org_pub_key ?s),
                   cs_epoch = Epoch (ucast (rs_epoch ?s))\<rparr>)
      else Inl (ClientDecode EpochOverflow), c')"
    using get_org_state_reads [OF assms(4,2,3,1,5)] .
  have upd: "fst (get_org_state X keccak R (OrgAdmin a) at c) =
      Inr (Some \<lparr>cs_root_hash = OnChainRootHash r, cs_org_pub_key = OrgPubKey k, cs_epoch = Epoch (e + 1)\<rparr>)"
    if "registry_update a r k (ucast e) orgs0 = Inr (orgs, ev)" and e: "e \<noteq> - 1" for orgs0 r k ev and e :: u64
  proof -
    have s: "?s = \<lparr>rs_root_hash = r, rs_org_pub_key = k, rs_epoch = ucast (e + 1)\<rparr>"
      using that unfolding registry_update_ok by (simp add: ucast_next_epoch)
    moreover have "(ucast (e + 1) :: 256 word) \<noteq> 0"
      using registry_reachable_slots [OF assms(1), of a] that s unfolding registry_update_ok by auto
    moreover have "(ucast (ucast (e + 1) :: 256 word) :: u64) = e + 1"
      using small_epoch [OF ucast_epoch_less] ucast_epoch_inj by blast
    ultimately show ?thesis using run ucast_epoch_less [of "e + 1"] by simp
  qed
  have "rs_epoch ?s = 0 \<longrightarrow> fst (get_org_state X keccak R (OrgAdmin a) at c) = Inr None"
    and "rs_epoch ?s \<noteq> 0 \<and> rs_epoch ?s < 2 ^ 64 \<longrightarrow> fst (get_org_state X keccak R (OrgAdmin a) at c) =
      Inr (Some \<lparr>cs_root_hash = OnChainRootHash (rs_root_hash ?s), cs_org_pub_key = OrgPubKey (rs_org_pub_key ?s),
                 cs_epoch = Epoch (ucast (rs_epoch ?s))\<rparr>)"
    and "2 ^ 64 \<le> rs_epoch ?s \<longrightarrow> fst (get_org_state X keccak R (OrgAdmin a) at c) = Inl (ClientDecode EpochOverflow)"
    using run by (auto simp: linorder_not_less [symmetric])
  then show ?thesis using upd by blast
qed

theorem get_org_state_reads_registry_witness:
  "fst (get_org_state (ex_subxt ex_events_of) ex_keccak ex_client (OrgAdmin 5) None (ex_node ex_orgs {})) =
     Inr (Some \<lparr>cs_root_hash = OnChainRootHash 1, cs_org_pub_key = OrgPubKey 2, cs_epoch = Epoch 1\<rparr>)
   \<and> fst (get_org_state (ex_subxt ex_events_of) ex_keccak ex_client (OrgAdmin 6) None (ex_node ex_orgs {})) = Inr None"
proof -
  let ?X = "ex_subxt ex_events_of"
  have at: "(case (None :: BlockHash option) of Some h \<Rightarrow> sx_at_hash ?X (block_hash_word h) | None \<Rightarrow> sx_at_current_block ?X)
      (ex_node ex_orgs {}) = (Inr (ex_block 4), ex_node ex_orgs {})"
    by (simp add: ex_subxt_def ex_node_def)
  have dec: "rc_decoder ex_client = paseo_decoder ex_scale" by (simp add: ex_client_def)
  have serve: "serves_storage ?X ex_keccak (rc_contract ex_client) (ex_block 4) ex_orgs {ex_node ex_orgs {}}"
    using ex_serves [of ex_events_of _ _ "fst (ex_node ex_orgs {})" 4] by (simp add: ex_node_def)
  note reads = get_org_state_reads_registry [OF ex_orgs_reachable serve _ at dec]
  show ?thesis using reads [of 5] reads [of 6] by (simp add: ex_orgs_def orgs_init_def)
qed

text \<open>
  C33 (events round-trip). A payload decodes to an event exactly if its topics and data are the ABI
  encoding of that event of the contract; the address of the emitting contract plays no part, so the
  same event of another contract is not filtered out.
\<close>

theorem registry_events_decode:
  assumes "scale_event_correct C payload contract data topics"
  shows "(parse_revive_event C payload = Inr (Some e)
      \<longleftrightarrow> (\<exists>ev. topics = abi_topics ev \<and> data = abi_data ev \<and> event_of ev = Some e))
    \<and> event_matches_contract e (rc_contract R)"
  using parse_revive_event_iff [OF assms] by (simp add: event_matches_contract_def)

definition ex_payload :: "bytes20 \<Rightarrow> bytes \<Rightarrow> bytes32 list \<Rightarrow> bytes" where
  "ex_payload contract data topics =
     be_bytes 20 contract @ of_nat (length data) # data @ of_nat (length topics) # concat (map (be_bytes 32) topics)"

lemma ex_topics: "map (\<lambda>i. of_be (take 32 (drop (32 * i) (concat (map (be_bytes 32) ts))))) [0..<length ts] = (ts :: bytes32 list)"
proof (induction ts)
  case (Cons t ts)
  have "[0..<Suc (length ts)] = 0 # map Suc [0..<length ts]"
    by (simp only: map_Suc_upt upt_conv_Cons zero_less_Suc)
  then show ?case using Cons by (simp add: comp_def del: upt_Suc)
qed simp

lemma ex_payload_correct:
  assumes "length data < 256" and "length topics < 256"
  shows "scale_event_correct ex_scale (ex_payload contract data topics) contract data topics"
proof -
  have u: "unat (of_nat (length data) :: u8) = length data" "unat (of_nat (length topics) :: u8) = length topics"
    using assms by (simp_all add: of_nat_inverse)
  have "length (concat (map (be_bytes 32) topics)) = 32 * length topics" by (induction topics) simp_all
  then show ?thesis
    by (simp add: scale_event_correct_def ex_scale_def ex_payload_def u ex_topics)
qed

theorem registry_events_decode_witness:
  "parse_revive_event ex_scale
       (ex_payload 99 (abi_data (GenesisInitialized 5 1 2)) (abi_topics (GenesisInitialized 5 1 2))) =
     Inr (Some (Genesis (OrgAdmin 5) (OnChainRootHash 1) (OrgPubKey 2)))
   \<and> event_matches_contract (Genesis (OrgAdmin 5) (OnChainRootHash 1) (OrgPubKey 2)) (rc_contract ex_client)
   \<and> rc_contract ex_client \<noteq> 99"
proof -
  have "length (abi_data (GenesisInitialized 5 1 2)) < 256" and "length (abi_topics (GenesisInitialized 5 1 2)) < 256"
    by simp_all
  note decode = registry_events_decode [OF ex_payload_correct [OF this],
      where e = "Genesis (OrgAdmin 5) (OnChainRootHash 1) (OrgPubKey 2)" and R = ex_client and contract = 99]
  have "event_of (GenesisInitialized 5 1 2) = Some (Genesis (OrgAdmin 5) (OnChainRootHash 1) (OrgPubKey 2))" by simp
  then have "parse_revive_event ex_scale
      (ex_payload 99 (abi_data (GenesisInitialized 5 1 2)) (abi_topics (GenesisInitialized 5 1 2))) =
      Inr (Some (Genesis (OrgAdmin 5) (OnChainRootHash 1) (OrgPubKey 2)))"
    using decode by blast
  moreover have "rc_contract ex_client \<noteq> 99" by (simp add: ex_client_def)
  ultimately show ?thesis using decode by blast
qed

text \<open>
  C22 (no height is skipped). Whatever heads are notified, reorganisations, duplicates and errors
  included, every height above the seed up to a notified head is among the heights whose events the
  best lane fetches, provided a hash belongs to one height.
\<close>

theorem best_lane_gap_free:
  assumes "refs_agree (insert seed (notified rs))" and "x \<in> notified rs"
    and "br_number seed < m" and "m \<le> br_number x"
  shows "\<exists>step \<in> set (best_scans (Some seed) rs). m \<in> step_heights step"
  by (rule best_scans_gap_free [OF assms])

theorem best_lane_gap_free_witness:
  "\<exists>step \<in> set (best_scans (Some \<lparr>br_hash = BlockHash 0, br_number = 4\<rparr>)
      [Inr \<lparr>hd_hash = 1, hd_number = 7, hd_parent_hash = 9\<rparr>, Inl ''closed'',
       Inr \<lparr>hd_hash = 2, hd_number = 5, hd_parent_hash = 0\<rparr>,
       Inr \<lparr>hd_hash = 3, hd_number = 8, hd_parent_hash = 8\<rparr>]). 6 \<in> step_heights step"
  by (rule best_lane_gap_free [where x = "\<lparr>br_hash = BlockHash 3, br_number = 8\<rparr>"])
    (simp_all add: refs_agree_def head_ref_def)

text \<open>
  Exactly once, in order. On a chain without reorganisations, where each notified head is above the
  one before, the best lane emits the events of every block from the one after the seed to the last
  notified head, each block once and in chain order, and no reorganisation, however many blocks a
  notification skips.
\<close>

theorem best_lane_delivers_once:
  assumes "steady X blk evs" and "grows seed rs" and "rs \<noteq> []"
  shows "fst (best_run X R f (Some seed) rs c)
     = concat (map (block_items R f blk evs) (heights (br_number seed + 1) (tip seed rs)))"
  by (rule best_run_exact [OF assms])

definition ex_events :: "u64 \<Rightarrow> (string + SubxtEvent) list" where
  "ex_events m =
     [Inr \<lparr>ev_pallet_name = ''Balances'', ev_event_name = ''Transfer'', ev_field_bytes = [], ev_fields = Inl []\<rparr>,
      Inr \<lparr>ev_pallet_name = ''Revive'', ev_event_name = ''ContractEmitted'',
           ev_field_bytes = ex_payload 7 (abi_data (GenesisInitialized (ucast m) 1 2)) (abi_topics (GenesisInitialized (ucast m) 1 2)),
           ev_fields = Inl []\<rparr>]"

lemma ex_events_items:
  "block_items ex_client (Some (OrgAdmin 3)) (\<lambda>m. ex_block (unat m)) ex_events m =
     (if (ucast m :: bytes20) = 3
      then [Inr (BestBlockEvent (Genesis (OrgAdmin 3) (OnChainRootHash 1) (OrgPubKey 2)) (at_ref (ex_block (unat m))))]
      else [])"
proof -
  let ?ev = "GenesisInitialized (ucast m) 1 2"
    and ?e = "Genesis (OrgAdmin (ucast m)) (OnChainRootHash 1) (OrgPubKey 2)"
  have "length (abi_data ?ev) < 256" and "length (abi_topics ?ev) < 256" by simp_all
  from parse_revive_event_iff [OF ex_payload_correct [OF this], of 7 ?e]
  have parse: "parse_revive_event ex_scale (ex_payload 7 (abi_data ?ev) (abi_topics ?ev)) = Inr (Some ?e)"
    by (metis event_of.simps(1))
  show ?thesis
    by (simp add: block_items_def ex_events_def decode_contract_event_def ex_client_def paseo_decoder_def
        parse event_matches_contract_def event_matches_admin_def del: abi_data.simps abi_topics.simps)
qed

theorem best_lane_delivers_once_witness:
  "fst (best_run (ex_subxt (\<lambda>m _. ex_events m)) ex_client (Some (OrgAdmin 3)) (Some \<lparr>br_hash = BlockHash 0, br_number = 0\<rparr>)
      [Inr \<lparr>hd_hash = 1, hd_number = 1, hd_parent_hash = 0\<rparr>,
       Inr \<lparr>hd_hash = 4, hd_number = 4, hd_parent_hash = 3\<rparr>] (ex_node ex_orgs {}))
   = [Inr (BestBlockEvent (Genesis (OrgAdmin 3) (OnChainRootHash 1) (OrgPubKey 2)) (at_ref (ex_block 3)))]"
proof -
  let ?seed = "\<lparr>br_hash = BlockHash 0, br_number = 0\<rparr>"
    and ?rs = "[Inr \<lparr>hd_hash = 1, hd_number = 1, hd_parent_hash = 0\<rparr>,
       Inr \<lparr>hd_hash = 4, hd_number = 4, hd_parent_hash = 3\<rparr>]"
  have "steady (ex_subxt (\<lambda>m _. ex_events m)) (\<lambda>m. ex_block (unat m)) ex_events"
    by (simp add: steady_def ex_subxt_def ex_block_def)
  moreover have "grows ?seed ?rs" by (simp add: head_ref_def)
  moreover have "heights (br_number ?seed + 1) (tip ?seed ?rs) = [1, 2, 3, 4]"
    by (simp add: head_ref_def heights_def upt_rec)
  ultimately show ?thesis
    using best_lane_delivers_once [of "ex_subxt (\<lambda>m _. ex_events m)" _ ex_events ?seed ?rs] by (simp add: ex_events_items)
qed

text \<open>
  C34 (reorganisations). In a block tree, a new head that descends from the last one is never reported
  as a reorganisation, and one that does not is reported with the discarded head, unless it is two or
  more heights above it.
\<close>

theorem reorgs_reported:
  assumes "block_tree parent height" and "parent (hd_hash h) = Some (hd_parent_hash h)"
    and "hd_number h = of_nat (height (hd_hash h))"
    and "br_hash prev = BlockHash a" and "br_number prev = of_nat (height a)" and "hd_hash h \<noteq> a"
  shows "\<exists>r lo. best_scan (Some prev) (Inr h) = (ScanBlock r lo (hd_number h), Some (head_ref h))
    \<and> (ancestor parent a (hd_hash h) \<longrightarrow> r = None)
    \<and> (\<not> ancestor parent a (hd_hash h) \<and> height (hd_hash h) \<le> height a + 1 \<longrightarrow> r = Some prev)"
  by (rule best_scan_reorg [OF assms]) blast

theorem reorgs_reported_witness:
  "\<exists>lo. best_scan (Some \<lparr>br_hash = BlockHash 1, br_number = 1\<rparr>)
     (Inr \<lparr>hd_hash = 2, hd_number = 1, hd_parent_hash = 0\<rparr>)
     = (ScanBlock (Some \<lparr>br_hash = BlockHash 1, br_number = 1\<rparr>) lo 1, Some \<lparr>br_hash = BlockHash 2, br_number = 1\<rparr>)"
proof -
  define parent :: "bytes32 \<Rightarrow> bytes32 option" where "parent b = (if b = 1 \<or> b = 2 then Some 0 else None)" for b
  define height :: "bytes32 \<Rightarrow> nat" where "height b = (if b = 1 \<or> b = 2 then 1 else 0)" for b
  let ?h = "\<lparr>hd_hash = 2, hd_number = 1, hd_parent_hash = 0\<rparr>" and ?p = "\<lparr>br_hash = BlockHash 1, br_number = 1\<rparr>"
  have tree: "block_tree parent height" by (simp add: block_tree_def parent_def height_def)
  have "\<not> ancestor parent 1 2" using ancestor_height [OF _ tree, of 1 2] by (auto simp: height_def)
  then show ?thesis
    using reorgs_reported [OF tree, of ?h ?p 1] by (simp add: parent_def height_def head_ref_def)
qed

text \<open>
  C23 (settling terminates). \<^verbatim>\<open>settle\<close> always returns: if no call and no sleep takes more than \<open>L\<close> milliseconds
  too long, within the timeout, one poll and \<open>3 * L\<close> milliseconds, after at most
  timeout / 2 s polls that still see the old head and one more. It returns the hash of the head it saw
  last, which is the old one only once the timeout has passed.
\<close>

theorem settle_terminates:
  assumes "slack_at_most W L" and "settle X W timeout w = (r, w')"
  shows "wd_now w' \<le> wd_now w + timeout + poll_interval + 3 * L
    \<and> (\<forall>h. r = Inr h \<longrightarrow> (\<exists>pre w0 n w1.
         on_api W (eff_map_err (write_subxt ''settle/pre_hash at_current_block'') (sx_at_current_block X)) w = (Inr pre, w0)
         \<and> stalled X W (ab_hash pre) (wd_now w0 + timeout) n w0 w1 \<and> n * poll_interval \<le> timeout
         \<and> settle_poll X W w1 = (Inr h, w') \<and> (h = ab_hash pre \<longrightarrow> wd_now w0 + timeout \<le> wd_now w')))"
proof (intro conjI allI impI settle_late [OF assms])
  fix h
  assume "r = Inr h"
  then have "settle X W timeout w = (Inr h, w')" using assms(2) by simp
  then show "\<exists>pre w0 n w1.
         on_api W (eff_map_err (write_subxt ''settle/pre_hash at_current_block'') (sx_at_current_block X)) w = (Inr pre, w0)
         \<and> stalled X W (ab_hash pre) (wd_now w0 + timeout) n w0 w1 \<and> n * poll_interval \<le> timeout
         \<and> settle_poll X W w1 = (Inr h, w') \<and> (h = ab_hash pre \<longrightarrow> wd_now w0 + timeout \<le> wd_now w')"
    by (rule settle_outcome) (intro exI conjI)
qed

theorem settle_terminates_witness:
  "\<exists>r w'. settle (ex_subxt ex_events_of) ex_timing 90000 \<lparr>wd_chain = ex_node ex_orgs {}, wd_now = 0, wd_proxy_map = Map.empty\<rparr> = (r, w')
     \<and> wd_now w' \<le> 92150"
proof -
  let ?w = "\<lparr>wd_chain = ex_node ex_orgs {}, wd_now = 0, wd_proxy_map = Map.empty\<rparr>"
  obtain r w' where run: "settle (ex_subxt ex_events_of) ex_timing 90000 ?w = (r, w')" by fastforce
  have "slack_at_most ex_timing 50" by (simp add: slack_at_most_def ex_timing_def)
  from settle_terminates [OF this run] have "wd_now w' \<le> 92150" by (simp add: poll_interval_def)
  then show ?thesis using run by blast
qed

text \<open>
  C19 (success is not confirmation). On a node that runs the contract, \<^verbatim>\<open>submit_update\<close> returns \<^verbatim>\<open>Ok\<close> for
  every root, key and epoch and every proxy. If the proxy is the multisig's, funded and mapped, and the
  contract accepts the update, the slot that is read afterwards is the new one; if the proxy is not ready
  or the contract rejects the update, the contract and what is read afterwards are unchanged, and the
  caller is told nothing.
\<close>

theorem submit_update_unconfirmed:
  assumes node: "runs_contract N Q view" and orgs: "registry_reachable (world_orgs view w)"
    and client: "rc_decoder (so_registry_client Q) = paseo_decoder C"
      "rc_contract (so_registry_client Q) = so_contract_h160 Q"
    and a: "a = h160_of (ce_keccak N) p"
  shows "\<exists>w'. subxt_submit_update N Q (OrgId a) r k e (Some p) w = (Inr (), w')
    \<and> (\<forall>orgs' ev. proxy_ready (view (wd_chain w)) p
         \<and> registry_update a r k (ucast e) (world_orgs view w) = Inr (orgs', ev) \<longrightarrow>
         world_orgs view w' = orgs'
         \<and> (e \<noteq> - 1 \<longrightarrow> fst (subxt_read_state N Q (OrgId a) w')
             = Inr (Some \<lparr>os_root_hash = RootHash r, os_org_pub_key = k, os_epoch = e + 1\<rparr>)))
    \<and> (\<not> proxy_ready (view (wd_chain w)) p
         \<or> (\<exists>err. registry_update a r k (ucast e) (world_orgs view w) = Inl err) \<longrightarrow>
         world_orgs view w' = world_orgs view w
         \<and> (rs_epoch (world_orgs view w a) < 2 ^ 64 \<longrightarrow>
             fst (subxt_read_state N Q (OrgId a) w') = Inr (slot_state (world_orgs view w a))))"
proof -
  obtain w' where run: "subxt_submit_update N Q (OrgId a) r k e (Some p) w = (Inr (), w')"
    and "view (wd_chain w') = view_update a p (build_update_calldata r k (ucast e)) (view (wd_chain w))"
    by (rule submit_update_runs [OF node]) (simp add: a)
  then have after: "world_orgs view w' = (case registry_update a r k (ucast e) (world_orgs view w) of
         Inr (orgs', ev) \<Rightarrow> if proxy_ready (view (wd_chain w)) p then orgs' else world_orgs view w
       | Inl err \<Rightarrow> world_orgs view w)"
    by (simp add: view_update_orgs)
  have "world_orgs view w' = orgs'
      \<and> (e \<noteq> - 1 \<longrightarrow> fst (subxt_read_state N Q (OrgId a) w')
          = Inr (Some \<lparr>os_root_hash = RootHash r, os_org_pub_key = k, os_epoch = e + 1\<rparr>))"
    if ready: "proxy_ready (view (wd_chain w)) p"
      and ok: "registry_update a r k (ucast e) (world_orgs view w) = Inr (orgs', ev)" for orgs' ev
  proof (intro conjI impI)
    show now: "world_orgs view w' = orgs'" using after ok ready by simp
    assume e: "e \<noteq> - 1"
    have reach: "registry_reachable (world_orgs view w')"
      using registry_reachable.updated [OF orgs ok] now by simp
    have slots: "contract_slots orgs' (OrgId a) = Some \<lparr>os_root_hash = RootHash r, os_org_pub_key = k, os_epoch = e + 1\<rparr>"
      and "rs_epoch (orgs' a) = ucast (e + 1)"
      using ok contract_slots_updated [OF e, of "world_orgs view w" a r k] ucast_next_epoch [OF e]
      unfolding registry_update_ok by auto
    then have "rs_epoch (world_orgs view w' a) < 2 ^ 64" using now ucast_epoch_less by simp
    from read_state_runs [OF node reach client this]
    show "fst (subxt_read_state N Q (OrgId a) w')
          = Inr (Some \<lparr>os_root_hash = RootHash r, os_org_pub_key = k, os_epoch = e + 1\<rparr>)"
      using slots now by (metis contract_slots_def OrgId.sel fst_conv)
  qed
  moreover have "world_orgs view w' = world_orgs view w
         \<and> (rs_epoch (world_orgs view w a) < 2 ^ 64 \<longrightarrow>
             fst (subxt_read_state N Q (OrgId a) w') = Inr (slot_state (world_orgs view w a)))"
    if "\<not> proxy_ready (view (wd_chain w)) p
         \<or> (\<exists>err. registry_update a r k (ucast e) (world_orgs view w) = Inl err)"
  proof (intro conjI impI)
    show now: "world_orgs view w' = world_orgs view w" using after that by (auto split: sum.splits)
    assume "rs_epoch (world_orgs view w a) < 2 ^ 64"
    then have "rs_epoch (world_orgs view w' a) < 2 ^ 64" and "registry_reachable (world_orgs view w')"
      using now orgs by simp_all
    from read_state_runs [OF node this(2) client this(1)]
    show "fst (subxt_read_state N Q (OrgId a) w') = Inr (slot_state (world_orgs view w a))"
      using now by (metis fst_conv)
  qed
  ultimately show ?thesis using run by blast
qed

lemma ex_ops_client:
  "rc_decoder (so_registry_client ex_ops) = paseo_decoder ex_scale"
  "rc_contract (so_registry_client ex_ops) = so_contract_h160 ex_ops"
  by (simp_all add: ex_ops_def subxt_chain_ops_new_def ex_client_def)

definition ex_org_proxy :: bytes32 where
  "ex_org_proxy = of_be (be_bytes 20 (5 :: bytes20) @ replicate 12 0xEE)"

lemma ex_org_proxy_address: "5 = h160_of (ce_keccak ex_chain_env) ex_org_proxy"
  unfolding ex_org_proxy_def by (simp only: h160_of_derived)

definition ex_world :: "Orgs \<Rightarrow> bytes32 set \<Rightarrow> ExNode World" where
  "ex_world orgs ps = \<lparr>wd_chain = ex_node orgs ps, wd_now = 0, wd_proxy_map = Map.empty\<rparr>"

lemma ex_world_simps [simp]:
  "world_orgs fst (ex_world orgs ps) = orgs" "proxy_ready (fst (wd_chain (ex_world orgs ps))) p \<longleftrightarrow> p \<in> ps"
  by (simp_all add: ex_world_def ex_node_def proxy_ready_def)

text \<open>
  An update at a stale epoch, an update of the next epoch, and the same one before the proxy is mapped.
\<close>

theorem submit_update_unconfirmed_witness:
  "(\<exists>w'. subxt_submit_update ex_chain_env ex_ops (OrgId 5) 8 9 0 (Some ex_org_proxy) (ex_world ex_orgs {ex_org_proxy}) = (Inr (), w')
     \<and> fst (subxt_read_state ex_chain_env ex_ops (OrgId 5) w')
         = Inr (Some \<lparr>os_root_hash = RootHash 1, os_org_pub_key = 2, os_epoch = 1\<rparr>))
   \<and> (\<exists>w'. subxt_submit_update ex_chain_env ex_ops (OrgId 5) 8 9 1 (Some ex_org_proxy) (ex_world ex_orgs {ex_org_proxy}) = (Inr (), w')
     \<and> fst (subxt_read_state ex_chain_env ex_ops (OrgId 5) w')
         = Inr (Some \<lparr>os_root_hash = RootHash 8, os_org_pub_key = 9, os_epoch = 2\<rparr>))
   \<and> (\<exists>w'. subxt_submit_update ex_chain_env ex_ops (OrgId 5) 8 9 1 (Some ex_org_proxy) (ex_world ex_orgs {}) = (Inr (), w')
     \<and> fst (subxt_read_state ex_chain_env ex_ops (OrgId 5) w')
         = Inr (Some \<lparr>os_root_hash = RootHash 1, os_org_pub_key = 2, os_epoch = 1\<rparr>))"
proof -
  have stale: "\<exists>err. registry_update 5 8 9 (ucast (0 :: u64)) ex_orgs = Inl err"
    and next_ok: "\<exists>ev. registry_update 5 8 9 (ucast (1 :: u64)) ex_orgs =
      Inr (ex_orgs(5 := \<lparr>rs_root_hash = 8, rs_org_pub_key = 9, rs_epoch = 2\<rparr>), ev)"
    and old: "slot_state (ex_orgs 5) = Some \<lparr>os_root_hash = RootHash 1, os_org_pub_key = 2, os_epoch = 1\<rparr>"
      "rs_epoch (ex_orgs 5) < 2 ^ 64"
    by (simp_all add: registry_update_def ex_orgs_def slot_state_def)
  have reach: "registry_reachable (world_orgs fst (ex_world ex_orgs ps))" for ps using ex_orgs_reachable by simp
  note ready = submit_update_unconfirmed [OF ex_runs_contract reach [of "{ex_org_proxy}"] ex_ops_client ex_org_proxy_address]
    and unmapped = submit_update_unconfirmed [OF ex_runs_contract reach [of "{}"] ex_ops_client ex_org_proxy_address]
  from ready [of 8 9 0] ready [of 8 9 1] unmapped [of 8 9 1]
  show ?thesis using stale next_ok old by (fastforce simp del: fst_conv)
qed

text \<open>
  C35 (the mock against the contract). From the second epoch on, whatever update the contract accepts, the
  mock chain accepts with the same slots, and what the mock accepts and the contract does not has a zero
  root, a zero key, or changes nothing.
\<close>

theorem mock_covers_contract:
  assumes "mc_slots g = contract_slots orgs" and "rs_epoch (orgs a) < 2 ^ 64" and "e \<noteq> 0" and "e \<noteq> - 1"
  shows "(\<forall>orgs' ev. registry_update a r k (ucast e) orgs = Inr (orgs', ev) \<longrightarrow>
        (\<exists>g'. mock_submit_update (OrgId a) r k e p g = (Inr (), g') \<and> mc_slots g' = contract_slots orgs'))
    \<and> (\<forall>g'. mock_submit_update (OrgId a) r k e p g = (Inr (), g') \<longrightarrow>
        (\<exists>orgs' ev. registry_update a r k (ucast e) orgs = Inr (orgs', ev))
        \<or> r = 0 \<or> k = 0 \<or> r = rs_root_hash (orgs a) \<and> k = rs_org_pub_key (orgs a))"
  using mock_and_contract [OF assms] by blast

theorem mock_covers_contract_witness:
  "\<exists>g'. mock_submit_update (OrgId 5) 3 2 1 None \<lparr>mc_slots = contract_slots ex_orgs, mc_next_id_seed = 0\<rparr> = (Inr (), g')
     \<and> mc_slots g' = contract_slots (ex_orgs(5 := \<lparr>rs_root_hash = 3, rs_org_pub_key = 2, rs_epoch = 2\<rparr>))"
proof -
  let ?g = "\<lparr>mc_slots = contract_slots ex_orgs, mc_next_id_seed = 0\<rparr>"
  have "registry_update 5 3 2 (ucast (1 :: u64)) ex_orgs =
      Inr (ex_orgs(5 := \<lparr>rs_root_hash = 3, rs_org_pub_key = 2, rs_epoch = 2\<rparr>), RootUpdated 5 2 3 2 1)"
    by (simp add: registry_update_def ex_orgs_def)
  then show ?thesis
    using mock_covers_contract [of ?g ex_orgs 5 1 3 2 None] by (simp add: ex_orgs_def)
qed

section \<open>The genesis ceremony\<close>










end
