(* ===== verification/Production.thy ===== *)
theory Production
  imports Stories Chain
begin

text \<open>
  The stories of an administrator over the production chain operations: \<^verbatim>\<open>OrgService\<close> with
  \<^verbatim>\<open>SubxtChainOps\<close> on a node that runs the contract. It is no \<open>chain_ledger\<close>, as its update reports
  success when the contract rejects it; what it gives instead is stated here.
\<close>

section \<open>An update through the production operations\<close>

text \<open>The proxy of an organisation: the stored one, or the one remembered from its genesis.\<close>

definition proxy_of :: "'c World \<Rightarrow> OrgRecord \<Rightarrow> bytes32 option" where
  "proxy_of w r = (case or_proxy_account r of Some p \<Rightarrow> Some p | None \<Rightarrow> wd_proxy_map w (or_org_id r))"

text \<open>The contract's slots, in a state of the world.\<close>

definition world_slots :: "('c \<Rightarrow> ChainView) \<Rightarrow> 'c World \<Rightarrow> OrgId \<rightharpoonup> OrgState" where
  "world_slots view w = contract_slots (world_orgs view w)"

lemma resolved_update:
  assumes "proxy_of w r = Some p" and "or_org_id r = i"
  shows "subxt_submit_update N Q i root k e (or_proxy_account r) w = subxt_submit_update N Q i root k e (Some p) w"
  using assms by (auto simp: subxt_submit_update_def resolve_proxy_def proxy_of_def ok_or_def eff_bind_def
      split: option.splits)

lemma production_update:
  assumes node: "runs_contract N Q view" and p: "proxy_of w r = Some p" and i: "or_org_id r = OrgId a"
    and a: "a = h160_of (ce_keccak N) p"
    and run: "co_submit_update (subxt_chain_ops N Q) (OrgId a) root k e (or_proxy_account r) w = (q, w')"
  shows "q = Inr ()" and "world_orgs view w' =
      (case registry_update a root k (ucast e) (world_orgs view w) of
         Inr (orgs', ev) \<Rightarrow> if proxy_ready (view (wd_chain w)) p then orgs' else world_orgs view w
       | Inl err \<Rightarrow> world_orgs view w)"
proof -
  obtain w2 where "subxt_submit_update N Q (OrgId a) root k e (Some p) w = (Inr (), w2)"
    and "view (wd_chain w2) = view_update a p (build_update_calldata root k (ucast e)) (view (wd_chain w))"
    by (rule submit_update_runs [OF node]) (simp add: a)
  then show "q = Inr ()" and "world_orgs view w' =
      (case registry_update a root k (ucast e) (world_orgs view w) of
         Inr (orgs', ev) \<Rightarrow> if proxy_ready (view (wd_chain w)) p then orgs' else world_orgs view w
       | Inl err \<Rightarrow> world_orgs view w)"
    using run resolved_update [OF p i, of N Q root k e] by (simp_all add: subxt_chain_ops_def view_update_orgs)
qed

text \<open>The record after a story is in step with the contract exactly when the slot is the one planned.\<close>

lemma sync_iff_slot:
  assumes "find_org i (svc_data s) = Inr r" and "trie_from_snapshots S (or_trie_members r) = Inr t"
    and "root_hash t = Inr (RootHash (or_root_hash r))"
  shows "in_sync S slots_of i s \<longleftrightarrow> slots_of (sv_chain s) i =
     Some \<lparr>os_root_hash = RootHash (or_root_hash r), os_org_pub_key = or_org_pub_key r, os_epoch = or_epoch r\<rparr>"
  using assms by (auto simp: in_sync_def)

text \<open>
  C16 (admission on the production chain). Over the production operations on a node that runs the
  contract, a successful admission records the planned root at the next epoch. If the organisation's proxy
  is funded, mapped and the multisig's, and the contract accepts the update, its slot is the planned one
  and the record is in step. If the proxy is not ready or the contract rejects the update, the contract is
  unchanged and the administrator is not told: the record is in step only if the slot was the planned one
  already, and so it is not when the contract is at any epoch but the recorded one's successor.
\<close>

theorem production_admission:
  assumes "nfc_laws (svc_U S)" and "se_chain S = subxt_chain_ops N Q" and "runs_contract N Q view"
    and "find_org (OrgId a) (svc_data s) = Inr r" and "proxy_of (sv_chain s) r = Some p"
    and "a = h160_of (ce_keccak N) p" and "or_epoch r \<noteq> - 1"
    and "admit_member S (OrgId a) jr addr sec s = (Inr x, s')"
  shows "\<exists>r'. find_org (OrgId a) (svc_data s') = Inr r' \<and> or_epoch r' = or_epoch r + 1
    \<and> (\<forall>orgs' ev. proxy_ready (view (wd_chain (sv_chain s))) p
        \<and> registry_update a (or_root_hash r') (or_org_pub_key r) (ucast (or_epoch r)) (world_orgs view (sv_chain s))
            = Inr (orgs', ev) \<longrightarrow>
        world_orgs view (sv_chain s') = orgs' \<and> in_sync S (world_slots view) (OrgId a) s')
    \<and> (\<not> proxy_ready (view (wd_chain (sv_chain s))) p
        \<or> (\<exists>err. registry_update a (or_root_hash r') (or_org_pub_key r) (ucast (or_epoch r))
              (world_orgs view (sv_chain s)) = Inl err) \<longrightarrow>
        world_orgs view (sv_chain s') = world_orgs view (sv_chain s)
        \<and> (in_sync S (world_slots view) (OrgId a) s' \<longleftrightarrow>
              world_slots view (sv_chain s) (OrgId a) =
                Some \<lparr>os_root_hash = RootHash (or_root_hash r'), os_org_pub_key = or_org_pub_key r,
                      os_epoch = or_epoch r + 1\<rparr>))"
proof -
  obtain r0 t leaf t1 t2 root delta r' where
    r: "find_org (OrgId a) (svc_data s) = Inr r0" "trie_from_snapshots S (or_trie_members r0) = Inr t"
      "leaf_from_snapshot S (joiner_snapshot jr) = Inr leaf"
      "add_member (svc_U S) (svc_H S) t leaf = Inr t1" "recalculate (svc_H S) t1 = Inr (t2, delta)"
    and root: "root_hash t2 = Inr (RootHash root)"
    and r': "find_org (OrgId a) (svc_data s') = Inr r'"
      "r' = r0\<lparr>or_root_hash := root, or_epoch := or_epoch r0 + 1, or_last_seq := or_last_seq r0 + 1,
           or_trie_members := or_trie_members r0 @ [joiner_snapshot jr]\<rparr>"
    and sub: "co_submit_update (se_chain S) (OrgId a) root (or_org_pub_key r0) (or_epoch r0) (or_proxy_account r0) (sv_chain s)
        = (Inr (), sv_chain s')"
    by (rule admit_stages [OF assms(8)]) (rule that)
  have same: "r0 = r" using r(1) assms(4) by simp
  note up = production_update(2) [OF assms(3,5) find_org_id [OF assms(4)] assms(6) sub [unfolded assms(2) same]]
  obtain t' where t': "trie_from_snapshots S (or_trie_members r') = Inr t'" "root_hash t' = root_hash t2"
    by (rule rebuilt_push [OF assms(1) r(2-5)]) (simp add: r'(2))
  have sync: "in_sync S (world_slots view) (OrgId a) s' \<longleftrightarrow> world_slots view (sv_chain s') (OrgId a) =
      Some \<lparr>os_root_hash = RootHash root, os_org_pub_key = or_org_pub_key r, os_epoch = or_epoch r + 1\<rparr>"
    using sync_iff_slot [OF r'(1) t'(1)] t'(2) root r'(2) same by simp
  have planned: "contract_slots orgs' (OrgId a) =
        Some \<lparr>os_root_hash = RootHash root, os_org_pub_key = or_org_pub_key r, os_epoch = or_epoch r + 1\<rparr>"
    if "registry_update a root (or_org_pub_key r) (ucast (or_epoch r)) (world_orgs view (sv_chain s)) = Inr (orgs', ev)"
    for orgs' ev
    using that contract_slots_updated [OF assms(7), of "world_orgs view (sv_chain s)" a root "or_org_pub_key r"]
    unfolding registry_update_ok by auto
  show ?thesis
    using up r' sync same planned by (auto simp: world_slots_def split: sum.splits)
qed

section \<open>An administrator the contract has not heard of\<close>

text \<open>The contract before any genesis, while the record is at epoch 1 and its proxy is ready.\<close>

definition ex_new_world :: "ExNode World" where
  "ex_new_world = \<lparr>wd_chain = ex_node orgs_init {ex_org_proxy}, wd_now = 0, wd_proxy_map = [OrgId 5 \<mapsto> ex_org_proxy]\<rparr>"

abbreviation ex_production :: "(ExNode World, bytes list) ServiceEnv" where
  "ex_production \<equiv> ex_env_over (subxt_chain_ops ex_chain_env ex_ops) True (any_codec dw0) [] mw0"

definition ex_producer :: "(ExNode World, bytes list) OrgService" where
  "ex_producer = ex_service (ex_data ex_solo 0) ex_new_world []"

lemma ex_producer_simps [simp]:
  "svc_data ex_producer = ex_data ex_solo 0" "sv_endpoint ex_producer = None"
  "sv_transport_mode ex_producer = Loopback" "sv_chain ex_producer = ex_new_world" "sv_disk ex_producer = ex_disk"
  by (simp_all add: ex_producer_def ex_service_def service_new_def)

lemma ex_proxy_known:
  "proxy_of ex_new_world (ex_record xs r) = Some ex_org_proxy" "or_org_id (ex_record xs r) = OrgId 5"
  by (simp_all add: proxy_of_def ex_record_def ex_new_world_def)

lemma ex_production_admits:
  "\<exists>s'. admit_member ex_production (OrgId 5) ex_join ex_addr None ex_producer = (Inr 2, s')"
proof -
  let ?S = ex_production
  obtain root d t2 sroot e where plan: "\<And>ops up P xs mw r. plan_admission
        (ex_env_over ops up P xs mw :: (ExNode World, bytes list) ServiceEnv) (OrgId 5) ex_join (ex_data ex_solo r) =
        Inr (ex_record ex_solo r, SigningKeypair 1, MemberId 2, root, d)"
    by (rule ex_plans) (rule that)
  let ?r = "ex_record ex_solo 0"
  obtain q w' where sub: "co_submit_update (subxt_chain_ops ex_chain_env ex_ops) (OrgId 5) root (or_org_pub_key ?r)
      (or_epoch ?r) (or_proxy_account ?r) ex_new_world = (q, w')" by fastforce
  have q: "q = Inr ()"
    by (rule production_update(1) [OF ex_runs_contract ex_proxy_known ex_org_proxy_address sub])
  obtain s2 where s2: "deliver_admission ?S (OrgId 5) ex_join ex_addr None (?r, SigningKeypair 1, MemberId 2, root, d)
        (ex_producer\<lparr>sv_chain := w'\<rparr>) = (Inr (), s2)" "svc_data s2 = ex_data ex_solo 0" "sv_disk s2 = ex_disk"
    using ex_sends(1) [of "ex_producer\<lparr>sv_chain := w'\<rparr>" ex_solo 0 "subxt_chain_ops ex_chain_env ex_ops" dw0 "[]" mw0
      ex_addr None "MemberId 2" root d] by auto
  have epoch: "or_epoch ?r = 1" "or_last_seq ?r = 0" by (simp_all add: ex_record_def)
  show ?thesis
    using ex_records [OF s2(2,3), of "subxt_chain_ops ex_chain_env ex_ops"] plan s2(1) sub q
    by (simp add: admit_member_def on_chain_def eff_zoom_def eff_bind_def Let_def)
qed

theorem production_admission_witness:
  "\<exists>s' r'. admit_member ex_production (OrgId 5) ex_join ex_addr None ex_producer = (Inr 2, s')
    \<and> find_org (OrgId 5) (svc_data s') = Inr r' \<and> or_epoch r' = 2
    \<and> world_orgs fst (sv_chain s') = orgs_init \<and> \<not> in_sync ex_production (world_slots fst) (OrgId 5) s'"
proof -
  obtain s' where run: "admit_member ex_production (OrgId 5) ex_join ex_addr None ex_producer = (Inr 2, s')"
    using ex_production_admits by blast
  have rec: "find_org (OrgId 5) (svc_data ex_producer) = Inr (ex_record ex_solo 0)" by simp
  have reject: "\<exists>err. registry_update 5 root k (ucast (1 :: u64)) orgs_init = Inl err" for root k
    by (simp add: registry_update_def orgs_init_def Let_def)
  have epoch: "or_epoch (ex_record ex_solo 0) = 1" by (simp add: ex_record_def)
  have none: "world_slots fst ex_new_world (OrgId 5) = None" "world_orgs fst ex_new_world = orgs_init"
    by (simp_all add: world_slots_def ex_new_world_def ex_node_def contract_slots_def slot_state_def orgs_init_def)
  have known: "proxy_of (sv_chain ex_producer) (ex_record ex_solo 0) = Some ex_org_proxy" using ex_proxy_known by simp
  have "nfc_laws (svc_U ex_production)" and "or_epoch (ex_record ex_solo 0) \<noteq> - 1"
    using ex_nfc_laws by (simp_all add: epoch)
  note adm = production_admission [OF this(1) _ ex_runs_contract rec known ex_org_proxy_address this(2) run]
  have "se_chain ex_production = subxt_chain_ops ex_chain_env ex_ops" by simp
  from adm [OF this] reject obtain r' where "find_org (OrgId 5) (svc_data s') = Inr r'" "or_epoch r' = 2"
      "world_orgs fst (sv_chain s') = orgs_init" "\<not> in_sync ex_production (world_slots fst) (OrgId 5) s'"
    by (auto simp: epoch none)
  then show ?thesis using run by blast
qed

end
