(* ===== verification/Startup.thy ===== *)
theory Startup
  imports ChainWrite
begin

text \<open>
  The start of the desktop application (\<^verbatim>\<open>state.rs\<close>, \<^verbatim>\<open>lib.rs\<close> of \<^verbatim>\<open>app\<close>): the data directory, the
  store and the chain operations are chosen from environment variables, and the service is put behind
  a mutex in the managed state.

  The environment is a map from names to values. \<^verbatim>\<open>hex\<close>, connecting over subxt, the key pair of a
  seed, the runtime that drives the connection and the creation of directories are the parameters
  \<open>Hex\<close> and \<open>Boot\<close>. \<^verbatim>\<open>Box<dyn ChainOps>\<close> is the record of its methods. A panic is a value of \<open>Fault\<close>.
\<close>

section \<open>Hexadecimal text\<close>

record Hex =
  hex_encode :: "bytes \<Rightarrow> string"
  hex_decode :: "string \<Rightarrow> string + bytes"

text \<open>
  What is documented of the crate \<^verbatim>\<open>hex\<close>: encoding gives two lowercase digits per byte, decoding undoes
  it, and decoding gives a byte per two characters.
\<close>

definition hex_laws :: "Hex \<Rightarrow> bool" where
  "hex_laws X \<longleftrightarrow>
     (\<forall>bs. hex_decode X (hex_encode X bs) = Inr bs \<and> length (hex_encode X bs) = 2 * length bs
       \<and> set (hex_encode X bs) \<subseteq> set ''0123456789abcdef'')
     \<and> (\<forall>s bs. hex_decode X s = Inr bs \<longrightarrow> length s = 2 * length bs)"

text \<open>\<^verbatim>\<open>trim_start_matches("0x")\<close> removes every leading occurrence.\<close>

fun trim_0x :: "string \<Rightarrow> string" where
  "trim_0x (a # b # s) = (if a = CHR ''0'' \<and> b = CHR ''x'' then trim_0x s else a # b # s)"
| "trim_0x s = s"

datatype Fault = Err string | Panic string

text \<open>\<^verbatim>\<open>copy_from_slice\<close> into an array panics unless the lengths agree.\<close>

definition copy_from_slice :: "nat \<Rightarrow> bytes \<Rightarrow> Fault + 'a::len word" where
  "copy_from_slice n bs =
     (if length bs = n then Inr (of_be bs)
      else Inl (Panic ''copy_from_slice: source slice length does not match destination slice length''))"

section \<open>Errors as text\<close>

text \<open>
  \<^verbatim>\<open>to_string\<close> of the errors, from their \<^verbatim>\<open>#[error(..)]\<close> attributes. The \<^verbatim>\<open>Debug\<close> form of a character
  depends on Unicode tables and is the argument \<open>char_debug\<close>.
\<close>

fun handle_fault_text :: "(u32 \<Rightarrow> string) \<Rightarrow> HandleFault \<Rightarrow> string" where
  "handle_fault_text char_debug HandleEmpty = ''handle must not be empty''"
| "handle_fault_text char_debug HandleTooLong =
     ''handle exceeds '' @ show_nat MAX_HANDLE_LEN @ '' bytes after NFC normalization''"
| "handle_fault_text char_debug HandleUppercase = ''handle must be lowercase''"
| "handle_fault_text char_debug HandleDot = ''handle must not contain '' @ [CHR 0x27] @ ''.'' @ [CHR 0x27]"
| "handle_fault_text char_debug (HandleNotAllowed ch) =
     ''character '' @ char_debug ch @ '' not allowed by UTS#39''"
| "handle_fault_text char_debug HandleMixedScript = ''handle must not mix scripts''"

fun org_members_error_display :: "(u32 \<Rightarrow> string) \<Rightarrow> OrgMembersError \<Rightarrow> string" where
  "org_members_error_display cd DuplicateHandle = ''duplicate handle''"
| "org_members_error_display cd DuplicateId = ''duplicate member id''"
| "org_members_error_display cd IdNotFound = ''member id not found''"
| "org_members_error_display cd (InvalidHandle f) = ''invalid handle: '' @ handle_fault_text cd f"
| "org_members_error_display cd ConfusableHandle = ''confusable handle''"
| "org_members_error_display cd DuplicateDevice = ''duplicate device''"
| "org_members_error_display cd DeviceNotFound = ''device not found''"
| "org_members_error_display cd DeviceSlotsFull = ''device slots full (max 4)''"
| "org_members_error_display cd EmptyDeviceList = ''member must have at least one device''"
| "org_members_error_display cd OrgMembersError.DeltaBaseMismatch = ''delta base root mismatch''"
| "org_members_error_display cd VerificationFailed = ''verification failed''"
| "org_members_error_display cd SerializationError = ''serialization error''"
| "org_members_error_display cd HashesNotCalculated = ''hashes not calculated''"
| "org_members_error_display cd InvariantViolated = ''internal invariant violated''"
| "org_members_error_display cd (OrgMembersError.MalformedDelta m) = ''malformed delta: '' @ m"
| "org_members_error_display cd (FieldTooLong field mx) =
     ''field too long: '' @ field @ '' exceeds '' @ show_nat mx @ '' bytes after NFC normalization''"

fun org_node_error_display :: "(u32 \<Rightarrow> string) \<Rightarrow> OrgNodeError \<Rightarrow> string" where
  "org_node_error_display cd OrgIdMismatch = ''envelope org_id does not match the expected org''"
| "org_node_error_display cd BadSignature = ''envelope signature verification failed''"
| "org_node_error_display cd (StaleSeq got seen) =
     ''stale or replayed parent_seq: got '' @ show_nat (unat got) @ '', last seen '' @ show_nat (unat seen)"
| "org_node_error_display cd NodeMalformedDelta = ''envelope delta failed to decode''"
| "org_node_error_display cd NodeDeltaBaseMismatch = ''delta base_root does not match the local trie root''"
| "org_node_error_display cd OrgNotOnChain = ''no on-chain state found for org''"
| "org_node_error_display cd RootMismatch = ''recomputed root does not match the on-chain root''"
| "org_node_error_display cd (StaleEpoch got before) =
     ''on-chain epoch '' @ show_nat (unat got) @ '' is not newer than the last committed epoch ''
     @ show_nat (unat before)"
| "org_node_error_display cd (Chain m) = ''chain read failed: '' @ m"
| "org_node_error_display cd (NodeTrie e) = ''org-members error: '' @ org_members_error_display cd e"

section \<open>The managed state\<close>

type_synonym Vars = "string \<Rightarrow> string option"

record ('c, 'n) AppState =
  as_service :: "('c, 'n) OrgService"
  as_chain :: "'c ChainOps"
  as_chain_ready :: bool
  as_receiver_started :: bool

definition CHAIN_NOT_CONFIGURED :: string where
  "CHAIN_NOT_CONFIGURED = ''chain not configured: set ODS_CHAIN_WS, ODS_CONTRACT_H160, ODS_ADMIN_SEED''"

definition chain_not_configured :: "'c ChainOps" where
  "chain_not_configured =
     \<lparr>co_submit_genesis = (\<lambda>_ _. eff_fail (Chain CHAIN_NOT_CONFIGURED)),
      co_submit_update = (\<lambda>_ _ _ _ _. eff_fail (Chain CHAIN_NOT_CONFIGURED)),
      co_read_state = (\<lambda>_. eff_fail (Chain CHAIN_NOT_CONFIGURED))\<rparr>"

record ConnectionStatus =
  st_chain_configured :: bool
  st_chain_ws :: "string option"
  st_contract_h160 :: "string option"
  st_data_dir :: string

definition connection_status_from_state :: "Vars \<Rightarrow> string \<Rightarrow> bool \<Rightarrow> ConnectionStatus" where
  "connection_status_from_state vars data_dir chain_ready =
     \<lparr>st_chain_configured = chain_ready, st_chain_ws = vars ''ODS_CHAIN_WS'',
      st_contract_h160 = vars ''ODS_CONTRACT_H160'', st_data_dir = data_dir\<rparr>"

section \<open>Connecting to the chain\<close>

text \<open>The client of a URL brings its own storage queries, transactions and time.\<close>

record ('c, 'k) Boot =
  bt_from_url :: "string \<Rightarrow> ('c World, string, ('c, 'k) ChainEnv) effect"
  bt_scale :: ScaleDecode
  bt_keypair :: "bytes32 \<Rightarrow> string + 'k"
  bt_runtime :: "string + unit"
  bt_create_dir_all :: "string \<Rightarrow> string + unit"

definition connect_chain ::
  "('c, 'k) Boot \<Rightarrow> string \<Rightarrow> bytes20 \<Rightarrow> bytes32 \<Rightarrow> bytes32 list
     \<Rightarrow> ('c World, string, ('c, 'k) ChainEnv \<times> 'k SubxtChainOps) effect" where
  "connect_chain B ws_url contract_h160 admin_seed others =
     eff_bind (eff_map_err (\<lambda>e. ''subxt connect '' @ ws_url @ '': '' @ e) (bt_from_url B ws_url)) (\<lambda>api.
     eff_bind (eff_map_err (\<lambda>e. ''OrgRegistryClient: '' @ client_error_display e)
         (on_api (ce_timing api) (from_client (ce_subxt api) (bt_scale B) contract_h160))) (\<lambda>registry_client.
     eff_bind (eff_lift (map_err (\<lambda>e. ''admin Keypair: '' @ e) (bt_keypair B admin_seed))) (\<lambda>admin.
     eff_bind (eff_modify (\<lambda>w. w\<lparr>wd_proxy_map := Map.empty\<rparr>)) (\<lambda>_.
     eff_return (api, subxt_chain_ops_new registry_client contract_h160 admin others)))))"

definition var :: "Vars \<Rightarrow> string \<Rightarrow> Fault + string" where
  "var vars name = ok_or (vars name) (Err (name @ '' not set''))"

text \<open>A hexadecimal variable of fixed length, and the optional co-signer.\<close>

definition fixed_hex :: "Hex \<Rightarrow> string \<Rightarrow> nat \<Rightarrow> string \<Rightarrow> Fault + 'a::len word" where
  "fixed_hex X name n text =
     (let s = trim_0x text in
      if length s \<noteq> 2 * n
      then Inl (Err (name @ '' must be '' @ show_nat n @ '' bytes ('' @ show_nat (2 * n)
        @ '' hex chars), got '' @ show_nat (length s) @ '' chars''))
      else and_then (map_err (\<lambda>e. Err (name @ '' hex decode: '' @ e)) (hex_decode X s)) (copy_from_slice n))"

definition cosigners :: "Hex \<Rightarrow> string option \<Rightarrow> Fault + bytes32 list" where
  "cosigners X v =
     (case v of
        Some s \<Rightarrow>
          and_then (map_err (\<lambda>e. Err (''ODS_COSIGNER_PUB decode: '' @ e)) (hex_decode X (trim_0x s))) (\<lambda>bs.
          if length bs \<noteq> 32 then Inl (Err ''ODS_COSIGNER_PUB must be 32 bytes'')
          else and_then (copy_from_slice 32 bs) (\<lambda>a. Inr [a]))
      | None \<Rightarrow> Inr [])"

definition chain_config :: "Hex \<Rightarrow> Vars \<Rightarrow> Fault + (string \<times> bytes20 \<times> bytes32 \<times> bytes32 list)" where
  "chain_config X vars =
     and_then (var vars ''ODS_CHAIN_WS'') (\<lambda>ws_url.
     and_then (var vars ''ODS_CONTRACT_H160'') (\<lambda>h160_hex.
     and_then (var vars ''ODS_ADMIN_SEED'') (\<lambda>admin_seed_hex.
     and_then (fixed_hex X ''ODS_CONTRACT_H160'' 20 h160_hex) (\<lambda>contract_h160.
     and_then (fixed_hex X ''ODS_ADMIN_SEED'' 32 admin_seed_hex) (\<lambda>admin_seed.
     and_then (cosigners X (vars ''ODS_COSIGNER_PUB'')) (\<lambda>others.
     Inr (ws_url, contract_h160, admin_seed, others)))))))"

definition build_chain_ops ::
  "('c, 'k) Boot \<Rightarrow> Hex \<Rightarrow> Vars \<Rightarrow> ('c World, Fault, 'c World ChainOps) effect" where
  "build_chain_ops B X vars =
     eff_bind (eff_lift (chain_config X vars)) (\<lambda>(ws_url, contract_h160, admin_seed, others).
     eff_bind (eff_lift (map_err (\<lambda>e. Err (''tokio rt: '' @ e)) (bt_runtime B))) (\<lambda>_.
     eff_bind (eff_map_err Err (connect_chain B ws_url contract_h160 admin_seed others)) (\<lambda>(N, Q).
     eff_return (subxt_chain_ops N Q))))"

section \<open>Initialisation\<close>

text \<open>\<^verbatim>\<open>PathBuf::join\<close> with a relative name.\<close>

definition path_join :: "string \<Rightarrow> string \<Rightarrow> string" where
  "path_join dir name =
     (if dir = [] \<or> List.last dir = CHR ''/'' then dir @ name else dir @ ''/'' @ name)"

definition transport_mode_var :: "string option \<Rightarrow> TransportMode" where
  "transport_mode_var v = (if v = Some ''loopback'' then Loopback else Networked)"

text \<open>
  The operations of \<^verbatim>\<open>build_chain_ops\<close>, or the fallback on any of its errors. A panic stops the start.
\<close>

definition choose_chain ::
  "('c, 'k) Boot \<Rightarrow> Hex \<Rightarrow> Vars \<Rightarrow> ('c World, Fault, 'c World ChainOps \<times> bool) effect" where
  "choose_chain B X vars w =
     (case build_chain_ops B X vars w of
        (Inr ops, w') \<Rightarrow> (Inr (ops, True), w')
      | (Inl (Err _), w') \<Rightarrow> (Inr (chain_not_configured, False), w')
      | (Inl (Panic m), w') \<Rightarrow> (Inl (Panic m), w'))"

definition app_state_init ::
  "('c, 'k) Boot \<Rightarrow> Hex \<Rightarrow> Vars \<Rightarrow> (u32 \<Rightarrow> string) \<Rightarrow> Crypto \<Rightarrow> StoreData Codec \<Rightarrow> string \<Rightarrow> Disk \<Rightarrow> 'n \<Rightarrow> Rng
     \<Rightarrow> 'c World \<Rightarrow> Fault + ('c World, 'n) AppState" where
  "app_state_init B X vars char_debug K P tauri_data_dir disk net rng w =
     (let data_dir = (case vars ''ODS_DATA_DIR'' of Some d \<Rightarrow> d | None \<Rightarrow> tauri_data_dir) in
      and_then (map_err (\<lambda>e. Err (''create data_dir '' @ data_dir @ '': '' @ e))
          (bt_create_dir_all B data_dir)) (\<lambda>_.
      let store_path = path_join data_dir ''persona_store.bin'';
          passphrase = (case vars ''ODS_PASSPHRASE'' of Some p \<Rightarrow> p | None \<Rightarrow> ''ods-dev-default'') in
      and_then (map_err (\<lambda>e. Err (''open store: '' @ org_node_error_display char_debug e))
          (store_open K P disk store_path passphrase)) (\<lambda>store.
      let (r, w') = choose_chain B X vars w in
      and_then r (\<lambda>(chain, chain_ready).
      let service = set_transport_mode (transport_mode_var (vars ''ODS_TRANSPORT''))
            (service_new store disk w' net rng) in
      Inr \<lparr>as_service = service, as_chain = chain, as_chain_ready = chain_ready,
           as_receiver_started = False\<rparr>))))"

text \<open>The setup hook of \<^verbatim>\<open>run\<close>: an error of the initialisation is a panic.\<close>

definition app_setup ::
  "('c, 'k) Boot \<Rightarrow> Hex \<Rightarrow> Vars \<Rightarrow> (u32 \<Rightarrow> string) \<Rightarrow> Crypto \<Rightarrow> StoreData Codec \<Rightarrow> string + string \<Rightarrow> Disk
     \<Rightarrow> 'n \<Rightarrow> Rng \<Rightarrow> 'c World \<Rightarrow> Fault + ('c World, 'n) AppState" where
  "app_setup B X vars char_debug K P app_data_dir disk net rng w =
     (let dir = (case app_data_dir of Inr d \<Rightarrow> d | Inl _ \<Rightarrow> ''/tmp/ods-poc'') in
      map_err (\<lambda>f. case f of Err e \<Rightarrow> Panic (''AppState init failed: '' @ e) | Panic m \<Rightarrow> Panic m)
        (app_state_init B X vars char_debug K P dir disk net rng w))"

end
