(* ===== verification/Commands.thy ===== *)
theory Commands
  imports Startup
begin

text \<open>
  The commands of the desktop application (\<^verbatim>\<open>commands.rs\<close>) and the receiver task that one of them
  spawns.

  A command is an effect on the managed state. What it does before it locks the service (parsing its
  arguments) is a definition of its own, since it also runs while the lock is held elsewhere. The
  receiver task is modelled by its program points, between which it holds the lock or not; one
  iteration is \<open>receiver_outcome\<close>. Events that Tauri delivers to the window are values of \<open>AppEvent\<close>.
\<close>

record ('c, 'n) AppEnv =
  ae_service :: "('c, 'n) ServiceEnv"
  ae_hex :: Hex
  ae_vars :: Vars
  ae_char_debug :: "u32 \<Rightarrow> string"
  ae_app_data_dir :: "string + string"

type_synonym ('c, 'n, 'a) app = "(('c, 'n) AppState, Fault, 'a) effect"

definition error_text :: "('c, 'n) AppEnv \<Rightarrow> OrgNodeError \<Rightarrow> string" where
  "error_text A e = org_node_error_display (ae_char_debug A) e"

definition svc_env :: "('c, 'n) AppEnv \<Rightarrow> ('c, 'n) AppState \<Rightarrow> ('c, 'n) ServiceEnv" where
  "svc_env A a = (ae_service A)\<lparr>se_chain := as_chain a\<rparr>"

text \<open>A method of the locked service, its error as text.\<close>

definition locked ::
  "('c, 'n) AppEnv \<Rightarrow> (('c, 'n) ServiceEnv \<Rightarrow> ('c, 'n, 'a) svc) \<Rightarrow> ('c, 'n, 'a) app" where
  "locked A m a =
     eff_map_err (\<lambda>e. Err (error_text A e))
       (eff_zoom as_service (\<lambda>s a. a\<lparr>as_service := s\<rparr>) (m (svc_env A a))) a"

section \<open>Views\<close>

record PersonaDto =
  pd_persona_id :: string
  pd_org_id :: "string option"
  pd_handle :: RString
  pd_name :: RString
  pd_surname :: RString
  pd_status :: string

fun persona_status_debug :: "PersonaStatus \<Rightarrow> string" where
  "persona_status_debug Proposed = ''Proposed''"
| "persona_status_debug Active = ''Active''"
| "persona_status_debug Revoked = ''Revoked''"

definition persona_dto :: "Hex \<Rightarrow> PersonaRecord \<Rightarrow> PersonaDto" where
  "persona_dto X p =
     \<lparr>pd_persona_id = pr_persona_id p,
      pd_org_id = map_option (\<lambda>i. hex_encode X (org_id_as_bytes i)) (pr_org_id p),
      pd_handle = pr_handle p, pd_name = pr_name p, pd_surname = pr_surname p,
      pd_status = persona_status_debug (pr_status p)\<rparr>"

record OrgDto =
  od_org_id :: string
  od_epoch :: u64
  od_root_hash :: string
  od_member_count :: nat

definition org_dto :: "Hex \<Rightarrow> OrgRecord \<Rightarrow> OrgDto" where
  "org_dto X r =
     \<lparr>od_org_id = hex_encode X (org_id_as_bytes (or_org_id r)), od_epoch = or_epoch r,
      od_root_hash = hex_encode X (be_bytes 32 (or_root_hash r)),
      od_member_count = length (or_trie_members r)\<rparr>"

record JoinRequestDto =
  jd_handle :: RString
  jd_name :: RString
  jd_surname :: RString
  jd_member_key :: string
  jd_device_key :: string
  jd_has_node_addr :: bool
  jd_node_addr_blob :: string

definition join_request_dto :: "Hex \<Rightarrow> JoinRequest \<Rightarrow> JoinRequestDto" where
  "join_request_dto X jr =
     \<lparr>jd_handle = jr_handle jr, jd_name = jr_name jr, jd_surname = jr_surname jr,
      jd_member_key = hex_encode X (be_bytes 32 (jr_member_key jr)),
      jd_device_key = hex_encode X (be_bytes 32 (jr_device_key jr)),
      jd_has_node_addr = (jr_node_addr jr \<noteq> []), jd_node_addr_blob = hex_encode X (jr_node_addr jr)\<rparr>"

section \<open>Arguments\<close>

definition parse_org_id :: "Hex \<Rightarrow> string \<Rightarrow> Fault + OrgId" where
  "parse_org_id X text =
     (let s = trim_0x text in
      if length s \<noteq> 40 then Inl (Err (''org_id must be 40 hex chars, got '' @ show_nat (length s)))
      else
        and_then (map_err (\<lambda>e. Err (''org_id hex: '' @ e)) (hex_decode X s)) (\<lambda>bs.
        and_then (copy_from_slice 20 bs) (\<lambda>arr. Inr (OrgId arr))))"

definition decode_join_request :: "('c, 'n) AppEnv \<Rightarrow> string \<Rightarrow> Fault + JoinRequest" where
  "decode_join_request A blob =
     map_err (\<lambda>e. Err (error_text A e)) (import_join_request (ae_service A) blob)"

definition parse_org_secret :: "Hex \<Rightarrow> string option \<Rightarrow> Fault + bytes32 option" where
  "parse_org_secret X v =
     (case v of
        Some hex_str \<Rightarrow>
          and_then (map_err (\<lambda>e. Err (''org_secret hex: '' @ e)) (hex_decode X (trim_0x hex_str))) (\<lambda>bs.
          if length bs \<noteq> 32 then Inl (Err ''org_secret must be 32 bytes'')
          else and_then (copy_from_slice 32 bs) (\<lambda>a. Inr (Some a)))
      | None \<Rightarrow> Inr None)"

definition admit_args ::
  "('c, 'n) AppEnv \<Rightarrow> string \<Rightarrow> string \<Rightarrow> string option
     \<Rightarrow> Fault + (OrgId \<times> JoinRequest \<times> EndpointAddr \<times> bytes32 option)" where
  "admit_args A org_id join_request_blob org_secret_hex =
     and_then (parse_org_id (ae_hex A) org_id) (\<lambda>oid.
     and_then (decode_join_request A join_request_blob) (\<lambda>jr.
     and_then (map_err (\<lambda>e. Err (''node_addr decode (is the join_request_blob from a bound endpoint?): '' @ e))
         (from_bytes (se_addr_codec (ae_service A)) (jr_node_addr jr))) (\<lambda>peer_addr.
     and_then (parse_org_secret (ae_hex A) org_secret_hex) (\<lambda>org_secret.
     Inr (oid, jr, peer_addr, org_secret)))))"

definition revoke_args ::
  "('c, 'n) AppEnv \<Rightarrow> string \<Rightarrow> string \<Rightarrow> string \<Rightarrow> Fault + (OrgId \<times> bytes32 \<times> EndpointAddr)" where
  "revoke_args A org_id member_id_hex peer_addr_blob =
     and_then (parse_org_id (ae_hex A) org_id) (\<lambda>oid.
     and_then (map_err (\<lambda>e. Err (''member_id hex: '' @ e))
         (hex_decode (ae_hex A) (trim_0x member_id_hex))) (\<lambda>member_bytes.
     if length member_bytes \<noteq> 32 then Inl (Err ''member_id must be 32 bytes (64 hex chars)'')
     else
       and_then (copy_from_slice 32 member_bytes) (\<lambda>member_id.
       and_then (map_err (\<lambda>e. Err (''peer_addr_blob hex: '' @ e))
           (hex_decode (ae_hex A) (trim_0x peer_addr_blob))) (\<lambda>addr_bytes.
       and_then (map_err (\<lambda>e. Err (''peer_addr decode: '' @ e))
           (from_bytes (se_addr_codec (ae_service A)) addr_bytes)) (\<lambda>peer_addr.
       Inr (oid, member_id, peer_addr))))))"

section \<open>Commands\<close>

definition create_persona_cmd ::
  "('c, 'n) AppEnv \<Rightarrow> RString \<Rightarrow> RString \<Rightarrow> RString \<Rightarrow> ('c, 'n, string) app" where
  "create_persona_cmd A handle name surname = locked A (\<lambda>S. create_persona S handle name surname)"

definition create_organisation_cmd :: "('c, 'n) AppEnv \<Rightarrow> string \<Rightarrow> ('c, 'n, string) app" where
  "create_organisation_cmd A persona_id =
     eff_bind (locked A (\<lambda>S. create_organisation S persona_id)) (\<lambda>org_id.
     eff_return (hex_encode (ae_hex A) (org_id_as_bytes org_id)))"

definition export_invite_cmd :: "('c, 'n) AppEnv \<Rightarrow> string \<Rightarrow> ('c, 'n, string) app" where
  "export_invite_cmd A org_id =
     eff_bind (eff_lift (parse_org_id (ae_hex A) org_id)) (\<lambda>oid.
     locked A (\<lambda>S. export_invite S oid))"

definition import_invite_cmd :: "('c, 'n) AppEnv \<Rightarrow> string \<Rightarrow> ('c, 'n, string) app" where
  "import_invite_cmd A blob =
     eff_bind (locked A (\<lambda>S. import_invite S blob)) (\<lambda>inv.
     eff_return (hex_encode (ae_hex A) (org_id_as_bytes (inv_org_id inv))))"

definition export_join_request_cmd :: "('c, 'n) AppEnv \<Rightarrow> string \<Rightarrow> ('c, 'n, string) app" where
  "export_join_request_cmd A persona_id = locked A (\<lambda>S. export_join_request S persona_id)"

definition import_join_request_cmd :: "('c, 'n) AppEnv \<Rightarrow> string \<Rightarrow> ('c, 'n, JoinRequestDto) app" where
  "import_join_request_cmd A blob =
     eff_bind (eff_lift (decode_join_request A blob)) (\<lambda>jr.
     eff_return (join_request_dto (ae_hex A) jr))"

definition admit_member_cmd ::
  "('c, 'n) AppEnv \<Rightarrow> string \<Rightarrow> string \<Rightarrow> string option \<Rightarrow> ('c, 'n, string) app" where
  "admit_member_cmd A org_id join_request_blob org_secret_hex =
     eff_bind (eff_lift (admit_args A org_id join_request_blob org_secret_hex)) (\<lambda>(oid, jr, peer_addr, org_secret).
     eff_bind (locked A (\<lambda>S. admit_member S oid jr peer_addr org_secret)) (\<lambda>member_id.
     eff_return (hex_encode (ae_hex A) (be_bytes 32 member_id))))"

definition revoke_member_cmd :: "('c, 'n) AppEnv \<Rightarrow> string \<Rightarrow> string \<Rightarrow> string \<Rightarrow> ('c, 'n, unit) app" where
  "revoke_member_cmd A org_id member_id_hex peer_addr_blob =
     eff_bind (eff_lift (revoke_args A org_id member_id_hex peer_addr_blob)) (\<lambda>(oid, member_id, peer_addr).
     locked A (\<lambda>S. revoke_member S oid member_id peer_addr))"

definition list_personas_cmd :: "('c, 'n) AppEnv \<Rightarrow> ('c, 'n, PersonaDto list) app" where
  "list_personas_cmd A = eff_gets (\<lambda>a. map (persona_dto (ae_hex A)) (list_personas (as_service a)))"

definition list_orgs_cmd :: "('c, 'n) AppEnv \<Rightarrow> ('c, 'n, OrgDto list) app" where
  "list_orgs_cmd A = eff_gets (\<lambda>a. map (org_dto (ae_hex A)) (list_orgs (as_service a)))"

definition connection_status_cmd :: "('c, 'n) AppEnv \<Rightarrow> ('c, 'n, ConnectionStatus) app" where
  "connection_status_cmd A =
     eff_bind (eff_lift
       (case ae_vars A ''ODS_DATA_DIR'' of
          Some d \<Rightarrow> Inr d
        | None \<Rightarrow> map_err (\<lambda>e. Err (''app_data_dir: '' @ e)) (ae_app_data_dir A))) (\<lambda>data_dir.
     eff_bind (eff_gets as_chain_ready) (\<lambda>chain_ready.
     eff_return (connection_status_from_state (ae_vars A) data_dir chain_ready)))"

section \<open>The receiver task\<close>

datatype AppEvent =
    MembershipUpdated string u64 string
  | IncomingVerified string u64 string
  | RevokedEvent string
  | EpochChanged string u64
  | ReceiverError string

text \<open>The compare-and-exchange on the flag: whether this call spawns the task.\<close>

definition start_receiver_cmd :: "('c, 'n, bool) app" where
  "start_receiver_cmd a =
     (if as_receiver_started a then (Inr False, a) else (Inr True, a\<lparr>as_receiver_started := True\<rparr>))"

text \<open>\<^verbatim>\<open>str::contains\<close>.\<close>

fun str_contains :: "string \<Rightarrow> string \<Rightarrow> bool" where
  "str_contains pat [] = (pat = [])"
| "str_contains pat (c # s) = (take (length pat) (c # s) = pat \<or> str_contains pat s)"

text \<open>
  Waiting for the lock; holding it while receiving; waiting for it to read the record again; ended.
\<close>

datatype LoopPoint = AtLock | Receiving | Rereading OrgId | Ended

definition receiver_outcome ::
  "('c, 'n) AppEnv \<Rightarrow> OrgNodeError + SelfDeleteOutcome \<Rightarrow> AppEvent list \<times> LoopPoint" where
  "receiver_outcome A result =
     (case result of
        Inr (SelfDeleted org_id) \<Rightarrow>
          (let org_id_hex = hex_encode (ae_hex A) (org_id_as_bytes org_id)
           in ([RevokedEvent org_id_hex, EpochChanged org_id_hex 0], AtLock))
      | Inr (UpdatedNotRevoked org_id) \<Rightarrow> ([], Rereading org_id)
      | Inl e \<Rightarrow>
          (let msg = error_text A e
           in ([ReceiverError msg], if str_contains ''endpoint not bound'' msg then Ended else AtLock)))"

definition updated_events :: "('c, 'n) AppEnv \<Rightarrow> OrgId \<Rightarrow> ('c, 'n) OrgService \<Rightarrow> AppEvent list" where
  "updated_events A org_id s =
     (let (epoch, root) =
            (case find (\<lambda>r. or_org_id r = org_id) (list_orgs s) of
               Some r \<Rightarrow> (or_epoch r, hex_encode (ae_hex A) (be_bytes 32 (or_root_hash r)))
             | None \<Rightarrow> (0, []));
          org_id_hex = hex_encode (ae_hex A) (org_id_as_bytes org_id)
      in [MembershipUpdated org_id_hex epoch root, IncomingVerified org_id_hex epoch root,
          EpochChanged org_id_hex epoch])"

definition receive_locked :: "('c, 'n) AppEnv \<Rightarrow> ('c, 'n) AppState
    \<Rightarrow> (OrgNodeError + SelfDeleteOutcome) \<times> ('c, 'n) AppState" where
  "receive_locked A a =
     eff_zoom as_service (\<lambda>s a. a\<lparr>as_service := s\<rparr>) (receive_and_self_delete_if_revoked (svc_env A a)) a"

section \<open>The registered handlers\<close>

datatype AppCommand =
    CreatePersona RString RString RString
  | CreateOrganisation string
  | ExportInvite string
  | ImportInvite string
  | ExportJoinRequest string
  | ImportJoinRequest string
  | AdmitMember string string "string option"
  | RevokeMember string string string
  | ListPersonas
  | ListOrgs
  | ConnectionStatusCommand

datatype AppReply =
    TextReply string
  | UnitReply
  | JoinReply JoinRequestDto
  | PersonasReply "PersonaDto list"
  | OrgsReply "OrgDto list"
  | StatusReply ConnectionStatus

definition reply :: "('a \<Rightarrow> AppReply) \<Rightarrow> ('c, 'n, 'a) app \<Rightarrow> ('c, 'n, AppReply) app" where
  "reply f m = eff_bind m (\<lambda>x. eff_return (f x))"

text \<open>The handlers but \<^verbatim>\<open>start_receiver\<close>, whose task outlives the call.\<close>

fun run_command :: "('c, 'n) AppEnv \<Rightarrow> AppCommand \<Rightarrow> ('c, 'n, AppReply) app" where
  "run_command A (CreatePersona h n s) = reply TextReply (create_persona_cmd A h n s)"
| "run_command A (CreateOrganisation p) = reply TextReply (create_organisation_cmd A p)"
| "run_command A (ExportInvite i) = reply TextReply (export_invite_cmd A i)"
| "run_command A (ImportInvite b) = reply TextReply (import_invite_cmd A b)"
| "run_command A (ExportJoinRequest p) = reply TextReply (export_join_request_cmd A p)"
| "run_command A (ImportJoinRequest b) = reply JoinReply (import_join_request_cmd A b)"
| "run_command A (AdmitMember i b sec) = reply TextReply (admit_member_cmd A i b sec)"
| "run_command A (RevokeMember i m a) = reply (\<lambda>_. UnitReply) (revoke_member_cmd A i m a)"
| "run_command A ListPersonas = reply PersonasReply (list_personas_cmd A)"
| "run_command A ListOrgs = reply OrgsReply (list_orgs_cmd A)"
| "run_command A ConnectionStatusCommand = reply StatusReply (connection_status_cmd A)"

text \<open>Whether a command gets as far as locking the service.\<close>

fun locks_service :: "('c, 'n) AppEnv \<Rightarrow> AppCommand \<Rightarrow> bool" where
  "locks_service A (ExportInvite i) = (\<not> isl (parse_org_id (ae_hex A) i))"
| "locks_service A (AdmitMember i b sec) = (\<not> isl (admit_args A i b sec))"
| "locks_service A (RevokeMember i m a) = (\<not> isl (revoke_args A i m a))"
| "locks_service A (ImportJoinRequest b) = False"
| "locks_service A ConnectionStatusCommand = False"
| "locks_service A c = True"

end
