(* ===== verification/Receiver.thy ===== *)
theory Receiver
  imports Commands Receive
begin

text \<open>
  Runs of the desktop application: commands from the window interleaved with the receiver task, as a
  step relation over the managed state, the program points of the spawned tasks and the emitted events.

  The mutex around the service is the condition \<open>lock_free\<close>: a task at \<open>Receiving\<close> holds it, since it
  awaits the message with the guard in scope. \<open>outside\<close> lets the chain and the network change in
  any way between two steps.
\<close>

section \<open>Steps\<close>

record ('c, 'n) App =
  ap_state :: "('c, 'n) AppState"
  ap_loops :: "LoopPoint list"
  ap_events :: "AppEvent list"

definition app_start :: "('c, 'n) AppState \<Rightarrow> ('c, 'n) App" where
  "app_start a = \<lparr>ap_state = a, ap_loops = [], ap_events = []\<rparr>"

datatype AppLabel =
    Ran AppCommand "Fault + AppReply"
  | Spawned bool
  | Locked nat
  | Received nat "OrgNodeError + SelfDeleteOutcome"
  | Reread nat
  | Outside

definition lock_free :: "('c, 'n) App \<Rightarrow> bool" where
  "lock_free p \<longleftrightarrow> Receiving \<notin> set (ap_loops p)"

text \<open>What others do to the chain and the network.\<close>

definition outside_world :: "'c \<Rightarrow> 'n \<Rightarrow> ('c, 'n) AppState \<Rightarrow> ('c, 'n) AppState" where
  "outside_world c n a = a\<lparr>as_service := (as_service a)\<lparr>sv_chain := c, sv_net := n\<rparr>\<rparr>"

inductive app_step :: "('c, 'n) AppEnv \<Rightarrow> ('c, 'n) App \<Rightarrow> AppLabel \<Rightarrow> ('c, 'n) App \<Rightarrow> bool"
  for A where
  ran: "(locks_service A c \<longrightarrow> lock_free p) \<Longrightarrow> run_command A c (ap_state p) = (r, a)
    \<Longrightarrow> app_step A p (Ran c r) (p\<lparr>ap_state := a\<rparr>)"
| spawned: "start_receiver_cmd (ap_state p) = (Inr b, a)
    \<Longrightarrow> app_step A p (Spawned b)
          (p\<lparr>ap_state := a, ap_loops := ap_loops p @ (if b then [AtLock] else [])\<rparr>)"
| locked: "i < length (ap_loops p) \<Longrightarrow> ap_loops p ! i = AtLock \<Longrightarrow> lock_free p
    \<Longrightarrow> app_step A p (Locked i) (p\<lparr>ap_loops := (ap_loops p)[i := Receiving]\<rparr>)"
| received: "i < length (ap_loops p) \<Longrightarrow> ap_loops p ! i = Receiving
    \<Longrightarrow> receive_locked A (ap_state p) = (r, a) \<Longrightarrow> receiver_outcome A r = (evs, pt)
    \<Longrightarrow> app_step A p (Received i r)
          \<lparr>ap_state = a, ap_loops = (ap_loops p)[i := pt], ap_events = ap_events p @ evs\<rparr>"
| reread: "i < length (ap_loops p) \<Longrightarrow> ap_loops p ! i = Rereading org_id \<Longrightarrow> lock_free p
    \<Longrightarrow> app_step A p (Reread i) (p\<lparr>ap_loops := (ap_loops p)[i := AtLock],
          ap_events := ap_events p @ updated_events A org_id (as_service (ap_state p))\<rparr>)"
| outside: "app_step A p Outside (p\<lparr>ap_state := outside_world c n (ap_state p)\<rparr>)"

inductive_cases app_stepE: "app_step A p l p'"

inductive app_run :: "('c, 'n) AppEnv \<Rightarrow> ('c, 'n) App \<Rightarrow> AppLabel list \<Rightarrow> ('c, 'n) App \<Rightarrow> bool"
  for A where
  none: "app_run A p [] p"
| step: "app_step A p l p1 \<Longrightarrow> app_run A p1 ls p' \<Longrightarrow> app_run A p (l # ls) p'"

lemma app_run_append: "app_run A p ls p1 \<Longrightarrow> app_run A p1 ms p' \<Longrightarrow> app_run A p (ls @ ms) p'"
  by (induction rule: app_run.induct) (auto intro: app_run.step)

text \<open>An invariant of the steps holds along a run, and so does a property of the labels.\<close>

lemma app_run_keeps:
  assumes "app_run A p ls p'" and "I p"
    and "\<And>p l p1. I p \<Longrightarrow> app_step A p l p1 \<Longrightarrow> ok l \<Longrightarrow> I p1 \<and> Q l" and "\<forall>l\<in>set ls. ok l"
  shows "I p' \<and> (\<forall>l\<in>set ls. Q l)"
  using assms(1,2,4)
proof (induction rule: app_run.induct)
  case (step p l p1 ls p')
  then show ?case using assms(3) [OF step.prems(1) step.hyps(1)] by simp
qed simp

section \<open>What the steps leave alone\<close>

lemma locked_run:
  "locked A m a = (r, a') \<longleftrightarrow>
     (\<exists>q s. m (svc_env A a) (as_service a) = (q, s) \<and> r = map_err (\<lambda>e. Err (error_text A e)) q
        \<and> a' = a\<lparr>as_service := s\<rparr>)"
  by (auto simp: locked_def eff_map_err_def eff_zoom_def split: prod.splits)

lemma receive_locked_run:
  "receive_locked A a = (r, a') \<longleftrightarrow>
     (\<exists>s. receive_and_self_delete_if_revoked (svc_env A a) (as_service a) = (r, s) \<and> a' = a\<lparr>as_service := s\<rparr>)"
  by (auto simp: receive_locked_def eff_zoom_run)

text \<open>The service a command leaves behind; everything else of the managed state stays.\<close>

fun command_effect ::
  "('c, 'n) AppEnv \<Rightarrow> ('c, 'n) ServiceEnv \<Rightarrow> AppCommand \<Rightarrow> ('c, 'n) OrgService \<Rightarrow> ('c, 'n) OrgService" where
  "command_effect A S (CreatePersona h n x) s = snd (create_persona S h n x s)"
| "command_effect A S (CreateOrganisation p) s = snd (create_organisation S p s)"
| "command_effect A S (ExportInvite i) s =
     (case parse_org_id (ae_hex A) i of Inl _ \<Rightarrow> s | Inr oid \<Rightarrow> snd (export_invite S oid s))"
| "command_effect A S (ImportInvite b) s = snd (import_invite S b s)"
| "command_effect A S (ExportJoinRequest p) s = snd (export_join_request S p s)"
| "command_effect A S (AdmitMember i b sec) s =
     (case admit_args A i b sec of Inl _ \<Rightarrow> s
      | Inr (oid, jr, addr, sec) \<Rightarrow> snd (admit_member S oid jr addr sec s))"
| "command_effect A S (RevokeMember i m a) s =
     (case revoke_args A i m a of Inl _ \<Rightarrow> s
      | Inr (oid, member, addr) \<Rightarrow> snd (revoke_member S oid member addr s))"
| "command_effect A S c s = s"

lemmas command_defs =
  create_persona_cmd_def create_organisation_cmd_def export_invite_cmd_def import_invite_cmd_def
  export_join_request_cmd_def import_join_request_cmd_def admit_member_cmd_def revoke_member_cmd_def
  list_personas_cmd_def list_orgs_cmd_def connection_status_cmd_def

lemma locked_snd: "snd (locked A m a) = a\<lparr>as_service := snd (m (svc_env A a) (as_service a))\<rparr>"
  by (simp add: locked_def eff_map_err_def eff_zoom_def split: prod.splits)

lemma snd_bind_return: "(\<And>x. f x = eff_return (g x)) \<Longrightarrow> snd (eff_bind m f s) = snd (m s)"
  by (simp add: eff_bind_def split: prod.splits sum.splits)

lemma snd_bind_lift: "snd (eff_bind (eff_lift q) f s) = (case q of Inl e \<Rightarrow> s | Inr x \<Rightarrow> snd (f x s))"
  by (simp add: eff_bind_def split: sum.splits)

lemma run_command_effect:
  assumes "run_command A c a = (r, a')"
  shows "a' = a\<lparr>as_service := command_effect A (svc_env A a) c (as_service a)\<rparr>"
proof -
  have "snd (run_command A c a) = a\<lparr>as_service := command_effect A (svc_env A a) c (as_service a)\<rparr>"
    by (cases c)
      (auto simp: reply_def command_defs snd_bind_return snd_bind_lift locked_snd split: sum.splits prod.splits)
  then show ?thesis using assms by simp
qed

section \<open>Which organisations have a record\<close>

definition org_ids :: "('c, 'n) OrgService \<Rightarrow> OrgId set" where
  "org_ids s = set (map or_org_id (list_orgs s))"

definition orgs_within :: "('c, 'n) OrgService \<Rightarrow> ('c, 'n) OrgService \<Rightarrow> bool" where
  "orgs_within s s' \<longleftrightarrow> org_ids s' \<subseteq> org_ids s"

lemma orgs_within_order: "transp orgs_within" "reflp orgs_within"
  by (auto simp: orgs_within_def transp_def reflp_def)

lemma keeps_imp: "eff_keeps R m \<Longrightarrow> (\<And>s s'. R s s' \<Longrightarrow> Q s s') \<Longrightarrow> eff_keeps Q m"
  by (simp add: eff_keeps_def)

lemma same_node_orgs: "same_node s s' \<Longrightarrow> orgs_within s s'"
  by (simp add: same_node_def orgs_within_def org_ids_def list_orgs_def)

lemma orgs_within_steps:
  "eff_keeps orgs_within (svc_save S)" "eff_keeps orgs_within (on_chain m)"
  "(\<And>d. or_org_id ` set (sd_orgs (f d)) \<subseteq> or_org_id ` set (sd_orgs d)) \<Longrightarrow>
     eff_keeps orgs_within (eff_modify (svc_update_data f))"
proof -
  show "eff_keeps orgs_within (svc_save S)"
    by (simp add: eff_keeps_def svc_save_def Let_def orgs_within_def org_ids_def list_orgs_def split: prod.splits)
  show "eff_keeps orgs_within (on_chain m)"
    by (simp add: eff_keeps_def on_chain_def eff_zoom_def orgs_within_def org_ids_def list_orgs_def split: prod.splits)
  show "eff_keeps orgs_within (eff_modify (svc_update_data f))"
    if "\<And>d. or_org_id ` set (sd_orgs (f d)) \<subseteq> or_org_id ` set (sd_orgs d)"
    using that by (simp add: eff_keeps_def orgs_within_def org_ids_def list_orgs_def)
qed

lemma update_first_image: "(\<And>x. g (f x) = g x) \<Longrightarrow> g ` set (update_first Q f xs) = g ` set xs"
  by (induction xs) auto

lemma update_first_elem: "x \<in> set (update_first Q f xs) \<Longrightarrow> \<exists>y\<in>set xs. x = y \<or> x = f y"
  by (induction xs) (auto split: if_splits)

lemmas within_rules =
  eff_keeps_bind [OF orgs_within_order(1)] eff_keeps_pure [OF orgs_within_order(2)] eff_keeps_map_err
  orgs_within_steps(1,2) keeps_imp [OF deliver_keeps(1) same_node_orgs] keeps_imp [OF deliver_keeps(2) same_node_orgs]
  keeps_imp [OF receive_message_keeps same_node_orgs]

lemma draw_within: "eff_keeps orgs_within (\<lambda>s. let (kp, rng) = keypair_generate (sv_rng s) in (Inr kp, s\<lparr>sv_rng := rng\<rparr>))"
  by (simp add: eff_keeps_def orgs_within_def org_ids_def list_orgs_def split: prod.splits)

lemma encoded_within: "eff_keeps orgs_within (encoded_node_addr S)"
  by (simp add: eff_keeps_def encoded_node_addr_def orgs_within_def split: option.splits)

lemma record_and_save_within:
  "(\<And>r. or_org_id (f r) = or_org_id r) \<Longrightarrow> eff_keeps orgs_within (record_and_save S i f x)"
  unfolding record_and_save_def update_org_record_def
  by (intro within_rules orgs_within_steps(3)) (simp add: update_first_image)

lemma methods_within:
  "eff_keeps orgs_within (create_persona S h n x)"
  "eff_keeps orgs_within (export_invite S oid)"
  "eff_keeps orgs_within (import_invite S b)"
  "eff_keeps orgs_within (export_join_request S p)"
  by (auto simp: create_persona_def export_invite_def import_invite_def export_join_request_def Let_def
      case_prod_beta simp del: eff_bind_pure split: if_splits
      intro!: within_rules draw_within [unfolded case_prod_beta Let_def] encoded_within orgs_within_steps(3))

lemma changes_within:
  "eff_keeps orgs_within (admit_member S oid jr addr sec)"
  "eff_keeps orgs_within (revoke_member S oid member addr)"
  by (auto simp: admit_member_def revoke_member_def Let_def case_prod_beta
      intro!: within_rules record_and_save_within)

lemma receive_within: "eff_keeps orgs_within (receive_and_self_delete_if_revoked S)"
  by (auto simp: receive_and_self_delete_if_revoked_def Let_def case_prod_beta
      simp del: eff_bind_pure intro!: within_rules orgs_within_steps(3) dest!: update_first_elem)

lemma command_within:
  assumes "\<And>p. c \<noteq> CreateOrganisation p"
  shows "orgs_within s (command_effect A S c s)"
proof -
  have refl: "orgs_within s s" by (simp add: orgs_within_def)
  note ks = methods_within [unfolded eff_keeps_def, rule_format] changes_within [unfolded eff_keeps_def, rule_format]
  show ?thesis using assms refl ks by (cases c) (auto split: sum.splits prod.splits)
qed

section \<open>The service along a run\<close>

lemma app_step_service:
  assumes "app_step A p l p1"
  shows "as_chain (ap_state p1) = as_chain (ap_state p)"
    and "as_chain_ready (ap_state p1) = as_chain_ready (ap_state p)"
    and "case l of
        Ran c r \<Rightarrow> as_service (ap_state p1) = command_effect A (svc_env A (ap_state p)) c (as_service (ap_state p))
      | Received i r \<Rightarrow> receive_and_self_delete_if_revoked (svc_env A (ap_state p)) (as_service (ap_state p))
          = (r, as_service (ap_state p1))
      | Outside \<Rightarrow> \<exists>c n. as_service (ap_state p1) = (as_service (ap_state p))\<lparr>sv_chain := c, sv_net := n\<rparr>
      | _ \<Rightarrow> as_service (ap_state p1) = as_service (ap_state p)"
  using assms
  by (auto elim!: app_stepE dest!: run_command_effect simp: receive_locked_run outside_world_def
      start_receiver_cmd_def svc_env_def split: if_splits) (rule exI, rule exI, rule refl)

text \<open>One receive: the outcome names an organisation that has a record, and records only go.\<close>

lemma receive_known:
  assumes "receive_and_self_delete_if_revoked S s = (Inr out, s')"
  shows "\<exists>i\<in>org_ids s. out = SelfDeleted i \<or> out = UpdatedNotRevoked i"
proof -
  obtain dk msg s1 where rm: "receive_message S s = (Inr (dk, msg), s1)"
    and known: "\<exists>r. find_org (env_org_id (wm_envelope msg)) (svc_data s1) = Inr r"
    and out: "out = SelfDeleted (env_org_id (wm_envelope msg)) \<or> out = UpdatedNotRevoked (env_org_id (wm_envelope msg))"
    using assms
    by (auto simp: receive_and_self_delete_if_revoked_def Let_def effect_simps on_chain_run verify_known_org_def
        and_then_eq_Inr split: if_splits)
  have "svc_data s1 = svc_data s" using receive_message_frame [OF rm] by simp
  moreover obtain r where r: "find_org (env_org_id (wm_envelope msg)) (svc_data s1) = Inr r" using known by blast
  ultimately have "env_org_id (wm_envelope msg) \<in> org_ids s"
    by (auto simp: org_ids_def list_orgs_def find_org_ok find_Some_iff) (metis imageI nth_mem)
  then show ?thesis using out by blast
qed

lemma step_org_ids:
  assumes "app_step A p l p1" and "\<And>q r. l \<noteq> Ran (CreateOrganisation q) r"
  shows "org_ids (as_service (ap_state p1)) \<subseteq> org_ids (as_service (ap_state p))"
proof (cases l)
  case (Ran c r)
  then have "\<And>q. c \<noteq> CreateOrganisation q" using assms(2) by blast
  from command_within [OF this] show ?thesis
    using app_step_service(3) [OF assms(1)] Ran by (simp add: orgs_within_def)
next
  case (Received i r)
  then show ?thesis
    using app_step_service(3) [OF assms(1)] keeps_run [OF receive_within, unfolded orgs_within_def]
    by simp blast
next
  case Outside
  then show ?thesis using app_step_service(3) [OF assms(1)] by (auto simp: org_ids_def list_orgs_def)
qed (use app_step_service(3) [OF assms(1)] in simp_all)

section \<open>The receiver's place\<close>

text \<open>At most one task is ever spawned: none before the flag is set, one after.\<close>

definition one_receiver :: "('c, 'n) App \<Rightarrow> bool" where
  "one_receiver p \<longleftrightarrow> length (ap_loops p) = (if as_receiver_started (ap_state p) then 1 else 0)"

lemma step_one_receiver: "app_step A p l p1 \<Longrightarrow> one_receiver p \<Longrightarrow> one_receiver p1"
  by (auto elim!: app_stepE dest!: run_command_effect simp: one_receiver_def receive_locked_run
      outside_world_def start_receiver_cmd_def split: if_splits)

lemma step_ended:
  assumes "app_step A p l p1" and "i < length (ap_loops p)" and "ap_loops p ! i = Ended"
  shows "i < length (ap_loops p1) \<and> ap_loops p1 ! i = Ended"
  using assms by (auto elim!: app_stepE simp: nth_list_update nth_append split: if_splits)

text \<open>While the task waits for its message.\<close>

definition awaiting :: "('c, 'n) App \<Rightarrow> nat \<Rightarrow> bool" where
  "awaiting p i \<longleftrightarrow> i < length (ap_loops p) \<and> ap_loops p ! i = Receiving"

lemma awaiting_locked: "awaiting p i \<Longrightarrow> \<not> lock_free p"
  by (auto simp: awaiting_def lock_free_def) (metis nth_mem)

lemma unlocked_command_keeps: "\<not> locks_service A c \<Longrightarrow> command_effect A S c s = s"
  by (cases c) (auto split: sum.splits)

lemma step_awaiting:
  assumes "app_step A p l p1" and "awaiting p i" and "one_receiver p" and "\<And>j r. l \<noteq> Received j r"
  shows "awaiting p1 i" and "\<And>c r. l = Ran c r \<Longrightarrow> \<not> locks_service A c"
    and "sv_store (as_service (ap_state p1)) = sv_store (as_service (ap_state p))"
    and "sv_endpoint (as_service (ap_state p1)) = sv_endpoint (as_service (ap_state p))"
    and "sv_disk (as_service (ap_state p1)) = sv_disk (as_service (ap_state p))"
    and "ap_events p1 = ap_events p"
proof -
  show lk: "\<And>c r. l = Ran c r \<Longrightarrow> \<not> locks_service A c"
    using assms(1) awaiting_locked [OF assms(2)] by (auto elim: app_stepE)
  show "awaiting p1 i" and "ap_events p1 = ap_events p"
    using assms awaiting_locked [OF assms(2)] by (auto elim!: app_stepE simp: awaiting_def nth_append)
  show "sv_store (as_service (ap_state p1)) = sv_store (as_service (ap_state p))"
    and "sv_endpoint (as_service (ap_state p1)) = sv_endpoint (as_service (ap_state p))"
    and "sv_disk (as_service (ap_state p1)) = sv_disk (as_service (ap_state p))"
    using app_step_service(3) [OF assms(1)] assms(4) lk
    by (cases l; auto simp: unlocked_command_keeps)+
qed

section \<open>A node that is not bound yet\<close>

text \<open>Without organisations and without an endpoint, only receiving binds one.\<close>

definition unbound :: "('c, 'n) OrgService \<Rightarrow> bool" where
  "unbound s \<longleftrightarrow> list_orgs s = [] \<and> sv_endpoint s = None"

lemma no_orgs_find_org: "list_orgs s = [] \<Longrightarrow> find_org i (svc_data s) = Inl OrgNotOnChain"
  by (simp add: find_org_def list_orgs_def ok_or_def)

lemma list_orgs_nil: "list_orgs s = [] \<longleftrightarrow> org_ids s = {}"
  by (simp add: org_ids_def)

lemma no_orgs_stories:
  assumes "list_orgs s = []"
  shows "export_invite S i s = (Inl OrgNotOnChain, s)" and "admit_member S i jr addr sec s = (Inl OrgNotOnChain, s)"
    and "revoke_member S i m addr s = (Inl OrgNotOnChain, s)"
  using no_orgs_find_org [OF assms]
  by (simp_all add: export_invite_def admit_member_def revoke_member_def plan_admission_def plan_revocation_def
      load_admin_org_def Let_def)

lemma create_persona_endpoint: "sv_endpoint (snd (create_persona S h n x s)) = sv_endpoint s"
proof -
  let ?R = "\<lambda>s s'. sv_endpoint s' = sv_endpoint s"
  have order: "transp ?R" "reflp ?R" by (auto simp: transp_def reflp_def)
  have "eff_keeps ?R (create_persona S h n x)"
    by (auto simp: create_persona_def Let_def case_prod_beta simp del: eff_bind_pure
        intro!: eff_keeps_bind [OF order(1)] eff_keeps_pure [OF order(2)])
      (auto simp: eff_keeps_def svc_save_def Let_def split: prod.splits)
  then show ?thesis by (simp add: eff_keeps_def)
qed

lemma import_invite_endpoint: "sv_endpoint (snd (import_invite S b s)) = sv_endpoint s"
proof -
  let ?R = "\<lambda>s s'. sv_endpoint s' = sv_endpoint s"
  have order: "transp ?R" "reflp ?R" by (auto simp: transp_def reflp_def)
  have "eff_keeps ?R (import_invite S b)"
    by (auto simp: import_invite_def Let_def simp del: eff_bind_pure
        intro!: eff_keeps_bind [OF order(1)] eff_keeps_pure [OF order(2)])
      (auto simp: eff_keeps_def svc_save_def Let_def split: prod.splits)
  then show ?thesis by (simp add: eff_keeps_def)
qed

lemma export_join_request_state: "snd (export_join_request S p s) = s"
  by (simp add: export_join_request_def Let_def encoded_node_addr_def eff_bind_def find_persona_def
      split: option.splits sum.splits prod.splits)

lemma unbound_command:
  assumes "unbound s" and "\<And>p. c \<noteq> CreateOrganisation p"
  shows "unbound (command_effect A S c s)"
proof -
  have "orgs_within s (command_effect A S c s)" by (rule command_within) (rule assms(2))
  then have "list_orgs (command_effect A S c s) = []"
    using assms(1) by (simp add: unbound_def orgs_within_def list_orgs_nil)
  moreover have "sv_endpoint (command_effect A S c s) = sv_endpoint s"
    using assms no_orgs_stories [of s]
    by (cases c) (auto simp: unbound_def create_persona_endpoint import_invite_endpoint
        export_join_request_state split: sum.splits)
  ultimately show ?thesis using assms(1) by (simp add: unbound_def)
qed

text \<open>Its join request has no address.\<close>

lemma unbound_join_request:
  assumes "unbound s" and "export_join_request S p s = (Inr blob, s')"
  obtains jr where "blob_encode (se_base64 S) (se_join_codec S) jr = Inr blob" and "jr_node_addr jr = []"
proof -
  have none: "sv_endpoint s = None" using assms(1) by (simp add: unbound_def)
  have "\<exists>jr. blob_encode (se_base64 S) (se_join_codec S) jr = Inr blob \<and> jr_node_addr jr = []"
    using assms(2) none
    by (auto simp: export_join_request_def Let_def effect_simps encoded_node_addr_def)
  then show ?thesis using that by blast
qed

lemma step_unbound:
  assumes "app_step A p l p1" and "unbound (as_service (ap_state p))"
    and "\<And>q r. l \<noteq> Ran (CreateOrganisation q) r" and "\<And>i r. l \<noteq> Received i r"
  shows "unbound (as_service (ap_state p1))"
proof (cases l)
  case (Ran c r)
  then have "\<And>q. c \<noteq> CreateOrganisation q" using assms(3) by blast
  from unbound_command [OF assms(2) this] show ?thesis
    using app_step_service(3) [OF assms(1)] Ran by simp
next
  case Outside
  then show ?thesis using app_step_service(3) [OF assms(1)] assms(2) by (auto simp: unbound_def list_orgs_def)
qed (use app_step_service(3) [OF assms(1)] assms in simp_all)

section \<open>An application without a chain\<close>

definition same_orgs :: "('c, 'n) OrgService \<Rightarrow> ('c, 'n) OrgService \<Rightarrow> bool" where
  "same_orgs s s' \<longleftrightarrow> list_orgs s' = list_orgs s"

lemma same_orgs_order: "transp same_orgs" "reflp same_orgs"
  by (auto simp: same_orgs_def transp_def reflp_def)

lemma same_node_same_orgs: "same_node s s' \<Longrightarrow> same_orgs s s'"
  by (simp add: same_node_def same_orgs_def list_orgs_def)

lemma same_orgs_steps:
  "eff_keeps same_orgs (svc_save S)" "eff_keeps same_orgs (on_chain m)"
  "eff_keeps same_orgs (encoded_node_addr S)"
  "eff_keeps same_orgs (\<lambda>s. let (kp, rng) = keypair_generate (sv_rng s) in (Inr kp, s\<lparr>sv_rng := rng\<rparr>))"
  "(\<And>d. sd_orgs (f d) = sd_orgs d) \<Longrightarrow> eff_keeps same_orgs (eff_modify (svc_update_data f))"
  by (auto simp: eff_keeps_def svc_save_def Let_def same_orgs_def list_orgs_def on_chain_def eff_zoom_def
      encoded_node_addr_def split: prod.splits option.splits)

lemmas same_orgs_rules =
  eff_keeps_bind [OF same_orgs_order(1)] eff_keeps_pure [OF same_orgs_order(2)] eff_keeps_map_err
  same_orgs_steps(1-3) same_orgs_steps(4) [unfolded Let_def case_prod_beta] same_orgs_steps(5)
  keeps_imp [OF receive_message_keeps same_node_same_orgs]

lemma on_chain_fail: "on_chain (eff_fail e) = eff_fail e"
  by (rule ext) (simp add: on_chain_def eff_zoom_def)

lemma eff_bind_fail: "eff_bind (eff_fail e) f = eff_fail e"
  by (rule ext) simp

lemma chainless_simps:
  "co_submit_genesis chain_not_configured r k = eff_fail (Chain CHAIN_NOT_CONFIGURED)"
  "co_submit_update chain_not_configured i r k e pa = eff_fail (Chain CHAIN_NOT_CONFIGURED)"
  "co_read_state chain_not_configured i = eff_fail (Chain CHAIN_NOT_CONFIGURED)"
  by (simp_all add: chain_not_configured_def)

lemma chainless_keeps:
  assumes "se_chain S = chain_not_configured"
  shows "eff_keeps same_orgs (create_organisation S p)" and "eff_keeps same_orgs (admit_member S oid jr addr sec)"
    and "eff_keeps same_orgs (revoke_member S oid member addr)"
    and "eff_keeps same_orgs (receive_and_self_delete_if_revoked S)"
  by (auto simp: create_organisation_def admit_member_def revoke_member_def receive_and_self_delete_if_revoked_def
      assms chainless_simps on_chain_fail eff_bind_fail Let_def case_prod_beta simp del: eff_bind_pure
      intro!: same_orgs_rules)

lemma chainless_fails:
  assumes "se_chain S = chain_not_configured"
  shows "create_organisation S p s \<noteq> (Inr i, s')" and "admit_member S oid jr addr sec s \<noteq> (Inr m, s')"
    and "revoke_member S oid member addr s \<noteq> (Inr u, s')"
    and "receive_and_self_delete_if_revoked S s \<noteq> (Inr out, s')"
  by (auto simp: create_organisation_def admit_member_def revoke_member_def receive_and_self_delete_if_revoked_def
      assms chainless_simps on_chain_fail eff_bind_fail Let_def case_prod_beta effect_simps)

lemma data_methods_same_orgs:
  "eff_keeps same_orgs (create_persona S h n x)" "eff_keeps same_orgs (export_invite S oid)"
  "eff_keeps same_orgs (import_invite S b)" "eff_keeps same_orgs (export_join_request S q)"
  by (auto simp: create_persona_def export_invite_def import_invite_def export_join_request_def Let_def
      case_prod_beta simp del: eff_bind_pure split: if_splits intro!: same_orgs_rules)

lemma chainless_command:
  assumes "se_chain S = chain_not_configured"
  shows "same_orgs s (command_effect A S c s)"
proof -
  have refl: "same_orgs s s" by (simp add: same_orgs_def)
  note ks = chainless_keeps [OF assms, unfolded eff_keeps_def, rule_format]
    data_methods_same_orgs [unfolded eff_keeps_def, rule_format]
  show ?thesis using refl ks by (cases c) (auto split: sum.splits prod.splits)
qed

lemma locked_ok:
  "locked A m a = (Inr x, a') \<longleftrightarrow>
     (\<exists>s. m (svc_env A a) (as_service a) = (Inr x, s) \<and> a' = a\<lparr>as_service := s\<rparr>)"
  by (auto simp: locked_def eff_map_err_ok eff_zoom_run)

text \<open>The commands that need the chain.\<close>

fun needs_chain :: "AppCommand \<Rightarrow> bool" where
  "needs_chain (CreateOrganisation p) = True"
| "needs_chain (AdmitMember i b sec) = True"
| "needs_chain (RevokeMember i m a) = True"
| "needs_chain c = False"

lemma chainless_command_fails:
  assumes "as_chain a = chain_not_configured" and "needs_chain c"
  shows "run_command A c a \<noteq> (Inr r, a')"
proof -
  have "se_chain (svc_env A a) = chain_not_configured" by (simp add: svc_env_def assms(1))
  note fails = chainless_fails [OF this]
  show ?thesis
    using assms(2) fails
    by (cases c) (auto simp: reply_def command_defs effect_simps locked_ok)
qed

lemma step_chainless:
  assumes "app_step A p l p1" and "as_chain (ap_state p) = chain_not_configured"
  shows "list_orgs (as_service (ap_state p1)) = list_orgs (as_service (ap_state p))"
    and "\<And>c r. l = Ran c (Inr r) \<Longrightarrow> \<not> needs_chain c" and "\<And>i r. l = Received i r \<Longrightarrow> isl r"
proof -
  have S: "se_chain (svc_env A (ap_state p)) = chain_not_configured" by (simp add: svc_env_def assms(2))
  show "list_orgs (as_service (ap_state p1)) = list_orgs (as_service (ap_state p))"
  proof (cases l)
    case (Received i r)
    then show ?thesis
      using app_step_service(3) [OF assms(1)] keeps_run [OF chainless_keeps(4) [OF S], unfolded same_orgs_def] by simp
  qed (use app_step_service(3) [OF assms(1)] chainless_command [OF S] in \<open>auto simp: same_orgs_def list_orgs_def\<close>)
  show "\<not> needs_chain c" if "l = Ran c (Inr r)" for c r
    using assms(1) that chainless_command_fails [OF assms(2)] by (auto elim: app_stepE)
  show "isl r" if "l = Received i r" for i r
    using app_step_service(3) [OF assms(1)] that chainless_fails(4) [OF S] by (cases r) auto
qed

section \<open>A receiver without a persona\<close>

lemma receive_without_persona:
  assumes "list_personas s = []"
  shows "receive_and_self_delete_if_revoked S s = (Inl (Chain NO_PERSONA), s)"
  using assms by (simp add: receive_and_self_delete_if_revoked_def receive_message_def list_personas_def eff_bind_def)

end
