(* ===== verification/App.thy ===== *)
theory App
  imports Receiver Deliveries Chain
begin

text \<open>
  The theorems of the desktop application: what its start configures, what its commands and its
  receiver can and cannot do along every run, and the round trip of the identifiers it prints. With a
  concrete application at which their hypotheses are met, over the concrete service of the stories.
\<close>

section \<open>A concrete application\<close>

definition digit_value :: "char \<Rightarrow> nat option" where
  "digit_value c = find (\<lambda>d. digit_char d = c) [0..<16]"

fun unhex :: "string \<Rightarrow> string + bytes" where
  "unhex [] = Inr []"
| "unhex [c] = Inl ''Odd number of digits''"
| "unhex (c # d # s) =
     (case (digit_value c, digit_value d) of
        (Some a, Some b) \<Rightarrow> and_then (unhex s) (\<lambda>bs. Inr (of_nat (16 * a + b) # bs))
      | _ \<Rightarrow> Inl ''Invalid character'')"

definition ex_hex :: Hex where
  "ex_hex = \<lparr>hex_encode = (\<lambda>bs. concat (map hex_byte bs)), hex_decode = unhex\<rparr>"

lemma digit_value_char: "d < 16 \<Longrightarrow> digit_value (digit_char d) = Some d"
proof -
  assume "d < 16"
  then have "d \<in> set [0..<16]" by simp
  moreover have "\<forall>d\<in>set [0..<16]. digit_value (digit_char d) = Some d" by code_simp
  ultimately show ?thesis by blast
qed

lemma digit_char_set: "d < 16 \<Longrightarrow> digit_char d \<in> set ''0123456789abcdef''"
  unfolding digit_char_def by (rule nth_mem) simp

lemma unhex_byte: "unhex (hex_byte b @ s) = and_then (unhex s) (\<lambda>bs. Inr (b # bs))"
proof -
  have small: "unat b < 256" using unsigned_less [of b] by simp
  then have "digit_value (digit_char (unat b div 16)) = Some (unat b div 16)"
    and "digit_value (digit_char (unat b mod 16)) = Some (unat b mod 16)"
    by (simp_all add: digit_value_char)
  moreover have "(of_nat (16 * (unat b div 16) + unat b mod 16) :: u8) = b"
    unfolding mult_div_mod_eq by simp
  ultimately show ?thesis by (simp add: hex_byte_def)
qed

lemma unhex_length: "unhex s = Inr bs \<Longrightarrow> length s = 2 * length bs"
  by (induction s arbitrary: bs rule: unhex.induct) (auto simp: and_then_eq_Inr split: option.splits)

lemma ex_hex_laws: "hex_laws ex_hex"
proof -
  have "unhex (concat (map hex_byte bs)) = Inr bs" for bs by (induction bs) (simp_all add: unhex_byte)
  moreover have "length (concat (map hex_byte bs)) = 2 * length bs" for bs
    by (induction bs) (simp_all add: hex_byte_def)
  moreover have "set (concat (map hex_byte bs)) \<subseteq> set ''0123456789abcdef''" for bs
  proof (induction bs)
    case (Cons b bs)
    have "unat b < 256" using unsigned_less [of b] by simp
    then have "set (hex_byte b) \<subseteq> set ''0123456789abcdef''"
      using digit_char_set [of "unat b div 16"] digit_char_set [of "unat b mod 16"] by (simp add: hex_byte_def)
    then show ?case using Cons by simp
  qed simp
  ultimately show ?thesis using unhex_length by (simp add: hex_laws_def ex_hex_def)
qed

section \<open>Identifiers as text\<close>

lemma trim_0x_other: "(\<And>r. s \<noteq> CHR ''0'' # CHR ''x'' # r) \<Longrightarrow> trim_0x s = s"
  by (cases s rule: trim_0x.cases) auto

lemma trim_0x_hex: "hex_laws X \<Longrightarrow> trim_0x (hex_encode X bs) = hex_encode X bs"
proof (rule trim_0x_other)
  fix r
  assume "hex_laws X"
  then have "set (hex_encode X bs) \<subseteq> set ''0123456789abcdef''" by (simp add: hex_laws_def)
  then show "hex_encode X bs \<noteq> CHR ''0'' # CHR ''x'' # r" by auto
qed

lemma parse_org_id_cases:
  assumes "hex_laws X"
  shows "parse_org_id X text =
    (if length (trim_0x text) \<noteq> 40 then Inl (Err (''org_id must be 40 hex chars, got '' @ show_nat (length (trim_0x text))))
     else case hex_decode X (trim_0x text) of
       Inl e \<Rightarrow> Inl (Err (''org_id hex: '' @ e)) | Inr bs \<Rightarrow> Inr (OrgId (of_be bs)))"
proof -
  have "length s = 2 * length bs" if "hex_decode X s = Inr bs" for s bs
    using assms that by (simp add: hex_laws_def)
  then show ?thesis
    by (auto simp: parse_org_id_def Let_def copy_from_slice_def split: sum.splits)
qed

section \<open>Runs of the concrete application\<close>

definition ex_app_env :: "('c, 'n) ServiceEnv \<Rightarrow> ('c, 'n) AppEnv" where
  "ex_app_env S = \<lparr>ae_service = S, ae_hex = ex_hex, ae_vars = Map.empty, ae_char_debug = (\<lambda>_. []),
     ae_app_data_dir = Inr ''/tmp/ods-poc''\<rparr>"

definition ex_app_state :: "('c, 'n) OrgService \<Rightarrow> 'c ChainOps \<Rightarrow> ('c, 'n) AppState" where
  "ex_app_state s ops = \<lparr>as_service = s, as_chain = ops, as_chain_ready = True, as_receiver_started = False\<rparr>"

text \<open>Starting the receiver, and the lock it takes.\<close>

definition app_listening :: "('c, 'n) AppState \<Rightarrow> ('c, 'n) App" where
  "app_listening a = \<lparr>ap_state = a\<lparr>as_receiver_started := True\<rparr>, ap_loops = [Receiving], ap_events = []\<rparr>"

lemma app_listens:
  assumes "\<not> as_receiver_started a"
  shows "app_run A (app_start a) [Spawned True, Locked 0] (app_listening a)"
proof -
  have s: "app_step A (app_start a) (Spawned True)
      \<lparr>ap_state = a\<lparr>as_receiver_started := True\<rparr>, ap_loops = [AtLock], ap_events = []\<rparr>"
    using app_step.spawned [of "app_start a" True "a\<lparr>as_receiver_started := True\<rparr>" A] assms
    by (simp add: app_start_def start_receiver_cmd_def)
  have "app_step A \<lparr>ap_state = a\<lparr>as_receiver_started := True\<rparr>, ap_loops = [AtLock], ap_events = []\<rparr>
      (Locked 0) (app_listening a)"
    using app_step.locked [of 0 "\<lparr>ap_state = a\<lparr>as_receiver_started := True\<rparr>, ap_loops = [AtLock], ap_events = []\<rparr>" A]
    by (simp add: app_listening_def lock_free_def)
  then show ?thesis using s by (blast intro: app_run.intros)
qed

lemma app_receives:
  assumes "receive_and_self_delete_if_revoked (svc_env A a) (as_service a) = (Inl e, s')"
    and "\<not> str_contains ''endpoint not bound'' (error_text A e)"
  shows "app_step A (app_listening a) (Received 0 (Inl e))
     \<lparr>ap_state = a\<lparr>as_service := s', as_receiver_started := True\<rparr>, ap_loops = [AtLock],
      ap_events = [ReceiverError (error_text A e)]\<rparr>"
  using assms app_step.received [of 0 "app_listening a" A "Inl e" "a\<lparr>as_service := s', as_receiver_started := True\<rparr>"
      "[ReceiverError (error_text A e)]" AtLock]
  by (simp add: app_listening_def receive_locked_run receiver_outcome_def svc_env_def)

section \<open>The receiver\<close>

lemma step_count:
  "app_step A p l p1 \<Longrightarrow> length (ap_loops p1) = length (ap_loops p) + (if l = Spawned True then 1 else 0)"
  by (auto elim!: app_stepE split: if_splits)

lemma run_count:
  "app_run A p ls p' \<Longrightarrow> length (ap_loops p') = length (ap_loops p) + length (filter (\<lambda>l. l = Spawned True) ls)"
  by (induction rule: app_run.induct) (auto dest!: step_count)

lemma run_one_receiver: "app_run A p ls p' \<Longrightarrow> one_receiver p \<Longrightarrow> one_receiver p'"
  by (induction rule: app_run.induct) (auto dest: step_one_receiver)

lemma start_one_receiver: "\<not> as_receiver_started a \<Longrightarrow> one_receiver (app_start a)"
  by (simp add: one_receiver_def app_start_def)

lemma run_ended:
  "app_run A p ls p' \<Longrightarrow> i < length (ap_loops p) \<Longrightarrow> ap_loops p ! i = Ended
    \<Longrightarrow> i < length (ap_loops p') \<and> ap_loops p' ! i = Ended"
  by (induction rule: app_run.induct) (use step_ended in blast)+

text \<open>
  C24 (one receiver). Whatever is called and however often, an application that starts without a receiver
  spawns at most one receiver task, exactly when the flag is set; and a task that has ended is never
  replaced: from then on every start of the receiver spawns nothing and there is no task.
\<close>

theorem receiver_runs_once:
  assumes "app_run A (app_start a) ls p" and "\<not> as_receiver_started a"
  shows "length (filter (\<lambda>l. l = Spawned True) ls) \<le> 1
    \<and> length (ap_loops p) = length (filter (\<lambda>l. l = Spawned True) ls)
    \<and> (as_receiver_started (ap_state p) \<longleftrightarrow> Spawned True \<in> set ls)
    \<and> (\<forall>ms p'. Ended \<in> set (ap_loops p) \<and> app_run A p ms p' \<longrightarrow>
         ap_loops p' = [Ended] \<and> Spawned True \<notin> set ms)"
proof -
  note one = run_one_receiver [OF assms(1) start_one_receiver [OF assms(2)]]
  have count: "length (ap_loops p) = length (filter (\<lambda>l. l = Spawned True) ls)"
    using run_count [OF assms(1)] by (simp add: app_start_def)
  moreover have "length (ap_loops p) \<le> 1" using one by (simp add: one_receiver_def)
  moreover have "length (filter (\<lambda>l. l = Spawned True) ls) = 0 \<longleftrightarrow> Spawned True \<notin> set ls"
    by (auto simp: filter_empty_conv)
  then have "as_receiver_started (ap_state p) \<longleftrightarrow> Spawned True \<in> set ls"
    using one count by (metis one_receiver_def zero_neq_one)
  moreover have "ap_loops p' = [Ended] \<and> Spawned True \<notin> set ms"
    if e: "Ended \<in> set (ap_loops p)" and run: "app_run A p ms p'" for ms p'
  proof -
    have "ap_loops p = [Ended]"
      using e one by (cases "ap_loops p") (auto simp: one_receiver_def split: if_splits)
    moreover have "length (ap_loops p') \<le> 1"
      using run_one_receiver [OF run one] by (simp add: one_receiver_def)
    ultimately have "length (ap_loops p') = 1" "ap_loops p' ! 0 = Ended"
      "length (filter (\<lambda>l. l = Spawned True) ms) = 0"
      using run_ended [OF run, of 0] run_count [OF run] by auto
    then show ?thesis by (cases "ap_loops p'") (auto simp: filter_empty_conv)
  qed
  ultimately show ?thesis by auto
qed

theorem receiver_runs_once_witness:
  "length (filter (\<lambda>l. l = Spawned True) [Spawned True, Locked 0]) \<le> 1
    \<and> as_receiver_started (ap_state (app_listening (ex_app_state (ex_device [] 1) mock_chain_ops)))"
  using receiver_runs_once [OF app_listens [of "ex_app_state (ex_device [] 1) mock_chain_ops" "ex_app_env ex_receiver"]]
  by (simp add: ex_app_state_def)

text \<open>
  C17 (the receiver keeps the lock). While the receiver waits for a message it holds the service: until
  a message arrives no step runs a command that locks the service, the stored data, the disk and the
  endpoint stay, no event is emitted, and the receiver still waits.
\<close>

theorem receiver_blocks_commands:
  assumes "app_run A (app_start a) ls0 p" and "\<not> as_receiver_started a"
    and "Receiving \<in> set (ap_loops p)" and "app_run A p ls p'" and "\<forall>i r. Received i r \<notin> set ls"
  shows "Receiving \<in> set (ap_loops p') \<and> (\<forall>c r. Ran c r \<in> set ls \<longrightarrow> \<not> locks_service A c)
    \<and> sv_store (as_service (ap_state p')) = sv_store (as_service (ap_state p))
    \<and> sv_disk (as_service (ap_state p')) = sv_disk (as_service (ap_state p))
    \<and> sv_endpoint (as_service (ap_state p')) = sv_endpoint (as_service (ap_state p))
    \<and> ap_events p' = ap_events p"
proof -
  obtain i where i: "awaiting p i" using assms(3) by (auto simp: awaiting_def in_set_conv_nth)
  let ?I = "\<lambda>q. awaiting q i \<and> one_receiver q \<and> ap_events q = ap_events p
      \<and> sv_store (as_service (ap_state q)) = sv_store (as_service (ap_state p))
      \<and> sv_disk (as_service (ap_state q)) = sv_disk (as_service (ap_state p))
      \<and> sv_endpoint (as_service (ap_state q)) = sv_endpoint (as_service (ap_state p))"
  let ?Q = "\<lambda>l. \<forall>c r. l = Ran c r \<longrightarrow> \<not> locks_service A c"
  have "?I p' \<and> (\<forall>l\<in>set ls. ?Q l)"
  proof (rule app_run_keeps [OF assms(4), where ok = "\<lambda>l. \<forall>i r. l \<noteq> Received i r"])
    show "?I p" using i run_one_receiver [OF assms(1) start_one_receiver [OF assms(2)]] by simp
    show "?I q1 \<and> ?Q l" if "?I q" and "app_step A q l q1" and "\<forall>i r. l \<noteq> Received i r" for q l q1
      using step_awaiting [OF that(2), of i] step_one_receiver [OF that(2)] that(1,3) by simp
    show "\<forall>l\<in>set ls. \<forall>i r. l \<noteq> Received i r" using assms(5) by blast
  qed
  moreover have "Receiving \<in> set (ap_loops p')" if "awaiting p' i"
    using that awaiting_locked by (auto simp: lock_free_def)
  ultimately show ?thesis by auto
qed

theorem receiver_blocks_commands_witness:
  "\<exists>p p'. app_run (ex_app_env ex_receiver) p [Spawned False, Ran (ImportJoinRequest []) (Inr (JoinReply
        (join_request_dto ex_hex \<lparr>jr_handle = [], jr_name = [], jr_surname = [], jr_member_key = 0,
          jr_device_key = 0, jr_node_addr = []\<rparr>))), Outside] p'
    \<and> Receiving \<in> set (ap_loops p) \<and> Receiving \<in> set (ap_loops p') \<and> ap_events p' = []"
proof -
  let ?a = "ex_app_state (ex_device [] 1) mock_chain_ops"
  let ?p = "app_listening ?a"
  have start: "app_run (ex_app_env ex_receiver) (app_start ?a) [Spawned True, Locked 0] ?p"
    by (rule app_listens) (simp add: ex_app_state_def)
  have "app_step (ex_app_env ex_receiver) ?p (Spawned False) ?p"
    using app_step.spawned [of ?p False "ap_state ?p" "ex_app_env ex_receiver"]
    by (simp add: app_listening_def start_receiver_cmd_def)
  moreover have "run_command (ex_app_env ex_receiver) (ImportJoinRequest []) (ap_state ?p) = (Inr (JoinReply
        (join_request_dto ex_hex \<lparr>jr_handle = [], jr_name = [], jr_surname = [], jr_member_key = 0,
          jr_device_key = 0, jr_node_addr = []\<rparr>)), ap_state ?p)"
    by (simp add: reply_def import_join_request_cmd_def decode_join_request_def import_join_request_def
        blob_decode_def ex_app_env_def ex_env_over_def any_codec_def eff_bind_def)
  then have "app_step (ex_app_env ex_receiver) ?p (Ran (ImportJoinRequest []) (Inr (JoinReply
        (join_request_dto ex_hex \<lparr>jr_handle = [], jr_name = [], jr_surname = [], jr_member_key = 0,
          jr_device_key = 0, jr_node_addr = []\<rparr>)))) ?p"
    using app_step.ran [of "ex_app_env ex_receiver" "ImportJoinRequest []" ?p _ "ap_state ?p"] by simp
  moreover obtain p' where "app_step (ex_app_env ex_receiver) ?p Outside p'"
    using app_step.outside [of "ex_app_env ex_receiver" ?p] by blast
  ultimately have run: "app_run (ex_app_env ex_receiver) ?p [Spawned False, Ran (ImportJoinRequest []) (Inr (JoinReply
        (join_request_dto ex_hex \<lparr>jr_handle = [], jr_name = [], jr_surname = [], jr_member_key = 0,
          jr_device_key = 0, jr_node_addr = []\<rparr>))), Outside] p'"
    by (blast intro: app_run.intros)
  have "Receiving \<in> set (ap_loops ?p)" "ap_events ?p = []" by (simp_all add: app_listening_def)
  then show ?thesis
    using receiver_blocks_commands [OF start _ _ run] run by (fastforce simp: ex_app_state_def)
qed

text \<open>
  C15 (a joiner is never admitted). Along every run in which the application founds no organisation
  itself, no organisation record appears: what the receiver accepts concerns an organisation that had a
  record, and an application without records reports every message it receives as an error. In
  particular the admission of a joiner, which the receiving story of the service commits, never is.
\<close>

theorem joiner_never_admitted:
  assumes "app_run A p ls p'" and "\<forall>q r. Ran (CreateOrganisation q) r \<notin> set ls"
  shows "org_ids (as_service (ap_state p')) \<subseteq> org_ids (as_service (ap_state p))
    \<and> (\<forall>i j. Received i (Inr (UpdatedNotRevoked j)) \<in> set ls \<or> Received i (Inr (SelfDeleted j)) \<in> set ls
         \<longrightarrow> j \<in> org_ids (as_service (ap_state p)))
    \<and> (list_orgs (as_service (ap_state p)) = [] \<longrightarrow>
         list_orgs (as_service (ap_state p')) = [] \<and> (\<forall>i r. Received i r \<in> set ls \<longrightarrow> isl r))"
proof -
  let ?D = "org_ids (as_service (ap_state p))"
  let ?Q = "\<lambda>l. \<forall>i r. l = Received i r \<longrightarrow> isl r \<or> (\<exists>j\<in>?D. r = Inr (SelfDeleted j) \<or> r = Inr (UpdatedNotRevoked j))"
  have "org_ids (as_service (ap_state p')) \<subseteq> ?D \<and> (\<forall>l\<in>set ls. ?Q l)"
  proof (rule app_run_keeps [OF assms(1), where ok = "\<lambda>l. \<forall>q r. l \<noteq> Ran (CreateOrganisation q) r"])
    fix q l q1
    assume sub: "org_ids (as_service (ap_state q)) \<subseteq> ?D" and st: "app_step A q l q1"
      and ok: "\<forall>c r. l \<noteq> Ran (CreateOrganisation c) r"
    have "org_ids (as_service (ap_state q1)) \<subseteq> ?D" using step_org_ids [OF st] ok sub by blast
    moreover have "isl r \<or> (\<exists>j\<in>?D. r = Inr (SelfDeleted j) \<or> r = Inr (UpdatedNotRevoked j))"
      if "l = Received i r" for i r
      using app_step_service(3) [OF st] that receive_known sub by (cases r) fastforce+
    ultimately show "org_ids (as_service (ap_state q1)) \<subseteq> ?D \<and> ?Q l" by blast
  qed (use assms(2) in auto)
  then show ?thesis by (fastforce simp: list_orgs_nil)
qed

text \<open>
  The joiner of the stories: its own story of receiving commits the administrator's message, and the
  receiver of the application rejects the same message in the same state.
\<close>

theorem joiner_never_admitted_witness:
  "\<exists>s out s' p'. receive_and_verify ex_receiver s = (Inr out, s')
    \<and> app_run (ex_app_env ex_receiver) (app_start (ex_app_state s mock_chain_ops))
        [Spawned True, Locked 0, Received 0 (Inl OrgNotOnChain)] p'
    \<and> list_orgs (as_service (ap_state p')) = []
    \<and> ap_events p' = [ReceiverError ''no on-chain state found for org'']"
proof -
  let ?s = "ex_device [] (root_hash_word (ct_root_hash ex_candidate))"
  let ?a = "ex_app_state ?s mock_chain_ops"
  let ?A = "ex_app_env ex_receiver"
  have S: "svc_env ?A ?a = ex_receiver" by (simp add: svc_env_def ex_app_env_def ex_app_state_def ex_env_over_def)
  obtain s1 where r: "receive_message ex_receiver ?s = (Inr (P2pDeviceKey (VerifyingKey 1), ex_message), s1)"
    using ex_receives by blast
  have id: "env_org_id (wm_envelope ex_message) = OrgId 5" by (simp add: ex_message_def ex_envelope_def)
  have d1: "svc_data s1 = ex_member_data []" "sv_chain s1 = sv_chain ?s"
    using receive_message_frame [OF r] by simp_all
  have "mock_read_state (OrgId 5) (sv_chain s1)
      = (Inr (Some \<lparr>os_root_hash = ct_root_hash ex_candidate, os_org_pub_key = 1, os_epoch = 2\<rparr>), sv_chain s1)"
    using ex_device_simps(2) [of "[]"] d1(2) by (simp add: mock_read_state_def)
  then have "on_chain (co_read_state (se_chain ex_receiver) (OrgId 5)) s1
      = (Inr (Some \<lparr>os_root_hash = ct_root_hash ex_candidate, os_org_pub_key = 1, os_epoch = 2\<rparr>), s1)"
    by (simp add: on_chain_run mock_chain_ops_def)
  moreover have "verify_known_org ex_receiver (ex_member_data []) ex_message st = Inl OrgNotOnChain" for st
    by (simp add: verify_known_org_def Let_def parse_vk_def id find_org_def ex_member_data_def store_data_default_def
        ok_or_def)
  ultimately have "receive_and_self_delete_if_revoked ex_receiver ?s = (Inl OrgNotOnChain, s1)"
    using r d1 by (simp add: receive_and_self_delete_if_revoked_def Let_def eff_bind_def id ok_or_def)
  then have "app_step ?A (app_listening ?a) (Received 0 (Inl OrgNotOnChain))
     \<lparr>ap_state = ?a\<lparr>as_service := s1, as_receiver_started := True\<rparr>, ap_loops = [AtLock],
      ap_events = [ReceiverError ''no on-chain state found for org'']\<rparr>" (is "app_step _ _ _ ?p'")
    using app_receives [of ?A ?a OrgNotOnChain s1] S by (simp add: ex_app_state_def error_text_def)
  moreover have "app_run ?A (app_start ?a) [Spawned True, Locked 0] (app_listening ?a)"
    by (rule app_listens) (simp add: ex_app_state_def)
  ultimately have run: "app_run ?A (app_start ?a) [Spawned True, Locked 0, Received 0 (Inl OrgNotOnChain)] ?p'"
    using app_run_append [of ?A "app_start ?a" "[Spawned True, Locked 0]" "app_listening ?a"
      "[Received 0 (Inl OrgNotOnChain)]" ?p'] by (auto intro: app_run.intros)
  have "list_orgs ?s = []" by (simp add: list_orgs_def ex_member_data_def store_data_default_def)
  then have "list_orgs (as_service (ap_state ?p')) = []"
    using joiner_never_admitted [OF run] by (simp add: app_start_def ex_app_state_def)
  then show ?thesis using ex_received run by (metis App.select_convs(3))
qed

section \<open>A node without an address\<close>

text \<open>
  C18 (the joiner's request has no address). As long as an application that holds no organisation and
  no endpoint has not received anything and founds nothing, every join request it exports carries an
  empty address, and so no administrator's application accepts it: its admission stops at decoding the
  address. The endpoint is bound by receiving alone, and while the receiver waits nothing is exported.
\<close>

theorem join_request_refused:
  assumes "app_run A p ls p'" and "unbound (as_service (ap_state p))"
    and "\<forall>q r. Ran (CreateOrganisation q) r \<notin> set ls" and "\<forall>i r. Received i r \<notin> set ls"
    and "Ran (ExportJoinRequest pid) (Inr (TextReply blob)) \<in> set ls"
    and "base64_correct (se_base64 (ae_service A))" and "codec_correct (se_join_codec (ae_service A))"
    and "se_base64 (ae_service B) = se_base64 (ae_service A)"
    and "se_join_codec (ae_service B) = se_join_codec (ae_service A)"
    and "isl (from_bytes (se_addr_codec (ae_service B)) [])"
  shows "(\<exists>dto. fst (run_command B (ImportJoinRequest blob) b) = Inr (JoinReply dto) \<and> \<not> jd_has_node_addr dto)
    \<and> (\<exists>e. run_command B (AdmitMember i blob sec) b = (Inl e, b))"
proof -
  let ?Q = "\<lambda>l. \<forall>pid blob. l = Ran (ExportJoinRequest pid) (Inr (TextReply blob)) \<longrightarrow>
      (\<exists>jr. blob_encode (se_base64 (ae_service A)) (se_join_codec (ae_service A)) jr = Inr blob \<and> jr_node_addr jr = [])"
  have "unbound (as_service (ap_state p')) \<and> (\<forall>l\<in>set ls. ?Q l)"
  proof (rule app_run_keeps [OF assms(1), where I = "\<lambda>q. unbound (as_service (ap_state q))" and
      ok = "\<lambda>l. (\<forall>q r. l \<noteq> Ran (CreateOrganisation q) r) \<and> (\<forall>i r. l \<noteq> Received i r)"])
    fix q l q1
    assume un: "unbound (as_service (ap_state q))" and st: "app_step A q l q1"
      and ok: "(\<forall>c r. l \<noteq> Ran (CreateOrganisation c) r) \<and> (\<forall>i r. l \<noteq> Received i r)"
    have "\<exists>jr. blob_encode (se_base64 (ae_service A)) (se_join_codec (ae_service A)) jr = Inr blob \<and> jr_node_addr jr = []"
      if l: "l = Ran (ExportJoinRequest pid) (Inr (TextReply blob))" for pid blob
    proof -
      have "run_command A (ExportJoinRequest pid) (ap_state q) = (Inr (TextReply blob), ap_state q1)"
        using st l by (auto elim: app_stepE)
      then obtain s' where "export_join_request (svc_env A (ap_state q)) pid (as_service (ap_state q)) = (Inr blob, s')"
        by (auto simp: reply_def export_join_request_cmd_def effect_simps locked_ok)
      from unbound_join_request [OF un this] show ?thesis by (auto simp: svc_env_def)
    qed
    then show "unbound (as_service (ap_state q1)) \<and> ?Q l" using step_unbound [OF st un] ok by blast
  qed (use assms(2-4) in auto)
  then obtain jr where enc: "blob_encode (se_base64 (ae_service A)) (se_join_codec (ae_service A)) jr = Inr blob"
      and addr: "jr_node_addr jr = []"
    using assms(5) by blast
  have "import_join_request (ae_service B) blob = Inr jr"
    using blob_roundtrip [OF assms(6,7) enc] assms(8,9) by (simp add: import_join_request_def)
  then have dec: "decode_join_request B blob = Inr jr" by (simp add: decode_join_request_def)
  then have "isl (admit_args B i blob sec)"
    using assms(10) addr
    by (auto simp: admit_args_def and_then_def split: sum.splits dest: map_err_eq_Inr [THEN iffD1])
  then obtain e where "admit_args B i blob sec = Inl e" by (auto simp: isl_def)
  then have "run_command B (AdmitMember i blob sec) b = (Inl e, b)"
    by (simp add: reply_def admit_member_cmd_def eff_bind_def)
  moreover have "run_command B (ImportJoinRequest blob) b = (Inr (JoinReply (join_request_dto (ae_hex B) jr)), b)"
    by (simp add: reply_def import_join_request_cmd_def dec eff_bind_def)
  moreover have "\<not> jd_has_node_addr (join_request_dto (ae_hex B) jr)"
    by (simp add: join_request_dto_def addr)
  ultimately show ?thesis by auto
qed

section \<open>An application without a chain\<close>

lemma missing_config:
  assumes "vars ''ODS_CHAIN_WS'' = None \<or> vars ''ODS_CONTRACT_H160'' = None \<or> vars ''ODS_ADMIN_SEED'' = None"
  shows "\<exists>e. chain_config X vars = Inl (Err e)"
  using assms
  by (cases "vars ''ODS_CHAIN_WS''"; cases "vars ''ODS_CONTRACT_H160''"; cases "vars ''ODS_ADMIN_SEED''")
    (auto simp: chain_config_def var_def ok_or_def)

lemma app_state_init_ok:
  assumes "app_state_init B X vars cd K P dir disk net rng w = Inr a"
  obtains store ops ready w' data_dir where "choose_chain B X vars w = (Inr (ops, ready), w')"
    and "data_dir = (case vars ''ODS_DATA_DIR'' of Some d \<Rightarrow> d | None \<Rightarrow> dir)"
    and "store_open K P disk (path_join data_dir ''persona_store.bin'')
          (case vars ''ODS_PASSPHRASE'' of Some pw \<Rightarrow> pw | None \<Rightarrow> ''ods-dev-default'') = Inr store"
    and "a = \<lparr>as_service = (service_new store disk w' net rng)
            \<lparr>sv_transport_mode := transport_mode_var (vars ''ODS_TRANSPORT'')\<rparr>,
          as_chain = ops, as_chain_ready = ready, as_receiver_started = False\<rparr>"
proof -
  obtain r w' where "choose_chain B X vars w = (r, w')" by fastforce
  then show ?thesis
    using assms that
    by (auto simp: app_state_init_def Let_def and_then_eq_Inr map_err_eq_Inr set_transport_mode_def)
qed

text \<open>
  C25 (an application without a chain is inert). When one of the three chain variables is missing, the
  application starts with the fallback operations and reports itself unconfigured; along every run no
  founding, admission or revocation succeeds, every received message is an error, and the organisation
  records stay as they were stored.
\<close>

theorem chainless_app_inert:
  assumes "vars ''ODS_CHAIN_WS'' = None \<or> vars ''ODS_CONTRACT_H160'' = None \<or> vars ''ODS_ADMIN_SEED'' = None"
    and "app_state_init B X vars cd K P dir disk net rng w = Inr a" and "app_run A (app_start a) ls p"
  shows "list_orgs (as_service (ap_state p)) = list_orgs (as_service a)
    \<and> (\<forall>c r. Ran c (Inr r) \<in> set ls \<longrightarrow> \<not> needs_chain c) \<and> (\<forall>i r. Received i r \<in> set ls \<longrightarrow> isl r)
    \<and> (\<forall>st. Ran ConnectionStatusCommand (Inr (StatusReply st)) \<in> set ls \<longrightarrow> \<not> st_chain_configured st)"
proof -
  obtain e where "chain_config X vars = Inl (Err e)" using missing_config [OF assms(1)] by blast
  then have ch: "choose_chain B X vars w = (Inr (chain_not_configured, False), w)"
    by (simp add: choose_chain_def build_chain_ops_def)
  have start: "as_chain a = chain_not_configured \<and> \<not> as_chain_ready a"
    using app_state_init_ok [OF assms(2)] ch by (metis (no_types, lifting) AppState.select_convs(2,3) Inr_inject prod.inject)
  let ?I = "\<lambda>q. as_chain (ap_state q) = chain_not_configured \<and> \<not> as_chain_ready (ap_state q)
      \<and> list_orgs (as_service (ap_state q)) = list_orgs (as_service a)"
  let ?Q = "\<lambda>l. (\<forall>c r. l = Ran c (Inr r) \<longrightarrow> \<not> needs_chain c) \<and> (\<forall>i r. l = Received i r \<longrightarrow> isl r)
      \<and> (\<forall>st. l = Ran ConnectionStatusCommand (Inr (StatusReply st)) \<longrightarrow> \<not> st_chain_configured st)"
  have "?I p \<and> (\<forall>l\<in>set ls. ?Q l)"
  proof (rule app_run_keeps [OF assms(3), where ok = "\<lambda>_. True"])
    show "?I (app_start a)" using start by (simp add: app_start_def)
    fix q l q1
    assume I: "?I q" and st: "app_step A q l q1"
    have "\<not> st_chain_configured s" if "l = Ran ConnectionStatusCommand (Inr (StatusReply s))" for s
      using st that I
      by (auto elim!: app_stepE simp: reply_def connection_status_cmd_def effect_simps connection_status_from_state_def)
    then show "?I q1 \<and> ?Q l" using app_step_service(1,2) [OF st] step_chainless [OF st] I by auto
  qed simp
  then show ?thesis by blast
qed

section \<open>A receiver without a persona\<close>

text \<open>
  A receiver without a persona spins. Before a persona exists each round of the receiver ends at
  once, with the same error, without waiting for anything and without any change of the state: for
  every number of rounds there is a run of the receiver alone that emits that many errors and is ready
  for the next round.
\<close>

theorem receiver_spins_without_persona:
  assumes "list_personas (as_service (ap_state p)) = []" and "ap_loops p = [AtLock]"
  shows "\<exists>p'. app_run A p (concat (replicate n [Locked 0, Received 0 (Inl (Chain NO_PERSONA))])) p'
    \<and> ap_state p' = ap_state p \<and> ap_loops p' = [AtLock]
    \<and> ap_events p' = ap_events p @ replicate n (ReceiverError (''chain read failed: '' @ NO_PERSONA))
    \<and> (\<forall>q r a. receive_locked A (ap_state p) = (r, a) \<longrightarrow> r = Inl (Chain NO_PERSONA))"
proof -
  let ?e = "ReceiverError (''chain read failed: '' @ NO_PERSONA)"
  have quiet: "\<not> str_contains ''endpoint not bound'' (''chain read failed: '' @ NO_PERSONA)"
    unfolding NO_PERSONA_def by code_simp
  have rl: "receive_locked A (ap_state p) = (Inl (Chain NO_PERSONA), ap_state p)"
    using receive_without_persona [OF assms(1)] by (simp add: receive_locked_run)
  have "\<exists>p'. app_run A q (concat (replicate n [Locked 0, Received 0 (Inl (Chain NO_PERSONA))])) p'
      \<and> ap_state p' = ap_state q \<and> ap_loops p' = [AtLock] \<and> ap_events p' = ap_events q @ replicate n ?e"
    if "ap_state q = ap_state p" and "ap_loops q = [AtLock]" for q
    using that
  proof (induction n arbitrary: q)
    case 0
    then show ?case by (auto intro: app_run.none)
  next
    case (Suc n)
    let ?q1 = "q\<lparr>ap_loops := [Receiving]\<rparr>"
    let ?q2 = "\<lparr>ap_state = ap_state q, ap_loops = [AtLock], ap_events = ap_events q @ [?e]\<rparr>"
    have "app_step A q (Locked 0) ?q1" using app_step.locked [of 0 q A] Suc.prems by (simp add: lock_free_def)
    moreover have "app_step A ?q1 (Received 0 (Inl (Chain NO_PERSONA))) ?q2"
      using app_step.received [of 0 ?q1 A "Inl (Chain NO_PERSONA)" "ap_state q" "[?e]" AtLock] rl Suc.prems quiet
      by (simp add: receiver_outcome_def error_text_def)
    moreover obtain p' where "app_run A ?q2 (concat (replicate n [Locked 0, Received 0 (Inl (Chain NO_PERSONA))])) p'"
        "ap_state p' = ap_state q" "ap_loops p' = [AtLock]" "ap_events p' = ap_events q @ replicate (Suc n) ?e"
      using Suc.IH [of ?q2] Suc.prems by (auto simp: replicate_append_same)
    ultimately show ?case by (auto intro: app_run.step)
  qed
  then show ?thesis using assms(2) rl by auto
qed

section \<open>The hypotheses met\<close>

text \<open>A joiner with a persona, on codecs that know its request, and an address codec that needs bytes.\<close>

definition ex_join_env :: "(MockChainInner, bytes list) ServiceEnv" where
  "ex_join_env = ex_receiver\<lparr>
     se_base64 := \<lparr>b64_encode = hex_encode ex_hex, b64_decode = hex_decode ex_hex\<rparr>,
     se_join_codec := one_codec ex_join,
     se_addr_codec := \<lparr>to_allocvec = (\<lambda>_. Inr [1]),
       from_bytes = (\<lambda>b. if b = [] then Inl ''Hit the end of buffer'' else Inr \<lparr>ea_id = 1, ea_addrs = []\<rparr>)\<rparr>\<rparr>"

theorem join_request_refused_witness:
  "\<exists>b blob dto e. fst (run_command (ex_app_env ex_join_env) (ImportJoinRequest blob) b) = Inr (JoinReply dto)
    \<and> \<not> jd_has_node_addr dto
    \<and> run_command (ex_app_env ex_join_env) (AdmitMember [] blob None) b = (Inl e, b)"
proof -
  let ?A = "ex_app_env ex_join_env"
  let ?a = "ex_app_state (ex_device [] 1) mock_chain_ops"
  have none: "sv_endpoint (ex_device [] 1) = None" by (simp add: ex_device_def ex_service_def service_new_def)
  have "find_persona (hex_id 2) (ex_member_data []) = Inr (ex_persona 2 (rstr ''b''))"
    by (simp add: find_persona_def ex_member_data_def ex_persona_def ok_or_def)
  then obtain blob where "run_command ?A (ExportJoinRequest (hex_id 2)) ?a = (Inr (TextReply blob), ?a)"
    by (simp add: reply_def export_join_request_cmd_def locked_def eff_zoom_def eff_map_err_def
        export_join_request_def svc_env_def ex_app_env_def ex_app_state_def encoded_node_addr_def none
        blob_encode_def ex_join_env_def one_codec_def ex_join_def ex_persona_def eff_bind_def)
  then have "app_step ?A (app_start ?a) (Ran (ExportJoinRequest (hex_id 2)) (Inr (TextReply blob))) (app_start ?a)"
    using app_step.ran [of ?A _ "app_start ?a"] by (fastforce simp: app_start_def lock_free_def)
  then have run: "app_run ?A (app_start ?a) [Ran (ExportJoinRequest (hex_id 2)) (Inr (TextReply blob))] (app_start ?a)"
    by (auto intro: app_run.intros)
  have "unbound (as_service (ap_state (app_start ?a)))"
    using none by (simp add: unbound_def app_start_def ex_app_state_def list_orgs_def ex_member_data_def
        store_data_default_def)
  moreover have "base64_correct (se_base64 (ae_service ?A))" "codec_correct (se_join_codec (ae_service ?A))"
      "isl (from_bytes (se_addr_codec (ae_service ?A)) [])"
    using ex_hex_laws ex_codec_laws
    by (simp_all add: ex_app_env_def ex_join_env_def base64_correct_def hex_laws_def)
  ultimately show ?thesis
    using join_request_refused [OF run, of "hex_id 2" blob ?A ?a "[]" None] by auto
qed

text \<open>A start with no variables set: no connection is attempted.\<close>

definition ex_boot :: "(unit, unit) Boot" where
  "ex_boot = \<lparr>bt_from_url = (\<lambda>_. eff_fail ''connection refused''), bt_scale = ex_scale, bt_keypair = (\<lambda>_. Inr ()),
     bt_runtime = Inr (), bt_create_dir_all = (\<lambda>_. Inr ())\<rparr>"

definition ex_world :: "unit World" where
  "ex_world = \<lparr>wd_chain = (), wd_now = 0, wd_proxy_map = Map.empty\<rparr>"

theorem chainless_app_inert_witness:
  "\<exists>a. app_state_init ex_boot ex_hex Map.empty (\<lambda>_. []) ex_crypto (any_codec store_data_default) ''/data''
       ex_disk [] (\<lambda>_. 0) ex_world = Inr a
    \<and> (\<forall>S :: (unit World, bytes list) ServiceEnv. \<exists>r p.
          app_run (ex_app_env S) (app_start a) [Ran (CreateOrganisation ''id'') r] p
          \<and> isl r \<and> list_orgs (as_service (ap_state p)) = [])"
proof -
  let ?init = "app_state_init ex_boot ex_hex Map.empty (\<lambda>_. []) ex_crypto (any_codec store_data_default) ''/data''
       ex_disk [] (\<lambda>_. 0) ex_world :: Fault + (unit World, bytes list) AppState"
  have "\<exists>a. ?init = Inr a \<and> list_orgs (as_service a) = []"
    by (simp add: app_state_init_def ex_boot_def store_open_def derive_key_def ex_crypto_def ex_disk_def
        choose_chain_def build_chain_ops_def chain_config_def var_def ok_or_def Let_def list_orgs_def
        set_transport_mode_def service_new_def store_data_default_def)
  then obtain a where a: "?init = Inr a" and d: "list_orgs (as_service a) = []" by blast
  have "\<exists>r p. app_run (ex_app_env S) (app_start a) [Ran (CreateOrganisation ''id'') r] p
      \<and> isl r \<and> list_orgs (as_service (ap_state p)) = []" for S :: "(unit World, bytes list) ServiceEnv"
  proof -
    obtain r a' where r: "run_command (ex_app_env S) (CreateOrganisation ''id'') a = (r, a')" by fastforce
    let ?p = "(app_start a)\<lparr>ap_state := a'\<rparr>"
    have "app_step (ex_app_env S) (app_start a) (Ran (CreateOrganisation ''id'') r) ?p"
      using app_step.ran [of "ex_app_env S" "CreateOrganisation ''id''" "app_start a" r a'] r
      by (simp add: app_start_def lock_free_def)
    then have run: "app_run (ex_app_env S) (app_start a) [Ran (CreateOrganisation ''id'') r] ?p"
      by (auto intro: app_run.intros)
    have "list_orgs (as_service (ap_state ?p)) = []" and "\<And>c x. Ran c (Inr x) = Ran (CreateOrganisation ''id'') r \<Longrightarrow> \<not> needs_chain c"
      using chainless_app_inert [OF _ a run] d by auto
    then show ?thesis using run by (cases r) fastforce+
  qed
  then show ?thesis using a by blast
qed

theorem receiver_spins_without_persona_witness:
  "\<exists>p'. app_run (ex_app_env ex_receiver)
        \<lparr>ap_state = ex_app_state (ex_service store_data_default mock_chain_ops_new []) mock_chain_ops,
         ap_loops = [AtLock], ap_events = []\<rparr>
        (concat (replicate 3 [Locked 0, Received 0 (Inl (Chain NO_PERSONA))])) p'
    \<and> ap_events p' = replicate 3 (ReceiverError (''chain read failed: '' @ NO_PERSONA))"
proof -
  let ?p = "\<lparr>ap_state = ex_app_state (ex_service store_data_default mock_chain_ops_new []) mock_chain_ops,
         ap_loops = [AtLock], ap_events = []\<rparr>"
  have "list_personas (as_service (ap_state ?p)) = []"
    by (simp add: list_personas_def ex_app_state_def ex_service_def service_new_def store_data_default_def)
  from receiver_spins_without_persona [OF this, where n = 3 and A = "ex_app_env ex_receiver"] show ?thesis
    by auto
qed

section \<open>Text and views\<close>

text \<open>
  The text of an organisation identifier, with any number of leading
  \<^verbatim>\<open>0x\<close>, parses back to it. Parsing never panics: it accepts exactly the texts of 40 characters, after
  those prefixes, that decode, and every other text is an error.
\<close>

theorem org_id_text_roundtrip:
  assumes "hex_laws X"
  shows "parse_org_id X (concat (replicate n ''0x'') @ hex_encode X (org_id_as_bytes i)) = Inr i
    \<and> (\<forall>text m. parse_org_id X text \<noteq> Inl (Panic m))
    \<and> (\<forall>text. isl (parse_org_id X text) \<longleftrightarrow> length (trim_0x text) \<noteq> 40 \<or> isl (hex_decode X (trim_0x text)))"
proof -
  let ?t = "hex_encode X (org_id_as_bytes i)"
  have "trim_0x (concat (replicate n ''0x'') @ ?t) = ?t"
    by (induction n) (simp_all add: trim_0x_hex [OF assms])
  moreover have "hex_decode X ?t = Inr (org_id_as_bytes i)" and "length ?t = 40"
    using assms by (simp_all add: hex_laws_def org_id_as_bytes_def)
  moreover have "of_be (org_id_as_bytes i) = org_id_word i" by (simp add: org_id_as_bytes_def)
  ultimately have "parse_org_id X (concat (replicate n ''0x'') @ ?t) = Inr i"
    by (simp add: parse_org_id_cases [OF assms])
  then show ?thesis
    by (auto simp: parse_org_id_cases [OF assms] split: sum.splits)
qed

theorem org_id_text_roundtrip_witness:
  "parse_org_id ex_hex (''0x'' @ hex_encode ex_hex (org_id_as_bytes (OrgId 5))) = Inr (OrgId 5)"
  using org_id_text_roundtrip [OF ex_hex_laws, of 1 "OrgId 5"] by simp

section \<open>Starting\<close>

lemma fixed_hex_no_panic: "hex_laws X \<Longrightarrow> fixed_hex X name n text \<noteq> Inl (Panic m)"
  by (auto simp: fixed_hex_def Let_def copy_from_slice_def hex_laws_def and_then_def map_err_def split: sum.splits)

lemma chain_config_no_panic:
  assumes "hex_laws X"
  shows "chain_config X vars \<noteq> Inl (Panic m)"
proof -
  have "cosigners X v \<noteq> Inl (Panic m)" for v
    by (auto simp: cosigners_def copy_from_slice_def and_then_def map_err_def split: option.splits sum.splits)
  then show ?thesis
    by (auto simp: fixed_hex_no_panic [OF assms] chain_config_def var_def ok_or_def and_then_def split: sum.splits option.splits)
qed

text \<open>
  A start that succeeds opened the store in the chosen directory under the
  chosen passphrase. It is ready for the chain exactly when the variables gave an endpoint, a contract of
  20 bytes and a seed of 32, and connecting succeeded; then its operations are the production ones for
  that contract and key, with no proxy remembered. Otherwise, for whatever reason, it runs on the fallback;
  a malformed variable never stops the start. The service begins unbound and without a receiver.
\<close>

theorem start_configures:
  assumes "hex_laws X" and "app_state_init B X vars cd K P dir disk net rng w = Inr a"
  shows "store_open K P disk (path_join (case vars ''ODS_DATA_DIR'' of Some d \<Rightarrow> d | None \<Rightarrow> dir) ''persona_store.bin'')
        (case vars ''ODS_PASSPHRASE'' of Some pw \<Rightarrow> pw | None \<Rightarrow> ''ods-dev-default'') = Inr (sv_store (as_service a))
    \<and> sv_endpoint (as_service a) = None \<and> \<not> as_receiver_started a
    \<and> (sv_transport_mode (as_service a) = Loopback \<longleftrightarrow> vars ''ODS_TRANSPORT'' = Some ''loopback'')
    \<and> (if as_chain_ready a
       then \<exists>ws contract seed others N Q. chain_config X vars = Inr (ws, contract, seed, others)
          \<and> connect_chain B ws contract seed others w = (Inr (N, Q), sv_chain (as_service a))
          \<and> as_chain a = subxt_chain_ops N Q \<and> so_contract_h160 Q = contract \<and> bt_keypair B seed = Inr (so_admin Q)
          \<and> wd_proxy_map (sv_chain (as_service a)) = Map.empty
       else as_chain a = chain_not_configured)
    \<and> (\<forall>v m. app_state_init B X v cd K P dir disk net rng w \<noteq> Inl (Panic m))"
proof -
  obtain store ops ready w' data_dir where ch: "choose_chain B X vars w = (Inr (ops, ready), w')"
    and dir: "data_dir = (case vars ''ODS_DATA_DIR'' of Some d \<Rightarrow> d | None \<Rightarrow> dir)"
    and store: "store_open K P disk (path_join data_dir ''persona_store.bin'')
          (case vars ''ODS_PASSPHRASE'' of Some pw \<Rightarrow> pw | None \<Rightarrow> ''ods-dev-default'') = Inr store"
    and a: "a = \<lparr>as_service = (service_new store disk w' net rng)
            \<lparr>sv_transport_mode := transport_mode_var (vars ''ODS_TRANSPORT'')\<rparr>,
          as_chain = ops, as_chain_ready = ready, as_receiver_started = False\<rparr>"
    by (rule app_state_init_ok [OF assms(2)])
  have "if ready
       then \<exists>ws contract seed others N Q. chain_config X vars = Inr (ws, contract, seed, others)
          \<and> connect_chain B ws contract seed others w = (Inr (N, Q), w')
          \<and> ops = subxt_chain_ops N Q \<and> so_contract_h160 Q = contract \<and> bt_keypair B seed = Inr (so_admin Q)
          \<and> wd_proxy_map w' = Map.empty
       else ops = chain_not_configured"
  proof (cases "build_chain_ops B X vars w")
    case (Pair q w2)
    show ?thesis
    proof (cases q)
      case (Inl f)
      then show ?thesis using ch Pair by (cases f) (auto simp: choose_chain_def)
    next
      case (Inr ops')
      then have "ready" "ops' = ops" "w2 = w'" using ch Pair by (auto simp: choose_chain_def)
      then show ?thesis
        using Inr Pair
        by (fastforce simp: build_chain_ops_def connect_chain_def effect_simps map_err_eq_Inr subxt_chain_ops_new_def)
    qed
  qed
  moreover have "build_chain_ops B X v w \<noteq> (Inl (Panic m), w2)" for v m w2
    using chain_config_no_panic [OF assms(1), of v m]
    by (auto simp: build_chain_ops_def effect_simps map_err_eq_Inl)
  then have "choose_chain B X v w \<noteq> (Inl f, w2)" for v f w2
    by (auto simp: choose_chain_def split: prod.splits sum.splits Fault.splits)
  then have "app_state_init B X v cd K P dir disk net rng w \<noteq> Inl (Panic m)" for v m
    by (auto simp: app_state_init_def Let_def and_then_def map_err_def split: prod.splits sum.splits)
  ultimately show ?thesis
    using store dir unfolding a by (cases ready) (auto simp: service_new_def transport_mode_var_def)
qed

text \<open>A node at a URL, and the variables that name it.\<close>

definition ex_online :: "(ExNode, unit) Boot" where
  "ex_online = \<lparr>bt_from_url = (\<lambda>_. eff_return ex_chain_env), bt_scale = ex_scale, bt_keypair = (\<lambda>_. Inr ()),
     bt_runtime = Inr (), bt_create_dir_all = (\<lambda>_. Inr ())\<rparr>"

definition ex_vars :: Vars where
  "ex_vars = [''ODS_CHAIN_WS'' \<mapsto> ''ws://node'', ''ODS_CONTRACT_H160'' \<mapsto> hex_encode ex_hex (be_bytes 20 (7 :: bytes20)),
     ''ODS_ADMIN_SEED'' \<mapsto> hex_encode ex_hex (be_bytes 32 (9 :: bytes32)), ''ODS_TRANSPORT'' \<mapsto> ''loopback'']"

lemma fixed_hex_encode:
  assumes "hex_laws X" and "length bs = n"
  shows "fixed_hex X name n (hex_encode X bs) = Inr (of_be bs)"
  using assms by (simp add: fixed_hex_def trim_0x_hex hex_laws_def copy_from_slice_def)

lemma ex_config: "chain_config ex_hex ex_vars = Inr (''ws://node'', 7, 9, [])"
  by (simp add: chain_config_def ex_vars_def var_def ok_or_def fixed_hex_encode [OF ex_hex_laws] cosigners_def)

theorem start_configures_witness:
  "\<exists>a. app_state_init ex_online ex_hex ex_vars (\<lambda>_. []) ex_crypto (any_codec store_data_default) ''/data''
       ex_disk [] (\<lambda>_. 0) \<lparr>wd_chain = ex_node orgs_init {}, wd_now = 0, wd_proxy_map = Map.empty\<rparr>
         = (Inr a :: Fault + (ExNode World, bytes list) AppState)
    \<and> as_chain_ready a \<and> sv_transport_mode (as_service a) = Loopback
    \<and> (\<exists>(N :: (ExNode, unit) ChainEnv) Q. as_chain a = subxt_chain_ops N Q \<and> so_contract_h160 Q = 7)"
proof -
  let ?w = "\<lparr>wd_chain = ex_node orgs_init {}, wd_now = 0, wd_proxy_map = Map.empty\<rparr> :: ExNode World"
  let ?init = "app_state_init ex_online ex_hex ex_vars (\<lambda>_. []) ex_crypto (any_codec store_data_default) ''/data''
       ex_disk [] (\<lambda>_. 0) ?w :: Fault + (ExNode World, bytes list) AppState"
  have "\<exists>N Q w'. connect_chain ex_online ''ws://node'' 7 9 [] ?w = (Inr (N, Q), w')"
    by (simp add: connect_chain_def ex_online_def on_api_def from_client_def ex_chain_env_def
        ex_subxt_def ex_block_def for_runtime_def eff_bind_def eff_map_err_def)
  then obtain ops w' where "choose_chain ex_online ex_hex ex_vars ?w = (Inr (ops, True), w')"
    by (force simp: choose_chain_def build_chain_ops_def ex_config eff_bind_def ex_online_def eff_map_err_def)
  moreover have "store_open ex_crypto (any_codec store_data_default) ex_disk p pw
      = Inr \<lparr>ps_path = p, ps_key = be_bytes 32 (7 :: bytes32), ps_data = store_data_default\<rparr>" for p pw
    by (simp add: store_open_def derive_key_def ex_crypto_def ex_disk_def)
  ultimately obtain a where a: "?init = Inr a" "as_chain_ready a"
    by (simp add: app_state_init_def ex_online_def Let_def)
  then have "sv_transport_mode (as_service a) = Loopback"
      "\<exists>(N :: (ExNode, unit) ChainEnv) Q. as_chain a = subxt_chain_ops N Q \<and> so_contract_h160 Q = 7"
    using start_configures [OF ex_hex_laws a(1)] ex_config by (auto simp: ex_vars_def)
  then show ?thesis using a by blast
qed

end
