(* ===== verification/Gap.thy ===== *)
theory Gap
  imports Startup
begin

text \<open>
  The gap matrix of \<^verbatim>\<open>spike-common\<close> (\<^verbatim>\<open>report.rs\<close>) and the program \<^verbatim>\<open>gap-update\<close> that maintains it on
  disk.

  Text is a list of Unicode scalar values; \<open>lit\<close> is a literal. The constructors of the enumerations
  carry a prefix where the bare name is taken. \<^verbatim>\<open>serde_json\<close> is the record \<open>Json\<close>. The world of the
  program holds the text of the files, and errors that depend on the path: a file that is not UTF-8
  is one that fails to be read.
\<close>

section \<open>Text\<close>

type_synonym Text = "u32 list"

definition lit :: "string \<Rightarrow> Text" where
  "lit s = map of_char s"

text \<open>The Unicode property White_Space, and \<^verbatim>\<open>str::trim\<close>.\<close>

definition is_whitespace :: "u32 \<Rightarrow> bool" where
  "is_whitespace c \<longleftrightarrow>
     0x09 \<le> c \<and> c \<le> 0x0D \<or> c \<in> {0x20, 0x85, 0xA0, 0x1680, 0x2028, 0x2029, 0x202F, 0x205F, 0x3000}
     \<or> 0x2000 \<le> c \<and> c \<le> 0x200A"

definition trim_text :: "Text \<Rightarrow> Text" where
  "trim_text s = rev (dropWhile is_whitespace (rev (dropWhile is_whitespace s)))"

section \<open>Rows\<close>

datatype Library = Keyhive | Panda

datatype SubFlow = FlowA | FlowB | FlowC | FlowD | FlowE1 | FlowE2 | FlowF1 | FlowF2

datatype PrincipalKind = KindMember | KindOrg | KindNA

datatype Severity = Hard | Soft | NoSeverity

datatype FixPath = UpstreamPR | TraitImpl | Fork | Replace | NoFixPath

datatype Effort = Small | Medium | Large | XL

fun weight :: "Effort \<Rightarrow> u32" where
  "weight Small = 1"
| "weight Medium = 3"
| "weight Large = 9"
| "weight XL = 81"

record GapEntry =
  ge_library :: Library
  ge_gate :: u8
  ge_sub_flow :: SubFlow
  ge_principal :: PrincipalKind
  ge_severity :: Severity
  ge_failing_subcrate :: "Text option"
  ge_fix_path :: FixPath
  ge_fix_effort :: "Effort option"
  ge_phase3_effort :: Effort
  ge_evidence :: "Text list"
  ge_escape_hatch :: "Text option"
  ge_salvage_notes :: Text
  ge_notes :: Text

record RowKey =
  rk_library :: Library
  rk_gate :: u8
  rk_sub_flow :: SubFlow
  rk_principal :: PrincipalKind

definition row_key :: "GapEntry \<Rightarrow> RowKey" where
  "row_key e =
     \<lparr>rk_library = ge_library e, rk_gate = ge_gate e, rk_sub_flow = ge_sub_flow e,
      rk_principal = ge_principal e\<rparr>"

type_synonym GapMatrix = "GapEntry list"

section \<open>The matrix\<close>

text \<open>\<^verbatim>\<open>iter_mut().find(..)\<close> replaces the first row with the key; without one the entry is pushed.\<close>

fun upsert :: "GapMatrix \<Rightarrow> GapEntry \<Rightarrow> GapMatrix" where
  "upsert [] entry = [entry]"
| "upsert (r # rows) entry =
     (if row_key r = row_key entry then entry # rows else r # upsert rows entry)"

definition has_hard :: "GapMatrix \<Rightarrow> Library \<Rightarrow> bool" where
  "has_hard rows lib = list_ex (\<lambda>r. ge_library r = lib \<and> ge_severity r = Hard) rows"

definition soft_count :: "GapMatrix \<Rightarrow> Library \<Rightarrow> nat" where
  "soft_count rows lib = length (filter (\<lambda>r. ge_library r = lib \<and> ge_severity r = Soft) rows)"

definition saturating_add :: "u32 \<Rightarrow> u32 \<Rightarrow> u32" where
  "saturating_add a b = (if a + b < a then - 1 else a + b)"

definition burdened :: "Library \<Rightarrow> GapEntry \<Rightarrow> bool" where
  "burdened lib r \<longleftrightarrow> ge_library r = lib \<and> (case ge_severity r of Soft \<Rightarrow> True | Hard \<Rightarrow> True | _ \<Rightarrow> False)"

definition add_burden :: "GapEntry \<Rightarrow> u32 \<Rightarrow> u32" where
  "add_burden r acc =
     (let acc = saturating_add acc (weight (ge_phase3_effort r))
      in (case ge_fix_effort r of None \<Rightarrow> acc | Some fe \<Rightarrow> saturating_add acc (weight fe)))"

definition total_burden :: "GapMatrix \<Rightarrow> Library \<Rightarrow> u32" where
  "total_burden rows lib = fold add_burden (filter (burdened lib) rows) 0"

section \<open>Rendering\<close>

text \<open>The derived \<^verbatim>\<open>Debug\<close> forms.\<close>

fun library_debug :: "Library \<Rightarrow> Text" where
  "library_debug Keyhive = lit ''Keyhive''"
| "library_debug Panda = lit ''Panda''"

fun sub_flow_debug :: "SubFlow \<Rightarrow> Text" where
  "sub_flow_debug FlowA = lit ''A''"
| "sub_flow_debug FlowB = lit ''B''"
| "sub_flow_debug FlowC = lit ''C''"
| "sub_flow_debug FlowD = lit ''D''"
| "sub_flow_debug FlowE1 = lit ''E1''"
| "sub_flow_debug FlowE2 = lit ''E2''"
| "sub_flow_debug FlowF1 = lit ''F1''"
| "sub_flow_debug FlowF2 = lit ''F2''"

fun principal_debug :: "PrincipalKind \<Rightarrow> Text" where
  "principal_debug KindMember = lit ''Member''"
| "principal_debug KindOrg = lit ''Org''"
| "principal_debug KindNA = lit ''NA''"

fun severity_debug :: "Severity \<Rightarrow> Text" where
  "severity_debug Hard = lit ''Hard''"
| "severity_debug Soft = lit ''Soft''"
| "severity_debug NoSeverity = lit ''None''"

fun fix_path_debug :: "FixPath \<Rightarrow> Text" where
  "fix_path_debug UpstreamPR = lit ''UpstreamPR''"
| "fix_path_debug TraitImpl = lit ''TraitImpl''"
| "fix_path_debug Fork = lit ''Fork''"
| "fix_path_debug Replace = lit ''Replace''"
| "fix_path_debug NoFixPath = lit ''None''"

fun effort_debug :: "Effort \<Rightarrow> Text" where
  "effort_debug Small = lit ''Small''"
| "effort_debug Medium = lit ''Medium''"
| "effort_debug Large = lit ''Large''"
| "effort_debug XL = lit ''XL''"

definition line :: "Text \<Rightarrow> Text" where
  "line s = s @ [0x0A]"

definition unwrap_or :: "'a \<Rightarrow> 'a option \<Rightarrow> 'a" where
  "unwrap_or d v = (case v of None \<Rightarrow> d | Some x \<Rightarrow> x)"

definition row_line :: "GapEntry \<Rightarrow> Text" where
  "row_line r =
     line (lit ''| '' @ library_debug (ge_library r) @ lit '' | '' @ lit (show_nat (unat (ge_gate r)))
       @ lit '' | '' @ sub_flow_debug (ge_sub_flow r) @ lit '' | '' @ principal_debug (ge_principal r)
       @ lit '' | '' @ severity_debug (ge_severity r)
       @ lit '' | '' @ unwrap_or [] (ge_failing_subcrate r)
       @ lit '' | '' @ fix_path_debug (ge_fix_path r)
       @ lit '' | '' @ unwrap_or [] (map_option effort_debug (ge_fix_effort r))
       @ lit '' | '' @ effort_debug (ge_phase3_effort r) @ lit '' | '' @ ge_notes r @ lit '' |'')"

definition hard_count :: "GapMatrix \<Rightarrow> Library \<Rightarrow> nat" where
  "hard_count rows lib = length (filter (\<lambda>r. ge_library r = lib \<and> ge_severity r = Hard) rows)"

definition summary_line :: "GapMatrix \<Rightarrow> Library \<Rightarrow> Text" where
  "summary_line rows lib =
     line (lit ''- **'' @ library_debug lib @ lit ''** '' @ [0x2014] @ lit '' hard: ''
       @ lit (show_nat (hard_count rows lib)) @ lit '', soft: '' @ lit (show_nat (soft_count rows lib))
       @ lit '', total burden: '' @ lit (show_nat (unat (total_burden rows lib))))"

definition render_markdown :: "GapMatrix \<Rightarrow> Text" where
  "render_markdown rows =
     line (lit ''# Phase 1.d gap matrix'') @ line []
     @ line (lit ''| Library | Gate | Flow | Principal | Severity | Subcrate | Fix path | Fix effort | Phase 3 effort | Notes |'')
     @ line (lit ''|---|---|---|---|---|---|---|---|---|---|'')
     @ concat (map row_line rows)
     @ line [] @ line (lit ''## Per-library summary'') @ line []
     @ concat (map (summary_line rows) [Keyhive, Panda])"
section \<open>The program\<close>

record Json =
  js_from_str_matrix :: "Text \<Rightarrow> string + GapMatrix"
  js_from_str_entry :: "Text \<Rightarrow> string + GapEntry"
  js_to_string_pretty :: "GapMatrix \<Rightarrow> string + Text"

text \<open>What is documented of serde and its derived implementations: what is written is read back.\<close>

definition json_correct :: "Json \<Rightarrow> bool" where
  "json_correct J \<longleftrightarrow> (\<forall>rows s. js_to_string_pretty J rows = Inr s \<longrightarrow> js_from_str_matrix J s = Inr rows)"

definition render_json :: "Json \<Rightarrow> GapMatrix \<Rightarrow> string + Text" where
  "render_json J rows = js_to_string_pretty J rows"

record GapWorld =
  gw_files :: "string \<rightharpoonup> Text"
  gw_dir_error :: "string \<Rightarrow> string option"
  gw_read_error :: "string \<Rightarrow> string option"
  gw_write_error :: "string \<Rightarrow> (string \<times> Text option) option"
  gw_stdin :: "string + Text"
  gw_out :: "string list"
  gw_err :: "string list"

definition create_dir_all :: "string \<Rightarrow> (GapWorld, string, unit) effect" where
  "create_dir_all path w = (case gw_dir_error w path of None \<Rightarrow> Inr () | Some e \<Rightarrow> Inl e, w)"

definition path_exists :: "string \<Rightarrow> GapWorld \<Rightarrow> bool" where
  "path_exists path w = (gw_files w path \<noteq> None)"

definition read_to_string :: "string \<Rightarrow> (GapWorld, string, Text) effect" where
  "read_to_string path w =
     (case gw_read_error w path of
        Some e \<Rightarrow> Inl e
      | None \<Rightarrow> ok_or (gw_files w path) ''No such file or directory (os error 2)'', w)"

definition write_text :: "string \<Rightarrow> Text \<Rightarrow> (GapWorld, string, unit) effect" where
  "write_text path content w =
     (case gw_write_error w path of
        Some (e, left) \<Rightarrow> (Inl e, w\<lparr>gw_files := (gw_files w)(path := left)\<rparr>)
      | None \<Rightarrow> (Inr (), w\<lparr>gw_files := (gw_files w)(path \<mapsto> content)\<rparr>))"

text \<open>Reading standard input to its end leaves it empty.\<close>

definition read_stdin :: "(GapWorld, string, Text) effect" where
  "read_stdin w = (gw_stdin w, w\<lparr>gw_stdin := Inr []\<rparr>)"

definition load_matrix :: "Json \<Rightarrow> string \<Rightarrow> (GapWorld, string, GapMatrix) effect" where
  "load_matrix J json_path =
     eff_bind (eff_gets (path_exists json_path)) (\<lambda>there.
     if there
     then eff_bind (read_to_string json_path) (\<lambda>raw. eff_lift (js_from_str_matrix J raw))
     else eff_return [])"

definition edit_matrix :: "Json \<Rightarrow> Text \<Rightarrow> GapMatrix \<Rightarrow> string + GapMatrix" where
  "edit_matrix J stdin_buf rows =
     (let stdin_trimmed = trim_text stdin_buf
      in if stdin_trimmed \<noteq> []
         then and_then (js_from_str_entry J stdin_trimmed) (\<lambda>entry. Inr (upsert rows entry))
         else Inr rows)"

definition gap_run :: "Json \<Rightarrow> string \<Rightarrow> (GapWorld, string, unit) effect" where
  "gap_run J docs_dir =
     (let json_path = path_join docs_dir ''gap-matrix.json'';
          md_path = path_join docs_dir ''gap-matrix.md''
      in eff_bind (create_dir_all docs_dir) (\<lambda>_.
         eff_bind (load_matrix J json_path) (\<lambda>loaded.
         eff_bind read_stdin (\<lambda>stdin_buf.
         eff_bind (eff_lift (edit_matrix J stdin_buf loaded)) (\<lambda>rows.
         eff_bind (eff_lift (render_json J rows)) (\<lambda>json.
         eff_bind (write_text json_path json) (\<lambda>_.
         eff_bind (write_text md_path (render_markdown rows)) (\<lambda>_.
         eff_modify (\<lambda>w. w\<lparr>gw_out := gw_out w
           @ [''gap-update: wrote '' @ show_nat (length rows) @ '' rows to '' @ json_path
              @ '' and '' @ md_path]\<rparr>)))))))))"

definition gap_main :: "Json \<Rightarrow> Vars \<Rightarrow> GapWorld \<Rightarrow> u8 \<times> GapWorld" where
  "gap_main J env w =
     (let docs_dir = unwrap_or ''docs/phase-1d'' (env ''PHASE_1D_DOCS_DIR'')
      in (case gap_run J docs_dir w of
            (Inr _, w') \<Rightarrow> (0, w')
          | (Inl e, w') \<Rightarrow> (1, w'\<lparr>gw_err := gw_err w' @ [''gap-update failed: '' @ e]\<rparr>)))"

section \<open>The matrix is a map from row keys\<close>

definition row_map :: "GapMatrix \<Rightarrow> RowKey \<Rightarrow> GapEntry option" where
  "row_map rows k = map_of (map (\<lambda>r. (row_key r, r)) rows) k"

lemma upsert_row_map: "row_map (upsert rows e) = (row_map rows)(row_key e \<mapsto> e)"
  by (rule ext, induction rows) (simp_all add: row_map_def)

lemma upsert_row_keys:
  "map row_key (upsert rows e) =
     (if row_key e \<in> row_key ` set rows then map row_key rows else map row_key rows @ [row_key e])"
  by (induction rows) auto

lemma upsert_distinct: "distinct (map row_key rows) \<Longrightarrow> distinct (map row_key (upsert rows e))"
  by (simp add: upsert_row_keys)

lemma has_hard_count: "has_hard rows lib \<longleftrightarrow> 0 < hard_count rows lib"
  by (simp add: has_hard_def hard_count_def list_ex_iff filter_empty_conv) 

section \<open>The burden saturates\<close>

lemma saturating_add_min: "unat (saturating_add a b) = min (2 ^ 32 - 1) (unat a + unat b)"
proof -
  have "unat a < 2 ^ 32" and "unat b < 2 ^ 32"
    using unsigned_less [of a, where 'a = nat] unsigned_less [of b, where 'a = nat] by simp_all
  moreover have "unat (- 1 :: u32) = 2 ^ 32 - 1" by (simp add: unsigned_minus_1_eq_mask mask_eq_exp_minus_1)
  ultimately show ?thesis
    by (auto simp: saturating_add_def word_less_nat_alt unat_word_ariths(1) mod_if min_def)
qed

lemma min_add_min: "min c (min c x + y) = min (c :: nat) (x + y)"
  by (simp add: min_def)

definition entry_burden :: "GapEntry \<Rightarrow> nat" where
  "entry_burden r =
     unat (weight (ge_phase3_effort r))
     + (case ge_fix_effort r of None \<Rightarrow> 0 | Some fe \<Rightarrow> unat (weight fe))"

lemma add_burden_min: "unat (add_burden r acc) = min (2 ^ 32 - 1) (unat acc + entry_burden r)"
  by (simp add: add_burden_def entry_burden_def saturating_add_min Let_def min_add_min add.assoc
      split: option.split)

theorem total_burden_sum:
  "unat (total_burden rows lib) =
     min (2 ^ 32 - 1) (\<Sum>r\<leftarrow>rows. if burdened lib r then entry_burden r else 0)"
proof -
  have "unat (fold add_burden rs acc) = min (2 ^ 32 - 1) (unat acc + sum_list (map entry_burden rs))" for rs acc
  proof (induction rs arbitrary: acc)
    case Nil
    show ?case using unsigned_less [of acc, where 'a = nat] by simp
  next
    case (Cons r rs)
    then show ?case by (simp add: add_burden_min min_add_min add.assoc)
  qed
  then show ?thesis by (simp add: total_burden_def sum_list_map_filter')
qed
section \<open>A run updates what is stored\<close>

definition stored_matrix :: "Json \<Rightarrow> string \<Rightarrow> GapWorld \<Rightarrow> string + GapMatrix" where
  "stored_matrix J docs_dir w = fst (load_matrix J (path_join docs_dir ''gap-matrix.json'') w)"

lemma path_join_inject: "path_join dir a = path_join dir b \<longleftrightarrow> a = b"
  by (simp add: path_join_def)

lemma load_matrix_pure: "load_matrix J path w = (fst (load_matrix J path w), w)"
  by (auto simp: load_matrix_def eff_bind_def read_to_string_def split: prod.splits sum.splits)

lemma write_text_ok:
  "write_text path content w = (Inr u, w') \<longleftrightarrow>
     gw_write_error w path = None \<and> w' = w\<lparr>gw_files := (gw_files w)(path \<mapsto> content)\<rparr>"
  by (auto simp: write_text_def split: option.splits prod.splits)

lemma create_dir_all_ok: "create_dir_all path w = (Inr u, w') \<longleftrightarrow> gw_dir_error w path = None \<and> w' = w"
  by (auto simp: create_dir_all_def split: option.splits)

theorem gap_run_updates:
  assumes json: "json_correct J" and readable: "gw_read_error w (path_join docs_dir ''gap-matrix.json'') = None"
    and run: "gap_run J docs_dir w = (Inr u, w')"
  shows "\<exists>rows buf rows'. stored_matrix J docs_dir w = Inr rows \<and> gw_stdin w = Inr buf
    \<and> edit_matrix J buf rows = Inr rows' \<and> stored_matrix J docs_dir w' = Inr rows'
    \<and> gw_files w' (path_join docs_dir ''gap-matrix.md'') = Some (render_markdown rows')"
proof -
  let ?j = "path_join docs_dir ''gap-matrix.json''" and ?m = "path_join docs_dir ''gap-matrix.md''"
  have neq: "?j \<noteq> ?m" by (simp add: path_join_inject)
  obtain rows w1 buf rows' js
    where load: "load_matrix J ?j w = (Inr rows, w1)" and stdin: "gw_stdin w1 = Inr buf"
      and edit: "edit_matrix J buf rows = Inr rows'" and js: "render_json J rows' = Inr js"
      and files: "gw_files w' = (gw_files w1)(?j \<mapsto> js, ?m \<mapsto> render_markdown rows')"
      and reads: "gw_read_error w' = gw_read_error w1"
    using run
    by (auto simp: gap_run_def Let_def eff_bind_ok create_dir_all_ok write_text_ok read_stdin_def)
  have w1: "w1 = w" using load load_matrix_pure [of J ?j w] by simp
  have "stored_matrix J docs_dir w' = js_from_str_matrix J js"
    using files reads readable neq w1
    by (simp add: stored_matrix_def load_matrix_def path_exists_def read_to_string_def eff_bind_def)
  also have "\<dots> = Inr rows'"
    using json js by (simp add: json_correct_def render_json_def)
  finally show ?thesis
    using load stdin edit files w1 by (auto simp: stored_matrix_def)
qed

text \<open>A run that fails before it writes leaves every file; afterwards the two files may disagree.\<close>

theorem gap_run_fails_clean:
  assumes run: "gap_run J docs_dir w = (Inl e, w')"
    and writable: "gw_write_error w (path_join docs_dir ''gap-matrix.json'') = None"
      "gw_write_error w (path_join docs_dir ''gap-matrix.md'') = None"
  shows "gw_files w' = gw_files w"
proof -
  have keep: "create_dir_all p v = (r, v') \<Longrightarrow> v' = v" "load_matrix J p v = (q, v') \<Longrightarrow> v' = v"
    for p v v' r q
    using load_matrix_pure [of J p v] by (auto simp: create_dir_all_def)
  have keep_err: "write_text p c v = (Inl e', v') \<Longrightarrow> gw_write_error v p \<noteq> None" for p c v v' e'
    by (auto simp: write_text_def split: option.splits)
  show ?thesis
    using run writable
    by (auto simp: gap_run_def Let_def eff_bind_error write_text_ok read_stdin_def
        dest!: keep keep_err)
qed

end
