(* ===== verification/SpikeTrie.thy ===== *)
theory SpikeTrie
  imports Types "HOL-Library.AList" "HOL-Library.Multiset"
begin

text \<open>
  The crate \<^verbatim>\<open>spike-common\<close> without its gap matrix: identities, the trait \<^verbatim>\<open>MemberKeyResolver\<close>, its
  implementation \<^verbatim>\<open>StubTrie\<close>, and the scenario fixtures.

  The identities repeat those of \<^verbatim>\<open>org-members\<close> as types of their own, and so does the model. A
  \<^verbatim>\<open>HashMap\<close> is an association list with distinct keys; as the order in which it is iterated is not
  specified, what depends on it takes the order as an argument, of which \<open>hash_order\<close> says that it
  permutes. The trait is the record \<open>Resolver\<close> of the answers of one value; the key of a signing key
  (\<^verbatim>\<open>SigningKey::from_bytes(..).verifying_key()\<close> of ed25519-dalek) is an argument.
\<close>

section \<open>Identities\<close>

datatype SpikeId = SpikeId (spike_id_word: bytes32)
datatype SpikeMemberKey = SpikeMemberKey (spike_member_vk: VerifyingKey)
datatype SpikeDeviceKey = SpikeDeviceKey (spike_device_vk: VerifyingKey)
datatype OrgKey = OrgKey (org_vk: VerifyingKey)
type_synonym SpikeEpoch = u64

datatype Principal = PrincipalMember SpikeId | PrincipalOrg

section \<open>The resolver\<close>

datatype ResolverError = UnknownMember SpikeId | OrgKeyUnset

text \<open>The derived \<^verbatim>\<open>Debug\<close> of an identity prints its bytes in decimal.\<close>

definition array_debug :: "bytes32 \<Rightarrow> string" where
  "array_debug w = ''['' @ comma_list (map (\<lambda>b. show_nat (unat b)) (be_bytes 32 w)) @ '']''"

definition spike_id_debug :: "SpikeId \<Rightarrow> string" where
  "spike_id_debug i = ''MemberId('' @ array_debug (spike_id_word i) @ '')''"

fun resolver_error_display :: "ResolverError \<Rightarrow> string" where
  "resolver_error_display (UnknownMember i) = ''member not in trie: '' @ spike_id_debug i"
| "resolver_error_display OrgKeyUnset = ''org key not set''"

record Resolver =
  rs_p2p_member_key :: "SpikeId \<Rightarrow> ResolverError + SpikeMemberKey"
  rs_org_key :: "ResolverError + OrgKey"
  rs_current_devices :: "SpikeId \<Rightarrow> ResolverError + SpikeDeviceKey list"
  rs_org_member_ids :: "SpikeId list"
  rs_is_member :: "SpikeId \<Rightarrow> bool"
  rs_epoch :: SpikeEpoch

definition hash_order :: "('a list \<Rightarrow> 'a list) \<Rightarrow> bool" where
  "hash_order it \<longleftrightarrow> (\<forall>xs. mset (it xs) = mset xs)"

lemma hash_order_set: "hash_order it \<Longrightarrow> set (it xs) = set xs"
  unfolding hash_order_def by (metis set_mset_mset)

lemma hash_order_distinct: "hash_order it \<Longrightarrow> distinct (it xs) = distinct xs"
  unfolding hash_order_def by (metis mset_eq_imp_distinct_iff)

lemma hash_order_id: "hash_order (\<lambda>xs. xs)"
  by (simp add: hash_order_def)

section \<open>The stub trie\<close>

record MemberEntry =
  me_p2p_key :: SpikeMemberKey
  me_devices :: "SpikeDeviceKey list"

record StubTrie =
  st_members :: "(SpikeId \<times> MemberEntry) list"
  st_org :: "OrgKey option"
  st_epoch :: SpikeEpoch

definition stub_new :: StubTrie where
  "stub_new = \<lparr>st_members = [], st_org = None, st_epoch = 0\<rparr>"

definition bump :: "StubTrie \<Rightarrow> StubTrie" where
  "bump t = t\<lparr>st_epoch := st_epoch t + 1\<rparr>"

definition stub_add_member ::
  "SpikeId \<Rightarrow> SpikeMemberKey \<Rightarrow> SpikeDeviceKey list \<Rightarrow> StubTrie \<Rightarrow> StubTrie" where
  "stub_add_member i key devs t =
     bump (t\<lparr>st_members :=
       AList.update i \<lparr>me_p2p_key = key, me_devices = devs\<rparr> (st_members t)\<rparr>)"

definition with_org_key :: "OrgKey \<Rightarrow> StubTrie \<Rightarrow> StubTrie" where
  "with_org_key key t = bump (t\<lparr>st_org := Some key\<rparr>)"

definition stub_revoke :: "SpikeId \<Rightarrow> StubTrie \<Rightarrow> StubTrie" where
  "stub_revoke i t = bump (t\<lparr>st_members := AList.delete i (st_members t)\<rparr>)"

definition stub_rotate_org_key :: "OrgKey \<Rightarrow> StubTrie \<Rightarrow> StubTrie" where
  "stub_rotate_org_key key t = bump (t\<lparr>st_org := Some key\<rparr>)"

definition stub_rotate_member_key :: "SpikeId \<Rightarrow> SpikeMemberKey \<Rightarrow> StubTrie \<Rightarrow> StubTrie" where
  "stub_rotate_member_key i key t =
     bump (t\<lparr>st_members :=
       AList.map_entry i (\<lambda>e. e\<lparr>me_p2p_key := key\<rparr>) (st_members t)\<rparr>)"

definition stub_remove_device :: "SpikeId \<Rightarrow> SpikeDeviceKey \<Rightarrow> StubTrie \<Rightarrow> StubTrie" where
  "stub_remove_device i device t =
     bump (t\<lparr>st_members :=
       AList.map_entry i (\<lambda>e. e\<lparr>me_devices := filter (\<lambda>d. d \<noteq> device) (me_devices e)\<rparr>)
         (st_members t)\<rparr>)"

definition stub_add_device :: "SpikeId \<Rightarrow> SpikeDeviceKey \<Rightarrow> StubTrie \<Rightarrow> StubTrie" where
  "stub_add_device i device t =
     bump (t\<lparr>st_members :=
       AList.map_entry i (\<lambda>e. e\<lparr>me_devices := me_devices e @ [device]\<rparr>) (st_members t)\<rparr>)"

definition stub_get :: "StubTrie \<Rightarrow> SpikeId \<Rightarrow> MemberEntry option" where
  "stub_get t i = map_of (st_members t) i"

definition stub_p2p_member_key :: "StubTrie \<Rightarrow> SpikeId \<Rightarrow> ResolverError + SpikeMemberKey" where
  "stub_p2p_member_key t i = ok_or (map_option me_p2p_key (stub_get t i)) (UnknownMember i)"

definition stub_org_key :: "StubTrie \<Rightarrow> ResolverError + OrgKey" where
  "stub_org_key t = ok_or (st_org t) OrgKeyUnset"

definition stub_current_devices :: "StubTrie \<Rightarrow> SpikeId \<Rightarrow> ResolverError + SpikeDeviceKey list" where
  "stub_current_devices t i = ok_or (map_option me_devices (stub_get t i)) (UnknownMember i)"

definition stub_org_member_ids :: "(SpikeId list \<Rightarrow> SpikeId list) \<Rightarrow> StubTrie \<Rightarrow> SpikeId list" where
  "stub_org_member_ids it t = it (map fst (st_members t))"

definition stub_is_member :: "StubTrie \<Rightarrow> SpikeId \<Rightarrow> bool" where
  "stub_is_member t i = (stub_get t i \<noteq> None)"

definition stub_resolver :: "(SpikeId list \<Rightarrow> SpikeId list) \<Rightarrow> StubTrie \<Rightarrow> Resolver" where
  "stub_resolver it t =
     \<lparr>rs_p2p_member_key = stub_p2p_member_key t, rs_org_key = stub_org_key t,
      rs_current_devices = stub_current_devices t, rs_org_member_ids = stub_org_member_ids it t,
      rs_is_member = stub_is_member t, rs_epoch = st_epoch t\<rparr>"

section \<open>Scenarios\<close>

record MemberSeed =
  sd_label :: string
  sd_id :: SpikeId
  sd_p2p_key :: SpikeMemberKey
  sd_devices :: "SpikeDeviceKey list"

record InitialState =
  in_members :: "MemberSeed list"
  in_org_key :: "OrgKey option"

datatype Step =
    RevokeMember string SpikeId
  | RemoveDevice string SpikeId SpikeDeviceKey
  | RotateMemberKey string SpikeId SpikeMemberKey
  | RotateOrgKey OrgKey
  | AddMember MemberSeed

record ExpectedFinal =
  ef_member_count :: nat
  ef_observable_assertions :: "string list"

record ScenarioFixture =
  fx_name :: string
  fx_initial :: InitialState
  fx_steps :: "Step list"
  fx_expected_final :: ExpectedFinal

definition add_seed :: "MemberSeed \<Rightarrow> StubTrie \<Rightarrow> StubTrie" where
  "add_seed m t = stub_add_member (sd_id m) (sd_p2p_key m) (sd_devices m) t"

definition bootstrap_stub_trie :: "ScenarioFixture \<Rightarrow> StubTrie" where
  "bootstrap_stub_trie f =
     (let trie = fold add_seed (in_members (fx_initial f)) stub_new
      in (case in_org_key (fx_initial f) of None \<Rightarrow> trie | Some org \<Rightarrow> with_org_key org trie))"

fun stub_step :: "Step \<Rightarrow> StubTrie \<Rightarrow> StubTrie" where
  "stub_step (RevokeMember _ i) t = stub_revoke i t"
| "stub_step (RemoveDevice _ i device) t = stub_remove_device i device t"
| "stub_step (RotateMemberKey _ i new_key) t = stub_rotate_member_key i new_key t"
| "stub_step (RotateOrgKey new_key) t = stub_rotate_org_key new_key t"
| "stub_step (AddMember seed) t = add_seed seed t"

definition apply_to_stub_trie :: "ScenarioFixture \<Rightarrow> StubTrie \<Rightarrow> StubTrie" where
  "apply_to_stub_trie f trie = fold stub_step (fx_steps f) trie"

subsection \<open>The fixtures\<close>

definition array32 :: "u8 \<Rightarrow> bytes32" where
  "array32 b = of_be (replicate 32 b)"

type_synonym SigningVk = "bytes32 \<Rightarrow> VerifyingKey"

definition alice_seed :: "SigningVk \<Rightarrow> MemberSeed" where
  "alice_seed vk =
     \<lparr>sd_label = ''alice'', sd_id = SpikeId (array32 0xa1),
      sd_p2p_key = SpikeMemberKey (vk (array32 0xa2)),
      sd_devices = [SpikeDeviceKey (vk (array32 0xa3))]\<rparr>"

definition bob_seed :: "SigningVk \<Rightarrow> MemberSeed" where
  "bob_seed vk =
     \<lparr>sd_label = ''bob'', sd_id = SpikeId (array32 0xb1),
      sd_p2p_key = SpikeMemberKey (vk (array32 0xb2)),
      sd_devices = [SpikeDeviceKey (vk (array32 0xb3))]\<rparr>"

definition org_key_initial :: "SigningVk \<Rightarrow> OrgKey" where
  "org_key_initial vk = OrgKey (vk (array32 0x01))"

definition alice_rotated_key :: "SigningVk \<Rightarrow> SpikeMemberKey" where
  "alice_rotated_key vk = SpikeMemberKey (vk (array32 0xaa))"

definition revocation_fixture :: "SigningVk \<Rightarrow> ScenarioFixture" where
  "revocation_fixture vk =
     \<lparr>fx_name = ''revocation'',
      fx_initial = \<lparr>in_members = [alice_seed vk, bob_seed vk], in_org_key = Some (org_key_initial vk)\<rparr>,
      fx_steps = [RevokeMember ''bob'' (sd_id (bob_seed vk))],
      fx_expected_final =
        \<lparr>ef_member_count = 1,
         ef_observable_assertions =
           [''bob'' @ [CHR 0x27] @ ''s device cannot decrypt new doc payloads after revocation'',
            ''alice'' @ [CHR 0x27] @ ''s device can still decrypt the doc'',
            ''(D)CGKA has advanced one epoch'']\<rparr>\<rparr>"

definition gating_fixture :: "SigningVk \<Rightarrow> ScenarioFixture" where
  "gating_fixture vk =
     \<lparr>fx_name = ''gating'',
      fx_initial = \<lparr>in_members = [alice_seed vk, bob_seed vk], in_org_key = Some (org_key_initial vk)\<rparr>,
      fx_steps = [RevokeMember ''bob'' (sd_id (bob_seed vk))],
      fx_expected_final =
        \<lparr>ef_member_count = 1,
         ef_observable_assertions =
           [''an open p2p sync session from bob'' @ [CHR 0x27] @ ''s device is terminated within the test''
              @ [CHR 0x27] @ ''s timeout'',
            ''a fresh sync attempt from bob'' @ [CHR 0x27] @ ''s device is rejected by the conn policy'',
            ''alice'' @ [CHR 0x27] @ ''s session remains open'']\<rparr>\<rparr>"

definition org_pseudo_group_fixture :: "SigningVk \<Rightarrow> ScenarioFixture" where
  "org_pseudo_group_fixture vk =
     \<lparr>fx_name = ''org_pseudo_group'',
      fx_initial = \<lparr>in_members = [alice_seed vk, bob_seed vk], in_org_key = Some (org_key_initial vk)\<rparr>,
      fx_steps = [RotateMemberKey ''alice'' (sd_id (alice_seed vk)) (alice_rotated_key vk)],
      fx_expected_final =
        \<lparr>ef_member_count = 2,
         ef_observable_assertions =
           [''a doc whose ACL grants the org-as-pseudo-group is readable by alice'' @ [CHR 0x27]
              @ ''s new key'',
            ''the same doc is readable by bob without any explicit ACL change'',
            ''(D)CGKA recompute was triggered for org-keyed docs'']\<rparr>\<rparr>"

section \<open>What the operations do to the members\<close>

named_theorems stub_simps \<open>members, organisation key and epoch after an operation\<close>

lemma stub_get_ops [stub_simps]:
  "stub_get stub_new = Map.empty"
  "stub_get (stub_add_member i key devs t) =
     (stub_get t)(i \<mapsto> \<lparr>me_p2p_key = key, me_devices = devs\<rparr>)"
  "stub_get (with_org_key okey t) = stub_get t"
  "stub_get (stub_revoke i t) = (stub_get t)(i := None)"
  "stub_get (stub_rotate_org_key okey t) = stub_get t"
  "stub_get (stub_rotate_member_key i key t) =
     (stub_get t)(i := map_option (\<lambda>e. e\<lparr>me_p2p_key := key\<rparr>) (stub_get t i))"
  "stub_get (stub_remove_device i device t) =
     (stub_get t)(i := map_option (\<lambda>e. e\<lparr>me_devices := filter (\<lambda>d. d \<noteq> device) (me_devices e)\<rparr>)
        (stub_get t i))"
  "stub_get (stub_add_device i device t) =
     (stub_get t)(i := map_option (\<lambda>e. e\<lparr>me_devices := me_devices e @ [device]\<rparr>) (stub_get t i))"
  by (rule ext,
      simp add: stub_get_def stub_new_def stub_add_member_def with_org_key_def stub_revoke_def
        stub_rotate_org_key_def stub_rotate_member_key_def stub_remove_device_def stub_add_device_def
        bump_def update_conv' delete_conv' map_of_map_entry split: option.splits)+

lemma st_epoch_step [stub_simps]: "st_epoch (stub_step s t) = st_epoch t + 1"
  by (cases s) (simp_all add: stub_revoke_def stub_remove_device_def stub_rotate_member_key_def
      stub_rotate_org_key_def add_seed_def stub_add_member_def bump_def)

lemma st_epoch_steps: "st_epoch (fold stub_step steps t) = st_epoch t + of_nat (length steps)"
  by (induction steps arbitrary: t) (simp_all add: st_epoch_step)
section \<open>The contract of the trait\<close>

text \<open>
  What the documentation of \<^verbatim>\<open>MemberKeyResolver\<close> promises its clients: a member has a key and a list of
  devices, possibly empty, and asking for an identity that is not a member is the error \<open>UnknownMember\<close>
  of that identity.
\<close>

locale key_resolver =
  fixes res :: "'t \<Rightarrow> Resolver"
  assumes key_iff: "is_ok (rs_p2p_member_key (res t) i) = rs_is_member (res t) i"
    and key_error: "rs_p2p_member_key (res t) i = Inl e \<Longrightarrow> e = UnknownMember i"
    and devices_iff: "is_ok (rs_current_devices (res t) i) = rs_is_member (res t) i"
    and devices_error: "rs_current_devices (res t) i = Inl e \<Longrightarrow> e = UnknownMember i"
    and org_key_error: "rs_org_key (res t) = Inl e \<Longrightarrow> e = OrgKeyUnset"
begin

lemma key_of_member: "rs_is_member (res t) i \<Longrightarrow> \<exists>k. rs_p2p_member_key (res t) i = Inr k"
  using key_iff [of t i] by (cases "rs_p2p_member_key (res t) i") auto

lemma key_of_stranger: "\<not> rs_is_member (res t) i \<Longrightarrow> rs_p2p_member_key (res t) i = Inl (UnknownMember i)"
  using key_iff [of t i] key_error [of t i] by (cases "rs_p2p_member_key (res t) i") auto

lemma key_member: "rs_p2p_member_key (res t) i = Inr k \<Longrightarrow> rs_is_member (res t) i"
  using key_iff [of t i] by simp

lemma devices_member: "rs_current_devices (res t) i = Inr ds \<Longrightarrow> rs_is_member (res t) i"
  using devices_iff [of t i] by simp

lemma devices_of_stranger:
  "\<not> rs_is_member (res t) i \<Longrightarrow> rs_current_devices (res t) i = Inl (UnknownMember i)"
  using devices_iff [of t i] devices_error [of t i] by (cases "rs_current_devices (res t) i") auto

end

lemma stub_resolver_simps [simp]:
  "rs_p2p_member_key (stub_resolver it t) = stub_p2p_member_key t"
  "rs_org_key (stub_resolver it t) = stub_org_key t"
  "rs_current_devices (stub_resolver it t) = stub_current_devices t"
  "rs_org_member_ids (stub_resolver it t) = stub_org_member_ids it t"
  "rs_is_member (stub_resolver it t) = stub_is_member t"
  "rs_epoch (stub_resolver it t) = st_epoch t"
  by (simp_all add: stub_resolver_def)

interpretation stub: key_resolver "stub_resolver it" for it
  by unfold_locales
    (auto simp: stub_p2p_member_key_def stub_current_devices_def stub_is_member_def stub_org_key_def
      ok_or_def is_ok_def split: option.splits)

lemma stub_key_iff: "stub_p2p_member_key t i = Inr k \<longleftrightarrow> map_option me_p2p_key (stub_get t i) = Some k"
  by (simp add: stub_p2p_member_key_def ok_or_eq_Inr)

lemma stub_is_member_ops [stub_simps]:
  "stub_is_member stub_new i = False"
  "stub_is_member (stub_add_member j key devs t) i \<longleftrightarrow> i = j \<or> stub_is_member t i"
  "stub_is_member (with_org_key okey t) i = stub_is_member t i"
  "stub_is_member (stub_revoke j t) i \<longleftrightarrow> i \<noteq> j \<and> stub_is_member t i"
  "stub_is_member (stub_rotate_org_key okey t) i = stub_is_member t i"
  "stub_is_member (stub_rotate_member_key j key t) i = stub_is_member t i"
  "stub_is_member (stub_remove_device j device t) i = stub_is_member t i"
  "stub_is_member (stub_add_device j device t) i = stub_is_member t i"
  by (auto simp: stub_is_member_def stub_get_ops)

section \<open>Hash map keys stay distinct\<close>

definition stub_ok :: "StubTrie \<Rightarrow> bool" where
  "stub_ok t \<longleftrightarrow> distinct (map fst (st_members t))"

lemma stub_ok_ops [simp]:
  "stub_ok stub_new"
  "stub_ok t \<Longrightarrow> stub_ok (stub_add_member i key devs t)"
  "stub_ok (with_org_key okey t) = stub_ok t"
  "stub_ok t \<Longrightarrow> stub_ok (stub_revoke i t)"
  "stub_ok (stub_rotate_org_key okey t) = stub_ok t"
  "stub_ok t \<Longrightarrow> stub_ok (stub_rotate_member_key i key t)"
  "stub_ok t \<Longrightarrow> stub_ok (stub_remove_device i device t)"
  "stub_ok t \<Longrightarrow> stub_ok (stub_add_device i device t)"
  by (simp_all add: stub_ok_def stub_new_def stub_add_member_def with_org_key_def stub_revoke_def
      stub_rotate_org_key_def stub_rotate_member_key_def stub_remove_device_def stub_add_device_def
      bump_def AList.distinct_update AList.distinct_delete AList.distinct_map_entry)

lemma stub_ok_step: "stub_ok t \<Longrightarrow> stub_ok (stub_step s t)"
  by (cases s) (simp_all add: add_seed_def)

lemma stub_ok_bootstrap: "stub_ok (bootstrap_stub_trie f)"
proof -
  have "stub_ok t \<Longrightarrow> stub_ok (fold add_seed ms t)" for ms t
    by (induction ms arbitrary: t) (simp_all add: add_seed_def)
  then show ?thesis by (simp add: bootstrap_stub_trie_def Let_def split: option.split)
qed

lemma org_member_ids_exact:
  assumes "hash_order it" and "stub_ok t"
  shows "distinct (stub_org_member_ids it t)"
    and "set (stub_org_member_ids it t) = {i. stub_is_member t i}"
  using assms
  by (auto simp: stub_org_member_ids_def stub_ok_def hash_order_distinct hash_order_set
      stub_is_member_def stub_get_def dom_map_of_conv_image_fst [symmetric] dom_def image_iff)

section \<open>The fixtures meet their expectation\<close>

lemma array32_inject: "array32 a = array32 b \<longleftrightarrow> a = b"
proof
  assume eq: "array32 a = array32 b"
  have "be_bytes 32 (array32 x) = replicate 32 x" for x
    using be_bytes_of_be [of "replicate 32 x", where 'a = 256] by (simp add: array32_def)
  with eq have "replicate 32 a = replicate 32 b" by metis
  then show "a = b" by (simp add: replicate_eq_replicate)
qed simp

lemma fixtures_reach_expectation:
  assumes "f \<in> {revocation_fixture vk, gating_fixture vk, org_pseudo_group_fixture vk}"
  shows "length (st_members (apply_to_stub_trie f (bootstrap_stub_trie f)))
           = ef_member_count (fx_expected_final f)"
    and "st_epoch (apply_to_stub_trie f (bootstrap_stub_trie f)) = 4"
  using assms
  by (auto simp: revocation_fixture_def gating_fixture_def org_pseudo_group_fixture_def
      apply_to_stub_trie_def bootstrap_stub_trie_def add_seed_def alice_seed_def bob_seed_def
      stub_add_member_def stub_new_def with_org_key_def bump_def stub_revoke_def
      stub_rotate_member_key_def array32_inject)

end
