(* ===== verification/PandaSpike.thy ===== *)
theory PandaSpike
  imports SpikeTrie Effects
begin

text \<open>
  The crate \<^verbatim>\<open>spike-p2panda\<close>: key lookup through the resolver (\<^verbatim>\<open>s1\<close>), blocked membership changes
  (\<^verbatim>\<open>s2\<close>), group keys after a rotation (\<^verbatim>\<open>s3\<close>), the organisation as a nested group (\<^verbatim>\<open>s4\<close>) and the
  connection policy (\<^verbatim>\<open>s5\<close>).

  The p2panda libraries are arguments: one function per call. \<^verbatim>\<open>p2panda_core::VerifyingKey\<close>, a newtype
  over the key of ed25519-dalek, is identified with it, and so are the newtypes over \<^verbatim>\<open>MemberId\<close> that
  exist for the orphan rule. A resolver is the record \<open>Resolver\<close>; the values of the \<^verbatim>\<open>HashSet\<close>s are
  sets, as only their members are observed.
\<close>

section \<open>Key lookup\<close>

definition identity_key_with_resolver ::
  "(bytes \<Rightarrow> 'pk) \<Rightarrow> Resolver \<Rightarrow> SpikeId \<Rightarrow> ResolverError + 'pk option" where
  "identity_key_with_resolver x25519_from r i =
     (case rs_p2p_member_key r i of
        Inr key \<Rightarrow> Inr (Some (x25519_from (be_bytes 32 (vk_word (spike_member_vk key)))))
      | Inl (UnknownMember _) \<Rightarrow> Inr None
      | Inl e \<Rightarrow> Inl e)"

definition org_identity_key :: "(bytes \<Rightarrow> 'pk) \<Rightarrow> Resolver \<Rightarrow> ResolverError + 'pk option" where
  "org_identity_key x25519_from r =
     (case rs_org_key r of
        Inr key \<Rightarrow> Inr (Some (x25519_from (be_bytes 32 (vk_word (org_vk key)))))
      | Inl OrgKeyUnset \<Rightarrow> Inr None
      | Inl e \<Rightarrow> Inl e)"

definition materialise_actor_id ::
  "(VerifyingKey \<Rightarrow> 'actor) \<Rightarrow> Resolver \<Rightarrow> Principal \<Rightarrow> ResolverError + 'actor" where
  "materialise_actor_id actor_from r who =
     (case who of
        PrincipalMember i \<Rightarrow>
          and_then (rs_p2p_member_key r i) (\<lambda>key. Inr (actor_from (spike_member_vk key)))
      | PrincipalOrg \<Rightarrow> and_then (rs_org_key r) (\<lambda>key. Inr (actor_from (org_vk key))))"

section \<open>Blocked membership changes\<close>

datatype 'e InterceptError = MutationBlocked | Inner 'e

fun intercept_display :: "('e \<Rightarrow> string) \<Rightarrow> 'e InterceptError \<Rightarrow> string" where
  "intercept_display inner_display MutationBlocked =
     ''membership mutation blocked: trie is the sole write authority''"
| "intercept_display inner_display (Inner e) = ''inner error: '' @ inner_display e"

text \<open>\<^verbatim>\<open>Error::source\<close>.\<close>

fun intercept_source :: "'e InterceptError \<Rightarrow> 'e option" where
  "intercept_source MutationBlocked = None"
| "intercept_source (Inner e) = Some e"

text \<open>The trait \<^verbatim>\<open>Groups\<close>: the effects of one implementation on its state.\<close>

record ('s, 'e, 'id, 'acc, 'm, 'member) Groups =
  gr_create :: "('member \<times> 'acc) list \<Rightarrow> ('s, 'e, 'm) effect"
  gr_receive_from_remote :: "'m \<Rightarrow> ('s, 'e, unit) effect"
  gr_add :: "'id \<Rightarrow> 'id \<Rightarrow> 'id \<Rightarrow> 'acc \<Rightarrow> ('s, 'e, 'm) effect"
  gr_remove :: "'id \<Rightarrow> 'id \<Rightarrow> 'id \<Rightarrow> ('s, 'e, 'm) effect"
  gr_promote :: "'id \<Rightarrow> 'id \<Rightarrow> 'id \<Rightarrow> 'acc \<Rightarrow> ('s, 'e, 'm) effect"
  gr_demote :: "'id \<Rightarrow> 'id \<Rightarrow> 'id \<Rightarrow> 'acc \<Rightarrow> ('s, 'e, 'm) effect"

definition blocking_groups ::
  "('s, 'e, 'id, 'acc, 'm, 'member) Groups \<Rightarrow> ('s, 'e InterceptError, 'id, 'acc, 'm, 'member) Groups" where
  "blocking_groups inner =
     \<lparr>gr_create = (\<lambda>_. eff_fail MutationBlocked),
      gr_receive_from_remote = (\<lambda>_. eff_fail MutationBlocked),
      gr_add = (\<lambda>_ _ _ _. eff_fail MutationBlocked),
      gr_remove = (\<lambda>_ _ _. eff_fail MutationBlocked),
      gr_promote = (\<lambda>_ _ _ _. eff_fail MutationBlocked),
      gr_demote = (\<lambda>_ _ _ _. eff_fail MutationBlocked)\<rparr>"

section \<open>Group membership and keys\<close>

record DcgkaOpId =
  do_member_idx :: u64
  do_seq :: u64

record 'id LocalDgmState =
  dgm_my_id :: 'id
  dgm_members :: "'id set"

definition dgm_create :: "'id \<Rightarrow> 'id list \<Rightarrow> 'id LocalDgmState" where
  "dgm_create my_id initial_members = \<lparr>dgm_my_id = my_id, dgm_members = set initial_members\<rparr>"

definition dgm_from_welcome :: "'id \<Rightarrow> 'id LocalDgmState \<Rightarrow> 'id LocalDgmState" where
  "dgm_from_welcome my_id y = \<lparr>dgm_my_id = my_id, dgm_members = dgm_members y\<rparr>"

definition dgm_add :: "'id LocalDgmState \<Rightarrow> 'id \<Rightarrow> 'id \<Rightarrow> DcgkaOpId \<Rightarrow> 'id LocalDgmState" where
  "dgm_add y adder added operation_id = y\<lparr>dgm_members := insert added (dgm_members y)\<rparr>"

definition dgm_remove :: "'id LocalDgmState \<Rightarrow> 'id \<Rightarrow> 'id \<Rightarrow> DcgkaOpId \<Rightarrow> 'id LocalDgmState" where
  "dgm_remove y remover removed operation_id = y\<lparr>dgm_members := dgm_members y - {removed}\<rparr>"

definition dgm_init :: "'id \<Rightarrow> 'id LocalDgmState" where
  "dgm_init my_id = \<lparr>dgm_my_id = my_id, dgm_members = {}\<rparr>"

text \<open>\<^verbatim>\<open>Display\<close> of the newtype: the first four bytes, \<^verbatim>\<open>{:x?}\<close>, which does not pad.\<close>

definition hex_plain :: "u8 \<Rightarrow> string" where
  "hex_plain b = (if unat b < 16 then [digit_char (unat b)] else hex_byte b)"

definition dcgka_member_display :: "SpikeId \<Rightarrow> string" where
  "dcgka_member_display i =
     ''DcgkaMemberId(['' @ comma_list (map hex_plain (take 4 (be_bytes 32 (spike_id_word i)))) @ ''])''"

text \<open>
  What \<^verbatim>\<open>trigger_recompute\<close> calls of p2panda-encryption; \<open>dc_with_pki\<close> assigns the field \<^verbatim>\<open>pki\<close> of the
  library's state. The random generator is part of the state \<open>'rng\<close> of the effects.
\<close>

record ('rng, 'st, 'pki, 'bundle, 'secret, 'out, 'inp, 'got) Dcgka =
  dc_with_pki :: "'pki \<Rightarrow> 'st \<Rightarrow> 'st"
  dc_generate :: "'bundle \<Rightarrow> ('rng, string, 'secret) effect"
  dc_update :: "'st \<Rightarrow> 'secret \<Rightarrow> ('rng, string, 'st \<times> 'out) effect"
  dc_insert :: "'bundle \<Rightarrow> 'secret \<Rightarrow> 'bundle"
  dc_process :: "'st \<Rightarrow> 'inp \<Rightarrow> string + 'st \<times> 'got"

definition trigger_recompute ::
  "('rng, 'st, 'pki, 'bundle, 'secret, 'out, 'inp, 'got) Dcgka \<Rightarrow> 'st \<Rightarrow> 'bundle \<Rightarrow> 'pki
   \<Rightarrow> ('rng, string, 'st \<times> 'out \<times> 'bundle \<times> 'secret) effect" where
  "trigger_recompute D state bundle new_pki =
     (let state = dc_with_pki D new_pki state
      in eff_bind (dc_generate D bundle) (\<lambda>new_secret.
         eff_bind (dc_update D state new_secret) (\<lambda>(state_i, output).
         eff_return (state_i, output, dc_insert D bundle new_secret, new_secret))))"

definition process_g3_update ::
  "('rng, 'st, 'pki, 'bundle, 'secret, 'out, 'inp, 'got) Dcgka \<Rightarrow> 'st \<Rightarrow> 'inp \<Rightarrow> string + 'st \<times> 'got" where
  "process_g3_update D state input = and_then (dc_process D state input) Inr"

section \<open>The organisation as a nested group\<close>

type_synonym AuthOpId = u32

definition auth_member_display :: "SpikeId \<Rightarrow> string" where
  "auth_member_display i =
     (let bs = be_bytes 32 (spike_id_word i)
      in ''AuthMemberId('' @ hex_byte (bs ! 0) @ hex_byte (bs ! 1) @ ''..)'')"

definition auth_op_display :: "AuthOpId \<Rightarrow> string" where
  "auth_op_display n = ''AuthOpId('' @ show_nat (unat n) @ '')''"

datatype GroupMember = Individual SpikeId | Nested SpikeId

datatype 'acc GroupAction =
    GroupCreate "(GroupMember \<times> 'acc) list"
  | GroupAdd GroupMember 'acc

record 'acc AuthOp =
  ao_id :: AuthOpId
  ao_author :: SpikeId
  ao_dependencies :: "AuthOpId list"
  ao_group_id :: SpikeId
  ao_action :: "'acc GroupAction"

text \<open>
  \<^verbatim>\<open>GroupCrdt::init\<close> and \<^verbatim>\<open>process\<close> are \<open>init_state\<close> and \<open>process\<close>, \<^verbatim>\<open>Access::manage()\<close> is \<open>manage\<close>. The
  loop carries the state, the dependencies of the next operation and its number.
\<close>

fun add_org_members ::
  "('g \<Rightarrow> 'acc AuthOp \<Rightarrow> string + 'g) \<Rightarrow> 'acc \<Rightarrow> SpikeId \<Rightarrow> SpikeId \<Rightarrow> SpikeId list
   \<Rightarrow> 'g \<times> AuthOpId list \<times> AuthOpId \<Rightarrow> string + 'g \<times> AuthOpId list \<times> AuthOpId" where
  "add_org_members process manage org_gid org_manager [] loop = Inr loop"
| "add_org_members process manage org_gid org_manager (member_id # ms) (state, prev, op_id) =
     and_then (process state
         \<lparr>ao_id = op_id, ao_author = org_manager, ao_dependencies = prev, ao_group_id = org_gid,
          ao_action = GroupAdd (Individual member_id) manage\<rparr>) (\<lambda>state.
       add_org_members process manage org_gid org_manager ms (state, [op_id], op_id + 1))"

definition org_pseudo_group_build ::
  "'g \<Rightarrow> ('g \<Rightarrow> 'acc AuthOp \<Rightarrow> string + 'g) \<Rightarrow> 'acc \<Rightarrow> SpikeId \<Rightarrow> SpikeId \<Rightarrow> SpikeId list
   \<Rightarrow> SpikeId \<Rightarrow> SpikeId \<Rightarrow> 'acc \<Rightarrow> AuthOpId \<Rightarrow> string + 'g \<times> SpikeId" where
  "org_pseudo_group_build init_state process manage org_gid org_manager org_members doc_gid
     doc_manager org_access op_id_start =
     and_then (process init_state
         \<lparr>ao_id = op_id_start, ao_author = org_manager, ao_dependencies = [], ao_group_id = org_gid,
          ao_action = GroupCreate [(Individual org_manager, manage)]\<rparr>) (\<lambda>state.
     and_then (add_org_members process manage org_gid org_manager org_members
         (state, [op_id_start], op_id_start + 1)) (\<lambda>(state, prev, op_id).
     and_then (process state
         \<lparr>ao_id = op_id, ao_author = doc_manager, ao_dependencies = prev, ao_group_id = doc_gid,
          ao_action = GroupCreate [(Individual doc_manager, manage)]\<rparr>) (\<lambda>state.
     and_then (process state
         \<lparr>ao_id = op_id + 1, ao_author = doc_manager, ao_dependencies = [op_id],
          ao_group_id = doc_gid, ao_action = GroupAdd (Nested org_gid) org_access\<rparr>) (\<lambda>state.
     Inr (state, doc_gid)))))"

text \<open>\<open>members\<close> is what \<^verbatim>\<open>GroupCrdtState::members\<close> returns for the document's group.\<close>

datatype EffectiveKeyError = EffectiveResolver ResolverError

fun effective_key_error_display :: "EffectiveKeyError \<Rightarrow> string" where
  "effective_key_error_display (EffectiveResolver e) = ''resolver error: '' @ resolver_error_display e"

fun effective_keys_loop ::
  "Resolver \<Rightarrow> (SpikeId \<times> 'acc) list \<Rightarrow> SpikeMemberKey set \<Rightarrow> EffectiveKeyError + SpikeMemberKey set" where
  "effective_keys_loop r [] keys = Inr keys"
| "effective_keys_loop r ((member_id, access) # members) keys =
     (case rs_p2p_member_key r member_id of
        Inr key \<Rightarrow> effective_keys_loop r members (insert key keys)
      | Inl (UnknownMember _) \<Rightarrow> effective_keys_loop r members keys
      | Inl e \<Rightarrow> Inl (EffectiveResolver e))"

definition effective_member_keys ::
  "Resolver \<Rightarrow> (SpikeId \<times> 'acc) list \<Rightarrow> EffectiveKeyError + SpikeMemberKey set" where
  "effective_member_keys r members = effective_keys_loop r members {}"

section \<open>The connection policy\<close>

datatype DocId = DocId bytes32

record DocAcl =
  da_member_ids :: "SpikeId set"
  da_org_wide :: bool

definition acl_for_members :: "SpikeId list \<Rightarrow> DocAcl" where
  "acl_for_members ids = \<lparr>da_member_ids = set ids, da_org_wide = False\<rparr>"

definition acl_org_wide :: DocAcl where
  "acl_org_wide = \<lparr>da_member_ids = {}, da_org_wide = True\<rparr>"

record PandaSession =
  ps_session_id :: u64
  ps_remote_peer :: VerifyingKey
  ps_doc_id :: DocId
  ps_should_close :: bool

record PandaPolicy =
  pp_resolver :: Resolver
  pp_peer_to_member :: "VerifyingKey \<Rightarrow> SpikeId option"
  pp_doc_acls :: "DocId \<rightharpoonup> DocAcl"
  pp_open_sessions :: "PandaSession list"

definition panda_new :: "Resolver \<Rightarrow> (VerifyingKey \<Rightarrow> SpikeId option) \<Rightarrow> PandaPolicy" where
  "panda_new r peer_to_member =
     \<lparr>pp_resolver = r, pp_peer_to_member = peer_to_member, pp_doc_acls = Map.empty,
      pp_open_sessions = []\<rparr>"

definition register_acl :: "DocId \<Rightarrow> DocAcl \<Rightarrow> PandaPolicy \<Rightarrow> PandaPolicy" where
  "register_acl doc acl m = m\<lparr>pp_doc_acls := (pp_doc_acls m)(doc \<mapsto> acl)\<rparr>"

definition policy_check :: "PandaPolicy \<Rightarrow> VerifyingKey \<Rightarrow> DocId \<Rightarrow> bool" where
  "policy_check m remote_peer doc =
     (case pp_peer_to_member m remote_peer of
        None \<Rightarrow> False
      | Some member_id \<Rightarrow>
          (case pp_doc_acls m doc of
             None \<Rightarrow> False
           | Some acl \<Rightarrow>
               if da_org_wide acl then rs_is_member (pp_resolver m) member_id
               else member_id \<in> da_member_ids acl))"

definition record_session :: "u64 \<Rightarrow> VerifyingKey \<Rightarrow> DocId \<Rightarrow> PandaPolicy \<Rightarrow> PandaPolicy" where
  "record_session sid remote_peer doc m =
     m\<lparr>pp_open_sessions := pp_open_sessions m
       @ [\<lparr>ps_session_id = sid, ps_remote_peer = remote_peer, ps_doc_id = doc,
           ps_should_close = False\<rparr>]\<rparr>"

text \<open>\<^verbatim>\<open>iter_mut().find(..)\<close> by the session's number, and the assignment to the record found.\<close>

fun flag_first :: "u64 \<Rightarrow> PandaSession list \<Rightarrow> PandaSession list option" where
  "flag_first sid [] = None"
| "flag_first sid (s # ss) =
     (if ps_session_id s = sid then Some (s\<lparr>ps_should_close := True\<rparr> # ss)
      else map_option ((#) s) (flag_first sid ss))"

fun recheck_loop ::
  "PandaPolicy \<Rightarrow> (u64 \<times> VerifyingKey \<times> DocId) list \<Rightarrow> nat \<Rightarrow> nat \<times> PandaPolicy" where
  "recheck_loop m [] newly_closed = (newly_closed, m)"
| "recheck_loop m ((sid, remote_peer, doc) # checks) newly_closed =
     (if \<not> policy_check m remote_peer doc
      then (case flag_first sid (pp_open_sessions m) of
              Some ss \<Rightarrow> recheck_loop (m\<lparr>pp_open_sessions := ss\<rparr>) checks (newly_closed + 1)
            | None \<Rightarrow> recheck_loop m checks newly_closed)
      else recheck_loop m checks newly_closed)"

definition recheck_open_sessions :: "PandaPolicy \<Rightarrow> nat \<times> PandaPolicy" where
  "recheck_open_sessions m =
     recheck_loop m
       (map (\<lambda>s. (ps_session_id s, ps_remote_peer s, ps_doc_id s))
         (filter (\<lambda>s. \<not> ps_should_close s) (pp_open_sessions m))) 0"

text \<open>\<^verbatim>\<open>Vec::remove(i)\<close> and the loop of \<^verbatim>\<open>drain_closed_sessions\<close>.\<close>

definition remove_nth :: "nat \<Rightarrow> 'a list \<Rightarrow> 'a list" where
  "remove_nth i xs = take i xs @ drop (i + 1) xs"

function drain_loop ::
  "nat \<Rightarrow> PandaSession list \<Rightarrow> PandaSession list \<Rightarrow> PandaSession list \<times> PandaSession list" where
  "drain_loop i closed sessions =
     (if i < length sessions
      then if ps_should_close (sessions ! i)
           then drain_loop i (closed @ [sessions ! i]) (remove_nth i sessions)
           else drain_loop (i + 1) closed sessions
      else (closed, sessions))"
  by pat_completeness auto
termination
  by (relation "measure (\<lambda>(i, closed, sessions). length sessions - i)") (auto simp: remove_nth_def)

definition drain_closed_sessions :: "PandaPolicy \<Rightarrow> PandaSession list \<times> PandaPolicy" where
  "drain_closed_sessions m =
     (let (closed, sessions) = drain_loop 0 [] (pp_open_sessions m)
      in (closed, m\<lparr>pp_open_sessions := sessions\<rparr>))"

datatype PandaPolicyError =
    UnknownPeer
  | Unauthorised SpikeId DocId
  | NoAcl DocId

definition doc_id_debug :: "DocId \<Rightarrow> string" where
  "doc_id_debug d = (case d of DocId w \<Rightarrow> ''DocId('' @ array_debug w @ '')'')"

fun panda_error_display :: "PandaPolicyError \<Rightarrow> string" where
  "panda_error_display UnknownPeer = ''peer key not in reverse index''"
| "panda_error_display (Unauthorised i d) =
     ''member '' @ spike_id_debug i @ '' is not authorised for doc '' @ doc_id_debug d"
| "panda_error_display (NoAcl d) = ''no ACL registered for doc '' @ doc_id_debug d"

definition policy_check_err :: "PandaPolicy \<Rightarrow> VerifyingKey \<Rightarrow> DocId \<Rightarrow> PandaPolicyError + SpikeId" where
  "policy_check_err m remote_peer doc =
     and_then (ok_or (pp_peer_to_member m remote_peer) UnknownPeer) (\<lambda>member_id.
       (case pp_doc_acls m doc of
          None \<Rightarrow> Inl (NoAcl doc)
        | Some acl \<Rightarrow>
            if da_org_wide acl
            then if rs_is_member (pp_resolver m) member_id then Inr member_id
                 else Inl (Unauthorised member_id doc)
            else if member_id \<in> da_member_ids acl then Inr member_id
            else Inl (Unauthorised member_id doc)))"
declare drain_loop.simps [simp del]

section \<open>What the policy decides\<close>

text \<open>The two checks agree, and the error names the reason in the order of the code.\<close>

lemma policy_check_err_ok: "policy_check_err m p d = Inr i \<longleftrightarrow> pp_peer_to_member m p = Some i \<and> policy_check m p d"
  by (auto simp: policy_check_err_def policy_check_def and_then_eq_Inr ok_or_eq_Inr
      split: option.splits if_splits)

lemma policy_check_iff_ok: "policy_check m p d \<longleftrightarrow> is_ok (policy_check_err m p d)"
  by (auto simp: policy_check_err_def policy_check_def is_ok_def ok_or_def split: option.splits)

lemma policy_check_sessions [simp]: "policy_check (m\<lparr>pp_open_sessions := ss\<rparr>) = policy_check m"
  by (intro ext) (simp add: policy_check_def split: option.split)

definition session_admitted :: "PandaPolicy \<Rightarrow> PandaSession \<Rightarrow> bool" where
  "session_admitted m s = policy_check m (ps_remote_peer s) (ps_doc_id s)"

definition recheck_session :: "PandaPolicy \<Rightarrow> PandaSession \<Rightarrow> PandaSession" where
  "recheck_session m s = (if session_admitted m s then s else s\<lparr>ps_should_close := True\<rparr>)"

definition newly_refused :: "PandaPolicy \<Rightarrow> PandaSession \<Rightarrow> bool" where
  "newly_refused m s \<longleftrightarrow> \<not> ps_should_close s \<and> \<not> session_admitted m s"

lemma recheck_session_simps [simp]:
  "ps_session_id (recheck_session m s) = ps_session_id s"
  "ps_remote_peer (recheck_session m s) = ps_remote_peer s"
  "ps_doc_id (recheck_session m s) = ps_doc_id s"
  "ps_should_close (recheck_session m s) \<longleftrightarrow> ps_should_close s \<or> \<not> session_admitted m s"
  by (simp_all add: recheck_session_def)

lemma recheck_session_closed: "ps_should_close s \<Longrightarrow> recheck_session m s = s"
  by (simp add: recheck_session_def)

lemma flag_first_after:
  "sid \<notin> ps_session_id ` set pre \<Longrightarrow>
     flag_first sid (pre @ s # post) =
       (if ps_session_id s = sid then Some (pre @ s\<lparr>ps_should_close := True\<rparr> # post)
        else map_option (\<lambda>ss. pre @ s # ss) (flag_first sid post))"
  by (induction pre) (auto simp: option.map_comp o_def)

lemma flag_first_some: "sid \<in> ps_session_id ` set ss \<Longrightarrow>
    \<exists>ss'. flag_first sid ss = Some ss' \<and> map ps_session_id ss' = map ps_session_id ss"
  by (induction ss) auto

lemma recheck_loop_sessions:
  assumes "distinct (map ps_session_id (pre @ post))"
  shows "recheck_loop (m\<lparr>pp_open_sessions := map (recheck_session m) pre @ post\<rparr>)
      (map (\<lambda>s. (ps_session_id s, ps_remote_peer s, ps_doc_id s)) (filter (\<lambda>s. \<not> ps_should_close s) post)) n
    = (n + length (filter (newly_refused m) post),
       m\<lparr>pp_open_sessions := map (recheck_session m) (pre @ post)\<rparr>)"
  using assms
proof (induction post arbitrary: pre n)
  case Nil
  then show ?case by simp
next
  case (Cons s post)
  have IH: "recheck_loop (m\<lparr>pp_open_sessions := map (recheck_session m) pre @ recheck_session m s # post\<rparr>)
      (map (\<lambda>s. (ps_session_id s, ps_remote_peer s, ps_doc_id s)) (filter (\<lambda>s. \<not> ps_should_close s) post)) k
    = (k + length (filter (newly_refused m) post),
       m\<lparr>pp_open_sessions := map (recheck_session m) (pre @ s # post)\<rparr>)" for k
    using Cons.IH [of "pre @ [s]" k] Cons.prems by simp
  show ?case
  proof (cases "ps_should_close s")
    case True
    then have "\<not> newly_refused m s" by (simp add: newly_refused_def)
    then show ?thesis using True IH [of n] by (simp add: recheck_session_closed)
  next
    case False
    have "ps_session_id s \<notin> ps_session_id ` set (map (recheck_session m) pre)"
      using Cons.prems by (auto simp: image_image)
    then have "flag_first (ps_session_id s) (map (recheck_session m) pre @ s # post)
        = Some (map (recheck_session m) pre @ s\<lparr>ps_should_close := True\<rparr> # post)"
      by (simp add: flag_first_after)
    moreover have "newly_refused m s \<longleftrightarrow> \<not> policy_check m (ps_remote_peer s) (ps_doc_id s)"
      using False by (simp add: newly_refused_def session_admitted_def)
    moreover have "recheck_session m s =
        (if policy_check m (ps_remote_peer s) (ps_doc_id s) then s else s\<lparr>ps_should_close := True\<rparr>)"
      by (simp add: recheck_session_def session_admitted_def)
    ultimately show ?thesis
      using False IH [of n] IH [of "Suc n"] by auto
  qed
qed

lemma recheck_open_sessions_exact:
  assumes "distinct (map ps_session_id (pp_open_sessions m))"
  shows "recheck_open_sessions m =
    (length (filter (newly_refused m) (pp_open_sessions m)),
     m\<lparr>pp_open_sessions := map (recheck_session m) (pp_open_sessions m)\<rparr>)"
  using recheck_loop_sessions [of "[]" "pp_open_sessions m" m 0] assms
  by (simp add: recheck_open_sessions_def)

text \<open>The number returned is right even when numbers repeat; the flags need distinct numbers.\<close>

lemma recheck_loop_count:
  "\<lbrakk>fst ` set checks \<subseteq> ps_session_id ` set (pp_open_sessions m)\<rbrakk> \<Longrightarrow>
     fst (recheck_loop m checks n) =
       n + length (filter (\<lambda>(sid, p, d). \<not> policy_check m p d) checks)"
proof (induction m checks n rule: recheck_loop.induct)
  case (2 m sid p d checks n)
  show ?case
  proof (cases "policy_check m p d")
    case True
    then show ?thesis using 2 by simp
  next
    case False
    have "sid \<in> ps_session_id ` set (pp_open_sessions m)" using "2.prems" by simp
    from flag_first_some [OF this] obtain ss where
      ss: "flag_first sid (pp_open_sessions m) = Some ss"
        "map ps_session_id ss = map ps_session_id (pp_open_sessions m)" by blast
    then have "ps_session_id ` set ss = ps_session_id ` set (pp_open_sessions m)"
      by (metis list.set_map)
    then show ?thesis using "2.IH"(2) [OF False ss(1)] "2.prems" False ss(1) by simp
  qed
qed simp

lemma recheck_open_sessions_count:
  "fst (recheck_open_sessions m) = length (filter (newly_refused m) (pp_open_sessions m))"
proof -
  have "length (filter (\<lambda>(sid, p, d). \<not> policy_check m p d)
        (map (\<lambda>s. (ps_session_id s, ps_remote_peer s, ps_doc_id s)) (filter (\<lambda>s. \<not> ps_should_close s) ss)))
      = length (filter (newly_refused m) ss)" for ss
    by (induction ss) (simp_all add: newly_refused_def session_admitted_def)
  then show ?thesis
    by (subst recheck_open_sessions_def, subst recheck_loop_count) auto
qed

lemma drain_loop_exact:
  "\<lbrakk>i \<le> length ss; \<forall>s\<in>set (take i ss). \<not> ps_should_close s\<rbrakk> \<Longrightarrow>
     drain_loop i closed ss =
       (closed @ filter ps_should_close (drop i ss),
        take i ss @ filter (\<lambda>s. \<not> ps_should_close s) (drop i ss))"
proof (induction i closed ss rule: drain_loop.induct)
  case (1 i closed ss)
  show ?case
  proof (cases "i < length ss")
    case True
    note split_ss = Cons_nth_drop_Suc [OF True, symmetric]
    show ?thesis
    proof (cases "ps_should_close (ss ! i)")
      case closing: True
      have rest: "take i (remove_nth i ss) = take i ss" "drop i (remove_nth i ss) = drop (Suc i) ss"
        using True by (simp_all add: remove_nth_def)
      show ?thesis
        using "1.IH"(1) [OF True closing] "1.prems" True closing rest
        by (subst drain_loop.simps) (simp add: split_ss remove_nth_def)
    next
      case False
      have "\<forall>s\<in>set (take (i + 1) ss). \<not> ps_should_close s"
        using "1.prems" False True by (auto simp: take_Suc_conv_app_nth)
      then show ?thesis
        using "1.IH"(2) [OF True False] True False
        by (subst drain_loop.simps) (simp add: split_ss take_Suc_conv_app_nth)
    qed
  next
    case False
    then show ?thesis using "1.prems" by (subst drain_loop.simps) simp
  qed
qed

lemma drain_closed_sessions_exact:
  "drain_closed_sessions m =
     (filter ps_should_close (pp_open_sessions m),
      m\<lparr>pp_open_sessions := filter (\<lambda>s. \<not> ps_should_close s) (pp_open_sessions m)\<rparr>)"
  by (simp add: drain_closed_sessions_def drain_loop_exact)
section \<open>Keys are those of the resolver, now\<close>

context key_resolver
begin

lemma effective_keys_loop_exact:
  "effective_keys_loop (res t) members keys =
     Inr (keys \<union> {k. \<exists>i\<in>fst ` set members. rs_p2p_member_key (res t) i = Inr k})"
proof (induction members arbitrary: keys)
  case Nil
  then show ?case by simp
next
  case (Cons m members)
  obtain i access where m: "m = (i, access)" by fastforce
  show ?case
  proof (cases "rs_is_member (res t) i")
    case True
    then obtain k where "rs_p2p_member_key (res t) i = Inr k" using key_of_member by blast
    then show ?thesis using Cons.IH m by auto
  next
    case False
    then show ?thesis using Cons.IH m by (simp add: key_of_stranger)
  qed
qed

lemma effective_member_keys_exact:
  "effective_member_keys (res t) members =
     Inr {k. \<exists>i\<in>fst ` set members. rs_p2p_member_key (res t) i = Inr k}"
  by (simp add: effective_member_keys_def effective_keys_loop_exact)

lemma materialise_member:
  "materialise_actor_id actor_from (res t) (PrincipalMember i) = Inr a \<longleftrightarrow>
     rs_is_member (res t) i
     \<and> (\<exists>k. rs_p2p_member_key (res t) i = Inr k \<and> a = actor_from (spike_member_vk k))"
  by (auto simp: materialise_actor_id_def and_then_eq_Inr dest: key_member)

lemma identity_key_never_fails: "is_ok (identity_key_with_resolver x25519_from (res t) i)"
  by (cases "rs_is_member (res t) i")
    (auto simp: identity_key_with_resolver_def key_of_stranger dest: key_of_member)

end

text \<open>
  After a revocation the keys of a document exclude those of the revoked member, after a rotation they
  are the new ones: nothing is cached.
\<close>

lemma effective_keys_after_revocation:
  "effective_member_keys (stub_resolver it (stub_revoke i t)) members =
     effective_member_keys (stub_resolver it t) (filter (\<lambda>(j, _). j \<noteq> i) members)"
  by (auto simp: stub.effective_member_keys_exact stub_key_iff stub_get_ops intro!: set_eqI) force+

lemma actor_follows_rotation:
  assumes "stub_is_member t i"
  shows "materialise_actor_id actor_from (stub_resolver it (stub_rotate_member_key i key t)) (PrincipalMember i)
    = Inr (actor_from (spike_member_vk key))"
  using assms
  by (auto simp: stub.materialise_member stub_is_member_ops stub_p2p_member_key_def stub_get_ops
      stub_is_member_def)

section \<open>The operations of the nested group\<close>

text \<open>The operations in the order in which the builder submits them, and their numbers.\<close>

definition org_group_ops ::
  "'acc \<Rightarrow> SpikeId \<Rightarrow> SpikeId \<Rightarrow> SpikeId list \<Rightarrow> SpikeId \<Rightarrow> SpikeId \<Rightarrow> 'acc
   \<Rightarrow> (SpikeId \<times> SpikeId \<times> 'acc GroupAction) list" where
  "org_group_ops manage org_gid org_manager org_members doc_gid doc_manager org_access =
     (org_manager, org_gid, GroupCreate [(Individual org_manager, manage)])
     # map (\<lambda>m. (org_manager, org_gid, GroupAdd (Individual m) manage)) org_members
     @ [(doc_manager, doc_gid, GroupCreate [(Individual doc_manager, manage)]),
        (doc_manager, doc_gid, GroupAdd (Nested org_gid) org_access)]"

fun process_chain ::
  "('g \<Rightarrow> 'acc AuthOp \<Rightarrow> string + 'g) \<Rightarrow> AuthOpId list \<Rightarrow> AuthOpId
   \<Rightarrow> (SpikeId \<times> SpikeId \<times> 'acc GroupAction) list \<Rightarrow> 'g \<Rightarrow> string + 'g" where
  "process_chain process prev n [] state = Inr state"
| "process_chain process prev n ((author, gid, action) # ops) state =
     and_then (process state
         \<lparr>ao_id = n, ao_author = author, ao_dependencies = prev, ao_group_id = gid, ao_action = action\<rparr>)
       (process_chain process [n] (n + 1) ops)"

lemma add_org_members_chain:
  "and_then (add_org_members process manage org_gid org_manager ms (state, prev, n)) (\<lambda>(g, p, k).
      process_chain process p k ops g)
   = process_chain process prev n
       (map (\<lambda>m. (org_manager, org_gid, GroupAdd (Individual m) manage)) ms @ ops) state"
proof (induction ms arbitrary: state prev n)
  case Nil
  then show ?case by simp
next
  case (Cons m ms)
  then show ?case by (simp add: and_then_assoc)
qed

lemma org_pseudo_group_build_chain:
  "org_pseudo_group_build init_state process manage org_gid org_manager org_members doc_gid doc_manager
     org_access op_id_start =
   and_then (process_chain process [] op_id_start
       (org_group_ops manage org_gid org_manager org_members doc_gid doc_manager org_access) init_state)
     (\<lambda>state. Inr (state, doc_gid))"
proof -
  let ?tail = "[(doc_manager, doc_gid, GroupCreate [(Individual doc_manager, manage)]),
        (doc_manager, doc_gid, GroupAdd (Nested org_gid) org_access)]"
  have "process_chain process [] op_id_start
       (org_group_ops manage org_gid org_manager org_members doc_gid doc_manager org_access) init_state
     = and_then (process init_state
         \<lparr>ao_id = op_id_start, ao_author = org_manager, ao_dependencies = [], ao_group_id = org_gid,
          ao_action = GroupCreate [(Individual org_manager, manage)]\<rparr>) (\<lambda>state.
       and_then (add_org_members process manage org_gid org_manager org_members
         (state, [op_id_start], op_id_start + 1)) (\<lambda>(g, p, k). process_chain process p k ?tail g))"
    by (simp add: org_group_ops_def add_org_members_chain del: process_chain.simps(2))
      (simp add: fun_eq_iff)
  then show ?thesis
    by (simp add: org_pseudo_group_build_def and_then_assoc case_prod_beta')
qed
section \<open>Sessions after a change of the trie\<close>

text \<open>The policy manager over another trie: it owns its resolver and is rebuilt with the rest unchanged.\<close>

definition panda_over :: "(SpikeId list \<Rightarrow> SpikeId list) \<Rightarrow> StubTrie \<Rightarrow> PandaPolicy \<Rightarrow> PandaPolicy" where
  "panda_over it t m = m\<lparr>pp_resolver := stub_resolver it t\<rparr>"

lemma panda_over_simps [simp]:
  "pp_peer_to_member (panda_over it t m) = pp_peer_to_member m"
  "pp_doc_acls (panda_over it t m) = pp_doc_acls m"
  "pp_open_sessions (panda_over it t m) = pp_open_sessions m"
  "pp_resolver (panda_over it t m) = stub_resolver it t"
  by (simp_all add: panda_over_def)

text \<open>
  The rule of the design document for a document shared with a member: the peer must be one of the
  member's current devices.
\<close>

definition flow_e1 :: "Resolver \<Rightarrow> SpikeId \<Rightarrow> VerifyingKey \<Rightarrow> bool" where
  "flow_e1 r i peer =
     (case rs_current_devices r i of Inr devs \<Rightarrow> SpikeDeviceKey peer \<in> set devs | Inl _ \<Rightarrow> False)"

lemma flow_e1_ops:
  "flow_e1 (stub_resolver it (stub_revoke i t)) i peer = False"
  "flow_e1 (stub_resolver it (stub_remove_device i (SpikeDeviceKey peer) t)) i peer = False"
  by (auto simp: flow_e1_def stub_current_devices_def stub_get_ops ok_or_def split: option.splits)

lemma policy_check_over:
  "policy_check (panda_over it t m) p d =
     (case pp_peer_to_member m p of
        None \<Rightarrow> False
      | Some i \<Rightarrow>
          (case pp_doc_acls m d of
             None \<Rightarrow> False
           | Some acl \<Rightarrow> if da_org_wide acl then stub_is_member t i else i \<in> da_member_ids acl))"
  by (simp add: policy_check_def split: option.split)

lemma policy_check_device_removed:
  "policy_check (panda_over it (stub_remove_device i device t) m) = policy_check (panda_over it t m)"
  by (intro ext) (simp add: policy_check_over stub_is_member_ops split: option.split)

lemma recheck_open_session:
  assumes "distinct (map ps_session_id (pp_open_sessions m))" and "s \<in> set (pp_open_sessions m)"
    and "\<not> ps_should_close s"
  shows "\<exists>s'\<in>set (pp_open_sessions (snd (recheck_open_sessions m))).
    ps_session_id s' = ps_session_id s
    \<and> ps_should_close s' = (\<not> policy_check m (ps_remote_peer s) (ps_doc_id s))"
  using assms
  by (auto simp: recheck_open_sessions_exact session_admitted_def intro!: bexI [of _ s])

text \<open>
  C26 (sessions after a revocation). The peer of an open, admitted session loses its place in the trie:
  its member is revoked, or its device is removed from the member. By the rule of the design it is no
  longer authorised. The recheck over the new trie flags the session, and a fresh check refuses the
  peer, exactly if the member left the trie and the document is shared with the whole organisation. A
  document shared with named members never consults the trie, and a removed device never counts.
\<close>

theorem revoked_session_closes_if_org_wide:
  assumes distinct: "distinct (map ps_session_id (pp_open_sessions m))"
    and s: "s \<in> set (pp_open_sessions m)" "\<not> ps_should_close s"
    and peer: "pp_peer_to_member m (ps_remote_peer s) = Some i"
    and admitted: "policy_check (panda_over it t m) (ps_remote_peer s) (ps_doc_id s)"
    and later: "t' = stub_revoke i t \<or> t' = stub_remove_device i (SpikeDeviceKey (ps_remote_peer s)) t"
  shows "\<not> flow_e1 (stub_resolver it t') i (ps_remote_peer s)
    \<and> (\<exists>acl. pp_doc_acls m (ps_doc_id s) = Some acl
        \<and> policy_check (panda_over it t' m) (ps_remote_peer s) (ps_doc_id s)
            = (stub_is_member t' i \<or> \<not> da_org_wide acl)
        \<and> (\<exists>s'\<in>set (pp_open_sessions (snd (recheck_open_sessions (panda_over it t' m)))).
             ps_session_id s' = ps_session_id s
             \<and> ps_should_close s' = (\<not> stub_is_member t' i \<and> da_org_wide acl)))"
proof -
  obtain acl where acl: "pp_doc_acls m (ps_doc_id s) = Some acl"
    and ok: "if da_org_wide acl then stub_is_member t i else i \<in> da_member_ids acl"
    using admitted peer by (auto simp: policy_check_over split: option.splits)
  have check: "policy_check (panda_over it t' m) (ps_remote_peer s) (ps_doc_id s)
      = (stub_is_member t' i \<or> \<not> da_org_wide acl)"
    using acl ok peer by (simp add: policy_check_over split: if_splits)
  moreover have "\<not> flow_e1 (stub_resolver it t') i (ps_remote_peer s)"
    using later flow_e1_ops by auto
  moreover have "\<exists>s'\<in>set (pp_open_sessions (snd (recheck_open_sessions (panda_over it t' m)))).
      ps_session_id s' = ps_session_id s
      \<and> ps_should_close s' = (\<not> stub_is_member t' i \<and> da_org_wide acl)"
    using recheck_open_session [of "panda_over it t' m" s] distinct s check by simp
  ultimately show ?thesis using acl by blast
qed

definition ex_panda_trie :: StubTrie where
  "ex_panda_trie = stub_add_member (SpikeId 1) (SpikeMemberKey (VerifyingKey 7))
     [SpikeDeviceKey (VerifyingKey 7)] stub_new"

definition ex_panda :: PandaPolicy where
  "ex_panda = record_session 4 (VerifyingKey 7) (DocId 2)
     (register_acl (DocId 2) (acl_for_members [SpikeId 1])
       (panda_new (stub_resolver (\<lambda>xs. xs) ex_panda_trie) (\<lambda>p. Some (SpikeId 1))))"

lemma revoked_session_closes_if_org_wide_witness:
  "\<not> flow_e1 (stub_resolver (\<lambda>xs. xs) (stub_revoke (SpikeId 1) ex_panda_trie)) (SpikeId 1) (VerifyingKey 7)
   \<and> policy_check (panda_over (\<lambda>xs. xs) (stub_revoke (SpikeId 1) ex_panda_trie) ex_panda) (VerifyingKey 7) (DocId 2)"
proof -
  let ?s = "\<lparr>ps_session_id = 4, ps_remote_peer = VerifyingKey 7, ps_doc_id = DocId 2, ps_should_close = False\<rparr>"
  have sessions: "pp_open_sessions ex_panda = [?s]" and acls: "pp_doc_acls ex_panda (DocId 2) = Some (acl_for_members [SpikeId 1])"
    and peers: "pp_peer_to_member ex_panda (VerifyingKey 7) = Some (SpikeId 1)"
    by (simp_all add: ex_panda_def record_session_def register_acl_def panda_new_def)
  have "policy_check (panda_over (\<lambda>xs. xs) ex_panda_trie ex_panda) (VerifyingKey 7) (DocId 2)"
    using acls peers by (simp add: policy_check_over acl_for_members_def)
  then show ?thesis
    using revoked_session_closes_if_org_wide [of ex_panda ?s "SpikeId 1" "\<lambda>xs. xs" ex_panda_trie
        "stub_revoke (SpikeId 1) ex_panda_trie"] sessions acls peers
    by (auto simp: acl_for_members_def)
qed

definition stays_open :: "PandaPolicy \<Rightarrow> PandaSession \<Rightarrow> bool" where
  "stays_open m s \<longleftrightarrow> \<not> ps_should_close s \<and> policy_check m (ps_remote_peer s) (ps_doc_id s)"

lemma recheck_session_filters:
  "filter (\<lambda>s. \<not> ps_should_close s) (map (recheck_session m) ss) = filter (stays_open m) ss"
  "map ps_session_id (filter ps_should_close (map (recheck_session m) ss))
     = map ps_session_id (filter (\<lambda>s. \<not> stays_open m s) ss)"
  by (induction ss) (auto simp: recheck_session_def session_admitted_def stays_open_def)

theorem recheck_then_drain_exact:
  assumes distinct: "distinct (map ps_session_id (pp_open_sessions m))"
    and recheck: "recheck_open_sessions m = (n, m1)" and drain: "drain_closed_sessions m1 = (closed, m2)"
  shows "pp_open_sessions m2 = filter (stays_open m) (pp_open_sessions m)
    \<and> map ps_session_id closed = map ps_session_id (filter (\<lambda>s. \<not> stays_open m s) (pp_open_sessions m))
    \<and> n + length (filter ps_should_close (pp_open_sessions m)) = length closed"
proof -
  let ?ss = "pp_open_sessions m"
  have m1: "m1 = m\<lparr>pp_open_sessions := map (recheck_session m) ?ss\<rparr>"
    and n: "n = length (filter (newly_refused m) ?ss)"
    using recheck recheck_open_sessions_exact [OF distinct] by auto
  have closed: "closed = filter ps_should_close (map (recheck_session m) ?ss)"
    and m2: "pp_open_sessions m2 = filter (\<lambda>s. \<not> ps_should_close s) (map (recheck_session m) ?ss)"
    using drain m1 by (auto simp: drain_closed_sessions_exact)
  have "length (filter (newly_refused m) ss) + length (filter ps_should_close ss)
      = length (filter ps_should_close (map (recheck_session m) ss))" for ss
    by (induction ss) (auto simp: newly_refused_def recheck_session_def)
  then show ?thesis using n closed m2 recheck_session_filters by metis
qed

text \<open>
  With a repeated number only the first session of that number is flagged, although both are counted:
  \<^verbatim>\<open>record_session\<close> does not reject it.
\<close>

lemma repeated_session_number_survives:
  "let m = record_session 4 p d (record_session 4 p d (panda_new r (\<lambda>_. None)));
       (n, m1) = recheck_open_sessions m
   in n = 2 \<and> map ps_should_close (pp_open_sessions m1) = [True, False]"
  by (simp add: recheck_open_sessions_def record_session_def panda_new_def policy_check_def Let_def)

end
