(* ===== verification/KeyhiveSpike.thy ===== *)
theory KeyhiveSpike
  imports SpikeTrie Effects "HOL-Library.Sublist"
begin

text \<open>
  The crate \<^verbatim>\<open>spike-keyhive\<close>: the cache of resolved keys (\<^verbatim>\<open>adapter.rs\<close>), published contact cards
  (\<^verbatim>\<open>s1\<close>), granting through the wrapper (\<^verbatim>\<open>s2\<close>), group keys after a rotation (\<^verbatim>\<open>s3\<close>), the organisation
  as a group (\<^verbatim>\<open>s4\<close>) and the connection policy (\<^verbatim>\<open>s5\<close>).

  Keyhive is the record \<open>Kh\<close>: one function per call, on the state of the library. Every lock in the
  crate is taken with \<^verbatim>\<open>unwrap_or_else(|e| e.into_inner())\<close>, which never fails, and released before
  the method returns, so a method is one step on the value behind it. The order of iteration of the
  cache is an argument.
\<close>

section \<open>The cache of keys\<close>

type_synonym IdAdapter = "(SpikeId \<times> VerifyingKey) list"

definition adapter_new :: IdAdapter where
  "adapter_new = []"

definition adapter_resolve :: "Resolver \<Rightarrow> SpikeId \<Rightarrow> IdAdapter \<Rightarrow> VerifyingKey option \<times> IdAdapter" where
  "adapter_resolve r i a =
     (case rs_p2p_member_key r i of
        Inr k \<Rightarrow> (let key = spike_member_vk k in (Some key, AList.update i key a))
      | Inl (UnknownMember _) \<Rightarrow> (None, a)
      | Inl _ \<Rightarrow> (None, a))"

definition resolve_identifier ::
  "(VerifyingKey \<Rightarrow> 'x) \<Rightarrow> Resolver \<Rightarrow> SpikeId \<Rightarrow> IdAdapter \<Rightarrow> 'x option \<times> IdAdapter" where
  "resolve_identifier identifier_from r i a =
     (let (v, a') = adapter_resolve r i a in (map_option identifier_from v, a'))"

definition resolve_individual_id ::
  "(VerifyingKey \<Rightarrow> 'x) \<Rightarrow> Resolver \<Rightarrow> SpikeId \<Rightarrow> IdAdapter \<Rightarrow> 'x option \<times> IdAdapter" where
  "resolve_individual_id individual_id_from r i a =
     (let (v, a') = adapter_resolve r i a in (map_option individual_id_from v, a'))"

definition adapter_invalidate :: "SpikeId \<Rightarrow> IdAdapter \<Rightarrow> IdAdapter" where
  "adapter_invalidate i a = AList.delete i a"

type_synonym CacheOrder = "(SpikeId \<times> VerifyingKey) list \<Rightarrow> (SpikeId \<times> VerifyingKey) list"

definition member_id_for :: "CacheOrder \<Rightarrow> IdAdapter \<Rightarrow> VerifyingKey \<Rightarrow> SpikeId option" where
  "member_id_for it a vk = map_option fst (find (\<lambda>(mid, k). k = vk) (it a))"

definition adapter_len :: "IdAdapter \<Rightarrow> nat" where
  "adapter_len a = length a"

definition adapter_is_empty :: "IdAdapter \<Rightarrow> bool" where
  "adapter_is_empty a = (adapter_len a = 0)"

section \<open>Contact cards\<close>

definition forge_publish :: "SpikeId \<Rightarrow> 'card \<Rightarrow> (SpikeId \<times> 'card) list \<Rightarrow> (SpikeId \<times> 'card) list" where
  "forge_publish i c cards = AList.update i c cards"

definition forge_resolve :: "SpikeId \<Rightarrow> (SpikeId \<times> 'card) list \<Rightarrow> 'card option" where
  "forge_resolve i cards = map_of cards i"

definition forge_len :: "(SpikeId \<times> 'card) list \<Rightarrow> nat" where
  "forge_len cards = length cards"

definition forge_is_empty :: "(SpikeId \<times> 'card) list \<Rightarrow> bool" where
  "forge_is_empty cards = (forge_len cards = 0)"

section \<open>Calls into Keyhive\<close>

datatype ('iid, 'ind, 'gid, 'grp) Agent = AgentIndividual 'iid 'ind | AgentGroup 'gid 'grp
datatype ('did, 'doc, 'gid, 'grp) Membered = MemberedDocument 'did 'doc | MemberedGroup 'gid 'grp

text \<open>\<open>kh_card_id\<close> is \<^verbatim>\<open>ContactCard::id\<close>, \<open>kh_doc_id\<close> and \<open>kh_group_id\<close> read under the value's lock.\<close>

record ('k, 'card, 'iid, 'ind, 'did, 'doc, 'gid, 'grp, 'acc, 'op) Kh =
  kh_card_id :: "'card \<Rightarrow> 'iid"
  kh_receive_contact_card :: "'card \<Rightarrow> ('k, string, 'ind) effect"
  kh_add_member ::
    "('iid, 'ind, 'gid, 'grp) Agent \<Rightarrow> ('did, 'doc, 'gid, 'grp) Membered \<Rightarrow> 'acc \<Rightarrow> ('k, string, unit) effect"
  kh_doc_id :: "'doc \<Rightarrow> 'k \<Rightarrow> 'did"
  kh_group_id :: "'grp \<Rightarrow> 'k \<Rightarrow> 'gid"
  kh_generate_group :: "('k, string, 'grp) effect"
  kh_force_pcs_update :: "'doc \<Rightarrow> ('k, string, 'op) effect"
  kh_edit :: 'acc

datatype GrantError = GrantReceiveCard | GrantAddMember

fun grant_error_display :: "GrantError \<Rightarrow> string" where
  "grant_error_display GrantReceiveCard = ''receive_contact_card failed''"
| "grant_error_display GrantAddMember = ''add_member failed''"

definition grant_member ::
  "('k, 'card, 'iid, 'ind, 'did, 'doc, 'gid, 'grp, 'acc, 'op) Kh \<Rightarrow> 'card \<Rightarrow> 'doc \<Rightarrow> 'acc
   \<Rightarrow> ('k, GrantError, unit) effect" where
  "grant_member K peer_card doc access =
     eff_bind (eff_map_err (\<lambda>_. GrantReceiveCard) (kh_receive_contact_card K peer_card)) (\<lambda>individual.
     let peer_id = kh_card_id K peer_card;
         agent = AgentIndividual peer_id individual in
     eff_bind (eff_gets (kh_doc_id K doc)) (\<lambda>doc_id.
     eff_map_err (\<lambda>_. GrantAddMember) (kh_add_member K agent (MemberedDocument doc_id doc) access)))"

datatype RotateError = MemberNotInTrie SpikeId | PcsUpdate

fun rotate_error_display :: "RotateError \<Rightarrow> string" where
  "rotate_error_display (MemberNotInTrie i) = ''member '' @ spike_id_debug i @ '' not in trie''"
| "rotate_error_display PcsUpdate = ''force_pcs_update failed''"

text \<open>The state is the cache and the library.\<close>

definition rotate_on_trie_change ::
  "('k, 'card, 'iid, 'ind, 'did, 'doc, 'gid, 'grp, 'acc, 'op) Kh \<Rightarrow> Resolver \<Rightarrow> SpikeId \<Rightarrow> 'doc
   \<Rightarrow> (IdAdapter \<times> 'k, RotateError, 'op) effect" where
  "rotate_on_trie_change K r rotating_member doc = (\<lambda>(a, k).
     (let a = adapter_invalidate rotating_member a;
          (new_vk, a) = adapter_resolve r rotating_member a
      in case new_vk of
           None \<Rightarrow> (Inl (MemberNotInTrie rotating_member), (a, k))
         | Some _ \<Rightarrow>
             (let (res, k) = eff_map_err (\<lambda>_. PcsUpdate) (kh_force_pcs_update K doc) k
              in (res, (a, k)))))"

datatype GroupError = GroupGenerate | GroupReceiveCard | GroupAddMember

fun group_error_display :: "GroupError \<Rightarrow> string" where
  "group_error_display GroupGenerate = ''generate_group failed''"
| "group_error_display GroupReceiveCard = ''receive_contact_card failed''"
| "group_error_display GroupAddMember = ''add_member failed''"

definition generate_org_group ::
  "('k, 'card, 'iid, 'ind, 'did, 'doc, 'gid, 'grp, 'acc, 'op) Kh \<Rightarrow> ('k, GroupError, 'grp) effect" where
  "generate_org_group K = eff_map_err (\<lambda>_. GroupGenerate) (kh_generate_group K)"

definition add_member_to_org ::
  "('k, 'card, 'iid, 'ind, 'did, 'doc, 'gid, 'grp, 'acc, 'op) Kh \<Rightarrow> 'grp \<Rightarrow> 'card
   \<Rightarrow> ('k, GroupError, unit) effect" where
  "add_member_to_org K org peer_card =
     eff_bind (eff_map_err (\<lambda>_. GroupReceiveCard) (kh_receive_contact_card K peer_card)) (\<lambda>peer_individual.
     eff_bind (eff_gets (kh_group_id K org)) (\<lambda>org_id.
     let peer_agent = AgentIndividual (kh_card_id K peer_card) peer_individual in
     eff_map_err (\<lambda>_. GroupAddMember) (kh_add_member K peer_agent (MemberedGroup org_id org) (kh_edit K))))"

definition grant_org_to_doc ::
  "('k, 'card, 'iid, 'ind, 'did, 'doc, 'gid, 'grp, 'acc, 'op) Kh \<Rightarrow> 'grp \<Rightarrow> 'doc \<Rightarrow> 'acc
   \<Rightarrow> ('k, GroupError, unit) effect" where
  "grant_org_to_doc K org doc access =
     eff_bind (eff_gets (kh_group_id K org)) (\<lambda>org_id.
     eff_bind (eff_gets (kh_doc_id K doc)) (\<lambda>doc_id.
     eff_map_err (\<lambda>_. GroupAddMember)
       (kh_add_member K (AgentGroup org_id org) (MemberedDocument doc_id doc) access)))"

section \<open>The connection policy\<close>

type_synonym SessionId = u64

datatype SessionState = Open | Flagged

record KhSession =
  ks_peer_vk :: VerifyingKey
  ks_member_id :: "SpikeId option"
  ks_doc_label :: string
  ks_state :: SessionState

datatype KhPolicyError = KhUnknownPeer VerifyingKey | KhUnauthorised SpikeId string

text \<open>\<^verbatim>\<open>Debug\<close> of a key belongs to ed25519-dalek and \<^verbatim>\<open>Debug\<close> of text escapes it: both are arguments.\<close>

fun kh_policy_error_display ::
  "(VerifyingKey \<Rightarrow> string) \<Rightarrow> (string \<Rightarrow> string) \<Rightarrow> KhPolicyError \<Rightarrow> string" where
  "kh_policy_error_display key_debug str_debug (KhUnknownPeer vk) =
     ''peer '' @ key_debug vk @ '' is unknown to the adapter (cold lookup)''"
| "kh_policy_error_display key_debug str_debug (KhUnauthorised i doc) =
     ''member '' @ spike_id_debug i @ '' is not authorised for doc '' @ str_debug doc"

record KhPolicy =
  kp_sessions :: "(SessionId \<times> KhSession) list"
  kp_next_id :: u64

definition kh_policy_new :: KhPolicy where
  "kh_policy_new = \<lparr>kp_sessions = [], kp_next_id = 1\<rparr>"

type_synonym AuthorisedCheck = "Resolver \<Rightarrow> SpikeId \<Rightarrow> bool"

definition authorise_session ::
  "CacheOrder \<Rightarrow> IdAdapter \<Rightarrow> Resolver \<Rightarrow> VerifyingKey \<Rightarrow> string \<Rightarrow> AuthorisedCheck \<Rightarrow> KhPolicy
   \<Rightarrow> (KhPolicyError + SessionId) \<times> KhPolicy" where
  "authorise_session it a r peer_vk doc_label authorised_check p =
     (case member_id_for it a peer_vk of
        None \<Rightarrow> (Inl (KhUnknownPeer peer_vk), p)
      | Some member_id \<Rightarrow>
          if \<not> authorised_check r member_id then (Inl (KhUnauthorised member_id doc_label), p)
          else
            (let sid = kp_next_id p;
                 p = p\<lparr>kp_next_id := kp_next_id p + 1\<rparr>;
                 p = p\<lparr>kp_sessions := AList.update sid
                       \<lparr>ks_peer_vk = peer_vk, ks_member_id = Some member_id, ks_doc_label = doc_label,
                        ks_state = Open\<rparr> (kp_sessions p)\<rparr>
             in (Inr sid, p)))"

text \<open>\<^verbatim>\<open>values_mut()\<close>: every record is treated on its own, so the order does not matter.\<close>

definition recheck_record :: "Resolver \<Rightarrow> AuthorisedCheck \<Rightarrow> KhSession \<Rightarrow> nat \<times> KhSession" where
  "recheck_record r authorised_check s =
     (if ks_state s \<noteq> Open then (0, s)
      else (case ks_member_id s of
              None \<Rightarrow> (0, s)
            | Some member_id \<Rightarrow>
                if \<not> authorised_check r member_id then (1, s\<lparr>ks_state := Flagged\<rparr>) else (0, s)))"

fun recheck_records ::
  "Resolver \<Rightarrow> AuthorisedCheck \<Rightarrow> (SessionId \<times> KhSession) list \<Rightarrow> nat \<Rightarrow> nat \<times> (SessionId \<times> KhSession) list" where
  "recheck_records r authorised_check [] cnt = (cnt, [])"
| "recheck_records r authorised_check ((sid, s) # rest) cnt =
     (let (n, s') = recheck_record r authorised_check s;
          (cnt', rest') = recheck_records r authorised_check rest (cnt + n)
      in (cnt', (sid, s') # rest'))"

definition kh_recheck_open_sessions :: "Resolver \<Rightarrow> AuthorisedCheck \<Rightarrow> KhPolicy \<Rightarrow> nat \<times> KhPolicy" where
  "kh_recheck_open_sessions r authorised_check p =
     (let (cnt, sessions) = recheck_records r authorised_check (kp_sessions p) 0
      in (cnt, p\<lparr>kp_sessions := sessions\<rparr>))"

definition session_state :: "SessionId \<Rightarrow> KhPolicy \<Rightarrow> SessionState option" where
  "session_state sid p = map_option ks_state (map_of (kp_sessions p) sid)"

definition open_session_count :: "KhPolicy \<Rightarrow> nat" where
  "open_session_count p = length (filter (\<lambda>(sid, s). ks_state s = Open) (kp_sessions p))"

section \<open>Association lists\<close>

lemma set_alist_update: "set (AList.update k v al) \<subseteq> insert (k, v) (set al)"
  by (induction al) (auto split: if_splits)

lemma alist_update_fresh: "k \<notin> fst ` set al \<Longrightarrow> AList.update k v al = al @ [(k, v)]"
  by (induction al) auto

lemma set_alist_delete: "set (AList.delete k al) \<subseteq> set al"
  by (auto simp: AList.delete_eq)

section \<open>The cache\<close>

lemma member_id_for_cached: "hash_order it \<Longrightarrow> member_id_for it a vk = Some i \<Longrightarrow> (i, vk) \<in> set a"
  by (auto simp: member_id_for_def find_Some_iff dest!: nth_mem simp: hash_order_set)

lemma member_id_for_cold:
  "hash_order it \<Longrightarrow> member_id_for it a vk = None \<longleftrightarrow> vk \<notin> snd ` set a"
  by (auto simp: member_id_for_def find_None_iff hash_order_set image_iff)

context key_resolver
begin

lemma adapter_resolve_member:
  "rs_p2p_member_key (res t) i = Inr k \<Longrightarrow>
     adapter_resolve (res t) i a = (Some (spike_member_vk k), AList.update i (spike_member_vk k) a)"
  by (simp add: adapter_resolve_def Let_def)

lemma adapter_resolve_stranger: "\<not> rs_is_member (res t) i \<Longrightarrow> adapter_resolve (res t) i a = (None, a)"
  by (simp add: adapter_resolve_def key_of_stranger)

text \<open>
  \<^verbatim>\<open>rotate_on_trie_change\<close> fails for a stranger after it dropped the cached key, and otherwise goes on
  whether or not the key is a new one.
\<close>

lemma rotate_on_trie_change_result:
  "rotate_on_trie_change K (res t) i doc (a, k) =
     (if rs_is_member (res t) i
      then (map_err (\<lambda>_. PcsUpdate) (fst (kh_force_pcs_update K doc k)),
            (snd (adapter_resolve (res t) i (adapter_invalidate i a)), snd (kh_force_pcs_update K doc k)))
      else (Inl (MemberNotInTrie i), (adapter_invalidate i a, k)))"
  using key_of_member [of t i]
  by (auto simp: rotate_on_trie_change_def adapter_resolve_stranger adapter_resolve_member
      eff_map_err_def Let_def split: prod.splits)

end

section \<open>Sessions\<close>

definition record_refused :: "Resolver \<Rightarrow> AuthorisedCheck \<Rightarrow> KhSession \<Rightarrow> bool" where
  "record_refused r chk s \<longleftrightarrow>
     ks_state s = Open \<and> (\<exists>i. ks_member_id s = Some i \<and> \<not> chk r i)"

definition flag_refused :: "Resolver \<Rightarrow> AuthorisedCheck \<Rightarrow> KhSession \<Rightarrow> KhSession" where
  "flag_refused r chk s = (if record_refused r chk s then s\<lparr>ks_state := Flagged\<rparr> else s)"

lemma recheck_record_eq:
  "recheck_record r chk s = (if record_refused r chk s then 1 else 0, flag_refused r chk s)"
  by (auto simp: recheck_record_def record_refused_def flag_refused_def split: option.split)

lemma recheck_records_eq:
  "recheck_records r chk ss n =
     (n + length (filter (\<lambda>(sid, s). record_refused r chk s) ss),
      map (\<lambda>(sid, s). (sid, flag_refused r chk s)) ss)"
  by (induction ss arbitrary: n) (auto simp: recheck_record_eq)

lemma kh_recheck_exact:
  "kh_recheck_open_sessions r chk p =
     (length (filter (\<lambda>(sid, s). record_refused r chk s) (kp_sessions p)),
      p\<lparr>kp_sessions := map (\<lambda>(sid, s). (sid, flag_refused r chk s)) (kp_sessions p)\<rparr>)"
  by (simp add: kh_recheck_open_sessions_def recheck_records_eq)

lemma flag_refused_simps [simp]:
  "ks_peer_vk (flag_refused r chk s) = ks_peer_vk s"
  "ks_member_id (flag_refused r chk s) = ks_member_id s"
  "ks_state (flag_refused r chk s) = Open \<longleftrightarrow> ks_state s = Open \<and> \<not> record_refused r chk s"
  "ks_state s = Flagged \<Longrightarrow> flag_refused r chk s = s"
  by (auto simp: flag_refused_def record_refused_def)

section \<open>Runs\<close>

text \<open>
  What a program does with the cache, the policy and a trie that changes: \<open>OpTrie\<close> is a change of the
  trie, the other operations are calls with the trie as it is then.
\<close>

datatype KhOp =
    OpTrie Step
  | OpResolve SpikeId
  | OpInvalidate SpikeId
  | OpAuthorise VerifyingKey string
  | OpRecheck

type_synonym KhRun = "IdAdapter \<times> KhPolicy \<times> StubTrie"

fun kh_apply ::
  "CacheOrder \<Rightarrow> (StubTrie \<Rightarrow> Resolver) \<Rightarrow> AuthorisedCheck \<Rightarrow> KhOp \<Rightarrow> KhRun \<Rightarrow> KhRun" where
  "kh_apply it res chk (OpTrie s) (a, p, t) = (a, p, stub_step s t)"
| "kh_apply it res chk (OpResolve i) (a, p, t) = (snd (adapter_resolve (res t) i a), p, t)"
| "kh_apply it res chk (OpInvalidate i) (a, p, t) = (adapter_invalidate i a, p, t)"
| "kh_apply it res chk (OpAuthorise vk doc) (a, p, t) =
     (a, snd (authorise_session it a (res t) vk doc chk p), t)"
| "kh_apply it res chk OpRecheck (a, p, t) = (a, snd (kh_recheck_open_sessions (res t) chk p), t)"

definition kh_run ::
  "CacheOrder \<Rightarrow> (StubTrie \<Rightarrow> Resolver) \<Rightarrow> AuthorisedCheck \<Rightarrow> KhOp list \<Rightarrow> KhRun \<Rightarrow> KhRun" where
  "kh_run it res chk ops k = fold (kh_apply it res chk) ops k"

lemma kh_run_append: "kh_run it res chk (ops @ ops') k = kh_run it res chk ops' (kh_run it res chk ops k)"
  by (simp add: kh_run_def)

fun trie_change :: "KhOp \<Rightarrow> StubTrie \<Rightarrow> StubTrie" where
  "trie_change (OpTrie s) t = stub_step s t"
| "trie_change _ t = t"

definition trie_after :: "StubTrie \<Rightarrow> KhOp list \<Rightarrow> StubTrie" where
  "trie_after t ops = fold trie_change ops t"

lemma kh_run_trie: "snd (snd (kh_run it res chk ops (a, p, t))) = trie_after t ops"
proof (induction ops rule: rev_induct)
  case Nil
  then show ?case by (simp add: kh_run_def trie_after_def)
next
  case (snoc op ops)
  obtain a' p' t' where s: "kh_run it res chk ops (a, p, t) = (a', p', t')" by (metis prod_cases3)
  then show ?case
    using snoc by (cases op) (simp_all add: kh_run_append kh_run_def trie_after_def)
qed

text \<open>At some moment of the run the trie gave the key to the member; a session was opened when it had.\<close>

definition had_key :: "StubTrie \<Rightarrow> KhOp list \<Rightarrow> SpikeId \<Rightarrow> VerifyingKey \<Rightarrow> bool" where
  "had_key t ops i vk \<longleftrightarrow>
     (\<exists>pre. prefix pre ops \<and> stub_p2p_member_key (trie_after t pre) i = Inr (SpikeMemberKey vk))"

definition opened_rightly ::
  "(StubTrie \<Rightarrow> Resolver) \<Rightarrow> AuthorisedCheck \<Rightarrow> StubTrie \<Rightarrow> KhOp list \<Rightarrow> KhSession \<Rightarrow> bool" where
  "opened_rightly res chk t ops s \<longleftrightarrow>
     (\<exists>i pre. ks_member_id s = Some i \<and> prefix pre ops \<and> had_key t pre i (ks_peer_vk s)
       \<and> chk (res (trie_after t pre)) i)"

lemma had_key_extend: "had_key t ops i vk \<Longrightarrow> had_key t (ops @ ops') i vk"
  unfolding had_key_def by (meson prefix_prefix)

lemma opened_rightly_extend: "opened_rightly res chk t ops s \<Longrightarrow> opened_rightly res chk t (ops @ ops') s"
  unfolding opened_rightly_def by (meson prefix_prefix)

lemma opened_rightly_flag [simp]:
  "opened_rightly res chk t ops (flag_refused r chk' s) = opened_rightly res chk t ops s"
  by (simp add: opened_rightly_def)

lemma had_key_now: "stub_p2p_member_key (trie_after t ops) i = Inr k \<Longrightarrow> had_key t ops i (spike_member_vk k)"
  by (auto simp: had_key_def)

lemma adapter_resolve_seen:
  assumes "\<forall>(i, vk)\<in>set a. had_key t ops i vk"
  shows "\<forall>(i, vk)\<in>set (snd (adapter_resolve (stub_resolver ord (trie_after t ops)) j a)). had_key t ops i vk"
proof (cases "stub_p2p_member_key (trie_after t ops) j")
  case (Inl e)
  then show ?thesis using assms by (cases e) (auto simp: adapter_resolve_def)
next
  case (Inr k)
  then show ?thesis
    using assms set_alist_update [of j "spike_member_vk k" a] had_key_now [OF Inr]
    by (auto simp: adapter_resolve_def Let_def)
qed

lemma authorise_session_sessions:
  assumes "hash_order it"
  shows "set (kp_sessions (snd (authorise_session it a r vk doc chk p))) \<subseteq> set (kp_sessions p)
    \<union> {(sid, s). \<exists>i. ks_member_id s = Some i \<and> ks_peer_vk s = vk \<and> (i, vk) \<in> set a \<and> chk r i}"
proof (cases "member_id_for it a vk")
  case None
  then show ?thesis by (simp add: authorise_session_def)
next
  case (Some i)
  then have "(i, vk) \<in> set a" by (rule member_id_for_cached [OF assms])
  then show ?thesis
    using Some set_alist_update [of "kp_next_id p"
        "\<lparr>ks_peer_vk = vk, ks_member_id = Some i, ks_doc_label = doc, ks_state = Open\<rparr>" "kp_sessions p"]
    by (auto simp: authorise_session_def Let_def dest!: subsetD)
qed

lemma kh_run_justified:
  assumes it: "hash_order it" and "kh_run it (stub_resolver ord) chk ops (adapter_new, kh_policy_new, t) = (a, p, t')"
  shows "(\<forall>(i, vk)\<in>set a. had_key t ops i vk)
    \<and> (\<forall>(sid, s)\<in>set (kp_sessions p). opened_rightly (stub_resolver ord) chk t ops s)"
  using assms(2)
proof (induction ops arbitrary: a p t' rule: rev_induct)
  case Nil
  then show ?case by (auto simp: kh_run_def adapter_new_def kh_policy_new_def)
next
  case (snoc op ops)
  obtain a1 p1 t1 where before: "kh_run it (stub_resolver ord) chk ops (adapter_new, kh_policy_new, t) = (a1, p1, t1)"
    by (metis prod_cases3)
  have t1: "t1 = trie_after t ops"
    using kh_run_trie [of it "stub_resolver ord" chk ops adapter_new kh_policy_new t] before by simp
  have IH: "\<forall>(i, vk)\<in>set a1. had_key t ops i vk"
    "\<forall>(sid, s)\<in>set (kp_sessions p1). opened_rightly (stub_resolver ord) chk t ops s"
    using snoc.IH [OF before] by auto
  have step: "kh_apply it (stub_resolver ord) chk op (a1, p1, t1) = (a, p, t')"
    using snoc.prems before by (simp add: kh_run_append) (simp add: kh_run_def)
  have "(\<forall>(i, vk)\<in>set a. had_key t ops i vk)
    \<and> (\<forall>(sid, s)\<in>set (kp_sessions p). opened_rightly (stub_resolver ord) chk t ops s)"
  proof (cases op)
    case (OpResolve i)
    then have "a = snd (adapter_resolve (stub_resolver ord (trie_after t ops)) i a1)" and "p = p1"
      using step t1 by auto
    then show ?thesis using adapter_resolve_seen [OF IH(1), of ord i] IH(2) by simp
  next
    case (OpInvalidate i)
    then show ?thesis using step IH set_alist_delete [of i a1] by (auto simp: adapter_invalidate_def)
  next
    case (OpAuthorise vk doc)
    then have p: "p = snd (authorise_session it a1 (stub_resolver ord (trie_after t ops)) vk doc chk p1)"
      and a: "a = a1"
      using step t1 by auto
    have "set (kp_sessions p) \<subseteq> set (kp_sessions p1)
        \<union> {(sid, s). \<exists>i. ks_member_id s = Some i \<and> ks_peer_vk s = vk \<and> (i, vk) \<in> set a1
             \<and> chk (stub_resolver ord (trie_after t ops)) i}"
      unfolding p by (rule authorise_session_sessions [OF it])
    moreover have "opened_rightly (stub_resolver ord) chk t ops s"
      if "ks_member_id s = Some i" "ks_peer_vk s = vk" "(i, vk) \<in> set a1"
        "chk (stub_resolver ord (trie_after t ops)) i" for s i
      using that IH(1) by (auto simp: opened_rightly_def intro!: exI [of _ ops])
    ultimately show ?thesis using IH a by blast
  next
    case OpRecheck
    then have "a = a1" and "kp_sessions p = map (\<lambda>(sid, s). (sid, flag_refused (stub_resolver ord t1) chk s)) (kp_sessions p1)"
      using step by (auto simp: kh_recheck_exact)
    then show ?thesis using IH by fastforce
  qed (use step IH in auto)
  then show ?case
    using had_key_extend [of t ops _ _ "[op]"] opened_rightly_extend [of _ _ t ops _ "[op]"] by blast
qed

section \<open>Session numbers\<close>

text \<open>
  Sessions are never removed and numbers count up from one, so as long as fewer than \<open>2 ^ 64 - 1\<close>
  sessions were opened a new one never replaces another, and a flagged session stays flagged.
\<close>

definition numbered :: "KhPolicy \<Rightarrow> bool" where
  "numbered p \<longleftrightarrow>
     map fst (kp_sessions p) = map of_nat [1..<Suc (length (kp_sessions p))]
     \<and> kp_next_id p = of_nat (Suc (length (kp_sessions p)))"

lemma next_id_fresh:
  assumes "numbered p" and "length (kp_sessions p) < 2 ^ 64 - 1"
  shows "kp_next_id p \<notin> fst ` set (kp_sessions p)"
proof
  assume "kp_next_id p \<in> fst ` set (kp_sessions p)"
  then have "kp_next_id p \<in> set (map of_nat [1..<Suc (length (kp_sessions p))])"
    using assms(1) by (metis list.set_map numbered_def)
  then obtain k where "(of_nat (Suc (length (kp_sessions p))) :: u64) = of_nat k"
      and "k < Suc (length (kp_sessions p))"
    using assms(1) by (auto simp: numbered_def)
  then show False
    using assms(2) by (simp add: word_of_nat_eq_iff take_bit_nat_eq_self del: of_nat_Suc)
qed

lemma authorise_appends:
  assumes "numbered p" and "length (kp_sessions p) < 2 ^ 64 - 1"
  shows "snd (authorise_session it a r vk doc chk p) = p \<or>
    (\<exists>s. ks_state s = Open
      \<and> snd (authorise_session it a r vk doc chk p) =
          \<lparr>kp_sessions = kp_sessions p @ [(kp_next_id p, s)], kp_next_id = kp_next_id p + 1\<rparr>)"
  using alist_update_fresh [OF next_id_fresh [OF assms]]
  by (cases p) (auto simp: authorise_session_def Let_def split: option.split)

lemma authorise_numbered:
  assumes "numbered p" and "length (kp_sessions p) < 2 ^ 64 - 1"
  shows "numbered (snd (authorise_session it a r vk doc chk p))"
  using authorise_appends [OF assms, of it a r vk doc chk] assms(1)
  by (auto simp: numbered_def)

lemma recheck_numbered: "numbered p \<Longrightarrow> numbered (snd (kh_recheck_open_sessions r chk p))"
  by (simp add: numbered_def kh_recheck_exact case_prod_beta' o_def del: upt_Suc)

lemma session_state_recheck:
  "session_state sid (snd (kh_recheck_open_sessions r chk p)) =
     map_option (\<lambda>s. ks_state (flag_refused r chk s)) (map_of (kp_sessions p) sid)"
  by (simp add: session_state_def kh_recheck_exact map_of_map option.map_comp o_def)

lemma kh_apply_flagged:
  assumes "numbered p" and "length (kp_sessions p) < 2 ^ 64 - 1"
    and "kh_apply it res chk op (a, p, t) = (a', p', t')"
  shows "numbered p'" and "length (kp_sessions p') \<le> Suc (length (kp_sessions p))"
    and "session_state sid p = Some Flagged \<Longrightarrow> session_state sid p' = Some Flagged"
proof -
  consider (auth) vk doc where "op = OpAuthorise vk doc" | (recheck) "op = OpRecheck" | (other) "p' = p"
    using assms(3) by (cases op) auto
  then have "numbered p' \<and> length (kp_sessions p') \<le> Suc (length (kp_sessions p))
      \<and> (session_state sid p = Some Flagged \<longrightarrow> session_state sid p' = Some Flagged)"
  proof cases
    case auth
    then have p': "p' = snd (authorise_session it a (res t) vk doc chk p)" using assms(3) by auto
    then show ?thesis
      using authorise_appends [OF assms(1,2), of it a "res t" vk doc chk]
        authorise_numbered [OF assms(1,2), of it a "res t" vk doc chk]
      by (auto simp: session_state_def)
  next
    case recheck
    then have p': "p' = snd (kh_recheck_open_sessions (res t) chk p)" using assms(3) by auto
    have state: "session_state sid p' =
        map_option (\<lambda>s. ks_state (flag_refused (res t) chk s)) (map_of (kp_sessions p) sid)"
      unfolding p' by (rule session_state_recheck)
    have "session_state sid p' = Some Flagged" if "session_state sid p = Some Flagged"
      using that by (auto simp: state) (auto simp: session_state_def)
    then show ?thesis
      using recheck_numbered [OF assms(1), of "res t" chk] p' by (simp add: kh_recheck_exact)
  qed (use assms in auto)
  then show "numbered p'" and "length (kp_sessions p') \<le> Suc (length (kp_sessions p))"
    and "session_state sid p = Some Flagged \<Longrightarrow> session_state sid p' = Some Flagged" by auto
qed

lemma kh_run_flagged:
  assumes "numbered p" and "length (kp_sessions p) + length ops < 2 ^ 64"
    and "kh_run it res chk ops (a, p, t) = (a', p', t')"
  shows "numbered p' \<and> length (kp_sessions p') \<le> length (kp_sessions p) + length ops
    \<and> (session_state sid p = Some Flagged \<longrightarrow> session_state sid p' = Some Flagged)"
  using assms
proof (induction ops arbitrary: a p t)
  case Nil
  then show ?case by (simp add: kh_run_def)
next
  case (Cons op ops)
  obtain a1 p1 t1 where step: "kh_apply it res chk op (a, p, t) = (a1, p1, t1)" by (metis prod_cases3)
  have short: "length (kp_sessions p) < 2 ^ 64 - 1" using Cons.prems(2) by simp
  note one = kh_apply_flagged [OF Cons.prems(1) short step]
  have "kh_run it res chk ops (a1, p1, t1) = (a', p', t')"
    using Cons.prems(3) step by (simp add: kh_run_def)
  from Cons.IH [OF one(1) _ this] one(2,3) Cons.prems(2) show ?case by fastforce
qed

lemma numbered_distinct:
  assumes "numbered p" and "length (kp_sessions p) < 2 ^ 64"
  shows "distinct (map fst (kp_sessions p))"
proof -
  have "inj_on (of_nat :: nat \<Rightarrow> u64) {1..<Suc (length (kp_sessions p))}"
    using assms(2) by (auto intro!: inj_onI simp: word_of_nat_eq_iff take_bit_nat_eq_self)
  then show ?thesis using assms(1) by (simp add: numbered_def distinct_map del: upt_Suc)
qed

text \<open>What a recheck counts.\<close>

lemma recheck_count:
  assumes "kh_recheck_open_sessions r chk p = (n, p')"
  shows "open_session_count p = open_session_count p' + n"
proof -
  have "length (filter (\<lambda>(sid, s). ks_state s = Open) ss) =
      length (filter (\<lambda>(sid, s). ks_state s = Open) (map (\<lambda>(sid, s). (sid, flag_refused r chk s)) ss))
      + length (filter (\<lambda>(sid, s). record_refused r chk s) ss)" for ss
    by (induction ss) (auto simp: record_refused_def)
  then show ?thesis using assms by (auto simp: open_session_count_def kh_recheck_exact)
qed

text \<open>
  C27 (sessions are justified). Whatever sequence of fewer than \<open>2 ^ 64\<close> changes of the trie and calls a
  program makes, every session on record was opened at a moment when the check accepted its member, for
  a key that the trie had given that member at that moment or before; so a peer that was never resolved
  is refused. Session numbers never repeat. A recheck returns the number of sessions it flags and leaves
  open exactly the sessions that were open and whose member the check accepts now: every record stays as
  it was, but for an open one whose member fails, which is flagged.
\<close>

theorem keyhive_sessions_justified:
  assumes "hash_order it" and "length ops < 2 ^ 64"
    and "kh_run it (stub_resolver ord) chk ops (adapter_new, kh_policy_new, t0) = (a, p, t)"
    and "kh_recheck_open_sessions (stub_resolver ord t) chk p = (n, p')"
  shows "(\<forall>(sid, s)\<in>set (kp_sessions p). opened_rightly (stub_resolver ord) chk t0 ops s)
    \<and> distinct (map fst (kp_sessions p))
    \<and> open_session_count p = open_session_count p' + n
    \<and> map fst (kp_sessions p') = map fst (kp_sessions p) \<and> kp_next_id p' = kp_next_id p
    \<and> (\<forall>sid. session_state sid p' = Some Open \<longleftrightarrow>
         (\<exists>s i. map_of (kp_sessions p) sid = Some s \<and> ks_state s = Open \<and> ks_member_id s = Some i
            \<and> chk (stub_resolver ord t) i))
    \<and> (\<forall>sid s. map_of (kp_sessions p) sid = Some s \<longrightarrow>
         map_of (kp_sessions p') sid =
           Some (if ks_state s = Open \<and> (\<forall>i. ks_member_id s = Some i \<longrightarrow> \<not> chk (stub_resolver ord t) i)
                 then s\<lparr>ks_state := Flagged\<rparr> else s))"
proof -
  note just = kh_run_justified [OF assms(1,3), THEN conjunct2]
  have "numbered kh_policy_new" by (simp add: numbered_def kh_policy_new_def)
  from kh_run_flagged [OF this _ assms(3), of 0] assms(2)
  have num: "numbered p" "length (kp_sessions p) \<le> length ops" by (simp_all add: kh_policy_new_def)
  have dist: "distinct (map fst (kp_sessions p))"
    using numbered_distinct [OF num(1)] num(2) assms(2) by simp
  have member: "\<exists>i. ks_member_id s = Some i" if "map_of (kp_sessions p) sid = Some s" for sid s
    using just map_of_SomeD [OF that] by (fastforce simp: opened_rightly_def)
  have p': "p' = snd (kh_recheck_open_sessions (stub_resolver ord t) chk p)" using assms(4) by simp
  have keys: "map fst (kp_sessions p') = map fst (kp_sessions p)" "kp_next_id p' = kp_next_id p"
    by (simp_all add: p' kh_recheck_exact case_prod_beta' o_def)
  have recs: "map_of (kp_sessions p') sid = map_option (flag_refused (stub_resolver ord t) chk) (map_of (kp_sessions p) sid)"
    for sid by (simp add: p' kh_recheck_exact map_of_map)
  have "session_state sid p' = Some Open \<longleftrightarrow>
      (\<exists>s i. map_of (kp_sessions p) sid = Some s \<and> ks_state s = Open \<and> ks_member_id s = Some i
         \<and> chk (stub_resolver ord t) i)" for sid
    using member [of sid] by (auto simp: session_state_def recs record_refused_def)
  moreover have "map_of (kp_sessions p') sid =
      Some (if ks_state s = Open \<and> (\<forall>i. ks_member_id s = Some i \<longrightarrow> \<not> chk (stub_resolver ord t) i)
            then s\<lparr>ks_state := Flagged\<rparr> else s)" if "map_of (kp_sessions p) sid = Some s" for sid s
    using that member [OF that] by (auto simp: recs flag_refused_def record_refused_def)
  ultimately show ?thesis using just dist keys recheck_count [OF assms(4)] by blast
qed

definition ex_kh_seed :: "string \<Rightarrow> SpikeId \<Rightarrow> bytes32 \<Rightarrow> MemberSeed" where
  "ex_kh_seed label i k = \<lparr>sd_label = label, sd_id = i, sd_p2p_key = SpikeMemberKey (VerifyingKey k),
     sd_devices = []\<rparr>"

text \<open>Two members whose peers open a session each, and the revocation of the first.\<close>

definition ex_kh_ops :: "KhOp list" where
  "ex_kh_ops = [OpTrie (AddMember (ex_kh_seed ''alice'' (SpikeId 1) 7)), OpTrie (AddMember (ex_kh_seed ''bob'' (SpikeId 2) 8)),
     OpResolve (SpikeId 1), OpResolve (SpikeId 2), OpAuthorise (VerifyingKey 7) ''doc-1'',
     OpAuthorise (VerifyingKey 8) ''doc-1'', OpTrie (RevokeMember ''alice'' (SpikeId 1))]"

definition ex_kh_session :: "bytes32 \<Rightarrow> SpikeId \<Rightarrow> KhSession" where
  "ex_kh_session k i = \<lparr>ks_peer_vk = VerifyingKey k, ks_member_id = Some i, ks_doc_label = ''doc-1'', ks_state = Open\<rparr>"

definition ex_kh_trie :: StubTrie where
  "ex_kh_trie = snd (snd (kh_run (\<lambda>xs. xs) (stub_resolver (\<lambda>xs. xs)) rs_is_member ex_kh_ops
     (adapter_new, kh_policy_new, stub_new)))"

lemmas ex_kh_defs = ex_kh_ops_def ex_kh_seed_def ex_kh_session_def adapter_new_def kh_policy_new_def
  add_seed_def stub_add_member_def stub_new_def bump_def adapter_resolve_def stub_p2p_member_key_def
  stub_get_def authorise_session_def member_id_for_def stub_is_member_def stub_revoke_def

lemma ex_kh_run:
  "kh_run (\<lambda>xs. xs) (stub_resolver (\<lambda>xs. xs)) rs_is_member ex_kh_ops (adapter_new, kh_policy_new, stub_new)
   = ([(SpikeId 1, VerifyingKey 7), (SpikeId 2, VerifyingKey 8)],
      \<lparr>kp_sessions = [(1, ex_kh_session 7 (SpikeId 1)), (2, ex_kh_session 8 (SpikeId 2))], kp_next_id = 3\<rparr>, ex_kh_trie)"
  unfolding ex_kh_trie_def by (simp add: kh_run_def ex_kh_defs Let_def)

lemma ex_kh_trie_members:
  "stub_is_member ex_kh_trie (SpikeId 1) = False" "stub_is_member ex_kh_trie (SpikeId 2) = True"
  unfolding ex_kh_trie_def by (simp_all add: kh_run_def ex_kh_defs Let_def)

theorem keyhive_sessions_justified_witness:
  "\<exists>n p'. kh_recheck_open_sessions (stub_resolver (\<lambda>xs. xs) ex_kh_trie) rs_is_member
       \<lparr>kp_sessions = [(1, ex_kh_session 7 (SpikeId 1)), (2, ex_kh_session 8 (SpikeId 2))], kp_next_id = 3\<rparr> = (n, p')
     \<and> opened_rightly (stub_resolver (\<lambda>xs. xs)) rs_is_member stub_new ex_kh_ops (ex_kh_session 7 (SpikeId 1))
     \<and> session_state 1 p' = Some Flagged \<and> session_state 2 p' = Some Open"
proof -
  let ?p = "\<lparr>kp_sessions = [(1, ex_kh_session 7 (SpikeId 1)), (2, ex_kh_session 8 (SpikeId 2))], kp_next_id = 3\<rparr>"
  obtain n p' where re: "kh_recheck_open_sessions (stub_resolver (\<lambda>xs. xs) ex_kh_trie) rs_is_member ?p = (n, p')"
    by fastforce
  have "length ex_kh_ops < 2 ^ 64" by (simp add: ex_kh_ops_def)
  note just = keyhive_sessions_justified [OF hash_order_id this ex_kh_run re]
  have one: "map_of (kp_sessions p') 1 = Some (ex_kh_session 7 (SpikeId 1)\<lparr>ks_state := Flagged\<rparr>)"
    using just by (simp add: ex_kh_session_def ex_kh_trie_members)
  moreover have "session_state 2 p' = Some Open"
    using just by (simp add: ex_kh_session_def ex_kh_trie_members)
  moreover have "opened_rightly (stub_resolver (\<lambda>xs. xs)) rs_is_member stub_new ex_kh_ops (ex_kh_session 7 (SpikeId 1))"
    using just by simp
  ultimately show ?thesis using re by (simp add: session_state_def)
qed

section \<open>A rotated key keeps its sessions\<close>

text \<open>
  Rotation is followed by the call the documentation asks for, a new resolution and a recheck of
  membership. A session opened with the old key stays open, as the recheck never looks at
  \<open>ks_peer_vk\<close>.
\<close>

lemma rotated_key_keeps_session:
  assumes "(sid, s) \<in> set (kp_sessions p)" and "ks_member_id s = Some i" and "stub_is_member t i"
    and "kh_run it (stub_resolver ord) rs_is_member
      [OpTrie (RotateMemberKey label i key), OpInvalidate i, OpResolve i, OpRecheck] (a, p, t) = (a', p', t')"
  shows "stub_p2p_member_key t' i = Inr key \<and> (sid, s) \<in> set (kp_sessions p')"
proof -
  have t': "t' = stub_rotate_member_key i key t"
    and p': "p' = snd (kh_recheck_open_sessions (stub_resolver ord t') rs_is_member p)"
    using assms(4) by (auto simp: kh_run_def)
  have "flag_refused (stub_resolver ord t') rs_is_member s = s"
    using assms(2,3) t' by (simp add: flag_refused_def record_refused_def stub_is_member_ops)
  then have "(sid, s) \<in> set (kp_sessions p')"
    using assms(1) p' by (force simp: kh_recheck_exact)
  then show ?thesis
    using assms(3) t' by (auto simp: stub_p2p_member_key_def stub_get_ops stub_is_member_def)
qed

end
