(* ===== verification/Spec2Isabelle.thy ===== *)
theory Spec2Isabelle
  imports OrgMembers Redaction NodeVerify Deliveries Agreement Chain Production App Gap PandaSpike KeyhiveSpike
begin

text \<open>
  A verification library for \<^verbatim>\<open>ds-access-control\<close>, the membership and access-control stack of a
  decentralised organisation.

  \<^bold>\<open>The program.\<close> An organisation is a set of members, each with devices. The crate \<^verbatim>\<open>org-members\<close> keeps
  the members in a sparse Merkle trie, whose root is anchored per organisation and epoch in the
  contract \<^verbatim>\<open>OrgRegistry.sol\<close>; a change of the members is a delta between two roots. The crate
  \<^verbatim>\<open>org-node\<close> is a member's node: it keeps personas and organisations in an encrypted store, submits a
  change to the chain, sends it as a signed envelope over iroh, and verifies what it receives against
  the chain. The crate \<^verbatim>\<open>on-chain-client\<close> reads the contract's slots and follows its events over subxt.
  The desktop application \<^verbatim>\<open>app\<close> puts a node behind commands of a window and a receiver task. Two
  spikes, \<^verbatim>\<open>spike-p2panda\<close> and \<^verbatim>\<open>spike-keyhive\<close>, try how documents can be shared under the trie's
  control; \<^verbatim>\<open>spike-common\<close> holds their stub of the trie and the matrix of their findings.

  \<^bold>\<open>Theories and sources.\<close>
  \<^item> \<open>Prelude\<close>: results, byte arrays as words, encodings of integers, printing, keyed stores as a locale.
    \<open>Effects\<close>: fallible stateful code, and the interface of postcard.
  \<^item> \<^verbatim>\<open>org-members\<close>. \<open>Types\<close>: \<^verbatim>\<open>types.rs\<close>, \<^verbatim>\<open>error.rs\<close>, \<^verbatim>\<open>normalize.rs\<close>, with serde. \<open>Hashing\<close>:
    \<^verbatim>\<open>hasher.rs\<close>, \<^verbatim>\<open>device_trie.rs\<close>. \<open>Smt\<close>: \<^verbatim>\<open>node.rs\<close>, \<^verbatim>\<open>smt.rs\<close>. \<open>Trie\<close>: \<^verbatim>\<open>trie.rs\<close>, \<^verbatim>\<open>delta.rs\<close>.
    \<open>Membership\<close> is the abstract map of members and the refinement of the trie to it; \<open>DeltaSync\<close> is the
    canonical form of deltas, their application and production; \<open>OrgMembers\<close> has the crate's theorems.
    \<open>Redaction\<close>: the \<^verbatim>\<open>Debug\<close> output, which holds no personal data.
  \<^item> \<^verbatim>\<open>org-node\<close>, receiving. \<open>Envelope\<close>: \<^verbatim>\<open>ids.rs\<close>, \<^verbatim>\<open>error.rs\<close>, \<^verbatim>\<open>keys.rs\<close>, \<^verbatim>\<open>chain.rs\<close>,
    \<^verbatim>\<open>sequence.rs\<close>, \<^verbatim>\<open>envelope.rs\<close>, \<^verbatim>\<open>verify.rs\<close>. \<open>NodeVerify\<close>: its theorems, and a receiver over time.
  \<^item> \<^verbatim>\<open>org-node\<close>, the service. \<open>Transport\<close>: \<^verbatim>\<open>transport/\<close>, \<^verbatim>\<open>blobs.rs\<close>. \<open>Store\<close>: \<^verbatim>\<open>store.rs\<close>. \<open>Service\<close>:
    the user stories of \<^verbatim>\<open>service.rs\<close> with the mock chain. \<open>Rebuild\<close>: tries rebuilt from stored
    snapshots. \<open>Ledger\<close>: the stories of an administrator over the interface of the chain. \<open>Receive\<close> and
    \<open>Joining\<close>: the stories of a receiver, and a change meeting its receiver. \<open>Stories\<close> and \<open>Deliveries\<close>:
    the theorems of the service, with a concrete service as their instance. \<open>Moves\<close>: what a story
    does to chain and records whatever its result. \<open>Worlds\<close>: many services over one chain, with the
    specification they are simulated by, a log of memberships. \<open>Agreement\<close>: the theorems on worlds.
  \<^item> The chain. \<open>Decode\<close>: \<^verbatim>\<open>types.rs\<close>, \<^verbatim>\<open>state.rs\<close>, \<^verbatim>\<open>h160.rs\<close>, \<^verbatim>\<open>decode/\<close> of \<^verbatim>\<open>on-chain-client\<close>.
    \<open>Registry\<close>: \<^verbatim>\<open>OrgRegistry.sol\<close>. \<open>ChainClient\<close>: \<^verbatim>\<open>client.rs\<close>. \<open>ChainWrite\<close>: \<^verbatim>\<open>chain_write/\<close>,
    \<^verbatim>\<open>ceremony.rs\<close>, \<^verbatim>\<open>chain_read.rs\<close> and \<^verbatim>\<open>SubxtChainOps\<close> of \<^verbatim>\<open>service.rs\<close>. \<open>Chain\<close>: the theorems.
    \<open>Production\<close>: the stories of an administrator over \<^verbatim>\<open>SubxtChainOps\<close>.
  \<^item> \<^verbatim>\<open>app\<close>. \<open>Startup\<close>: \<^verbatim>\<open>state.rs\<close>, \<^verbatim>\<open>lib.rs\<close>. \<open>Commands\<close>: \<^verbatim>\<open>commands.rs\<close>. \<open>Receiver\<close>: commands and
    the receiver task as a step relation, with what each step touches. \<open>App\<close>: the theorems.
  \<^item> The spikes. \<open>SpikeTrie\<close>: \<^verbatim>\<open>identity.rs\<close>, \<^verbatim>\<open>resolver.rs\<close>, \<^verbatim>\<open>stub_trie.rs\<close>, \<^verbatim>\<open>scenarios.rs\<close> of
    \<^verbatim>\<open>spike-common\<close>. \<open>Gap\<close>: its \<^verbatim>\<open>report.rs\<close> and \<^verbatim>\<open>gap-update.rs\<close>. \<open>PandaSpike\<close>: \<^verbatim>\<open>s1\<close> to \<^verbatim>\<open>s5\<close> of
    \<^verbatim>\<open>spike-p2panda\<close>. \<open>KeyhiveSpike\<close>: \<^verbatim>\<open>adapter.rs\<close> and \<^verbatim>\<open>s1\<close> to \<^verbatim>\<open>s5\<close> of \<^verbatim>\<open>spike-keyhive\<close>. Each ends with
    its theorems.

  \<^bold>\<open>Conventions.\<close> A definition has the name of the function or type it models. \<^verbatim>\<open>Result\<close> is a sum, an
  async method or one on \<^verbatim>\<open>&mut self\<close> is an effect on an explicit state, \<^verbatim>\<open>[u8; 32]\<close> is a \<open>256 word\<close>
  read big-endian, \<^verbatim>\<open>u64\<close> a \<open>64 word\<close> whose addition wraps around as in a release build; \<^verbatim>\<open>usize\<close> is a
  natural number with the checks the source makes; in \<^verbatim>\<open>app\<close> a panic is an outcome too. Third-party code is an argument, collected in
  records (\<open>Unicode\<close>, \<open>TrieHasher\<close>, \<open>Ed25519\<close>, \<open>Crypto\<close>, \<open>Base64\<close>, \<open>Codec\<close>, \<open>Iroh\<close>, \<open>Subxt\<close>, \<open>TxApi\<close>,
  \<open>ScaleDecode\<close>, \<open>Hex\<close>, \<open>Boot\<close>, \<open>Json\<close>, \<open>Dcgka\<close>, \<open>Kh\<close>); what is documented of it and relied on is a named hypothesis. No hash is assumed to
  be injective: where a conclusion rests on that, the exception is a concrete collision between two
  hash queries.

  \<^bold>\<open>Interfaces.\<close> \<open>keyed_store\<close> (the sparse tree as the store of the batch operations), \<open>monotone_guard\<close>
  (sequence and epoch guards of a receiver), \<open>chain_ledger\<close> (what the service relies on of
  \<^verbatim>\<open>ChainOps\<close>, with the mock chain as instance; \<open>founding_ledger\<close> extends it by what a refused genesis
  leaves behind) and \<open>key_resolver\<close> (the documented contract of
  \<^verbatim>\<open>MemberKeyResolver\<close>, with the stub trie as instance) are locales, interpreted where the model
  provides them.
  The production \<^verbatim>\<open>ChainOps\<close> is no \<open>chain_ledger\<close>: its update reports success without confirmation.

  \<^bold>\<open>What is shown.\<close>
  \<^item> The trie: an invariant of the reachable tries; every operation refines the abstract map, error for
    error; the cached sparse tree computes the root of the dense tree of depth 256; a root binds the
    members; an accepted delta yields exactly its target, is unique, and an honest one is accepted
    unless it hands a handle over.
  \<^item> The receiver: what a committed envelope proves, that committed sequence numbers and epochs only
    grow, and that an honest envelope commits.
  \<^item> The service: founding, admission and revocation keep a record in step with the chain; a joiner
    commits its admission, a revoked device drops the organisation; and where the program does not do
    what it means to: after a failed delivery (over the mock chain) or a missed change a device stays
    locked out.
  \<^item> The composition of nodes: whatever the network delivers and whichever stories fail, the world of
    nodes refines a log of memberships per organisation, which only a holder of its key extends; a record
    at an epoch holds the membership of that epoch, every member was admitted, nodes agree, and none is
    ahead of the chain, also across restarts from stores left behind. Fewer than 2^64 stories are assumed,
    so that epochs do not wrap around, and that a founding gets an unused identifier; a story is atomic
    (\<open>Worlds\<close> says why).
  \<^item> The chain: the client reads back what the contract stored, its events round-trip, the best lane
    leaves out no height and reports reorganisations, settling terminates, and the mock chain covers the
    contract. The writing path is shown on a node that runs the contract (\<open>runs_contract\<close>): it seals a
    block per extrinsic, dispatches a proxied call only for a proxy of the multisig, maps an account only
    when it is funded, and lets only a mapped one call the contract. There the genesis ceremony takes a
    new proxy through these steps and anchors the organisation, an update reports success whatever
    happens to it, and an admission leaves the record in step if the proxy is ready and the contract
    accepts the update.
  \<^item> The application: what a start configures, that without a chain it changes no organisation, that at
    most one receiver runs; and where the program does not do what it means to: the receiver keeps the
    service to itself while it waits, a joiner is never admitted, and its join request has no address.
  \<^item> The spikes: which sessions a recheck closes and which it leaves open although the design withdraws
    the authorisation; that every session on record was opened for a key its member had; that keys are
    those of the trie now; that the matrix is a map from row keys whose burden saturates, and that a run
    of \<^verbatim>\<open>gap-update\<close> stores what it renders or, if it fails early, leaves the files.

  \<^bold>\<open>Bounds and loops.\<close> Recursion is structural or has a measure; there is no fuel. Loops over the tree
  descend to the fixed depth 256; \<open>settle_loop\<close> is measured by the time left to its deadline, since
  each poll sleeps for two seconds. A subscription is an inductive step relation, as it need not end.

  \<^bold>\<open>Not modelled.\<close> The Quint models, tests and the fixtures of tests, the window of the application,
  the type plumbing with which the spikes satisfy the traits of third-party libraries, lock poisoning
  in \<^verbatim>\<open>app\<close>, memory zeroization, and await points, across which the source holds exclusive access: the
  one place where that is visible, the lock of the receiver task, is modelled.
\<close>

end
